(* ===== verification/Mkx_Prelude.thy ===== *)
theory Mkx_Prelude
  imports Main "HOL-Library.Word"
begin

text \<open>
  Shared vocabulary of the development.

  \<^item> Machine integers.  The code computes with \<open>int\<close> (32 bit), \<open>uint32_t\<close>,
    \<open>size_t\<close> and \<open>uint64_t\<close> (64 bit).  Fields and variables hold unbounded
    \<open>int\<close>s and every conversion of the source that can change a value is written out
    with \<open>to_i32\<close>, \<open>to_u32\<close>, \<open>to_u64\<close>.
  \<^item> Memory.  A malloc'ed region is a function from offsets to bytes, \<open>mread\<close> and
    \<open>mwrite\<close> are the ranges \<open>memcpy\<close> reads and writes.  Bounds are checked by the
    operations that access the region.
  \<^item> Outcomes.  \<open>'a run\<close> is the outcome of code that may fail an \<open>assert\<close>,
    access memory it must not, or not return: \<open>None\<close> is divergence, \<open>Inl\<close> a
    fault, \<open>Inr\<close> a value.
  \<^item> Encodings.  \<open>le_bytes\<close>/\<open>le_val\<close> lay an integer out in memory (little endian),
    \<open>be_bytes\<close>/\<open>be_val\<close> on the wire (\<open>htonl\<close>, \<open>ntohl\<close>).
\<close>

named_theorems cint_simps "conversions between machine integers"
named_theorems mem_simps "reading and writing memory regions"
named_theorems run_simps "sequencing of outcomes"

section \<open>Machine integers\<close>

definition to_u32 :: "int \<Rightarrow> int" where
  "to_u32 x = x mod 2 ^ 32"

definition to_u64 :: "int \<Rightarrow> int" where
  "to_u64 x = x mod 2 ^ 64"

definition to_i64 :: "int \<Rightarrow> int" where
  "to_i64 x = (x + 2 ^ 63) mod 2 ^ 64 - 2 ^ 63"

definition to_i32 :: "int \<Rightarrow> int" where
  "to_i32 x = (x + 2 ^ 31) mod 2 ^ 32 - 2 ^ 31"

lemma to_u32_id [cint_simps]: "0 \<le> x \<Longrightarrow> x < 2 ^ 32 \<Longrightarrow> to_u32 x = x"
  by (simp add: to_u32_def)

lemma to_u64_id [cint_simps]: "0 \<le> x \<Longrightarrow> x < 2 ^ 64 \<Longrightarrow> to_u64 x = x"
  by (simp add: to_u64_def)

lemma to_i32_id [cint_simps]: "- (2 ^ 31) \<le> x \<Longrightarrow> x < 2 ^ 31 \<Longrightarrow> to_i32 x = x"
  by (simp add: to_i32_def)

lemma to_i64_id [cint_simps]: "- (2 ^ 63) \<le> x \<Longrightarrow> x < 2 ^ 63 \<Longrightarrow> to_i64 x = x"
  by (simp add: to_i64_def)

lemma to_u64_to_i64 [cint_simps]: "0 \<le> x \<Longrightarrow> x < 2 ^ 64 \<Longrightarrow> to_u64 (to_i64 x) = x"
  unfolding to_i64_def to_u64_def by (simp only: mod_diff_left_eq) simp

lemma to_0 [simp]: "to_u32 0 = 0" "to_u64 0 = 0" "to_i32 0 = 0" "to_i64 0 = 0"
  by (simp_all add: to_u32_def to_u64_def to_i32_def to_i64_def)

lemma to_i32_mod [simp]: "- (2 ^ 31) \<le> x \<Longrightarrow> x < 2 ^ 31 \<Longrightarrow> to_i32 (x mod 2 ^ 32) = x"
  unfolding to_i32_def by (simp only: mod_add_left_eq) simp

lemma to_i32_bounds: "- (2 ^ 31) \<le> to_i32 x" "to_i32 x < 2 ^ 31"
  using pos_mod_bound [of "2 ^ 32" "x + 2 ^ 31"] by (simp_all add: to_i32_def)

lemma to_u32_bounds: "0 \<le> to_u32 x" "to_u32 x < 2 ^ 32"
  by (simp_all add: to_u32_def)

lemma to_u64_bounds: "0 \<le> to_u64 x" "to_u64 x < 2 ^ 64"
  by (simp_all add: to_u64_def)

lemma to_i32_to_u64 [cint_simps]: "to_i32 (to_u64 x) = to_i32 x"
proof -
  have "(x mod 2 ^ 64 + 2 ^ 31) mod 2 ^ 32 = ((x mod 2 ^ 64) mod 2 ^ 32 + 2 ^ 31) mod 2 ^ 32"
    by (simp only: mod_add_left_eq)
  also have "(x mod 2 ^ 64) mod 2 ^ 32 = (x mod 2 ^ 32 :: int)"
    by (rule mod_mod_cancel) simp
  also have "(x mod 2 ^ 32 + 2 ^ 31) mod 2 ^ 32 = (x + 2 ^ 31) mod (2 ^ 32 :: int)"
    by (simp only: mod_add_left_eq)
  finally show ?thesis by (simp add: to_i32_def to_u64_def)
qed

section \<open>Outcomes\<close>

datatype fault =
    Assert_failed
  | Null_pointer
  | Dangling_pointer
  | Out_of_bounds

type_synonym 'a run = "(fault + 'a) option"

definition ret :: "'a \<Rightarrow> 'a run" where
  "ret x = Some (Inr x)"

definition fail :: "fault \<Rightarrow> 'a run" where
  "fail e = Some (Inl e)"

definition rbind :: "'a run \<Rightarrow> ('a \<Rightarrow> 'b run) \<Rightarrow> 'b run" where
  "rbind m f = Option.bind m (\<lambda>r. case r of Inl e \<Rightarrow> Some (Inl e) | Inr x \<Rightarrow> f x)"

definition assert_that :: "bool \<Rightarrow> unit run" where
  "assert_that b = (if b then ret () else fail Assert_failed)"

lemma rbind_ret [simp, run_simps]: "rbind (ret x) f = f x"
  by (simp add: rbind_def ret_def)

lemma rbind_fail [simp, run_simps]: "rbind (fail e) f = fail e"
  by (simp add: rbind_def fail_def)

lemma rbind_None [simp, run_simps]: "rbind None f = None"
  by (simp add: rbind_def)

lemma ret_inject [simp]: "ret x = ret y \<longleftrightarrow> x = y"
  by (simp add: ret_def)

lemma fail_inject [simp]: "fail x = fail y \<longleftrightarrow> x = y"
  by (simp add: fail_def)

lemma ret_fail_distinct [simp]:
  "ret x \<noteq> fail e" "fail e \<noteq> ret x" "ret x \<noteq> None" "None \<noteq> ret x" "fail e \<noteq> None" "None \<noteq> fail e"
  by (simp_all add: ret_def fail_def)

lemma assert_that_simps [simp, run_simps]:
  "assert_that True = ret ()" "assert_that False = fail Assert_failed"
  by (simp_all add: assert_that_def)

lemma run_cases [case_names diverges fails returns]:
  obtains "m = None" | e where "m = fail e" | x where "m = ret x"
proof (cases m)
  case (Some r)
  then show ?thesis by (cases r) (auto simp: ret_def fail_def intro: that)
qed (auto intro: that)

lemma rbind_ret_right: "rbind r (\<lambda>x. ret x) = r"
  by (cases r rule: run_cases) simp_all

lemma rbind_eq_ret: "rbind m f = ret y \<longleftrightarrow> (\<exists>x. m = ret x \<and> f x = ret y)"
  by (cases m rule: run_cases) auto

lemma rbind_assoc: "rbind (rbind m f) g = rbind m (\<lambda>x. rbind (f x) g)"
  by (cases m rule: run_cases) auto

lemma rbind_mono [partial_function_mono]:
  assumes "mono_option m" and "\<And>x. mono_option (\<lambda>F. f x F)"
  shows "mono_option (\<lambda>F. rbind (m F) (\<lambda>x. f x F))"
proof -
  have "mono_option (\<lambda>F. case r of Inl e \<Rightarrow> Some (Inl e) | Inr x \<Rightarrow> f x F)" for r
    by (cases r) (simp_all add: assms(2) option.const_mono)
  then show ?thesis
    unfolding rbind_def by (intro bind_mono assms(1))
qed

section \<open>Memory regions\<close>

type_synonym byte = "8 word"
type_synonym region = "int \<Rightarrow> byte"

definition mread :: "region \<Rightarrow> int \<Rightarrow> int \<Rightarrow> byte list" where
  "mread f off n = map (\<lambda>k. f (off + int k)) [0..<nat n]"

definition mwrite :: "region \<Rightarrow> int \<Rightarrow> byte list \<Rightarrow> region" where
  "mwrite f off xs =
     (\<lambda>i. if off \<le> i \<and> i < off + int (length xs) then xs ! nat (i - off) else f i)"

lemma length_mread [simp, mem_simps]: "length (mread f off n) = nat n"
  by (simp add: mread_def)

lemma nth_mread: "k < nat n \<Longrightarrow> mread f off n ! k = f (off + int k)"
  by (simp add: mread_def)

lemma mread_nonpos [simp, mem_simps]: "n \<le> 0 \<Longrightarrow> mread f off n = []"
  by (simp add: mread_def)

lemma mwrite_Nil [simp, mem_simps]: "mwrite f off [] = f"
  by (rule ext) (auto simp: mwrite_def)

lemma mread_mwrite_same [mem_simps]:
  "n = int (length xs) \<Longrightarrow> mread (mwrite f off xs) off n = xs"
  by (rule nth_equalityI) (simp_all add: nth_mread mwrite_def)

lemma mread_mwrite_disjoint [mem_simps]:
  "off + n \<le> off' \<or> off' + int (length xs) \<le> off \<Longrightarrow>
     mread (mwrite f off' xs) off n = mread f off n"
  by (rule nth_equalityI) (auto simp: nth_mread mwrite_def)

lemma mread_append:
  "0 \<le> a \<Longrightarrow> 0 \<le> b \<Longrightarrow> mread f off (a + b) = mread f off a @ mread f (off + a) b"
  by (rule nth_equalityI)
    (auto simp: nth_append nth_mread nat_add_distrib of_nat_diff algebra_simps)

lemma take_mread [mem_simps]: "take (nat k) (mread f off n) = mread f off (min k n)"
  by (rule nth_equalityI) (auto simp: nth_mread min_def split: if_splits)

lemma drop_mread [mem_simps]:
  "0 \<le> k \<Longrightarrow> drop (nat k) (mread f off n) = mread f (off + k) (n - k)"
  by (rule nth_equalityI) (auto simp: nth_mread nat_diff_distrib add.assoc)

lemma mwrite_append [mem_simps]:
  "off' = off + int (length xs) \<Longrightarrow> mwrite (mwrite f off xs) off' ys = mwrite f off (xs @ ys)"
proof (rule ext)
  fix x
  assume off: "off' = off + int (length xs)"
  have "nat (x - (off + int (length xs))) = nat (x - off) - length xs" by linarith
  then show "mwrite (mwrite f off xs) off' ys x = mwrite f off (xs @ ys) x"
    using off by (auto simp: mwrite_def nth_append)
qed

section \<open>Integer encodings\<close>

fun le_bytes :: "nat \<Rightarrow> int \<Rightarrow> byte list" where
  "le_bytes 0 x = []"
| "le_bytes (Suc n) x = word_of_int x # le_bytes n (x div 256)"

fun le_val :: "byte list \<Rightarrow> int" where
  "le_val [] = 0"
| "le_val (b # bs) = uint b + 256 * le_val bs"

definition be_bytes :: "nat \<Rightarrow> int \<Rightarrow> byte list" where
  "be_bytes n x = rev (le_bytes n x)"

definition be_val :: "byte list \<Rightarrow> int" where
  "be_val bs = le_val (rev bs)"

lemma length_le_bytes [simp]: "length (le_bytes n x) = n"
  by (induction n arbitrary: x) auto

lemma length_be_bytes [simp]: "length (be_bytes n x) = n"
  by (simp add: be_bytes_def)

lemma le_val_le_bytes [simp]: "le_val (le_bytes n x) = x mod 256 ^ n"
proof (induction n arbitrary: x)
  case 0
  then show ?case by simp
next
  case (Suc n)
  have "x mod (256 * 256 ^ n) = 256 * (x div 256 mod 256 ^ n) + x mod 256"
    by (rule zmod_zmult2_eq) simp
  with Suc show ?case by (simp add: uint_word_of_int)
qed

lemma be_val_be_bytes [simp]: "be_val (be_bytes n x) = x mod 256 ^ n"
  by (simp add: be_val_def be_bytes_def)

lemma le_val_bounds: "0 \<le> le_val bs" "le_val bs < 256 ^ length bs"
proof -
  have "0 \<le> le_val bs \<and> le_val bs < 256 ^ length bs"
  proof (induction bs)
    case (Cons b bs)
    have "0 \<le> uint b" "uint b < 256"
      using uint_bounded [of b] by simp_all
    with Cons show ?case by simp
  qed simp
  then show "0 \<le> le_val bs" "le_val bs < 256 ^ length bs" by simp_all
qed

lemma be_val_bounds: "0 \<le> be_val bs" "be_val bs < 256 ^ length bs"
  using le_val_bounds [of "rev bs"] by (simp_all add: be_val_def)

end
