(* ===== verification/Buffer_Mgr.thy ===== *)
theory Buffer_Mgr
  imports Mkx_Prelude
begin

text \<open>
  \<open>BufferBlockMgr\<close> (framework/BlockBuffer.cc): the process-wide pool of buffer blocks.

  Blocks live in an explicit store, addressed by natural numbers, because every
  \<open>BlockBuffer\<close> shares the static \<open>blockMgr\<close> and a block moves between a
  buffer's chain and the pool.  A block's \<open>malloc\<close>ed bytes are a region of which the
  first \<open>bk_rlen\<close> offsets may be accessed.  Fresh memory holds whatever \<open>st_junk\<close>
  says: no lemma depends on it.  \<open>malloc\<close> is taken to succeed.
\<close>

type_synonym addr = nat

record buffer_block =
  bk_buf :: region
  bk_len :: int
  bk_rlen :: int
  bk_rdpos :: int
  bk_wrpos :: int
  bk_next :: "addr option"

record block_store =
  st_mem :: "addr \<Rightarrow> buffer_block option"
  st_brk :: addr
  st_pool :: "int \<Rightarrow> addr list"
  st_junk :: "addr \<Rightarrow> region"

section \<open>Access through pointers\<close>

definition load :: "block_store \<Rightarrow> addr option \<Rightarrow> buffer_block run" where
  "load s p =
     (case p of
        None \<Rightarrow> fail Null_pointer
      | Some a \<Rightarrow>
         (case st_mem s a of
            None \<Rightarrow> fail Dangling_pointer
          | Some b \<Rightarrow> ret b))"

definition put :: "block_store \<Rightarrow> addr \<Rightarrow> buffer_block \<Rightarrow> block_store" where
  "put s a b = s\<lparr>st_mem := (st_mem s)(a \<mapsto> b)\<rparr>"

definition modify :: "block_store \<Rightarrow> addr option \<Rightarrow> (buffer_block \<Rightarrow> buffer_block) \<Rightarrow> block_store run"
  where
  "modify s p f =
     (case p of
        None \<Rightarrow> fail Null_pointer
      | Some a \<Rightarrow>
         (case st_mem s a of
            None \<Rightarrow> fail Dangling_pointer
          | Some b \<Rightarrow> ret (put s a (f b))))"

definition block_read :: "buffer_block \<Rightarrow> int \<Rightarrow> int \<Rightarrow> byte list run" where
  "block_read b off n =
     (if 0 \<le> off \<and> 0 \<le> n \<and> off + n \<le> bk_rlen b then ret (mread (bk_buf b) off n)
      else fail Out_of_bounds)"

definition block_write :: "buffer_block \<Rightarrow> int \<Rightarrow> byte list \<Rightarrow> buffer_block run" where
  "block_write b off xs =
     (if 0 \<le> off \<and> off + int (length xs) \<le> bk_rlen b
      then ret (b\<lparr>bk_buf := mwrite (bk_buf b) off xs\<rparr>)
      else fail Out_of_bounds)"

section \<open>The pool\<close>

definition MIN_BLOCK_SIZE :: int where "MIN_BLOCK_SIZE = 512"
definition MID_BLOCK_SIZE :: int where "MID_BLOCK_SIZE = 1024"
definition MOVE_BLOCK_SIZE :: int where "MOVE_BLOCK_SIZE = 2048"
definition COPY_BLOCK_SIZE :: int where "COPY_BLOCK_SIZE = 4096"

definition allocNew :: "block_store \<Rightarrow> int \<Rightarrow> block_store \<times> addr" where
  "allocNew s sz =
     (let a = st_brk s;
          b = \<lparr>bk_buf = st_junk s a, bk_len = to_i32 sz, bk_rlen = to_i32 sz,
               bk_rdpos = 0, bk_wrpos = 0, bk_next = None\<rparr>
      in ((put s a b)\<lparr>st_brk := Suc a\<rparr>, a))"

text \<open>
  The doubling loop of \<open>Alloc\<close> on a 64-bit \<open>size_t\<close>: beyond \<open>2 ^ 63\<close> the shift
  wraps to 0 and the loop never ends, hence the option.
\<close>

partial_function (option) alloc_len :: "int \<Rightarrow> int \<Rightarrow> int option" where
  "alloc_len alloclen sz =
     (if alloclen < sz then alloc_len (to_u64 (alloclen * 2)) sz else Some alloclen)"

definition Alloc :: "block_store \<Rightarrow> int \<Rightarrow> (block_store \<times> addr) run" where
  "Alloc s sz =
     (case alloc_len MIN_BLOCK_SIZE sz of
        None \<Rightarrow> None
      | Some n \<Rightarrow>
         (case st_pool s n of
            a # rest \<Rightarrow> ret (s\<lparr>st_pool := (st_pool s)(n := rest)\<rparr>, a)
          | [] \<Rightarrow> ret (allocNew s n)))"

definition recycled :: "buffer_block \<Rightarrow> buffer_block" where
  "recycled b = b\<lparr>bk_rdpos := 0, bk_wrpos := 0, bk_next := None, bk_len := bk_rlen b\<rparr>"

definition Recycle :: "block_store \<Rightarrow> addr option \<Rightarrow> block_store run" where
  "Recycle s p =
     rbind (load s p) (\<lambda>b.
       rbind (modify s p recycled) (\<lambda>s1.
         let k = to_u64 (bk_rlen b)
         in ret (s1\<lparr>st_pool := (st_pool s1)(k := st_pool s1 k @ [the p])\<rparr>)))"

section \<open>How much \<open>Alloc\<close> hands out\<close>

text \<open>The loop, started at a power of two, stops at the least power of two that is enough.\<close>

lemma alloc_len_pow2:
  assumes "sz \<le> 2 ^ 63" "k \<le> 63"
  shows "\<exists>j. alloc_len (2 ^ k) sz = Some (2 ^ j) \<and> k \<le> j \<and> j \<le> 63 \<and> sz \<le> 2 ^ j \<and>
             (\<forall>i. k \<le> i \<longrightarrow> sz \<le> 2 ^ i \<longrightarrow> j \<le> i)"
  using assms(2)
proof (induction "63 - k" arbitrary: k)
  case 0
  then have "k = 63" by simp
  with assms(1) show ?case
    by (intro exI [of _ 63]) (auto simp: alloc_len.simps)
next
  case (Suc m)
  show ?case
  proof (cases "(2::int) ^ k < sz")
    case False
    then show ?thesis using Suc.prems by (auto simp: alloc_len.simps)
  next
    case True
    have k: "Suc k \<le> 63" and m: "m = 63 - Suc k" using Suc.hyps(2) by simp_all
    have "(2::int) ^ Suc k < 2 ^ 64" using k by (intro power_strict_increasing) simp_all
    then have "to_u64 (2 ^ k * 2) = 2 ^ Suc k"
      by (intro trans [OF to_u64_id]) (simp_all add: mult.commute)
    with True have step: "alloc_len (2 ^ k) sz = alloc_len (2 ^ Suc k) sz"
      by (subst alloc_len.simps) simp
    obtain j where j: "alloc_len (2 ^ Suc k) sz = Some (2 ^ j)" "Suc k \<le> j" "j \<le> 63"
      "sz \<le> 2 ^ j" "\<And>i. Suc k \<le> i \<Longrightarrow> sz \<le> 2 ^ i \<Longrightarrow> j \<le> i"
      using Suc.hyps(1) [OF m k] by blast
    have "j \<le> i" if "k \<le> i" "sz \<le> 2 ^ i" for i
      using that True j(5) [of i] by (cases "i = k") auto
    with j step show ?thesis by (intro exI [of _ j]) auto
  qed
qed

text \<open>Beyond \<open>2 ^ 63\<close> the doubling wraps to 0 and stays there.\<close>

lemma alloc_len_diverges:
  assumes "2 ^ 63 < sz" "k \<le> 63"
  shows "alloc_len (2 ^ k) sz = None"
proof (rule ccontr)
  assume "alloc_len (2 ^ k) sz \<noteq> None"
  then obtain r where r: "alloc_len (2 ^ k) sz = Some r" by blast
  have "\<not> (n = sz \<and> (a = 0 \<or> (\<exists>k \<le> 63. a = 2 ^ k)))" if "alloc_len a n = Some r" for a n r
  proof (rule alloc_len.raw_induct
      [where P = "\<lambda>a n r. \<not> (n = sz \<and> (a = 0 \<or> (\<exists>k \<le> 63. a = 2 ^ k)))", OF _ that])
    fix f a n r
    assume IH: "\<And>a n r. f a n = Some r \<Longrightarrow> \<not> (n = sz \<and> (a = 0 \<or> (\<exists>k \<le> 63. a = 2 ^ k)))"
      and eq: "(if a < n then f (to_u64 (a * 2)) n else Some a) = Some r"
    show "\<not> (n = sz \<and> (a = 0 \<or> (\<exists>k \<le> 63. a = 2 ^ k)))"
    proof
      assume h: "n = sz \<and> (a = 0 \<or> (\<exists>k \<le> 63. a = 2 ^ k))"
      then have "a \<le> 2 ^ 63" using power_increasing [of _ 63 "2::int"] by auto
      with eq h assms(1) have "f (to_u64 (a * 2)) n = Some r" by simp
      moreover have "to_u64 (a * 2) = 0 \<or> (\<exists>k \<le> 63. to_u64 (a * 2) = 2 ^ k)"
      proof (cases "a = 0 \<or> a = 2 ^ 63")
        case True
        then show ?thesis by (auto simp: to_u64_def)
      next
        case False
        then obtain j where j: "a = 2 ^ j" "j \<le> 63" using h by auto
        with False have "j \<noteq> 63" by auto
        with j have "Suc j \<le> 63" by simp
        moreover have "(2::int) ^ Suc j < 2 ^ 64" using \<open>Suc j \<le> 63\<close> by (intro power_strict_increasing) simp_all
        ultimately show ?thesis using j(1) by (intro disjI2 exI [of _ "Suc j"]) (simp add: to_u64_def)
      qed
      ultimately show False using IH h by blast
    qed
  qed
  from this [OF r] assms(2) show False by blast
qed

lemma alloc_len_enough:
  assumes "sz \<le> 2 ^ 30"
  shows "\<exists>n. alloc_len MIN_BLOCK_SIZE sz = Some n \<and> sz \<le> n \<and> 512 \<le> n \<and> n \<le> 2 ^ 30"
proof -
  have "sz \<le> 2 ^ 63" using assms by simp
  then obtain j where j: "alloc_len (2 ^ 9) sz = Some (2 ^ j)" "9 \<le> j" "sz \<le> 2 ^ j"
    "\<And>i. 9 \<le> i \<Longrightarrow> sz \<le> 2 ^ i \<Longrightarrow> j \<le> i"
    using alloc_len_pow2 [of sz 9] by auto
  have "j \<le> 30" using j(4) [of 30] assms by simp
  then have "(2::int) ^ j \<le> 2 ^ 30" by (intro power_increasing) simp_all
  moreover have "(2::int) ^ 9 \<le> 2 ^ j" using j(2) by (intro power_increasing) simp_all
  ultimately show ?thesis using j by (simp add: MIN_BLOCK_SIZE_def)
qed

section \<open>The store's invariant\<close>

definition pooled :: "block_store \<Rightarrow> addr set" where
  "pooled s = (\<Union>n. set (st_pool s n))"

definition idle :: "buffer_block \<Rightarrow> bool" where
  "idle b \<longleftrightarrow> bk_rdpos b = 0 \<and> bk_wrpos b = 0 \<and> bk_len b = bk_rlen b \<and> bk_next b = None"

definition sized :: "buffer_block \<Rightarrow> bool" where
  "sized b \<longleftrightarrow> 512 \<le> bk_rlen b \<and> bk_rlen b \<le> 2 ^ 30"

definition store_ok :: "block_store \<Rightarrow> bool" where
  "store_ok s \<longleftrightarrow>
     (\<forall>a b. st_mem s a = Some b \<longrightarrow> a < st_brk s) \<and>
     (\<forall>n. distinct (st_pool s n)) \<and>
     (\<forall>n. \<forall>a \<in> set (st_pool s n). \<exists>b. st_mem s a = Some b \<and> bk_rlen b = n \<and> idle b \<and> sized b)"

text \<open>
  What an operation leaves alone: a live block outside \<open>A\<close> keeps its contents and stays
  out of the pool.  This is what lets buffers share the pool.
\<close>

definition unchanged_outside :: "addr set \<Rightarrow> block_store \<Rightarrow> block_store \<Rightarrow> bool" where
  "unchanged_outside A s t \<longleftrightarrow>
     (\<forall>a b. a \<notin> A \<longrightarrow> a \<notin> pooled s \<longrightarrow> st_mem s a = Some b \<longrightarrow>
            st_mem t a = Some b \<and> a \<notin> pooled t)"

lemma unchanged_outside_refl [simp]: "unchanged_outside A s s"
  by (simp add: unchanged_outside_def)

lemma unchanged_outside_trans:
  "unchanged_outside A s t \<Longrightarrow> unchanged_outside A t u \<Longrightarrow> unchanged_outside A s u"
  unfolding unchanged_outside_def by blast

lemma unchanged_outside_mono:
  "unchanged_outside A s t \<Longrightarrow> A \<subseteq> B \<Longrightarrow> unchanged_outside B s t"
  unfolding unchanged_outside_def by blast

lemma load_Some [simp]: "st_mem s a = Some b \<Longrightarrow> load s (Some a) = ret b"
  by (simp add: load_def)

lemma modify_Some [simp]: "st_mem s a = Some b \<Longrightarrow> modify s (Some a) f = ret (put s a (f b))"
  by (simp add: modify_def)

lemma put_simps [simp]:
  "st_mem (put s a b) = (st_mem s)(a \<mapsto> b)"
  "st_brk (put s a b) = st_brk s"
  "st_pool (put s a b) = st_pool s"
  "st_junk (put s a b) = st_junk s"
  by (simp_all add: put_def)

lemma pooled_put [simp]: "pooled (put s a b) = pooled s"
  by (simp add: pooled_def)

lemma pooled_mem:
  assumes "store_ok s" "a \<in> pooled s"
  obtains b where "st_mem s a = Some b" "idle b" "sized b"
  using assms unfolding store_ok_def pooled_def by blast

lemma store_ok_put:
  assumes "store_ok s" "a \<notin> pooled s" "st_mem s a = Some b"
  shows "store_ok (put s a c)"
  using assms unfolding store_ok_def pooled_def by (auto simp: fun_upd_apply)

lemma unchanged_put:
  assumes "a \<in> A"
  shows "unchanged_outside A s (put s a c)"
  using assms unfolding unchanged_outside_def by auto

section \<open>Allocation and recycling keep the invariant\<close>

lemma Alloc_ok:
  assumes ok: "store_ok s" and sz: "sz \<le> 2 ^ 30"
  obtains s1 a b where
    "Alloc s sz = ret (s1, a)" "store_ok s1" "st_mem s1 a = Some b" "idle b" "sized b"
    "sz \<le> bk_rlen b" "a \<notin> pooled s1" "a \<in> pooled s \<or> st_mem s a = None"
    "unchanged_outside {} s s1" "\<And>x. x \<noteq> a \<Longrightarrow> st_mem s1 x = st_mem s x" "pooled s1 = pooled s - {a}"
proof -
  obtain n where n: "alloc_len MIN_BLOCK_SIZE sz = Some n" "sz \<le> n" "512 \<le> n" "n \<le> 2 ^ 30"
    using alloc_len_enough [OF sz] by blast
  show ?thesis
  proof (cases "st_pool s n")
    case Nil
    let ?a = "st_brk s"
    define s1 where "s1 = fst (allocNew s n)"
    have free: "st_mem s ?a = None"
      using ok unfolding store_ok_def by (cases "st_mem s ?a") auto
    have notin: "?a \<notin> pooled s"
      using pooled_mem [OF ok, of ?a] free by auto
    have s1: "Alloc s sz = ret (s1, ?a)" "pooled s1 = pooled s" "st_pool s1 = st_pool s"
      "\<And>x. x \<noteq> ?a \<Longrightarrow> st_mem s1 x = st_mem s x"
      by (simp_all add: Alloc_def n Nil s1_def allocNew_def Let_def pooled_def)
    obtain b where b: "st_mem s1 ?a = Some b" "idle b" "sized b" "bk_rlen b = n"
      using n by (simp add: s1_def allocNew_def Let_def idle_def sized_def cint_simps)
    have "store_ok s1"
      using ok free s1(3) unfolding store_ok_def
      by (auto simp: s1_def allocNew_def Let_def less_Suc_eq split: if_splits)
        (metis option.distinct(1))+
    moreover have "unchanged_outside {} s s1"
      using free s1 unfolding unchanged_outside_def by (metis option.distinct(1))
    ultimately show ?thesis
      using that [of s1 ?a b] s1 b n free notin by simp
  next
    case (Cons a rest)
    define s1 where "s1 = s\<lparr>st_pool := (st_pool s)(n := rest)\<rparr>"
    have s1: "Alloc s sz = ret (s1, a)" "st_mem s1 = st_mem s"
      by (simp_all add: Alloc_def n Cons s1_def)
    obtain b where b: "st_mem s a = Some b" "bk_rlen b = n" "idle b" "sized b"
      using ok Cons unfolding store_ok_def by (metis list.set_intros(1))
    have dist: "distinct (a # rest)" using ok Cons unfolding store_ok_def by metis
    have other: "a \<notin> set (st_pool s m)" if "m \<noteq> n" for m
    proof
      assume "a \<in> set (st_pool s m)"
      then obtain c where "st_mem s a = Some c" "bk_rlen c = m"
        using ok unfolding store_ok_def by blast
      with b that show False by simp
    qed
    have "x \<in> set (st_pool s1 m) \<longleftrightarrow> x \<in> set (st_pool s m) \<and> x \<noteq> a" for x m
      using dist other [of m] Cons by (cases "m = n") (auto simp: s1_def)
    then have pool: "pooled s1 = pooled s - {a}"
      unfolding pooled_def by blast
    have "store_ok s1"
      using ok dist Cons unfolding store_ok_def s1_def
      by (auto simp: fun_upd_apply)
    moreover have "unchanged_outside {} s s1"
      using s1(2) pool unfolding unchanged_outside_def by simp
    moreover have "a \<in> pooled s" using Cons by (auto simp: pooled_def intro: exI [of _ n])
    ultimately show ?thesis
      using that [of s1 a b] s1 b n pool by simp
  qed
qed

lemma Recycle_ok:
  assumes ok: "store_ok s" and b: "st_mem s a = Some b" "sized b" and a: "a \<notin> pooled s"
  obtains s1 where "Recycle s (Some a) = ret s1" "store_ok s1" "pooled s1 = insert a (pooled s)"
    "unchanged_outside {a} s s1" "\<And>x. x \<noteq> a \<Longrightarrow> st_mem s1 x = st_mem s x"
proof -
  define n where "n = bk_rlen b"
  define s1 where
    "s1 = (put s a (recycled b))\<lparr>st_pool := (st_pool s)(n := st_pool s n @ [a])\<rparr>"
  have key: "to_u64 (bk_rlen b) = n"
    using b(2) by (simp add: n_def sized_def cint_simps)
  have s1: "Recycle s (Some a) = ret s1" "\<And>x. x \<noteq> a \<Longrightarrow> st_mem s1 x = st_mem s x"
    by (simp_all add: Recycle_def b key Let_def s1_def)
  have pool: "pooled s1 = insert a (pooled s)"
    by (auto simp: pooled_def s1_def split: if_splits)
  have r: "idle (recycled b)" "sized (recycled b)" "bk_rlen (recycled b) = n"
    using b by (simp_all add: recycled_def idle_def sized_def n_def)
  have "\<exists>c. st_mem s1 x = Some c \<and> bk_rlen c = m \<and> idle c \<and> sized c"
    if "x \<in> set (st_pool s1 m)" for x m
  proof (cases "x = a")
    case True
    have "a \<notin> set (st_pool s m)" using a by (auto simp: pooled_def)
    then have "m = n" using True that by (auto simp: s1_def split: if_splits)
    then show ?thesis using True r by (simp add: s1_def)
  next
    case False
    then have "x \<in> set (st_pool s m)" using that by (auto simp: s1_def split: if_splits)
    then show ?thesis using ok s1(2) [OF False] unfolding store_ok_def by simp
  qed
  moreover have "distinct (st_pool s1 m)" for m
    using ok a unfolding store_ok_def by (auto simp: s1_def pooled_def)
  moreover have "x < st_brk s1" if "st_mem s1 x = Some c" for x c
    using ok b that unfolding store_ok_def by (auto simp: s1_def split: if_splits)
  ultimately have "store_ok s1" unfolding store_ok_def by blast
  moreover have "unchanged_outside {a} s s1"
    using pool s1(2) unfolding unchanged_outside_def by auto
  ultimately show ?thesis using that s1 pool by blast
qed

end
