(* ===== verification/Block_Buffer.thy ===== *)
theory Block_Buffer
  imports Buffer_Mgr
begin

text \<open>
  \<open>BlockBuffer\<close> (framework/BlockBuffer.cc): a byte queue kept in a linked chain of
  blocks.  This theory holds the object's state and its operations; the theories
  \<open>Block_Buffer_Inv\<close> and \<open>Block_Buffer_Spec\<close> hold what they keep and compute.

  A pointer into a block is a pair of the block's address and an offset.  Loops follow
  \<open>bk_next\<close> pointers of the store, so they are partial functions: nothing but the
  invariant says that a chain ends.
\<close>

record block_buffer =
  bb_head :: "addr option"
  bb_tail :: "addr option"
  bb_totallen :: int

type_synonym pointer = "addr \<times> int"

definition new_BlockBuffer :: block_buffer where
  "new_BlockBuffer = \<lparr>bb_head = None, bb_tail = None, bb_totallen = 0\<rparr>"

text \<open>\<open>memcpy\<close> to the start of a caller's array.\<close>

definition memcpy_to :: "byte list \<Rightarrow> byte list \<Rightarrow> byte list run" where
  "memcpy_to dest xs =
     (if length xs \<le> length dest then ret (xs @ drop (length xs) dest) else fail Out_of_bounds)"

section \<open>Insert\<close>

text \<open>
  In the first branch the code falls through to the test of the new block in the same
  iteration; the recursive call makes that test next.
\<close>

partial_function (option) insert_loop ::
  "block_store \<Rightarrow> block_buffer \<Rightarrow> addr option \<Rightarrow> byte list \<Rightarrow> (block_store \<times> block_buffer) run"
where
  "insert_loop s q bpos data =
     (case bpos of
        None \<Rightarrow>
          rbind (Alloc s (int (length data))) (\<lambda>sa.
            rbind (modify (fst sa) (bb_tail q) (\<lambda>t. t\<lparr>bk_next := Some (snd sa)\<rparr>)) (\<lambda>s1.
              insert_loop s1 (q\<lparr>bb_tail := Some (snd sa)\<rparr>) (Some (snd sa)) data))
      | Some p \<Rightarrow>
          rbind (load s bpos) (\<lambda>b.
            if bk_wrpos b \<ge> bk_len b then insert_loop s q (bk_next b) data
            else
              (let bleft = to_u64 (bk_len b - bk_wrpos b)
               in if bleft \<ge> int (length data)
                  then rbind (block_write b (bk_wrpos b) data) (\<lambda>b1.
                         ret (put s p (b1\<lparr>bk_wrpos := to_i32 (bk_wrpos b + int (length data))\<rparr>), q))
                  else rbind (block_write b (bk_wrpos b) (take (nat bleft) data)) (\<lambda>b1.
                         insert_loop (put s p (b1\<lparr>bk_wrpos := bk_len b\<rparr>)) q (bk_next b)
                           (drop (nat bleft) data)))))"

definition Insert ::
  "block_store \<Rightarrow> block_buffer \<Rightarrow> byte list \<Rightarrow> (block_store \<times> block_buffer) run" where
  "Insert s q data =
     rbind
       (if bb_head q = None
        then rbind (Alloc s (int (length data))) (\<lambda>sa.
               ret (fst sa, q\<lparr>bb_head := Some (snd sa), bb_tail := Some (snd sa)\<rparr>))
        else ret (s, q))
       (\<lambda>sq. rbind (insert_loop (fst sq) (snd sq) (bb_tail (snd sq)) data) (\<lambda>sq1.
          ret (fst sq1,
               (snd sq1)\<lparr>bb_totallen := to_i32 (bb_totallen (snd sq1) + int (length data))\<rparr>)))"

section \<open>Copy\<close>

partial_function (option) copy_loop ::
  "block_store \<Rightarrow> addr option \<Rightarrow> byte list \<Rightarrow> int \<Rightarrow> int \<Rightarrow> (byte list \<times> int) run"
where
  "copy_loop s bpos dest len copy_len =
     (case bpos of
        None \<Rightarrow> ret (dest, copy_len)
      | Some p \<Rightarrow>
          rbind (load s bpos) (\<lambda>b.
            let canread = to_u64 (bk_wrpos b - bk_rdpos b)
            in if len < canread
               then rbind (block_read b (bk_rdpos b) len) (\<lambda>xs.
                      rbind (memcpy_to dest xs) (\<lambda>d. ret (d, copy_len + len)))
               else rbind
                      (if canread > 0
                       then rbind (block_read b (bk_rdpos b) canread) (\<lambda>xs.
                              rbind (memcpy_to dest xs) (\<lambda>d. ret (d, len - canread, copy_len + canread)))
                       else ret (dest, len, copy_len))
                      (\<lambda>(d, l, c).
                         if bk_wrpos b \<ge> bk_len b then copy_loop s (bk_next b) d l c
                         else ret (d, c))))"

definition Copy :: "block_store \<Rightarrow> block_buffer \<Rightarrow> byte list \<Rightarrow> int \<Rightarrow> (byte list \<times> int) run" where
  "Copy s q dest len =
     (if bb_head q = None then ret (dest, 0) else copy_loop s (bb_head q) dest len 0)"

section \<open>Move\<close>

text \<open>The destination is \<open>None\<close> for a null \<open>data\<close> pointer: the bytes are dropped.\<close>

definition move_out :: "byte list option \<Rightarrow> byte list \<Rightarrow> byte list option run" where
  "move_out dest xs =
     (case dest of
        None \<Rightarrow> ret None
      | Some d \<Rightarrow> rbind (memcpy_to d xs) (\<lambda>d1. ret (Some d1)))"

partial_function (option) move_loop ::
  "block_store \<Rightarrow> block_buffer \<Rightarrow> addr option \<Rightarrow> byte list option \<Rightarrow> int \<Rightarrow> int \<Rightarrow>
     (block_store \<times> block_buffer \<times> addr option \<times> byte list option \<times> int) run"
where
  "move_loop s q bpos dest len move_len =
     (case bpos of
        None \<Rightarrow> ret (s, q, bpos, dest, move_len)
      | Some p \<Rightarrow>
          if len > 0 then
            rbind (load s bpos) (\<lambda>b.
              let canread = to_u64 (bk_wrpos b - bk_rdpos b)
              in if len < canread
                 then rbind (block_read b (bk_rdpos b) len) (\<lambda>xs.
                        rbind (move_out dest xs) (\<lambda>d.
                          ret (put s p (b\<lparr>bk_rdpos := to_i32 (bk_rdpos b + len)\<rparr>), q, bpos, d,
                               move_len + len)))
                 else rbind
                        (if canread > 0
                         then rbind (block_read b (bk_rdpos b) canread) (\<lambda>xs.
                                rbind (move_out dest xs) (\<lambda>d.
                                  ret (put s p (b\<lparr>bk_rdpos := bk_wrpos b\<rparr>), d, len - canread,
                                       move_len + canread)))
                         else ret (s, dest, len, move_len))
                        (\<lambda>(s1, d, l, m).
                           if bk_wrpos b \<ge> bk_len b \<and> bk_next b \<noteq> None
                           then rbind (Recycle s1 bpos) (\<lambda>s2.
                                  move_loop s2 (q\<lparr>bb_head := bk_next b\<rparr>) (bk_next b) d l m)
                           else ret (s1, q, bpos, d, m)))
          else ret (s, q, bpos, dest, move_len))"

text \<open>What follows the loop: an exhausted last block is reset or given back.\<close>

definition move_finish ::
  "block_store \<Rightarrow> block_buffer \<Rightarrow> addr option \<Rightarrow> (block_store \<times> block_buffer) run" where
  "move_finish s q bpos =
     (case bpos of
        None \<Rightarrow> ret (s, q)
      | Some p \<Rightarrow>
          rbind (load s bpos) (\<lambda>b.
            if bk_rdpos b = bk_wrpos b
            then if bk_len b \<le> MID_BLOCK_SIZE
                 then ret (put s p (b\<lparr>bk_rdpos := 0, bk_wrpos := 0, bk_len := bk_rlen b\<rparr>), q)
                 else (let hd' = (if bb_head q = bpos then bk_next b else bb_head q);
                           tl' = (if hd' = None then None else bb_tail q)
                       in rbind (Recycle s bpos) (\<lambda>s1.
                            ret (s1, q\<lparr>bb_head := hd', bb_tail := tl'\<rparr>)))
            else ret (s, q)))"

definition Move ::
  "block_store \<Rightarrow> block_buffer \<Rightarrow> byte list option \<Rightarrow> int \<Rightarrow>
     (block_store \<times> block_buffer \<times> byte list option \<times> int) run" where
  "Move s q dest len =
     (if bb_head q = None then ret (s, q, dest, 0)
      else rbind (move_loop s q (bb_head q) dest len 0) (\<lambda>(s1, q1, bpos, d, move_len).
             rbind (move_finish s1 q1 bpos) (\<lambda>(s2, q2).
               ret (s2, q2\<lparr>bb_totallen := to_i32 (bb_totallen q2 - move_len)\<rparr>, d, move_len))))"

section \<open>Lengths\<close>

partial_function (option) total_loop :: "block_store \<Rightarrow> addr option \<Rightarrow> int \<Rightarrow> int run" where
  "total_loop s bpos len =
     (case bpos of
        None \<Rightarrow> ret len
      | Some p \<Rightarrow>
          rbind (load s bpos) (\<lambda>b.
            let ulen = to_u64 (bk_wrpos b - bk_rdpos b); len1 = to_i32 (len + ulen)
            in if bk_wrpos b \<ge> bk_len b then total_loop s (bk_next b) len1 else ret len1))"

definition GetTotalLen :: "block_store \<Rightarrow> block_buffer \<Rightarrow> int run" where
  "GetTotalLen s q =
     rbind (total_loop s (bb_head q) 0) (\<lambda>len.
       rbind (assert_that (len = bb_totallen q)) (\<lambda>_. ret (to_u64 (bb_totallen q))))"

definition GetLeftLen :: "block_store \<Rightarrow> block_buffer \<Rightarrow> int run" where
  "GetLeftLen s q =
     (if bb_tail q = None then ret 0
      else rbind (load s (bb_tail q)) (\<lambda>b.
             ret (if bk_wrpos b < bk_len b then to_u64 (bk_len b - bk_wrpos b) else 0)))"

section \<open>Writing in place\<close>

text \<open>
  The search for the predecessor of \<open>dst\<close> does not advance \<open>block\<close>: where the head is
  not the predecessor, the recursive call is on the same arguments.
\<close>

partial_function (option) replace_walk ::
  "block_store \<Rightarrow> block_buffer \<Rightarrow> addr option \<Rightarrow> addr \<Rightarrow> addr \<Rightarrow> (block_store \<times> block_buffer) run"
where
  "replace_walk s q block dst src =
     (case block of
        None \<Rightarrow> ret (s, q)
      | Some p \<Rightarrow>
          rbind (load s block) (\<lambda>b.
            if bk_next b = Some dst
            then rbind (modify s block (\<lambda>b. b\<lparr>bk_next := Some src\<rparr>)) (\<lambda>s1.
                   rbind (load s1 (Some dst)) (\<lambda>d.
                     rbind (modify s1 (Some src) (\<lambda>n. n\<lparr>bk_next := bk_next d\<rparr>)) (\<lambda>s2.
                       rbind (Recycle s2 (Some dst)) (\<lambda>s3.
                         ret (s3, q\<lparr>bb_tail := (if bb_tail q = Some dst then Some src
                                                else bb_tail q)\<rparr>)))))
            else replace_walk s q block dst src))"

definition replaceBlock ::
  "block_store \<Rightarrow> block_buffer \<Rightarrow> addr \<Rightarrow> addr \<Rightarrow> (block_store \<times> block_buffer) run" where
  "replaceBlock s q dst src =
     rbind (load s (Some dst)) (\<lambda>d.
       rbind (load s (Some src)) (\<lambda>n.
         rbind (assert_that (bk_wrpos d - bk_rdpos d \<le> bk_len n)) (\<lambda>_.
           rbind (block_read d (bk_rdpos d) (to_u64 (bk_wrpos d - bk_rdpos d))) (\<lambda>xs.
             rbind (block_write n 0 xs) (\<lambda>n1.
               let s1 = put s src (n1\<lparr>bk_wrpos := bk_wrpos d - bk_rdpos d\<rparr>)
               in if bb_head q = Some dst
                  then rbind (modify s1 (Some src) (\<lambda>n. n\<lparr>bk_next := bk_next d\<rparr>)) (\<lambda>s2.
                         rbind (Recycle s2 (Some dst)) (\<lambda>s3.
                           ret (s3, q\<lparr>bb_head := Some src,
                                      bb_tail := (if bb_tail q = Some dst then Some src
                                                  else bb_tail q)\<rparr>)))
                  else replace_walk s1 q (bb_head q) dst src)))))"

definition expand ::
  "block_store \<Rightarrow> block_buffer \<Rightarrow> int \<Rightarrow> (block_store \<times> block_buffer) run" where
  "expand s q len =
     (case bb_tail q of
        None \<Rightarrow>
          rbind (Alloc s len) (\<lambda>(s1, a).
            ret (s1, q\<lparr>bb_head := Some a, bb_tail := Some a\<rparr>))
      | Some t \<Rightarrow>
          rbind (load s (Some t)) (\<lambda>b.
            let freelen = bk_len b - bk_wrpos b + bk_rdpos b; usedlen = bk_wrpos b - bk_rdpos b
            in if freelen \<ge> to_i32 len \<and> usedlen \<le> MOVE_BLOCK_SIZE
               then rbind (block_read b (bk_rdpos b) (to_u64 usedlen)) (\<lambda>xs.
                      rbind (block_write b 0 xs) (\<lambda>b1.
                        ret (put s t (b1\<lparr>bk_rdpos := 0, bk_wrpos := usedlen\<rparr>), q)))
               else if usedlen < COPY_BLOCK_SIZE
               then rbind (Alloc s (to_u64 (usedlen + len))) (\<lambda>(s1, a). replaceBlock s1 q t a)
               else
                 (let s1 = put s t (b\<lparr>bk_len := bk_wrpos b\<rparr>)
                  in rbind (Alloc s1 len) (\<lambda>(s2, a).
                       rbind (modify s2 (Some t) (\<lambda>b. b\<lparr>bk_next := Some a\<rparr>)) (\<lambda>s3.
                         ret (s3, q\<lparr>bb_tail := Some a\<rparr>))))))"

text \<open>\<open>expand\<close> always returns 0, so \<open>GetBufferToWrite\<close> never returns a null pointer.\<close>

definition GetBufferToWrite ::
  "block_store \<Rightarrow> block_buffer \<Rightarrow> int \<Rightarrow> (block_store \<times> block_buffer \<times> pointer) run" where
  "GetBufferToWrite s q needlen =
     rbind
       (case bb_tail q of
          None \<Rightarrow> ret None
        | Some t \<Rightarrow>
            rbind (load s (Some t)) (\<lambda>b.
              ret (if bk_len b - bk_wrpos b \<ge> needlen then Some (t, bk_wrpos b) else None)))
       (\<lambda>here. case here of
          Some ptr \<Rightarrow> ret (s, q, ptr)
        | None \<Rightarrow>
            rbind (expand s q (to_u64 needlen)) (\<lambda>(s1, q1).
              rbind (load s1 (bb_tail q1)) (\<lambda>b.
                ret (s1, q1, the (bb_tail q1), bk_wrpos b))))"

text \<open>What a caller does with the pointer it got (\<open>recv\<close> into the buffer).\<close>

definition store_bytes :: "block_store \<Rightarrow> pointer \<Rightarrow> byte list \<Rightarrow> block_store run" where
  "store_bytes s ptr xs =
     rbind (load s (Some (fst ptr))) (\<lambda>b.
       rbind (block_write b (snd ptr) xs) (\<lambda>b1. ret (put s (fst ptr) b1)))"

definition FinishBufferWrite ::
  "block_store \<Rightarrow> block_buffer \<Rightarrow> int \<Rightarrow> (block_store \<times> block_buffer) run" where
  "FinishBufferWrite s q wlen =
     rbind (assert_that (bb_tail q \<noteq> None)) (\<lambda>_.
       rbind (load s (bb_tail q)) (\<lambda>b.
         rbind (assert_that (bk_wrpos b + wlen \<le> bk_len b)) (\<lambda>_.
           rbind (modify s (bb_tail q) (\<lambda>b. b\<lparr>bk_wrpos := bk_wrpos b + wlen\<rparr>)) (\<lambda>s1.
             ret (s1, q\<lparr>bb_totallen := bb_totallen q + wlen\<rparr>)))))"

text \<open>The pointer and the length stored through \<open>rlen\<close>; a null pointer is \<open>None\<close>.\<close>

definition GetBufferToRead :: "block_store \<Rightarrow> block_buffer \<Rightarrow> (pointer \<times> int) option run" where
  "GetBufferToRead s q =
     (case bb_head q of
        None \<Rightarrow> ret None
      | Some h \<Rightarrow>
          rbind (load s (Some h)) (\<lambda>b.
            ret (Some ((h, bk_rdpos b), bk_wrpos b - bk_rdpos b))))"

section \<open>The destructor\<close>

partial_function (option) destroy_loop :: "block_store \<Rightarrow> addr option \<Rightarrow> block_store run" where
  "destroy_loop s p =
     (case p of
        None \<Rightarrow> ret s
      | Some a \<Rightarrow>
          rbind (load s p) (\<lambda>b. rbind (Recycle s p) (\<lambda>s1. destroy_loop s1 (bk_next b))))"

definition delete_BlockBuffer ::
  "block_store \<Rightarrow> block_buffer \<Rightarrow> (block_store \<times> block_buffer) run" where
  "delete_BlockBuffer s q =
     rbind (destroy_loop s (bb_head q)) (\<lambda>s1.
       ret (s1, \<lparr>bb_head = None, bb_tail = None, bb_totallen = 0\<rparr>))"

end
