(* ===== verification/Block_Buffer_Inv.thy ===== *)
theory Block_Buffer_Inv
  imports Block_Buffer
begin

text \<open>
  The representation of a \<open>BlockBuffer\<close>: the list of blocks reached from \<open>head_\<close>, each
  with its address.

  \<^item> \<open>links\<close>: the chain is acyclic, ends at \<open>tail_\<close> and shares no block with the pool;
  \<^item> \<open>shape\<close>: positions are in order within each block, all blocks but the last are full
    and not empty, and the last has its whole buffer for use;
  \<^item> \<open>bb_rep\<close>: both, with \<open>totallen_\<close> the number of unread bytes;
  \<^item> \<open>evolves\<close>: what an operation may do to the rest of the store.
\<close>

named_theorems bb_defs "the positions of a block"

type_synonym blocks = "(addr \<times> buffer_block) list"

section \<open>Chains\<close>

primrec seg :: "(addr \<Rightarrow> buffer_block option) \<Rightarrow> addr option \<Rightarrow> blocks \<Rightarrow> addr option \<Rightarrow> bool"
where
  "seg m x [] y \<longleftrightarrow> x = y"
| "seg m x (p # ps) y \<longleftrightarrow> x = Some (fst p) \<and> m (fst p) = Some (snd p) \<and> seg m (bk_next (snd p)) ps y"

definition addrs :: "blocks \<Rightarrow> addr set" where
  "addrs ps = fst ` set ps"

lemma addrs_simps [simp]:
  "addrs [] = {}" "addrs (p # ps) = insert (fst p) (addrs ps)" "addrs (ps @ qs) = addrs ps \<union> addrs qs"
  by (auto simp: addrs_def)

lemma seg_append [simp]: "seg m x (ps @ qs) z \<longleftrightarrow> (\<exists>y. seg m x ps y \<and> seg m y qs z)"
  by (induction ps arbitrary: x) auto

lemma seg_cong: "(\<And>a. a \<in> addrs ps \<Longrightarrow> m a = m1 a) \<Longrightarrow> seg m x ps y = seg m1 x ps y"
  by (induction ps arbitrary: x) auto

lemma seg_upd [simp]: "a \<notin> addrs ps \<Longrightarrow> seg (m(a \<mapsto> b)) x ps y = seg m x ps y"
  by (rule seg_cong) auto

lemma seg_mem: "seg m x ps y \<Longrightarrow> (a, b) \<in> set ps \<Longrightarrow> m a = Some b"
  by (induction ps arbitrary: x) auto

definition links :: "block_store \<Rightarrow> block_buffer \<Rightarrow> blocks \<Rightarrow> bool" where
  "links s q ps \<longleftrightarrow>
     store_ok s \<and> seg (st_mem s) (bb_head q) ps None \<and>
     bb_tail q = (if ps = [] then None else Some (fst (last ps))) \<and>
     distinct (map fst ps) \<and> addrs ps \<inter> pooled s = {}"

definition evolves :: "block_store \<Rightarrow> blocks \<Rightarrow> block_store \<Rightarrow> blocks \<Rightarrow> bool" where
  "evolves s ps t ps1 \<longleftrightarrow>
     unchanged_outside (addrs ps) s t \<and>
     addrs ps1 \<subseteq> addrs ps \<union> pooled s \<union> {a. st_mem s a = None}"

lemma evolves_refl [simp]: "evolves s ps s ps"
  by (auto simp: evolves_def)

lemma evolves_trans: "evolves s ps t ps1 \<Longrightarrow> evolves t ps1 u ps2 \<Longrightarrow> evolves s ps u ps2"
proof -
  assume st: "evolves s ps t ps1" and tu: "evolves t ps1 u ps2"
  have keep: "st_mem t a = Some b \<and> a \<notin> pooled t \<and> a \<notin> addrs ps1"
    if "a \<notin> addrs ps" "a \<notin> pooled s" "st_mem s a = Some b" for a b
    using st that unfolding evolves_def unchanged_outside_def by fastforce
  have "unchanged_outside (addrs ps) s u"
    using keep tu unfolding evolves_def unchanged_outside_def by blast
  moreover have "a \<in> addrs ps \<union> pooled s \<union> {a. st_mem s a = None}" if a: "a \<in> addrs ps2" for a
  proof (rule ccontr)
    assume "\<not> ?thesis"
    then obtain b where "a \<notin> addrs ps" "a \<notin> pooled s" "st_mem s a = Some b" by auto
    from keep [OF this] a tu show False by (auto simp: evolves_def)
  qed
  ultimately show ?thesis unfolding evolves_def by blast
qed

lemma links_frame:
  assumes "links s q ps" "evolves s qs t qs1" "store_ok t" "addrs ps \<inter> addrs qs = {}"
  shows "links t q ps" "addrs ps \<inter> addrs qs1 = {}"
proof -
  have live: "a \<notin> pooled s \<and> (\<exists>b. st_mem s a = Some b \<and> st_mem t a = Some b) \<and> a \<notin> pooled t"
    if a: "a \<in> addrs ps" for a
  proof -
    from a obtain b where b: "(a, b) \<in> set ps" by (auto simp: addrs_def)
    from assms(1) have "seg (st_mem s) (bb_head q) ps None" by (simp add: links_def)
    then have m: "st_mem s a = Some b" using b by (rule seg_mem)
    have "a \<notin> pooled s" "a \<notin> addrs qs" using a assms(1,4) by (auto simp: links_def)
    with m assms(2) show ?thesis unfolding evolves_def unchanged_outside_def by blast
  qed
  then have "seg (st_mem t) (bb_head q) ps None = seg (st_mem s) (bb_head q) ps None"
    by (intro seg_cong) (metis)
  with live assms show "links t q ps" by (auto simp: links_def)
  from live assms(2,4) show "addrs ps \<inter> addrs qs1 = {}"
    unfolding evolves_def by fastforce
qed

section \<open>Steps on the chain\<close>

lemma links_memD:
  assumes "links s q (ps1 @ (a, b) # ps2)"
  shows "st_mem s a = Some b" "a \<notin> pooled s"
  using assms by (auto simp: links_def)

lemma links_put:
  assumes l: "links s q (ps1 @ (a, b) # ps2)" and n: "bk_next b1 = bk_next b"
  shows "links (put s a b1) q (ps1 @ (a, b1) # ps2)"
    "evolves s (ps1 @ (a, b) # ps2) (put s a b1) (ps1 @ (a, b1) # ps2)"
proof -
  have "a \<notin> addrs ps1" "a \<notin> addrs ps2" using l by (auto simp: links_def addrs_def)
  then show "links (put s a b1) q (ps1 @ (a, b1) # ps2)"
    using l n links_memD [OF l] by (auto simp: links_def store_ok_put)
  show "evolves s (ps1 @ (a, b) # ps2) (put s a b1) (ps1 @ (a, b1) # ps2)"
    by (auto simp: evolves_def unchanged_put)
qed

lemma links_Alloc:
  assumes l: "links s q ps" and sz: "sz \<le> 2 ^ 30"
  obtains s1 a b where "Alloc s sz = ret (s1, a)" "links s1 q ps" "evolves s ps s1 ps"
    "st_mem s1 a = Some b" "idle b" "sized b" "sz \<le> bk_rlen b" "a \<notin> pooled s1" "a \<notin> addrs ps"
    "evolves s ps s1 (ps @ [(a, b)])"
proof -
  have ok: "store_ok s" using l by (simp add: links_def)
  obtain s1 a b where A: "Alloc s sz = ret (s1, a)" "store_ok s1" "st_mem s1 a = Some b" "idle b"
    "sized b" "sz \<le> bk_rlen b" "a \<notin> pooled s1" "a \<in> pooled s \<or> st_mem s a = None"
    "unchanged_outside {} s s1" "\<And>x. x \<noteq> a \<Longrightarrow> st_mem s1 x = st_mem s x" "pooled s1 = pooled s - {a}"
    using Alloc_ok [OF ok sz] by blast
  have new: "a \<notin> addrs ps"
  proof
    assume "a \<in> addrs ps"
    then obtain c where "(a, c) \<in> set ps" by (auto simp: addrs_def)
    moreover have "seg (st_mem s) (bb_head q) ps None" using l by (simp add: links_def)
    ultimately have "st_mem s a = Some c" by (intro seg_mem)
    moreover have "a \<notin> pooled s" using l \<open>a \<in> addrs ps\<close> by (auto simp: links_def)
    ultimately show False using A(8) by simp
  qed
  have same: "seg (st_mem s1) x ps y = seg (st_mem s) x ps y" for x y
    using new A(10) by (intro seg_cong) metis
  have ev: "unchanged_outside (addrs ps) s s1"
    using A(9) by (rule unchanged_outside_mono) simp
  show ?thesis
  proof (rule that [OF A(1)])
    show "links s1 q ps" using l A same by (auto simp: links_def)
    show "evolves s ps s1 ps" "evolves s ps s1 (ps @ [(a, b)])" using A(8) ev by (auto simp: evolves_def)
  qed (fact A new)+
qed

lemma links_first:
  assumes "links s q []" "st_mem s a = Some b" "idle b" "a \<notin> pooled s"
  shows "links s (q\<lparr>bb_head := Some a, bb_tail := Some a\<rparr>) [(a, b)]"
  using assms by (auto simp: links_def idle_def)

lemma links_snoc:
  assumes l: "links s q (ps @ [(t, b)])" and a: "st_mem s a = Some c" "idle c" "a \<notin> pooled s"
    "a \<notin> addrs (ps @ [(t, b)])"
  shows "links (put s t (b\<lparr>bk_next := Some a\<rparr>)) (q\<lparr>bb_tail := Some a\<rparr>)
           (ps @ [(t, b\<lparr>bk_next := Some a\<rparr>), (a, c)])"
    "evolves s (ps @ [(t, b), (a, c)]) (put s t (b\<lparr>bk_next := Some a\<rparr>))
       (ps @ [(t, b\<lparr>bk_next := Some a\<rparr>), (a, c)])"
proof -
  have "t \<notin> addrs ps" using l by (auto simp: links_def addrs_def)
  then show "links (put s t (b\<lparr>bk_next := Some a\<rparr>)) (q\<lparr>bb_tail := Some a\<rparr>)
           (ps @ [(t, b\<lparr>bk_next := Some a\<rparr>), (a, c)])"
    using l a links_memD [OF l] by (auto simp: links_def idle_def addrs_def store_ok_put)
  show "evolves s (ps @ [(t, b), (a, c)]) (put s t (b\<lparr>bk_next := Some a\<rparr>))
       (ps @ [(t, b\<lparr>bk_next := Some a\<rparr>), (a, c)])"
    by (auto simp: evolves_def intro!: unchanged_put)
qed

lemma links_pop:
  assumes l: "links s q ((a, b) # ps)" and b: "sized b"
    and q1: "bb_head q1 = bk_next b" "bb_tail q1 = (if ps = [] then None else bb_tail q)"
  obtains s1 where "Recycle s (Some a) = ret s1" "links s1 q1 ps" "evolves s ((a, b) # ps) s1 ps"
proof -
  have ok: "store_ok s" and m: "st_mem s a = Some b" "a \<notin> pooled s" and new: "a \<notin> addrs ps"
    using l by (auto simp: links_def addrs_def)
  obtain s1 where R: "Recycle s (Some a) = ret s1" "store_ok s1" "pooled s1 = insert a (pooled s)"
    "unchanged_outside {a} s s1" "\<And>x. x \<noteq> a \<Longrightarrow> st_mem s1 x = st_mem s x"
    using Recycle_ok [OF ok m(1) b m(2)] by blast
  have "seg (st_mem s1) x ps y = seg (st_mem s) x ps y" for x y
    using new R(5) by (intro seg_cong) metis
  then have "links s1 q1 ps" using l q1 R(2,3) new by (auto simp: links_def)
  moreover have "evolves s ((a, b) # ps) s1 ps"
    using R(4) by (auto simp: evolves_def intro: unchanged_outside_mono)
  ultimately show ?thesis using that R(1) by blast
qed

section \<open>The positions in the blocks\<close>

definition used :: "buffer_block \<Rightarrow> int" where
  "used b = bk_wrpos b - bk_rdpos b"

definition live :: "buffer_block \<Rightarrow> byte list" where
  "live b = mread (bk_buf b) (bk_rdpos b) (used b)"

definition block_ok :: "buffer_block \<Rightarrow> bool" where
  "block_ok b \<longleftrightarrow>
     0 \<le> bk_rdpos b \<and> bk_rdpos b \<le> bk_wrpos b \<and> bk_wrpos b \<le> bk_len b \<and> bk_len b \<le> bk_rlen b \<and> sized b"

definition inner_ok :: "buffer_block \<Rightarrow> bool" where
  "inner_ok b \<longleftrightarrow> block_ok b \<and> bk_wrpos b = bk_len b \<and> bk_rdpos b < bk_wrpos b"

definition last_ok :: "buffer_block \<Rightarrow> bool" where
  "last_ok b \<longleftrightarrow> block_ok b \<and> bk_len b = bk_rlen b \<and> (bk_rdpos b < bk_wrpos b \<or> bk_wrpos b = 0)"

fun shape :: "buffer_block list \<Rightarrow> bool" where
  "shape [] \<longleftrightarrow> True"
| "shape [b] \<longleftrightarrow> last_ok b"
| "shape (b # c # bs) \<longleftrightarrow> inner_ok b \<and> shape (c # bs)"

definition content :: "blocks \<Rightarrow> byte list" where
  "content ps = concat (map (live \<circ> snd) ps)"

definition bb_rep :: "block_store \<Rightarrow> block_buffer \<Rightarrow> blocks \<Rightarrow> bool" where
  "bb_rep s q ps \<longleftrightarrow>
     links s q ps \<and> shape (map snd ps) \<and> bb_totallen q = int (length (content ps)) \<and>
     bb_totallen q < 2 ^ 31"

definition lives :: "blocks \<Rightarrow> byte list list" where
  "lives ps = map (live \<circ> snd) ps"

lemma lives_simps [simp]: "lives [] = []" "lives (p # ps) = live (snd p) # lives ps"
  "lives (ps @ qs) = lives ps @ lives qs" "length (lives ps) = length ps"
  by (simp_all add: lives_def)

lemma content_simps [simp]:
  "content [] = []" "content (p # ps) = live (snd p) @ content ps"
  "content (ps @ qs) = content ps @ content qs"
  by (simp_all add: content_def)

lemma shape_Cons: "shape (b # bs) \<longleftrightarrow> (if bs = [] then last_ok b else inner_ok b \<and> shape bs)"
  by (cases bs) simp_all

lemma shape_snoc [simp]: "shape (bs @ [b]) \<longleftrightarrow> (\<forall>c \<in> set bs. inner_ok c) \<and> last_ok b"
  by (induction bs) (auto simp: shape_Cons)

lemma length_live: "block_ok b \<Longrightarrow> int (length (live b)) = used b"
  by (simp add: live_def used_def block_ok_def)

lemma inner_okD: "inner_ok b \<Longrightarrow> block_ok b"
  and last_okD: "last_ok b \<Longrightarrow> block_ok b"
  by (simp_all add: inner_ok_def last_ok_def)

lemma used_inner_pos: "inner_ok b \<Longrightarrow> 0 < used b"
  by (simp add: inner_ok_def used_def)

lemma shape_block_ok: "shape bs \<Longrightarrow> b \<in> set bs \<Longrightarrow> block_ok b"
  by (induction bs rule: shape.induct) (auto dest: inner_okD last_okD)

lemma idle_last_ok: "idle b \<Longrightarrow> sized b \<Longrightarrow> last_ok b"
  by (simp add: last_ok_def block_ok_def idle_def sized_def)

lemma idle_live [simp]: "idle b \<Longrightarrow> live b = []"
  by (simp add: live_def used_def idle_def)

lemma live_next [simp]: "live (b\<lparr>bk_next := x\<rparr>) = live b"
  and block_ok_next [simp]: "block_ok (b\<lparr>bk_next := x\<rparr>) = block_ok b"
  and inner_ok_next [simp]: "inner_ok (b\<lparr>bk_next := x\<rparr>) = inner_ok b"
  by (simp_all add: live_def used_def block_ok_def inner_ok_def sized_def)

lemma to_u64_used: "block_ok b \<Longrightarrow> to_u64 (bk_wrpos b - bk_rdpos b) = used b"
  by (simp add: used_def block_ok_def sized_def cint_simps)

lemma block_read_live: "block_ok b \<Longrightarrow> block_read b (bk_rdpos b) (used b) = ret (live b)"
  by (simp add: block_read_def live_def used_def block_ok_def)

lemma block_read_prefix:
  "block_ok b \<Longrightarrow> 0 \<le> n \<Longrightarrow> n \<le> used b \<Longrightarrow>
     block_read b (bk_rdpos b) n = ret (take (nat n) (live b))"
  by (simp add: block_read_def live_def used_def block_ok_def take_mread min_def)

lemma live_drop:
  assumes "block_ok b" "0 \<le> n" "n \<le> used b"
  shows "live (b\<lparr>bk_rdpos := bk_rdpos b + n\<rparr>) = drop (nat n) (live b)"
  using assms by (simp add: live_def used_def drop_mread algebra_simps)

lemma bb_rep_new: "store_ok s \<Longrightarrow> bb_rep s new_BlockBuffer []"
  by (simp add: bb_rep_def links_def new_BlockBuffer_def)

lemma bb_rep_empty_iff: "bb_rep s q ps \<Longrightarrow> bb_head q = None \<longleftrightarrow> ps = []"
  by (cases ps) (auto simp: bb_rep_def links_def)

lemma bb_rep_frame:
  assumes "bb_rep s q ps" "evolves s qs t qs1" "store_ok t" "addrs ps \<inter> addrs qs = {}"
  shows "bb_rep t q ps" "addrs ps \<inter> addrs qs1 = {}"
  using assms links_frame [of s q ps qs t qs1] by (auto simp: bb_rep_def)

end
