(* ===== verification/Block_Buffer_Insert.thy ===== *)
theory Block_Buffer_Insert
  imports Block_Buffer_Inv
begin

text \<open>
  \<open>Insert\<close> on the represented byte string: whatever the chain looks like, the data is
  appended, split over the free end of the last block and at most one new block.
\<close>

section \<open>Insert\<close>

definition grow :: "buffer_block \<Rightarrow> byte list \<Rightarrow> buffer_block" where
  "grow b data =
     b\<lparr>bk_buf := mwrite (bk_buf b) (bk_wrpos b) data, bk_wrpos := bk_wrpos b + int (length data)\<rparr>"

lemma grow_next [simp]: "bk_next (grow b data) = bk_next b"
  and grow_len [simp]: "bk_len (grow b data) = bk_len b"
  and grow_rlen [simp]: "bk_rlen (grow b data) = bk_rlen b"
  and grow_wrpos [simp]: "bk_wrpos (grow b data) = bk_wrpos b + int (length data)"
  and grow_rdpos [simp]: "bk_rdpos (grow b data) = bk_rdpos b"
  by (simp_all add: grow_def)

lemma last_ok_grow:
  "last_ok b \<Longrightarrow> bk_wrpos b + int (length data) \<le> bk_len b \<Longrightarrow> last_ok (grow b data)"
  by (auto simp: last_ok_def block_ok_def sized_def)

lemma live_grow:
  assumes "block_ok b"
  shows "live (grow b data) = live b @ data"
proof -
  have "live (grow b data)
      = mread (mwrite (bk_buf b) (bk_wrpos b) data) (bk_rdpos b) (used b + int (length data))"
    by (simp add: live_def used_def grow_def algebra_simps)
  also have "\<dots> = mread (mwrite (bk_buf b) (bk_wrpos b) data) (bk_rdpos b) (used b)
      @ mread (mwrite (bk_buf b) (bk_wrpos b) data) (bk_rdpos b + used b) (int (length data))"
    using assms by (intro mread_append) (simp_all add: used_def block_ok_def)
  also have "\<dots> = live b @ data"
    by (simp add: live_def used_def mread_mwrite_same mread_mwrite_disjoint)
  finally show ?thesis .
qed

lemma insert_loop_fits:
  assumes m: "st_mem s t = Some b" and b: "last_ok b" and room: "bk_wrpos b < bk_len b"
    "int (length data) \<le> bk_len b - bk_wrpos b"
  shows "insert_loop s q (Some t) data = ret (put s t (grow b data), q)"
  using assms
  by (subst insert_loop.simps)
    (simp add: block_write_def last_ok_def block_ok_def sized_def cint_simps grow_def)

lemma insert_loop_new:
  assumes l: "links s q (ps @ [(t, b)])" and b: "last_ok b" and data: "int (length data) \<le> 2 ^ 30"
  obtains s1 q1 a c where "insert_loop s q None data = ret (s1, q1)"
    "links s1 q1 (ps @ [(t, b\<lparr>bk_next := Some a\<rparr>), (a, c)])"
    "evolves s (ps @ [(t, b)]) s1 (ps @ [(t, b\<lparr>bk_next := Some a\<rparr>), (a, c)])"
    "last_ok c" "live c = data" "bb_totallen q1 = bb_totallen q"
proof -
  obtain s1 a c where A: "Alloc s (int (length data)) = ret (s1, a)" "links s1 q (ps @ [(t, b)])"
    "st_mem s1 a = Some c" "idle c" "sized c" "int (length data) \<le> bk_rlen c" "a \<notin> pooled s1"
    "a \<notin> addrs (ps @ [(t, b)])" "evolves s (ps @ [(t, b)]) s1 ((ps @ [(t, b)]) @ [(a, c)])"
    using links_Alloc [OF l data] by metis
  let ?q = "q\<lparr>bb_tail := Some a\<rparr>" and ?b = "b\<lparr>bk_next := Some a\<rparr>"
  let ?s = "put s1 t ?b"
  have sn: "links ?s ?q (ps @ [(t, ?b), (a, c)])"
    "evolves s1 (ps @ [(t, b), (a, c)]) ?s (ps @ [(t, ?b), (a, c)])"
    using links_snoc [OF A(2,3,4,7,8)] .
  have tail: "bb_tail q = Some t" "st_mem s1 t = Some b"
    using A(2) by (auto simp: links_def)
  have c: "last_ok c" "block_ok c" "st_mem ?s a = Some c"
    using idle_last_ok [OF A(4,5)] last_okD A(3,8) by auto
  have fits: "insert_loop ?s ?q (Some a) data = ret (put ?s a (grow c data), ?q)"
    using c A(4-6) by (intro insert_loop_fits) (simp_all add: idle_def sized_def)
  have "insert_loop s q None data = ret (put ?s a (grow c data), ?q)"
    by (subst insert_loop.simps) (simp add: A(1) tail fits)
  moreover have "links (put ?s a (grow c data)) ?q (ps @ [(t, ?b), (a, grow c data)])"
    "evolves ?s (ps @ [(t, ?b), (a, c)]) (put ?s a (grow c data)) (ps @ [(t, ?b), (a, grow c data)])"
    using links_put [of ?s ?q "ps @ [(t, ?b)]" a c "[]" "grow c data"] sn(1) by simp_all
  moreover have "last_ok (grow c data)" "live (grow c data) = data"
    using c A(4,6) by (auto intro!: last_ok_grow simp: live_grow idle_def)
  moreover have "evolves s (ps @ [(t, b)]) s1 (ps @ [(t, b), (a, c)])"
    using A(9) by simp
  ultimately show ?thesis
    using sn(2)
    by (intro that [of "put ?s a (grow c data)" ?q a "grow c data"])
      (assumption | simp | blast intro: evolves_trans)+
qed

lemma insert_loop_tail:
  assumes l: "links s q (ps @ [(t, b)])" and sh: "shape (map snd (ps @ [(t, b)]))"
    and data: "int (length data) \<le> 2 ^ 30"
  obtains s1 q1 ps1 where "insert_loop s q (Some t) data = ret (s1, q1)" "links s1 q1 ps1"
    "shape (map snd ps1)" "content ps1 = content (ps @ [(t, b)]) @ data"
    "evolves s (ps @ [(t, b)]) s1 ps1" "bb_totallen q1 = bb_totallen q"
proof -
  have b: "last_ok b" "block_ok b" and inner: "\<forall>c \<in> set (map snd ps). inner_ok c"
    using sh last_okD by auto
  have m: "st_mem s t = Some b" "bk_next b = None" using l by (auto simp: links_def)
  have le: "bk_wrpos b \<le> bk_len b" using b(2) by (simp add: block_ok_def)
  consider (full) "bk_wrpos b = bk_len b"
    | (fits) "bk_wrpos b < bk_len b" "int (length data) \<le> bk_len b - bk_wrpos b"
    | (split) "bk_wrpos b < bk_len b" "bk_len b - bk_wrpos b < int (length data)"
    using le by linarith
  then show ?thesis
  proof cases
    case full
    have bi: "inner_ok b"
      using b full by (auto simp: inner_ok_def last_ok_def block_ok_def sized_def)
    obtain s1 q1 a c where N: "insert_loop s q None data = ret (s1, q1)"
      "links s1 q1 (ps @ [(t, b\<lparr>bk_next := Some a\<rparr>), (a, c)])"
      "evolves s (ps @ [(t, b)]) s1 (ps @ [(t, b\<lparr>bk_next := Some a\<rparr>), (a, c)])"
      "last_ok c" "live c = data" "bb_totallen q1 = bb_totallen q"
      using insert_loop_new [OF l b(1) data] by blast
    have "insert_loop s q (Some t) data = ret (s1, q1)"
      by (subst insert_loop.simps) (simp add: m full N(1))
    then show ?thesis
      using N bi inner shape_snoc [of "map snd ps @ [b\<lparr>bk_next := Some a\<rparr>]" c]
      by (intro that [of s1 q1 "ps @ [(t, b\<lparr>bk_next := Some a\<rparr>), (a, c)]"]) simp_all
  next
    case fits
    have "insert_loop s q (Some t) data = ret (put s t (grow b data), q)"
      by (rule insert_loop_fits [OF m(1) b(1) fits])
    moreover have "last_ok (grow b data)" using last_ok_grow [OF b(1)] fits by simp
    ultimately show ?thesis
      using links_put [of s q ps t b "[]" "grow b data"] l inner
      by (intro that [of "put s t (grow b data)" q "ps @ [(t, grow b data)]"])
        (simp_all add: live_grow b)
  next
    case split
    let ?room = "bk_len b - bk_wrpos b"
    let ?fst = "take (nat ?room) data" and ?snd = "drop (nat ?room) data"
    have len: "int (length ?fst) = ?room" using split by simp
    let ?g = "grow b ?fst"
    have g: "last_ok ?g" "bk_wrpos ?g = bk_len ?g" "live ?g = live b @ ?fst"
      using last_ok_grow [OF b(1), of ?fst] len live_grow [OF b(2)] by auto
    then have gi: "inner_ok ?g"
      using split by (auto simp: inner_ok_def last_ok_def block_ok_def sized_def)
    have lg: "links (put s t ?g) q (ps @ [(t, ?g)])"
      "evolves s (ps @ [(t, b)]) (put s t ?g) (ps @ [(t, ?g)])"
      using links_put [of s q ps t b "[]" ?g] l by simp_all
    have snd_len: "int (length ?snd) \<le> 2 ^ 30" using data by simp
    obtain s1 q1 a c where N: "insert_loop (put s t ?g) q None ?snd = ret (s1, q1)"
      "links s1 q1 (ps @ [(t, ?g\<lparr>bk_next := Some a\<rparr>), (a, c)])"
      "evolves (put s t ?g) (ps @ [(t, ?g)]) s1 (ps @ [(t, ?g\<lparr>bk_next := Some a\<rparr>), (a, c)])"
      "last_ok c" "live c = ?snd" "bb_totallen q1 = bb_totallen q"
      using insert_loop_new [OF lg(1) g(1) snd_len] by blast
    have bounds: "0 \<le> bk_wrpos b" "bk_len b \<le> bk_rlen b" "bk_len b \<le> 2 ^ 30"
      using b(2) by (auto simp: block_ok_def sized_def)
    have u: "to_u64 ?room = ?room" using split bounds by (intro to_u64_id) auto
    have w: "block_write b (bk_wrpos b) ?fst = ret (b\<lparr>bk_buf := mwrite (bk_buf b) (bk_wrpos b) ?fst\<rparr>)"
      using bounds len by (simp add: block_write_def)
    have "b\<lparr>bk_buf := mwrite (bk_buf b) (bk_wrpos b) ?fst, bk_wrpos := bk_len b\<rparr> = ?g"
      using len by (simp add: grow_def)
    then have "insert_loop s q (Some t) data = ret (s1, q1)"
      using split N(1) by (subst insert_loop.simps) (simp add: m u w)
    then show ?thesis
      using N lg(2) gi g inner shape_snoc [of "map snd ps @ [?g\<lparr>bk_next := Some a\<rparr>]" c]
      by (intro that [of s1 q1 "ps @ [(t, ?g\<lparr>bk_next := Some a\<rparr>), (a, c)]"])
        (simp_all, blast intro: evolves_trans)
  qed
qed

lemma Insert_rep:
  assumes rep: "bb_rep s q ps" and data: "int (length data) \<le> 2 ^ 30"
    and total: "bb_totallen q + int (length data) < 2 ^ 31"
  shows "\<exists>s1 q1 ps1. Insert s q data = ret (s1, q1) \<and> bb_rep s1 q1 ps1 \<and>
           content ps1 = content ps @ data \<and> evolves s ps s1 ps1"
proof (cases ps rule: rev_cases)
  case Nil
  have l: "links s q []" and t: "bb_totallen q = 0" and h: "bb_head q = None"
    using rep Nil by (auto simp: bb_rep_def links_def)
  obtain s1 a c where A: "Alloc s (int (length data)) = ret (s1, a)" "links s1 q []"
    "st_mem s1 a = Some c" "idle c" "sized c" "int (length data) \<le> bk_rlen c" "a \<notin> pooled s1"
    "evolves s [] s1 ([] @ [(a, c)])"
    using links_Alloc [OF l data] by metis
  let ?q = "q\<lparr>bb_head := Some a, bb_tail := Some a\<rparr>"
  have l1: "links s1 ?q [(a, c)]" using links_first A(2,3,4,7) by blast
  have c: "last_ok c" "block_ok c" using idle_last_ok [OF A(4,5)] last_okD by auto
  have "insert_loop s1 ?q (Some a) data = ret (put s1 a (grow c data), ?q)"
    using c A(3-6) by (intro insert_loop_fits) (simp_all add: idle_def sized_def)
  moreover have "links (put s1 a (grow c data)) ?q [(a, grow c data)]"
    "evolves s1 [(a, c)] (put s1 a (grow c data)) [(a, grow c data)]"
    using links_put [of s1 ?q "[]" a c "[]" "grow c data"] l1 by simp_all
  moreover have "last_ok (grow c data)"
    using c A(4,6) by (intro last_ok_grow) (auto simp: idle_def)
  moreover have "links s2 (q2\<lparr>bb_totallen := n\<rparr>) rs = links s2 q2 rs" for s2 q2 rs n
    by (simp add: links_def)
  ultimately show ?thesis
    using A c data t Nil h
    by (intro exI [of _ "put s1 a (grow c data)"] exI [of _ "?q\<lparr>bb_totallen := int (length data)\<rparr>"]
        exI [of _ "[(a, grow c data)]"])
      (auto simp: Insert_def live_grow bb_rep_def cint_simps intro: evolves_trans)
next
  case (snoc init p)
  obtain t b where p: "p = (t, b)" by fastforce
  have l: "links s q (init @ [(t, b)])" and sh: "shape (map snd (init @ [(t, b)]))"
    and tl: "bb_tail q = Some t" and tot: "bb_totallen q = int (length (content ps))"
    using rep snoc p by (auto simp: bb_rep_def links_def)
  have hd: "bb_head q \<noteq> None" using bb_rep_empty_iff [OF rep] snoc by simp
  obtain s1 q1 ps1 where I: "insert_loop s q (Some t) data = ret (s1, q1)" "links s1 q1 ps1"
    "shape (map snd ps1)" "content ps1 = content (init @ [(t, b)]) @ data"
    "evolves s (init @ [(t, b)]) s1 ps1" "bb_totallen q1 = bb_totallen q"
    using insert_loop_tail [OF l sh data] by blast
  have "links s1 (q1\<lparr>bb_totallen := n\<rparr>) ps1" for n using I(2) by (simp add: links_def)
  then show ?thesis
    using I hd tl snoc p total tot
    by (intro exI [of _ s1] exI [of _ "q1\<lparr>bb_totallen := bb_totallen q + int (length data)\<rparr>"]
        exI [of _ ps1])
      (auto simp: Insert_def bb_rep_def cint_simps)
qed

end
