(* ===== verification/Block_Buffer_Write.thy ===== *)
theory Block_Buffer_Write
  imports Block_Buffer_Insert
begin

text \<open>
  The in-place writing interface of \<open>BlockBuffer\<close>: \<open>GetBufferToWrite\<close> makes room at the
  tail without changing the represented bytes, \<open>FinishBufferWrite\<close> appends what the
  caller stored there.  \<open>replaceBlock\<close> searches the tail's predecessor with a loop that
  does not advance, so the first half holds for chains of at most two blocks and the
  second shows that a longer chain does not return from it.
\<close>

section \<open>Replacing the last block\<close>

definition filled :: "buffer_block \<Rightarrow> byte list \<Rightarrow> buffer_block" where
  "filled c xs = c\<lparr>bk_buf := mwrite (bk_buf c) 0 xs, bk_rdpos := 0, bk_wrpos := int (length xs)\<rparr>"

lemma filled_simps [simp]:
  "bk_next (filled c xs) = bk_next c" "bk_len (filled c xs) = bk_len c"
  "bk_rlen (filled c xs) = bk_rlen c" "bk_wrpos (filled c xs) = int (length xs)"
  "bk_rdpos (filled c xs) = 0" "sized (filled c xs) = sized c"
  by (simp_all add: filled_def sized_def)

lemma live_filled [simp]: "live (filled c xs) = xs"
  by (simp add: filled_def live_def used_def mread_mwrite_same)

lemma last_ok_filled:
  "sized c \<Longrightarrow> bk_len c = bk_rlen c \<Longrightarrow> int (length xs) \<le> bk_rlen c \<Longrightarrow> last_ok (filled c xs)"
  by (auto simp: last_ok_def block_ok_def)

lemma next_None_idem: "bk_next c = None \<Longrightarrow> c\<lparr>bk_next := None\<rparr> = c"
  by (cases c) simp

definition relink :: "blocks \<Rightarrow> addr \<Rightarrow> blocks" where
  "relink ps a = map (\<lambda>p. (fst p, (snd p)\<lparr>bk_next := Some a\<rparr>)) ps"

lemma lives_relink [simp]: "lives (relink ps a) = lives ps"
  by (simp add: relink_def lives_def comp_def)

lemma content_relink [simp]: "content (relink ps a) = content ps"
  by (simp add: relink_def content_def comp_def)

lemma addrs_relink [simp]: "addrs (relink ps a) = addrs ps"
  by (simp add: relink_def addrs_def image_image)

lemma inner_relink [simp]:
  "(\<forall>c \<in> set (map snd (relink ps a)). inner_ok c) \<longleftrightarrow> (\<forall>c \<in> set (map snd ps). inner_ok c)"
  by (auto simp: relink_def)

lemma replace_walk_second:
  assumes "st_mem s h = Some hb" "bk_next hb = Some t" "st_mem s t = Some b" "bk_next b = None"
    "st_mem s a = Some c" "h \<noteq> t" "h \<noteq> a" "bk_next c = None" "bb_tail q = Some t"
  shows "replace_walk s q (Some h) t a
    = rbind (Recycle (put (put s h (hb\<lparr>bk_next := Some a\<rparr>)) a c) (Some t))
        (\<lambda>s3. ret (s3, q\<lparr>bb_tail := Some a\<rparr>))"
  using assms by (subst replace_walk.simps) (simp add: next_None_idem)

lemma replaceBlock_ok:
  assumes l: "links s q (init @ [(t, b)])" and a: "st_mem s a = Some c" "idle c" "sized c"
    "a \<notin> pooled s" "a \<notin> addrs (init @ [(t, b)])" and b: "block_ok b"
    and room: "used b \<le> bk_rlen c" and short: "length init \<le> 1"
  obtains s3 q3 where "replaceBlock s q t a = ret (s3, q3)"
    "links s3 q3 (relink init a @ [(a, filled c (live b))])"
    "evolves s (init @ [(t, b), (a, c)]) s3 (relink init a @ [(a, filled c (live b))])"
    "bb_totallen q3 = bb_totallen q"
proof -
  let ?c = "filled c (live b)"
  have t: "st_mem s t = Some b" "t \<notin> pooled s" "bk_next b = None" "bb_tail q = Some t" "store_ok s"
    using l by (auto simp: links_def)
  have ne: "a \<noteq> t" "a \<notin> addrs init" using a(5) by auto
  have lv: "int (length (live b)) = used b" using length_live [OF b] .
  have c: "bk_next c = None" "bk_len c = bk_rlen c" "bk_rdpos c = 0"
    using a(2) by (auto simp: idle_def)
  have wr: "c\<lparr>bk_buf := mwrite (bk_buf c) 0 (live b), bk_wrpos := used b\<rparr> = ?c"
    using lv c by (simp add: filled_def)
  define s1 where "s1 = put s a ?c"
  have copied: "replaceBlock s q t a
      = (if bb_head q = Some t
         then rbind (Recycle (put s1 a ?c) (Some t)) (\<lambda>s3.
                ret (s3, q\<lparr>bb_head := Some a, bb_tail := Some a\<rparr>))
         else replace_walk s1 q (bb_head q) t a)"
  proof -
    have "block_write c 0 (live b) = ret (c\<lparr>bk_buf := mwrite (bk_buf c) 0 (live b)\<rparr>)"
      using lv room by (simp add: block_write_def)
    moreover have "to_u64 (used b) = used b" using to_u64_used [OF b] by (simp add: used_def)
    ultimately show ?thesis
      using room c a(1) ne t
      by (simp add: replaceBlock_def block_read_live [OF b] s1_def Let_def wr next_None_idem
          used_def [symmetric])
  qed
  have rec: "\<exists>s3. Recycle s2 (Some t) = ret s3 \<and> store_ok s3 \<and> pooled s3 = insert t (pooled s2) \<and>
      unchanged_outside {t} s2 s3 \<and> (\<forall>x. x \<noteq> t \<longrightarrow> st_mem s3 x = st_mem s2 x)"
    if "store_ok s2" "st_mem s2 t = Some b" "pooled s2 = pooled s" for s2
    using Recycle_ok [OF that(1,2)] b that(3) t(2) by (metis block_ok_def)
  have st1: "store_ok s1" "pooled s1 = pooled s" "st_mem s1 = (st_mem s)(a \<mapsto> ?c)"
    using store_ok_put [OF t(5) a(4,1)] by (simp_all add: s1_def)
  show ?thesis
  proof (cases init)
    case Nil
    have h: "bb_head q = Some t" using l Nil by (auto simp: links_def)
    have p: "put s1 a ?c = s1" by (simp add: s1_def put_def)
    obtain s3 where R: "Recycle s1 (Some t) = ret s3" "store_ok s3" "pooled s3 = insert t (pooled s)"
      "unchanged_outside {t} s1 s3" "\<And>x. x \<noteq> t \<Longrightarrow> st_mem s3 x = st_mem s1 x"
      using rec [OF st1(1)] st1(2,3) t(1) ne by auto
    have "links s3 (q\<lparr>bb_head := Some a, bb_tail := Some a\<rparr>) [(a, ?c)]"
      using R st1 a(4) ne c by (auto simp: links_def)
    moreover have "evolves s [(t, b), (a, c)] s3 [(a, ?c)]"
      using R(4) st1 unfolding evolves_def unchanged_outside_def by auto
    ultimately show ?thesis using that R(1) copied h p Nil by (simp add: relink_def)
  next
    case (Cons hp tl)
    obtain h hb where hp: "hp = (h, hb)" by fastforce
    have init: "init = [(h, hb)]" using short Cons hp by simp
    have h: "bb_head q = Some h" "st_mem s h = Some hb" "bk_next hb = Some t" "h \<noteq> t" "h \<notin> pooled s"
      "h \<noteq> a"
      using l init ne by (auto simp: links_def)
    let ?hb = "hb\<lparr>bk_next := Some a\<rparr>"
    let ?s2 = "put (put s1 h ?hb) a ?c"
    have "store_ok (put s1 h ?hb)"
      using st1 h by (intro store_ok_put [of s1 h hb]) auto
    then have "store_ok ?s2" using st1 h a(4) by (intro store_ok_put [of _ a ?c]) auto
    then obtain s3 where R: "Recycle ?s2 (Some t) = ret s3" "store_ok s3"
      "pooled s3 = insert t (pooled s)" "unchanged_outside {t} ?s2 s3"
      "\<And>x. x \<noteq> t \<Longrightarrow> st_mem s3 x = st_mem ?s2 x"
      using rec [of ?s2] st1 t(1) ne h by auto
    have "replace_walk s1 q (Some h) t a = ret (s3, q\<lparr>bb_tail := Some a\<rparr>)"
      using st1(3) h t ne c R(1) by (subst replace_walk_second [of s1 h hb t b a ?c]) auto
    moreover have "links s3 (q\<lparr>bb_tail := Some a\<rparr>) [(h, ?hb), (a, ?c)]"
      using R(2,3) R(5) [of a] R(5) [of h] h ne a(4) c by (auto simp: links_def)
    moreover have "evolves s [(h, hb), (t, b), (a, c)] s3 [(h, ?hb), (a, ?c)]"
      using R(4) st1 unfolding evolves_def unchanged_outside_def by auto
    ultimately show ?thesis using that copied h(1,4) init by (simp add: relink_def)
  qed
qed

section \<open>Making room\<close>

text \<open>When \<open>expand\<close> takes the branch that replaces the last block.\<close>

definition needs_replace :: "buffer_block \<Rightarrow> int \<Rightarrow> bool" where
  "needs_replace b n \<longleftrightarrow>
     bk_len b - bk_wrpos b < n \<and> \<not> (n \<le> bk_len b - used b \<and> used b \<le> MOVE_BLOCK_SIZE) \<and>
     used b < COPY_BLOCK_SIZE"

definition writable :: "block_buffer \<Rightarrow> blocks \<Rightarrow> pointer \<Rightarrow> int \<Rightarrow> bool" where
  "writable q ps ptr n \<longleftrightarrow>
     (\<exists>init b. ps = init @ [(fst ptr, b)] \<and> bk_wrpos b = snd ptr \<and> n \<le> bk_len b - bk_wrpos b)"

lemma rep_totallen: "links s (q\<lparr>bb_totallen := n\<rparr>) ps = links s q ps"
  by (simp add: links_def)

lemma expand_rep:
  assumes l: "links s q ps" and sh: "shape (map snd ps)" and n: "0 \<le> n" "n \<le> 2 ^ 29"
    and full: "\<And>init p. ps = init @ [p] \<Longrightarrow> bk_len (snd p) - bk_wrpos (snd p) < n \<and>
      (needs_replace (snd p) n \<longrightarrow> length init \<le> 1)"
  obtains s1 q1 init a c where "expand s q n = ret (s1, q1)" "links s1 q1 (init @ [(a, c)])"
    "shape (map snd (init @ [(a, c)]))" "content (init @ [(a, c)]) = content ps"
    "evolves s ps s1 (init @ [(a, c)])" "bb_totallen q1 = bb_totallen q"
    "n \<le> bk_len c - bk_wrpos c" "lives (init @ [(a, c)]) =
      (if ps \<noteq> [] \<and> used (snd (last ps)) < COPY_BLOCK_SIZE then lives ps else lives ps @ [[]])"
proof (cases ps rule: rev_cases)
  case Nil
  have l0: "links s q []" and tl: "bb_tail q = None" using l Nil by (auto simp: links_def)
  have n30: "n \<le> 2 ^ 30" using n by simp
  obtain s1 a c where A: "Alloc s n = ret (s1, a)" "links s1 q []"
    "st_mem s1 a = Some c" "idle c" "sized c" "n \<le> bk_rlen c" "a \<notin> pooled s1"
    "evolves s [] s1 ([] @ [(a, c)])"
    using links_Alloc [OF l0 n30] by metis
  have "links s1 (q\<lparr>bb_head := Some a, bb_tail := Some a\<rparr>) [(a, c)]"
    using links_first A(2,3,4,7) by blast
  then show ?thesis
    using that [of s1 "q\<lparr>bb_head := Some a, bb_tail := Some a\<rparr>" "[]" a c] A Nil tl
      idle_last_ok [OF A(4,5)]
    by (simp add: expand_def idle_def)
next
  case (snoc init p)
  obtain t b where p: "p = (t, b)" by fastforce
  have ps: "ps = init @ [(t, b)]" using snoc p by simp
  have b: "last_ok b" "block_ok b" and inner: "\<forall>c \<in> set (map snd init). inner_ok c"
    using sh ps last_okD by auto
  have x: "bb_tail q = Some t" "st_mem s t = Some b" using l ps by (auto simp: links_def)
  have bd: "0 \<le> used b" "used b \<le> bk_len b" "bk_len b = bk_rlen b" "bk_rlen b \<le> 2 ^ 30" "sized b"
    using b by (auto simp: used_def last_ok_def block_ok_def sized_def)
  have lv: "int (length (live b)) = used b" using length_live [OF b(2)] .
  have i: "to_i32 n = n" using n by (intro to_i32_id) auto
  have u: "to_u64 (used b) = used b" using bd by (intro to_u64_id) auto
  have fl: "bk_len b - bk_wrpos b + bk_rdpos b = bk_len b - used b" by (simp add: used_def)
  consider (move) "n \<le> bk_len b - used b" "used b \<le> MOVE_BLOCK_SIZE"
    | (replace) "\<not> (n \<le> bk_len b - used b \<and> used b \<le> MOVE_BLOCK_SIZE)" "used b < COPY_BLOCK_SIZE"
    | (stop) "\<not> (n \<le> bk_len b - used b \<and> used b \<le> MOVE_BLOCK_SIZE)" "COPY_BLOCK_SIZE \<le> used b"
    by linarith
  then show ?thesis
  proof cases
    case move
    let ?b = "filled b (live b)"
    have fb: "b\<lparr>bk_buf := mwrite (bk_buf b) 0 (live b), bk_rdpos := 0, bk_wrpos := used b\<rparr> = ?b"
      using lv by (simp add: filled_def)
    have "block_write b 0 (live b) = ret (b\<lparr>bk_buf := mwrite (bk_buf b) 0 (live b)\<rparr>)"
      using lv bd by (simp add: block_write_def)
    then have "expand s q n = ret (put s t ?b, q)"
      using move x
      by (simp add: expand_def fl i u block_read_live [OF b(2)] fb Let_def used_def [symmetric])
    moreover have "links (put s t ?b) q (init @ [(t, ?b)])" "evolves s ps (put s t ?b) (init @ [(t, ?b)])"
      using links_put [of s q init t b "[]" ?b] l ps by simp_all
    moreover have "last_ok ?b" using last_ok_filled bd lv by simp
    then have "shape (map snd (init @ [(t, ?b)]))" using inner by simp
    moreover have "content (init @ [(t, ?b)]) = content ps" unfolding ps by simp
    moreover have "n \<le> bk_len ?b - bk_wrpos ?b" using move(1) lv by simp
    moreover have "lives (init @ [(t, ?b)]) =
        (if ps \<noteq> [] \<and> used (snd (last ps)) < COPY_BLOCK_SIZE then lives ps else lives ps @ [[]])"
      unfolding ps using move(2) by (simp add: MOVE_BLOCK_SIZE_def COPY_BLOCK_SIZE_def)
    ultimately show ?thesis by (intro that [of "put s t ?b" q init t ?b]) blast+
  next
    case replace
    have short: "length init \<le> 1" using full [OF ps] replace by (simp add: needs_replace_def)
    have sz: "to_u64 (used b + n) = used b + n" "used b + n \<le> 2 ^ 30"
      using replace(2) bd n by (auto simp: COPY_BLOCK_SIZE_def intro!: to_u64_id)
    obtain s1 a c where A: "Alloc s (used b + n) = ret (s1, a)" "links s1 q (init @ [(t, b)])"
      "st_mem s1 a = Some c" "idle c" "sized c" "used b + n \<le> bk_rlen c" "a \<notin> pooled s1"
      "a \<notin> addrs (init @ [(t, b)])" "evolves s (init @ [(t, b)]) s1 ((init @ [(t, b)]) @ [(a, c)])"
      using links_Alloc [OF l [unfolded ps] sz(2)] by metis
    have fit: "used b \<le> bk_rlen c" using A(6) n by simp
    obtain s3 q3 where R: "replaceBlock s1 q t a = ret (s3, q3)"
      "links s3 q3 (relink init a @ [(a, filled c (live b))])"
      "evolves s1 (init @ [(t, b), (a, c)]) s3 (relink init a @ [(a, filled c (live b))])"
      "bb_totallen q3 = bb_totallen q"
      using replaceBlock_ok [OF A(2,3,4,5,7,8) b(2) fit short] by blast
    have "expand s q n = ret (s3, q3)"
      using replace x A(1) R(1)
      by (auto simp: expand_def fl i sz Let_def used_def [symmetric])
    moreover have "last_ok (filled c (live b))"
      using A(4-6) lv n by (intro last_ok_filled) (auto simp: idle_def)
    moreover have "evolves s ps s3 (relink init a @ [(a, filled c (live b))])"
      using A(9) R(3) ps by (auto intro: evolves_trans)
    moreover have "shape (map snd (relink init a @ [(a, filled c (live b))]))"
      using calculation(2) inner inner_relink [of init a] by simp
    moreover have "content (relink init a @ [(a, filled c (live b))]) = content ps" unfolding ps by simp
    moreover have "n \<le> bk_len (filled c (live b)) - bk_wrpos (filled c (live b))" using A(4,6) lv by (simp add: idle_def)
    moreover have "lives (relink init a @ [(a, filled c (live b))]) =
        (if ps \<noteq> [] \<and> used (snd (last ps)) < COPY_BLOCK_SIZE then lives ps else lives ps @ [[]])"
      unfolding ps using replace(2) by simp
    ultimately show ?thesis using R(2,4) by (intro that [of s3 q3 "relink init a" a "filled c (live b)"]) blast+
  next
    case stop
    let ?b = "b\<lparr>bk_len := bk_wrpos b\<rparr>"
    have bi: "inner_ok ?b"
      using b(2) stop(2) by (auto simp: inner_ok_def block_ok_def used_def sized_def COPY_BLOCK_SIZE_def)
    have lvb: "live ?b = live b" by (simp add: live_def used_def)
    have lp: "links (put s t ?b) q (init @ [(t, ?b)])" "evolves s ps (put s t ?b) (init @ [(t, ?b)])"
      using links_put [of s q init t b "[]" ?b] l ps by simp_all
    have n30: "n \<le> 2 ^ 30" using n by simp
    obtain s2 a c where A: "Alloc (put s t ?b) n = ret (s2, a)" "links s2 q (init @ [(t, ?b)])"
      "st_mem s2 a = Some c" "idle c" "sized c" "n \<le> bk_rlen c" "a \<notin> pooled s2"
      "a \<notin> addrs (init @ [(t, ?b)])"
      "evolves (put s t ?b) (init @ [(t, ?b)]) s2 ((init @ [(t, ?b)]) @ [(a, c)])"
      using links_Alloc [OF lp(1) n30] by metis
    let ?s3 = "put s2 t (?b\<lparr>bk_next := Some a\<rparr>)" and ?q = "q\<lparr>bb_tail := Some a\<rparr>"
    have L: "links ?s3 ?q (init @ [(t, ?b\<lparr>bk_next := Some a\<rparr>), (a, c)])"
      "evolves s2 (init @ [(t, ?b), (a, c)]) ?s3 (init @ [(t, ?b\<lparr>bk_next := Some a\<rparr>), (a, c)])"
      using links_snoc [OF A(2,3,4,7,8)] .
    have "st_mem s2 t = Some ?b" using A(2) by (auto simp: links_def)
    then have "expand s q n = ret (?s3, ?q)"
      using stop x A(1) by (auto simp: expand_def fl i Let_def used_def [symmetric])
    moreover have "evolves s ps ?s3 (init @ [(t, ?b\<lparr>bk_next := Some a\<rparr>), (a, c)])"
      using lp(2) A(9) L(2) by (auto intro: evolves_trans)
    moreover have "shape ((map snd init @ [?b\<lparr>bk_next := Some a\<rparr>]) @ [c])"
      using inner bi idle_last_ok [OF A(4,5)] unfolding shape_snoc by auto
    then have "shape (map snd (init @ [(t, ?b\<lparr>bk_next := Some a\<rparr>), (a, c)]))" by simp
    moreover have "content (init @ [(t, ?b\<lparr>bk_next := Some a\<rparr>), (a, c)]) = content ps"
      unfolding ps using lvb A(4) by (simp add: idle_def live_def used_def)
    moreover have "n \<le> bk_len c - bk_wrpos c" using A(4,6) by (simp add: idle_def)
    moreover have "lives (init @ [(t, ?b\<lparr>bk_next := Some a\<rparr>), (a, c)]) =
        (if ps \<noteq> [] \<and> used (snd (last ps)) < COPY_BLOCK_SIZE then lives ps else lives ps @ [[]])"
      unfolding ps using stop(2) lvb A(4) by (simp add: idle_def live_def used_def)
    moreover have "bb_totallen ?q = bb_totallen q" by simp
    ultimately show ?thesis using L
      by (intro that [of ?s3 ?q "init @ [(t, ?b\<lparr>bk_next := Some a\<rparr>)]" a c]) (simp_all only: append_assoc append.simps)
  qed
qed

lemma GetBufferToWrite_rep:
  assumes rep: "bb_rep s q ps" and n: "0 \<le> n" "n \<le> 2 ^ 29"
    and ok: "length ps \<le> 2 \<or> \<not> needs_replace (snd (last ps)) n"
  shows "\<exists>s1 q1 ptr ps1. GetBufferToWrite s q n = ret (s1, q1, ptr) \<and> bb_rep s1 q1 ps1 \<and>
           content ps1 = content ps \<and> evolves s ps s1 ps1 \<and> writable q1 ps1 ptr n \<and>
           lives ps1 = (if ps \<noteq> [] \<and> (n \<le> bk_len (snd (last ps)) - bk_wrpos (snd (last ps)) \<or>
             used (snd (last ps)) < COPY_BLOCK_SIZE) then lives ps else lives ps @ [[]])"
proof -
  have l: "links s q ps" and sh: "shape (map snd ps)" using rep by (auto simp: bb_rep_def)
  have u: "to_u64 n = n" using n by (intro to_u64_id) auto
  show ?thesis
  proof (cases "\<exists>init t b. ps = init @ [(t, b)] \<and> n \<le> bk_len b - bk_wrpos b")
    case True
    then obtain init t b where ps: "ps = init @ [(t, b)]" "n \<le> bk_len b - bk_wrpos b" by blast
    have x: "bb_tail q = Some t" "st_mem s t = Some b" using l ps by (auto simp: links_def)
    have "GetBufferToWrite s q n = ret (s, q, (t, bk_wrpos b))"
      using x ps(2) by (simp add: GetBufferToWrite_def)
    moreover have "writable q ps (t, bk_wrpos b) n" using ps by (auto simp: writable_def)
    moreover have "ps \<noteq> [] \<and> n \<le> bk_len (snd (last ps)) - bk_wrpos (snd (last ps))" using ps by simp
    ultimately show ?thesis using rep by (intro exI [of _ s] exI [of _ q] exI [of _ "(t, bk_wrpos b)"] exI [of _ ps]) simp
  next
    case False
    have full: "bk_len (snd p) - bk_wrpos (snd p) < n \<and> (needs_replace (snd p) n \<longrightarrow> length init \<le> 1)"
      if "ps = init @ [p]" for init p
      using False that ok by (cases p) force
    obtain s1 q1 init a c where E: "expand s q n = ret (s1, q1)" "links s1 q1 (init @ [(a, c)])"
      "shape (map snd (init @ [(a, c)]))" "content (init @ [(a, c)]) = content ps"
      "evolves s ps s1 (init @ [(a, c)])" "bb_totallen q1 = bb_totallen q"
      "n \<le> bk_len c - bk_wrpos c" "lives (init @ [(a, c)]) =
      (if ps \<noteq> [] \<and> used (snd (last ps)) < COPY_BLOCK_SIZE then lives ps else lives ps @ [[]])"
      using expand_rep [OF l sh n full] by blast
    have x1: "bb_tail q1 = Some a" "st_mem s1 a = Some c" using E(2) by (auto simp: links_def)
    have "GetBufferToWrite s q n = ret (s1, q1, (a, bk_wrpos c))"
    proof (cases ps rule: rev_cases)
      case Nil
      then have "bb_tail q = None" using l by (simp add: links_def)
      then show ?thesis using E(1) x1 by (simp add: GetBufferToWrite_def u)
    next
      case (snoc init' p)
      obtain t b where p: "p = (t, b)" by fastforce
      have "bb_tail q = Some t" "st_mem s t = Some b" using l snoc p by (auto simp: links_def)
      then show ?thesis using full [of init' p] snoc p E(1) x1 by (simp add: GetBufferToWrite_def u)
    qed
    moreover have "bb_rep s1 q1 (init @ [(a, c)])"
      using E rep by (simp add: bb_rep_def)
    moreover have "writable q1 (init @ [(a, c)]) (a, bk_wrpos c) n"
      using E(7) by (auto simp: writable_def)
    moreover have "\<not> (ps \<noteq> [] \<and> n \<le> bk_len (snd (last ps)) - bk_wrpos (snd (last ps)))"
      using full [of "butlast ps" "last ps"] by auto
    then have "lives (init @ [(a, c)]) = (if ps \<noteq> [] \<and> (n \<le> bk_len (snd (last ps)) - bk_wrpos (snd (last ps)) \<or>
        used (snd (last ps)) < COPY_BLOCK_SIZE) then lives ps else lives ps @ [[]])"
      unfolding E(8) by auto
    ultimately show ?thesis using E(4,5) by blast
  qed
qed

section \<open>Committing a write\<close>

lemma commit_rep:
  assumes rep: "bb_rep s q ps" and w: "writable q ps ptr n" and xs: "int (length xs) \<le> n"
    and tot: "bb_totallen q + int (length xs) < 2 ^ 31"
  shows "\<exists>s1 s2 q2 ps2. store_bytes s ptr xs = ret s1 \<and>
           FinishBufferWrite s1 q (int (length xs)) = ret (s2, q2) \<and> bb_rep s2 q2 ps2 \<and>
           content ps2 = content ps @ xs \<and> evolves s ps s2 ps2 \<and> length ps2 = length ps \<and>
           lives ps2 = butlast (lives ps) @ [last (lives ps) @ xs]"
proof -
  obtain init b where ps: "ps = init @ [(fst ptr, b)]" "bk_wrpos b = snd ptr"
    "n \<le> bk_len b - bk_wrpos b"
    using w unfolding writable_def by blast
  let ?t = "fst ptr" and ?g = "grow b xs"
  have l: "links s q ps" and t: "bb_totallen q = int (length (content ps))"
    and inner: "\<forall>c \<in> set (map snd init). inner_ok c" and b: "last_ok b" "block_ok b"
    using rep ps last_okD by (auto simp: bb_rep_def)
  have x: "bb_tail q = Some ?t" "st_mem s ?t = Some b" using l ps by (auto simp: links_def)
  let ?m = "b\<lparr>bk_buf := mwrite (bk_buf b) (bk_wrpos b) xs\<rparr>"
  have "store_bytes s ptr xs = ret (put s ?t ?m)"
    using x ps xs b(2) by (simp add: store_bytes_def block_write_def block_ok_def)
  moreover have "FinishBufferWrite (put s ?t ?m) q (int (length xs))
      = ret (put s ?t ?g, q\<lparr>bb_totallen := bb_totallen q + int (length xs)\<rparr>)"
    using x ps xs by (simp add: FinishBufferWrite_def grow_def put_def)
  moreover have "bb_rep (put s ?t ?g) (q\<lparr>bb_totallen := bb_totallen q + int (length xs)\<rparr>)
      (init @ [(?t, ?g)])"
    using links_put(1) [of s q init ?t b "[]" ?g] l ps inner b tot t xs
    by (auto simp: bb_rep_def rep_totallen last_ok_grow live_grow)
  moreover have "content (init @ [(?t, ?g)]) = content ps @ xs"
    using ps live_grow [OF b(2)] by simp
  moreover have "evolves s ps (put s ?t ?g) (init @ [(?t, ?g)])"
    using links_put(2) [of s q init ?t b "[]" ?g] l ps by simp
  moreover have "length (init @ [(?t, ?g)]) = length ps" using ps by simp
  moreover have "lives (init @ [(?t, ?g)]) = butlast (lives ps) @ [last (lives ps) @ xs]"
    using ps live_grow [OF b(2)] by simp
  ultimately show ?thesis by blast
qed

section \<open>The search that does not advance\<close>

lemma replace_walk_stuck:
  assumes "st_mem s h = Some hb" "bk_next hb \<noteq> Some t"
  shows "replace_walk s q (Some h) t a = None"
proof (rule ccontr)
  assume "replace_walk s q (Some h) t a \<noteq> None"
  then obtain r where r: "replace_walk s q (Some h) t a = Some r" by blast
  have "\<not> (x = s \<and> blk = Some h \<and> dst = t)"
    if "replace_walk x y blk dst src = Some r" for x y blk dst src r
  proof (rule replace_walk.raw_induct
      [where P = "\<lambda>x y blk dst src r. \<not> (x = s \<and> blk = Some h \<and> dst = t)", OF _ that])
    fix f x y blk dst src r
    assume IH: "\<And>x y blk dst src r. f x y blk dst src = Some r \<Longrightarrow> \<not> (x = s \<and> blk = Some h \<and> dst = t)"
      and eq: "(case blk of None \<Rightarrow> ret (x, y)
        | Some p \<Rightarrow>
          rbind (load x blk) (\<lambda>b.
            if bk_next b = Some dst
            then rbind (modify x blk (\<lambda>b. b\<lparr>bk_next := Some src\<rparr>)) (\<lambda>s1.
                   rbind (load s1 (Some dst)) (\<lambda>d.
                     rbind (modify s1 (Some src) (\<lambda>n. n\<lparr>bk_next := bk_next d\<rparr>)) (\<lambda>s2.
                       rbind (Recycle s2 (Some dst)) (\<lambda>s3.
                         ret (s3, y\<lparr>bb_tail := (if bb_tail y = Some dst then Some src
                                                else bb_tail y)\<rparr>)))))
            else f x y blk dst src)) = Some r"
    show "\<not> (x = s \<and> blk = Some h \<and> dst = t)"
    proof
      assume "x = s \<and> blk = Some h \<and> dst = t"
      then have "f x y blk dst src = Some r" using eq assms by simp
      then show False using IH \<open>x = s \<and> blk = Some h \<and> dst = t\<close> by blast
    qed
  qed
  with r show False by blast
qed

lemma GetBufferToWrite_diverges:
  assumes rep: "bb_rep s q ps" and n: "0 \<le> n" "n \<le> 2 ^ 29"
    and long: "3 \<le> length ps" and nr: "needs_replace (snd (last ps)) n"
  shows "GetBufferToWrite s q n = None"
proof -
  obtain init t b where ps: "ps = init @ [(t, b)]"
    using long by (metis list.size(3) not_numeral_le_zero rev_exhaust surj_pair)
  obtain h hb g gb rest where init: "init = (h, hb) # (g, gb) # rest"
    using long ps by (cases init; cases "tl init") auto
  have l: "links s q (init @ [(t, b)])" and sh: "shape (map snd (init @ [(t, b)]))"
    using rep ps by (auto simp: bb_rep_def)
  have b: "last_ok b" "block_ok b" using sh last_okD by auto
  have nr: "needs_replace b n" using nr ps by simp
  have x: "bb_tail q = Some t" "st_mem s t = Some b" "bb_head q = Some h" "st_mem s h = Some hb"
    "bk_next hb = Some g" "h \<noteq> t" "g \<noteq> t"
    using l init by (auto simp: links_def)
  have bd: "0 \<le> used b" "bk_rlen b \<le> 2 ^ 30" "used b \<le> bk_rlen b" "used b < 4096"
    using b nr by (auto simp: used_def block_ok_def sized_def needs_replace_def COPY_BLOCK_SIZE_def)
  have cv: "to_u64 n = n" "to_i32 n = n" "to_u64 (used b + n) = used b + n" "used b + n \<le> 2 ^ 30"
    using n bd by (auto intro!: to_u64_id to_i32_id)
  obtain s1 a c where A: "Alloc s (used b + n) = ret (s1, a)" "links s1 q (init @ [(t, b)])"
    "st_mem s1 a = Some c" "idle c" "sized c" "used b + n \<le> bk_rlen c"
    "a \<notin> addrs (init @ [(t, b)])"
    using links_Alloc [OF l cv(4)] by metis
  have y: "st_mem s1 t = Some b" "st_mem s1 h = Some hb" "a \<noteq> t" "a \<noteq> h"
    using A(2,7) init by (auto simp: links_def)
  have lv: "int (length (live b)) = used b" using length_live [OF b(2)] .
  have "replaceBlock s1 q t a = None"
  proof -
    have "block_write c 0 (live b) = ret (c\<lparr>bk_buf := mwrite (bk_buf c) 0 (live b)\<rparr>)"
      using lv A(6) n by (simp add: block_write_def)
    moreover have "used b \<le> bk_len c" using A(4,6) n by (simp add: idle_def)
    moreover have "to_u64 (used b) = used b" using to_u64_used [OF b(2)] by (simp add: used_def)
    moreover have "replace_walk (put s1 a d) q (Some h) t a = None" for d
      using y x by (intro replace_walk_stuck [of _ h hb]) auto
    ultimately show ?thesis
      using y x A(3)
      by (simp add: replaceBlock_def block_read_live [OF b(2)] Let_def used_def [symmetric])
  qed
  moreover have "bk_len b - bk_wrpos b + bk_rdpos b = bk_len b - used b" by (simp add: used_def)
  ultimately have "expand s q n = None"
    using x nr A(1) cv
    by (auto simp: expand_def Let_def used_def [symmetric] needs_replace_def)
  then show ?thesis
    using x nr cv(1) by (simp add: GetBufferToWrite_def needs_replace_def)
qed

end
