(* ===== verification/Block_Buffer_Read.thy ===== *)
theory Block_Buffer_Read
  imports Block_Buffer_Inv
begin

text \<open>
  The reading operations of \<open>BlockBuffer\<close> on the represented byte string: \<open>Move\<close> drops a
  prefix, \<open>Copy\<close> changes nothing, \<open>GetTotalLen\<close> measures and its assertion holds.  What
  \<open>Copy\<close> and \<open>Move\<close> leave in the caller's array is \<open>delivered\<close>: each block's bytes go
  to the start of the array, so that the array holds the prefix asked for when the head
  block has all of it, and otherwise does not.
\<close>

section \<open>What arrives in the caller's array\<close>

fun delivered :: "byte list list \<Rightarrow> nat \<Rightarrow> byte list \<Rightarrow> byte list" where
  "delivered [] n d = d"
| "delivered (x # xs) n d =
     (if n < length x then take n x @ drop n d
      else delivered xs (n - length x) (x @ drop (length x) d))"

lemma delivered_0 [simp]: "delivered xs 0 d = d"
  by (induction xs arbitrary: d) auto

lemma map_delivered [simp]:
  "map_option (delivered xs 0) dest = dest" "map_option (delivered [] n) dest = dest"
  by (cases dest; simp)+

lemma delivered_skip [simp]: "delivered ([] # xs) n = delivered xs n"
  by (rule ext) simp

lemma length_delivered: "n \<le> length d \<Longrightarrow> length (delivered xs n d) = length d"
  by (induction xs n d rule: delivered.induct) auto

lemma delivered_head: "n \<le> length x \<Longrightarrow> delivered (x # xs) n d = take n x @ drop n d"
  by (cases "n = length x") simp_all

lemma memcpy_to_ok: "length xs \<le> length d \<Longrightarrow> memcpy_to d xs = ret (xs @ drop (length xs) d)"
  by (simp add: memcpy_to_def)

section \<open>Copy\<close>

lemma copy_loop_ok:
  assumes "seg (st_mem s) x ps None" "shape (map snd ps)" "0 \<le> n" "n \<le> int (length d)"
  shows "copy_loop s x d n c
           = ret (delivered (lives ps) (nat n) d, c + min n (int (length (content ps))))"
  using assms
proof (induction ps arbitrary: x d n c)
  case Nil
  then show ?case by (subst copy_loop.simps) simp
next
  case (Cons p ps)
  obtain a b where p: "p = (a, b)" by fastforce
  have x: "x = Some a" "st_mem s a = Some b" and sg: "seg (st_mem s) (bk_next b) ps None"
    using Cons.prems(1) p by auto
  have b: "block_ok b" using Cons.prems(2) p shape_block_ok [of "map snd (p # ps)" b] by simp
  have u: "to_u64 (bk_wrpos b - bk_rdpos b) = used b" "int (length (live b)) = used b" "0 \<le> used b"
    using to_u64_used [OF b] length_live [OF b] b by (simp_all add: used_def block_ok_def)
  show ?case
  proof (cases "n < used b")
    case True
    have "length (take (nat n) (live b)) = nat n" "nat n \<le> length d"
      using True u(2) Cons.prems(3,4) by simp_all
    moreover have "nat n < length (live b)" using True u(2) Cons.prems(3) by linarith
    ultimately show ?thesis using Cons.prems(3) True u b
      by (subst copy_loop.simps)
        (simp add: x p block_read_prefix memcpy_to_ok min_def del: length_take)
  next
    case False
    let ?d = "live b @ drop (length (live b)) d"
    have d: "n - used b \<le> int (length ?d)" using False Cons.prems(4) u by simp
    have nn: "nat n - length (live b) = nat (n - used b)" using u(2) by linarith
    have D: "delivered (lives (p # ps)) (nat n) d = delivered (lives ps) (nat (n - used b)) ?d"
      using False u(2) by (simp add: p nn nat_less_iff)
    have chunk: "(if 0 < used b
          then rbind (block_read b (bk_rdpos b) (used b)) (\<lambda>xs.
                 rbind (memcpy_to d xs) (\<lambda>d. ret (d, n - used b, c + used b)))
          else ret (d, n, c)) = ret (?d, n - used b, c + used b)"
    proof (cases "used b = 0")
      case True
      then have "live b = []" using u(2) by simp
      with True show ?thesis by simp
    next
      case nonempty: False
      then show ?thesis using False Cons.prems(4) u block_read_live [OF b]
        by (simp add: memcpy_to_ok)
    qed
    show ?thesis
    proof (cases "bk_wrpos b \<ge> bk_len b")
      case True
      have "shape (map snd ps)" using Cons.prems(2) by (auto simp: shape_Cons split: if_splits)
      then have "copy_loop s (bk_next b) ?d (n - used b) (c + used b) =
          ret (delivered (lives ps) (nat (n - used b)) ?d,
               c + used b + min (n - used b) (int (length (content ps))))"
        using Cons.IH [OF sg] False d by simp
      then show ?thesis unfolding D using False u True
        by (subst copy_loop.simps) (simp add: x p chunk min_def del: delivered.simps, simp add: Let_def)
    next
      case False2: False
      then have "ps = []"
        using Cons.prems(2) p by (auto simp: shape_Cons inner_ok_def split: if_splits)
      then show ?thesis unfolding D using False u False2
        by (subst copy_loop.simps) (simp add: x p chunk min_def)
    qed
  qed
qed

lemma Copy_rep:
  assumes "bb_rep s q ps" "0 \<le> n" "n \<le> int (length d)"
  shows "Copy s q d n = ret (delivered (lives ps) (nat n) d, min n (bb_totallen q))"
proof (cases "bb_head q = None")
  case True
  then show ?thesis
    using assms bb_rep_empty_iff [OF assms(1)] by (simp add: Copy_def bb_rep_def)
next
  case False
  then show ?thesis using assms copy_loop_ok [of s "bb_head q" ps n d 0]
    by (auto simp: Copy_def bb_rep_def links_def)
qed

section \<open>GetTotalLen\<close>

lemma total_loop_ok:
  assumes "seg (st_mem s) x ps None" "shape (map snd ps)" "0 \<le> n"
    "n + int (length (content ps)) < 2 ^ 31"
  shows "total_loop s x n = ret (n + int (length (content ps)))"
  using assms
proof (induction ps arbitrary: x n)
  case Nil
  then show ?case by (subst total_loop.simps) simp
next
  case (Cons p ps)
  obtain a b where p: "p = (a, b)" by fastforce
  have x: "x = Some a" "st_mem s a = Some b" and sg: "seg (st_mem s) (bk_next b) ps None"
    using Cons.prems(1) p by auto
  have b: "block_ok b" using Cons.prems(2) p shape_block_ok [of "map snd (p # ps)" b] by simp
  have u: "to_u64 (bk_wrpos b - bk_rdpos b) = used b" "int (length (live b)) = used b" "0 \<le> used b"
    using to_u64_used [OF b] length_live [OF b] b by (simp_all add: used_def block_ok_def)
  have i: "to_i32 (n + used b) = n + used b"
    using Cons.prems(3,4) u p by (intro to_i32_id) auto
  show ?case
  proof (cases "bk_wrpos b \<ge> bk_len b")
    case True
    have "shape (map snd ps)" using Cons.prems(2) by (auto simp: shape_Cons split: if_splits)
    then have "total_loop s (bk_next b) (n + used b) = ret (n + used b + int (length (content ps)))"
      using Cons.IH [OF sg] Cons.prems(3,4) u p by simp
    then show ?thesis using True u by (subst total_loop.simps) (simp add: x p i)
  next
    case False
    then have "ps = []"
      using Cons.prems(2) p by (auto simp: shape_Cons inner_ok_def split: if_splits)
    then show ?thesis using False u by (subst total_loop.simps) (simp add: x p i)
  qed
qed

lemma GetTotalLen_rep:
  assumes "bb_rep s q ps"
  shows "GetTotalLen s q = ret (int (length (content ps)))"
  using assms total_loop_ok [of s "bb_head q" ps 0]
  by (simp add: GetTotalLen_def bb_rep_def links_def cint_simps)

section \<open>Move\<close>

text \<open>The chain between the loop and the clean-up: the head may be exhausted.\<close>

definition consumed :: "blocks \<Rightarrow> bool" where
  "consumed ps \<longleftrightarrow>
     (\<exists>a b rest. ps = (a, b) # rest \<and> block_ok b \<and>
        (if rest = [] then bk_len b = bk_rlen b else inner_ok b \<and> shape (map snd rest)))"

lemma move_out_ok:
  "\<forall>d. dest = Some d \<longrightarrow> length xs \<le> length d \<Longrightarrow>
     move_out dest xs = ret (map_option (\<lambda>d. xs @ drop (length xs) d) dest)"
  by (cases dest) (simp_all add: move_out_def memcpy_to_ok)

definition advance :: "buffer_block \<Rightarrow> int \<Rightarrow> buffer_block" where
  "advance b n = b\<lparr>bk_rdpos := bk_rdpos b + n\<rparr>"

lemma advance_simps [simp]:
  "bk_next (advance b n) = bk_next b" "bk_len (advance b n) = bk_len b"
  "bk_rlen (advance b n) = bk_rlen b" "bk_wrpos (advance b n) = bk_wrpos b"
  "bk_rdpos (advance b n) = bk_rdpos b + n" "sized (advance b n) = sized b"
  by (simp_all add: advance_def sized_def)

lemma block_ok_advance: "block_ok b \<Longrightarrow> 0 \<le> n \<Longrightarrow> n \<le> used b \<Longrightarrow> block_ok (advance b n)"
  by (simp add: block_ok_def used_def)

lemma live_advance:
  "block_ok b \<Longrightarrow> 0 \<le> n \<Longrightarrow> n \<le> used b \<Longrightarrow> live (advance b n) = drop (nat n) (live b)"
  by (simp add: advance_def live_drop)

lemma consumed_start: "shape (map snd (p # ps)) \<Longrightarrow> consumed (p # ps)"
  unfolding consumed_def by (cases p) (auto simp: shape_Cons inner_ok_def last_ok_def)

definition move_result ::
  "block_store \<Rightarrow> blocks \<Rightarrow> byte list option \<Rightarrow> int \<Rightarrow> int \<Rightarrow> int \<Rightarrow>
    (block_store \<times> block_buffer \<times> addr option \<times> byte list option \<times> int) run \<Rightarrow> bool" where
  "move_result s ps dest n m tot r \<longleftrightarrow>
     (\<exists>s1 q1 ps1. r = ret (s1, q1, bb_head q1,
          map_option (delivered (lives ps) (nat n)) dest, m + min n (int (length (content ps)))) \<and>
        links s1 q1 ps1 \<and> consumed ps1 \<and> evolves s ps s1 ps1 \<and>
        content ps1 = drop (nat n) (content ps) \<and> bb_totallen q1 = tot)"

lemma move_loop_partial:
  assumes l: "links s q ((a, b) # ps)" and sh: "shape (map snd ((a, b) # ps))"
    and n: "0 < n" "n < used b" and d: "\<forall>d. dest = Some d \<longrightarrow> n \<le> int (length d)"
  shows "move_result s ((a, b) # ps) dest n m (bb_totallen q) (move_loop s q (Some a) dest n m)"
proof -
  have b: "block_ok b" using sh shape_block_ok [of "map snd ((a, b) # ps)" b] by simp
  have u: "to_u64 (bk_wrpos b - bk_rdpos b) = used b" "int (length (live b)) = used b"
    using to_u64_used [OF b] length_live [OF b] by simp_all
  have x: "st_mem s a = Some b" "bb_head q = Some a" using l by (auto simp: links_def)
  have r: "to_i32 (bk_rdpos b + n) = bk_rdpos b + n"
    using n b by (intro to_i32_id) (auto simp: block_ok_def used_def sized_def)
  have o: "move_out dest (take (nat n) (live b))
      = ret (map_option (delivered (lives ((a, b) # ps)) (nat n)) dest)"
  proof -
    have "length (take (nat n) (live b)) = nat n" using n u(2) by simp
    moreover have "nat n < length (live b)" using n u(2) by linarith
    ultimately show ?thesis using d by (subst move_out_ok) (auto cong: map_option_cong)
  qed
  have "move_loop s q (Some a) dest n m = ret (put s a (advance b n), q, Some a,
      map_option (delivered (lives ((a, b) # ps)) (nat n)) dest, m + n)"
    using n b by (subst move_loop.simps) (simp add: x u r o block_read_prefix advance_def)
  moreover have "links (put s a (advance b n)) q ((a, advance b n) # ps)"
    "evolves s ((a, b) # ps) (put s a (advance b n)) ((a, advance b n) # ps)"
    using links_put [of s q "[]" a b ps "advance b n"] l by simp_all
  moreover have "consumed ((a, advance b n) # ps)"
    using sh n block_ok_advance [OF b, of n]
    by (auto simp: consumed_def shape_Cons inner_ok_def last_ok_def used_def split: if_splits)
  moreover have "content ((a, advance b n) # ps) = drop (nat n) (content ((a, b) # ps))"
    using n b u(2) live_advance [OF b, of n] by simp
  moreover have "m + min n (int (length (content ((a, b) # ps)))) = m + n"
    using n u(2) by simp
  ultimately show ?thesis using x(2)
    unfolding move_result_def
    by (intro exI [of _ "put s a (advance b n)"] exI [of _ q] exI [of _ "(a, advance b n) # ps"])
      (simp del: content_simps lives_simps)
qed

lemma move_loop_ok:
  assumes "links s q (p # ps)" "shape (map snd (p # ps))" "0 \<le> n"
    "\<forall>d. dest = Some d \<longrightarrow> n \<le> int (length d)"
  shows "move_result s (p # ps) dest n m (bb_totallen q) (move_loop s q (Some (fst p)) dest n m)"
  using assms
proof (induction ps arbitrary: s q p n m dest)
  case Nil
  obtain a b where p: "p = (a, b)" by fastforce
  have x: "st_mem s a = Some b" "bb_head q = Some a" "bk_next b = None"
    using Nil.prems(1) p by (auto simp: links_def)
  have b: "block_ok b" using Nil.prems(2) p last_okD by simp
  have u: "to_u64 (bk_wrpos b - bk_rdpos b) = used b" "int (length (live b)) = used b" "0 \<le> used b"
    using to_u64_used [OF b] length_live [OF b] b by (simp_all add: used_def block_ok_def)
  consider "n = 0" | "0 < n" "n < used b" | "0 < n" "used b \<le> n" using Nil.prems(3) by linarith
  then show ?case
  proof cases
    case 1
    then have "move_loop s q (Some (fst p)) dest n m = ret (s, q, bb_head q, dest, m)"
      by (subst move_loop.simps) (simp add: p x)
    then show ?thesis
      using 1 Nil.prems consumed_start [OF Nil.prems(2)] unfolding move_result_def
      by (intro exI [of _ s] exI [of _ q] exI [of _ "[p]"]) simp
  next
    case 2
    then show ?thesis using move_loop_partial Nil.prems p by simp
  next
    case 3
    let ?b = "advance b (used b)"
    have o: "move_out dest (live b) = ret (map_option (delivered (lives [p]) (nat n)) dest)"
    proof -
      have "\<not> nat n < length (live b)" using 3 u(2) by linarith
      then show ?thesis
        using 3 Nil.prems(4) u by (subst move_out_ok) (auto simp: p split: option.splits, cases dest, simp_all)
    qed
    have mv: "(if 0 < used b
          then rbind (block_read b (bk_rdpos b) (used b)) (\<lambda>xs.
                 rbind (move_out dest xs) (\<lambda>d.
                   ret (put s a (b\<lparr>bk_rdpos := bk_wrpos b\<rparr>), d, n - used b, m + used b)))
          else ret (s, dest, n, m))
        = ret (put s a ?b, map_option (delivered (lives [p]) (nat n)) dest, n - used b, m + used b)"
    proof (cases "used b = 0")
      case True
      have "put s a ?b = s" using True x(1) by (simp add: put_def advance_def fun_upd_idem)
      moreover have "live b = []" using True u(2) by simp
      ultimately show ?thesis using True by (simp add: p)
    next
      case False
      then show ?thesis using u(3) block_read_live [OF b] o
        by (simp add: advance_def used_def)
    qed
    have "move_loop s q (Some a) dest n m = ret (put s a ?b, q, bb_head q,
        map_option (delivered (lives [p]) (nat n)) dest, m + used b)"
      using 3 by (subst move_loop.simps) (simp add: x u mv, simp add: Let_def)
    moreover have "links (put s a ?b) q [(a, ?b)]" "evolves s [p] (put s a ?b) [(a, ?b)]"
      using links_put [of s q "[]" a b "[]" ?b] Nil.prems(1) p by simp_all
    moreover have "consumed [(a, ?b)]"
      using Nil.prems(2) p block_ok_advance [OF b, of "used b"] u(3)
      by (auto simp: consumed_def last_ok_def)
    moreover have "content [(a, ?b)] = drop (nat n) (content [p])"
      using live_advance [OF b, of "used b"] u 3 p by simp
    moreover have "m + min n (int (length (content [p]))) = m + used b"
      using 3 u p by simp
    ultimately show ?thesis unfolding move_result_def p
      by (intro exI [of _ "put s a ?b"] exI [of _ q] exI [of _ "[(a, ?b)]"])
        (simp del: content_simps lives_simps)
  qed
next
  case (Cons p2 ps)
  obtain a b where p: "p = (a, b)" by fastforce
  have x: "st_mem s a = Some b" "bb_head q = Some a" "bk_next b = Some (fst p2)"
    using Cons.prems(1) p by (auto simp: links_def)
  have bi: "inner_ok b" and sh: "shape (map snd (p2 # ps))" using Cons.prems(2) p by auto
  have b: "block_ok b" "sized b" using bi by (auto simp: inner_ok_def block_ok_def)
  have u: "to_u64 (bk_wrpos b - bk_rdpos b) = used b" "int (length (live b)) = used b" "0 < used b"
    using to_u64_used [OF b(1)] length_live [OF b(1)] used_inner_pos [OF bi] by simp_all
  consider "n = 0" | "0 < n" "n < used b" | "0 < n" "used b \<le> n" using Cons.prems(3) by linarith
  then show ?case
  proof cases
    case 1
    then have "move_loop s q (Some (fst p)) dest n m = ret (s, q, bb_head q, dest, m)"
      by (subst move_loop.simps) (simp add: p x)
    then show ?thesis
      using 1 Cons.prems consumed_start [OF Cons.prems(2)] unfolding move_result_def
      by (intro exI [of _ s] exI [of _ q] exI [of _ "p # p2 # ps"]) simp
  next
    case 2
    then show ?thesis using move_loop_partial Cons.prems p by simp
  next
    case 3
    let ?b = "advance b (used b)"
    let ?d = "map_option (\<lambda>d. live b @ drop (length (live b)) d) dest"
    let ?q = "q\<lparr>bb_head := Some (fst p2)\<rparr>"
    have o: "move_out dest (live b) = ret ?d"
      using 3 Cons.prems(4) u by (subst move_out_ok) auto
    have lp: "links (put s a ?b) q ((a, ?b) # p2 # ps)"
      "evolves s (p # p2 # ps) (put s a ?b) ((a, ?b) # p2 # ps)"
      using links_put [of s q "[]" a b "p2 # ps" ?b] Cons.prems(1) p by simp_all
    obtain s2 where R: "Recycle (put s a ?b) (Some a) = ret s2" "links s2 ?q (p2 # ps)"
      "evolves (put s a ?b) ((a, ?b) # p2 # ps) s2 (p2 # ps)"
      using links_pop [OF lp(1), of ?q] x(3) b(2) by auto
    have "move_result s2 (p2 # ps) ?d (n - used b) (m + used b) (bb_totallen ?q)
        (move_loop s2 ?q (Some (fst p2)) ?d (n - used b) (m + used b))"
      using 3 Cons.prems(4) u by (intro Cons.IH [OF R(2) sh]) auto
    moreover have "move_loop s q (Some (fst p)) dest n m
        = move_loop s2 ?q (Some (fst p2)) ?d (n - used b) (m + used b)"
    proof -
      have full: "bk_wrpos b = bk_len b" using bi by (simp add: inner_ok_def)
      have bb: "b\<lparr>bk_rdpos := bk_len b\<rparr> = ?b" by (simp add: advance_def used_def full)
      show ?thesis using full 3 u
        by (subst move_loop.simps)
          (simp add: p x block_read_live [OF b(1)] o bb R(1), simp add: Let_def bb R(1))
    qed
    moreover have "map_option (delivered (lives (p2 # ps)) (nat (n - used b))) ?d
        = map_option (delivered (lives (p # p2 # ps)) (nat n)) dest"
    proof -
      have "\<not> nat n < length (live b)" "nat n - length (live b) = nat (n - used b)"
        using 3 u by linarith+
      then show ?thesis by (cases dest) (simp_all add: p)
    qed
    moreover have "drop (nat (n - used b)) (content (p2 # ps)) = drop (nat n) (content (p # p2 # ps))"
    proof -
      have "nat n - length (live b) = nat (n - used b)" "length (live b) \<le> nat n"
        using 3 u by linarith+
      then show ?thesis by (simp add: p)
    qed
    moreover have "m + used b + min (n - used b) (int (length (content (p2 # ps))))
        = m + min n (int (length (content (p # p2 # ps))))"
      using u(2) 3 by (simp add: p min_def)
    moreover have "evolves s (p # p2 # ps) s2 (p2 # ps)" using lp(2) R(3) by (rule evolves_trans)
    ultimately show ?thesis
      unfolding move_result_def by (auto simp del: lives_simps content_simps intro: evolves_trans)
  qed
qed

lemma move_finish_ok:
  assumes l: "links s q ps" and c: "consumed ps"
  obtains s1 q1 ps1 where "move_finish s q (bb_head q) = ret (s1, q1)" "links s1 q1 ps1"
    "shape (map snd ps1)" "content ps1 = content ps" "evolves s ps s1 ps1"
    "bb_totallen q1 = bb_totallen q"
proof -
  obtain a b rest where ps: "ps = (a, b) # rest" and b: "block_ok b"
    "if rest = [] then bk_len b = bk_rlen b else inner_ok b \<and> shape (map snd rest)"
    using c unfolding consumed_def by blast
  have x: "bb_head q = Some a" "st_mem s a = Some b" using l ps by (auto simp: links_def)
  show ?thesis
  proof (cases "bk_rdpos b = bk_wrpos b")
    case False
    then have "shape (map snd ps)" using b ps by (auto simp: shape_Cons last_ok_def block_ok_def)
    then show ?thesis using that [OF _ l] False x by (simp add: move_finish_def)
  next
    case True
    then have rest: "rest = []" "bk_len b = bk_rlen b" using b(2) by (auto simp: inner_ok_def split: if_splits)
    have nx: "bk_next b = None" using l ps rest by (auto simp: links_def)
    have sz: "sized b" "live b = []" using b(1) True by (simp_all add: block_ok_def live_def used_def)
    show ?thesis
    proof (cases "bk_len b \<le> MID_BLOCK_SIZE")
      case mid: True
      let ?b = "b\<lparr>bk_rdpos := 0, bk_wrpos := 0, bk_len := bk_rlen b\<rparr>"
      have "links (put s a ?b) q [(a, ?b)]" "evolves s ps (put s a ?b) [(a, ?b)]"
        using links_put [of s q "[]" a b "[]" ?b] l ps rest by simp_all
      moreover have "last_ok ?b" "live ?b = []"
        using sz(1) by (auto simp: last_ok_def block_ok_def sized_def live_def used_def)
      moreover have "move_finish s q (bb_head q) = ret (put s a ?b, q)"
        using True mid x by (simp add: move_finish_def)
      ultimately show ?thesis using that [of "put s a ?b" q "[(a, ?b)]"] sz ps rest by simp
    next
      case big: False
      let ?q = "q\<lparr>bb_head := None, bb_tail := None\<rparr>"
      obtain s1 where R: "Recycle s (Some a) = ret s1" "links s1 ?q []" "evolves s [(a, b)] s1 []"
        using links_pop [of s q a b "[]" ?q] l ps rest sz nx by auto
      have "move_finish s q (bb_head q) = ret (s1, ?q)"
        using True big x R(1) nx by (simp add: move_finish_def)
      then show ?thesis using that [of s1 ?q "[]"] R ps rest sz by simp
    qed
  qed
qed

lemma Move_rep:
  assumes rep: "bb_rep s q ps" and n: "0 \<le> n"
    and d: "\<forall>d. dest = Some d \<longrightarrow> n \<le> int (length d)"
  shows "\<exists>s1 q1 ps1. Move s q dest n
           = ret (s1, q1, map_option (delivered (lives ps) (nat n)) dest, min n (bb_totallen q)) \<and>
         bb_rep s1 q1 ps1 \<and> content ps1 = drop (nat n) (content ps) \<and> evolves s ps s1 ps1"
proof (cases ps)
  case Nil
  then have "bb_head q = None" "bb_totallen q = 0"
    using bb_rep_empty_iff [OF rep] rep by (auto simp: bb_rep_def)
  then show ?thesis using rep Nil n
    by (intro exI [of _ s] exI [of _ q] exI [of _ "[]"])
      (simp add: Move_def)
next
  case (Cons p rest)
  have l: "links s q (p # rest)" and sh: "shape (map snd (p # rest))"
    and t: "bb_totallen q = int (length (content ps))" "bb_totallen q < 2 ^ 31"
    using rep Cons by (auto simp: bb_rep_def)
  have h: "bb_head q = Some (fst p)" using l by (auto simp: links_def)
  obtain s1 q1 ps1 where L: "move_loop s q (Some (fst p)) dest n 0 = ret (s1, q1, bb_head q1,
        map_option (delivered (lives ps) (nat n)) dest, min n (bb_totallen q))"
    "links s1 q1 ps1" "consumed ps1" "evolves s ps s1 ps1"
    "content ps1 = drop (nat n) (content ps)" "bb_totallen q1 = bb_totallen q"
    using move_loop_ok [OF l sh n d, of 0] Cons t(1) unfolding move_result_def by auto
  obtain s2 q2 ps2 where F: "move_finish s1 q1 (bb_head q1) = ret (s2, q2)" "links s2 q2 ps2"
    "shape (map snd ps2)" "content ps2 = content ps1" "evolves s1 ps1 s2 ps2"
    "bb_totallen q2 = bb_totallen q1"
    using move_finish_ok [OF L(2,3)] by blast
  let ?q = "q2\<lparr>bb_totallen := bb_totallen q - min n (bb_totallen q)\<rparr>"
  have "to_i32 (bb_totallen q - min n (bb_totallen q)) = bb_totallen q - min n (bb_totallen q)"
    using n t by (intro to_i32_id) auto
  then have "Move s q dest n
      = ret (s2, ?q, map_option (delivered (lives ps) (nat n)) dest, min n (bb_totallen q))"
    using h L(1,6) F(1,6) by (simp add: Move_def)
  moreover have "bb_rep s2 ?q ps2"
    using F L(5) t n by (auto simp: bb_rep_def links_def min_def)
  ultimately show ?thesis using F L by (auto intro: evolves_trans)
qed

end
