(* ===== verification/Block_Buffer_Spec.thy ===== *)
theory Block_Buffer_Spec
  imports Block_Buffer_Write Block_Buffer_Read
begin

text \<open>
  What \<open>BlockBuffer\<close> promises its clients, as the interface \<open>byte_buffer\<close>: a byte string to
  which data is appended and from whose front bytes are removed.  \<open>BlockBuffer\<close> provides it
  on the shared store; the section after the interpretation holds the properties of the
  component.
\<close>

section \<open>The interface\<close>

datatype buffer_op = Put "byte list" | Take int | Size

text \<open>Run a sequence of operations, collecting the lengths that \<open>Take\<close> and \<open>Size\<close> return.\<close>

fun run_buffer ::
  "('st \<Rightarrow> byte list \<Rightarrow> 'st run) \<Rightarrow> ('st \<Rightarrow> int \<Rightarrow> ('st \<times> int) run) \<Rightarrow> ('st \<Rightarrow> int run) \<Rightarrow> 'st \<Rightarrow>
     buffer_op list \<Rightarrow> ('st \<times> int list) run" where
  "run_buffer ins rem len st [] = ret (st, [])"
| "run_buffer ins rem len st (Put xs # ops) =
     rbind (ins st xs) (\<lambda>st1. run_buffer ins rem len st1 ops)"
| "run_buffer ins rem len st (Take n # ops) =
     rbind (rem st n) (\<lambda>(st1, k).
       rbind (run_buffer ins rem len st1 ops) (\<lambda>(st2, ks). ret (st2, k # ks)))"
| "run_buffer ins rem len st (Size # ops) =
     rbind (len st) (\<lambda>k.
       rbind (run_buffer ins rem len st ops) (\<lambda>(st2, ks). ret (st2, k # ks)))"

text \<open>The same operations on the byte string itself.\<close>

fun spec_buffer :: "byte list \<Rightarrow> buffer_op list \<Rightarrow> byte list \<times> int list" where
  "spec_buffer c [] = (c, [])"
| "spec_buffer c (Put xs # ops) = spec_buffer (c @ xs) ops"
| "spec_buffer c (Take n # ops) =
     (let (d, ks) = spec_buffer (drop (nat n) c) ops in (d, min n (int (length c)) # ks))"
| "spec_buffer c (Size # ops) = (let (d, ks) = spec_buffer c ops in (d, int (length c) # ks))"

text \<open>The bound within which the 32-bit positions and lengths cannot overflow.\<close>

fun ops_bytes :: "buffer_op list \<Rightarrow> nat" where
  "ops_bytes [] = 0"
| "ops_bytes (Put xs # ops) = length xs + ops_bytes ops"
| "ops_bytes (_ # ops) = ops_bytes ops"

definition takes_ok :: "buffer_op list \<Rightarrow> bool" where
  "takes_ok ops \<longleftrightarrow> (\<forall>n. Take n \<in> set ops \<longrightarrow> 0 \<le> n)"

locale byte_buffer =
  fixes repr :: "'st \<Rightarrow> byte list \<Rightarrow> bool"
    and ins :: "'st \<Rightarrow> byte list \<Rightarrow> 'st run"
    and rem :: "'st \<Rightarrow> int \<Rightarrow> ('st \<times> int) run"
    and len :: "'st \<Rightarrow> int run"
  assumes ins: "repr st c \<Longrightarrow> length c + length xs \<le> 2 ^ 30 \<Longrightarrow>
      \<exists>st1. ins st xs = ret st1 \<and> repr st1 (c @ xs)"
    and rem: "repr st c \<Longrightarrow> 0 \<le> n \<Longrightarrow>
      \<exists>st1. rem st n = ret (st1, min n (int (length c))) \<and> repr st1 (drop (nat n) c)"
    and len: "repr st c \<Longrightarrow> len st = ret (int (length c))"
begin

lemma run_refines:
  assumes "repr st c" "length c + ops_bytes ops \<le> 2 ^ 30" "takes_ok ops"
  shows "\<exists>st1. run_buffer ins rem len st ops = ret (st1, snd (spec_buffer c ops)) \<and>
           repr st1 (fst (spec_buffer c ops))"
  using assms
proof (induction ops arbitrary: st c)
  case Nil
  then show ?case by simp
next
  case (Cons p ops)
  have t: "takes_ok ops" using Cons.prems(3) by (simp add: takes_ok_def)
  show ?case
  proof (cases p)
    case (Put xs)
    then have "length c + length xs \<le> 2 ^ 30" using Cons.prems(2) by simp
    then obtain st1 where "ins st xs = ret st1" "repr st1 (c @ xs)" using ins Cons.prems(1) by blast
    then show ?thesis using Cons.IH [of st1 "c @ xs"] Cons.prems(2) t Put by simp
  next
    case (Take n)
    then have "0 \<le> n" using Cons.prems(3) by (simp add: takes_ok_def)
    then obtain st1 where "rem st n = ret (st1, min n (int (length c)))" "repr st1 (drop (nat n) c)"
      using rem Cons.prems(1) by blast
    moreover have "length (drop (nat n) c) + ops_bytes ops \<le> 2 ^ 30" using Cons.prems(2) Take by simp
    ultimately show ?thesis
      using Cons.IH [of st1 "drop (nat n) c"] t Take by (auto split: prod.splits)
  next
    case Size
    then show ?thesis
      using Cons.IH [of st c] Cons.prems len [OF Cons.prems(1)] t by (auto split: prod.splits)
  qed
qed

text \<open>Bytes leave in the order in which they came.\<close>

lemma rem_ins:
  assumes "repr st c" "length c + length xs \<le> 2 ^ 30"
  shows "\<exists>st1 st2. ins st xs = ret st1 \<and> rem st1 (int (length c)) = ret (st2, int (length c)) \<and>
           repr st2 xs"
proof -
  obtain st1 where "ins st xs = ret st1" "repr st1 (c @ xs)" using ins assms by blast
  moreover obtain st2 where "rem st1 (int (length c)) = ret (st2, min (int (length c)) (int (length (c @ xs))))"
    "repr st2 (drop (nat (int (length c))) (c @ xs))"
    using rem [OF \<open>repr st1 (c @ xs)\<close>, of "int (length c)"] by auto
  ultimately show ?thesis by auto
qed

end

section \<open>The interpretation\<close>

text \<open>The represented bytes, whatever the chain.\<close>

definition bb_holds :: "block_store \<times> block_buffer \<Rightarrow> byte list \<Rightarrow> bool" where
  "bb_holds st c \<longleftrightarrow> (\<exists>ps. bb_rep (fst st) (snd st) ps \<and> content ps = c)"

definition bb_ins :: "block_store \<times> block_buffer \<Rightarrow> byte list \<Rightarrow> (block_store \<times> block_buffer) run" where
  "bb_ins st xs = Insert (fst st) (snd st) xs"

definition bb_rem :: "block_store \<times> block_buffer \<Rightarrow> int \<Rightarrow> ((block_store \<times> block_buffer) \<times> int) run" where
  "bb_rem st n = rbind (Move (fst st) (snd st) None n) (\<lambda>(s, q, _, k). ret ((s, q), k))"

definition bb_len :: "block_store \<times> block_buffer \<Rightarrow> int run" where
  "bb_len st = GetTotalLen (fst st) (snd st)"

interpretation bb: byte_buffer bb_holds bb_ins bb_rem bb_len
proof unfold_locales
  fix st and c xs :: "byte list"
  assume "bb_holds st c" "length c + length xs \<le> 2 ^ 30"
  then obtain ps where "bb_rep (fst st) (snd st) ps" "content ps = c"
    "int (length xs) \<le> 2 ^ 30" "bb_totallen (snd st) + int (length xs) < 2 ^ 31"
    by (auto simp: bb_holds_def bb_rep_def)
  then show "\<exists>st1. bb_ins st xs = ret st1 \<and> bb_holds st1 (c @ xs)"
    using Insert_rep [of "fst st" "snd st" ps xs] by (fastforce simp: bb_ins_def bb_holds_def)
next
  fix st c and n :: int
  assume h: "bb_holds st c" and n: "0 \<le> n"
  then obtain ps where ps: "bb_rep (fst st) (snd st) ps" "content ps = c"
    by (auto simp: bb_holds_def)
  then have "bb_totallen (snd st) = int (length c)" by (simp add: bb_rep_def)
  then show "\<exists>st1. bb_rem st n = ret (st1, min n (int (length c))) \<and> bb_holds st1 (drop (nat n) c)"
    using Move_rep [OF ps(1) n, of None] ps(2) by (fastforce simp: bb_rem_def bb_holds_def)
next
  fix st c
  assume "bb_holds st c"
  then show "bb_len st = ret (int (length c))"
    by (auto simp: bb_holds_def bb_len_def GetTotalLen_rep)
qed

section \<open>The destructor\<close>

lemma destroy_loop_ok:
  assumes "links s q ps" "\<forall>p \<in> set ps. sized (snd p)"
  shows "\<exists>s1. destroy_loop s (bb_head q) = ret s1 \<and> store_ok s1 \<and> evolves s ps s1 [] \<and>
           pooled s1 = pooled s \<union> addrs ps"
  using assms
proof (induction ps arbitrary: s q)
  case Nil
  then show ?case by (subst destroy_loop.simps) (auto simp: links_def evolves_def)
next
  case (Cons p ps)
  obtain a b where p: "p = (a, b)" by fastforce
  have x: "bb_head q = Some a" "st_mem s a = Some b" "store_ok s" "a \<notin> pooled s"
    using Cons.prems(1) p by (auto simp: links_def)
  let ?q = "q\<lparr>bb_head := bk_next b, bb_tail := (if ps = [] then None else bb_tail q)\<rparr>"
  have sz: "sized b" using Cons.prems(2) p by simp
  obtain s1 where R: "Recycle s (Some a) = ret s1" "links s1 ?q ps" "evolves s ((a, b) # ps) s1 ps"
    using links_pop [of s q a b ps ?q] Cons.prems(1) p sz by auto
  have "pooled s1 = insert a (pooled s)"
    using Recycle_ok [OF x(3,2) sz x(4)] R(1) by (metis ret_inject)
  moreover obtain s2 where "destroy_loop s1 (bk_next b) = ret s2" "store_ok s2" "evolves s1 ps s2 []"
    "pooled s2 = pooled s1 \<union> addrs ps"
    using Cons.IH [OF R(2)] Cons.prems(2) by auto
  ultimately show ?case
    using x R(1,3) p by (subst destroy_loop.simps) (auto intro: evolves_trans)
qed

lemma delete_BlockBuffer_rep:
  assumes "bb_rep s q ps"
  shows "\<exists>s1. delete_BlockBuffer s q = ret (s1, new_BlockBuffer) \<and> store_ok s1 \<and>
           pooled s1 = pooled s \<union> addrs ps \<and> evolves s ps s1 []"
proof -
  have "\<forall>p \<in> set ps. sized (snd p)"
    using assms shape_block_ok [of "map snd ps"] by (auto simp: bb_rep_def block_ok_def)
  moreover have "links s q ps" using assms by (simp add: bb_rep_def)
  ultimately show ?thesis
    using destroy_loop_ok [of s q ps] by (auto simp: delete_BlockBuffer_def new_BlockBuffer_def)
qed

section \<open>Properties of the component\<close>

definition empty_store :: "(addr \<Rightarrow> region) \<Rightarrow> block_store" where
  "empty_store junk = \<lparr>st_mem = (\<lambda>_. None), st_brk = 0, st_pool = (\<lambda>_. []), st_junk = junk\<rparr>"

lemma store_ok_empty: "store_ok (empty_store junk)"
  by (simp add: store_ok_def empty_store_def)

lemma bb_holds_new: "bb_holds (empty_store junk, new_BlockBuffer) []"
  using bb_rep_new [OF store_ok_empty] by (auto simp: bb_holds_def intro!: exI [of _ "[]"])

text \<open>C5. Whatever sequence of \<open>Insert\<close>, \<open>Move\<close> (dropping) and \<open>GetTotalLen\<close> calls is made on a
  fresh \<open>BlockBuffer\<close>, as long as at most 2^30 bytes go in, no call faults or fails to
  return, no assertion fails, every returned length is the one of a plain byte string, and
  the buffer holds the bytes the byte string would hold.\<close>

theorem BlockBuffer_refines_bytes:
  assumes "ops_bytes ops \<le> 2 ^ 30" "takes_ok ops"
  shows "\<exists>st. run_buffer bb_ins bb_rem bb_len (empty_store junk, new_BlockBuffer) ops
           = ret (st, snd (spec_buffer [] ops)) \<and> bb_holds st (fst (spec_buffer [] ops))"
  using assms bb.run_refines [OF bb_holds_new, of ops] by simp

lemma BlockBuffer_refines_bytes_witness:
  "\<exists>st. run_buffer bb_ins bb_rem bb_len (empty_store (\<lambda>_ _. 7), new_BlockBuffer)
      [Put [1, 2, 3], Take 2, Size] = ret (st, [2, 1]) \<and> bb_holds st [3]"
  using BlockBuffer_refines_bytes [of "[Put [1, 2, 3], Take 2, Size]" "\<lambda>_ _. 7"]
  by (simp add: takes_ok_def)

subsection \<open>Example states for the witnesses\<close>

definition block :: "int \<Rightarrow> int \<Rightarrow> addr option \<Rightarrow> buffer_block" where
  "block rd wr nx =
     \<lparr>bk_buf = (\<lambda>i. word_of_int i), bk_len = 512, bk_rlen = 512, bk_rdpos = rd, bk_wrpos = wr,
      bk_next = nx\<rparr>"

definition chain2 :: blocks where
  "chain2 = [(0, block 510 512 (Some 1)), (1, block 0 3 None)]"

definition chain3 :: blocks where
  "chain3 = [(0, block 510 512 (Some 1)), (1, block 0 512 (Some 2)), (2, block 0 500 None)]"

definition store_of :: "blocks \<Rightarrow> block_store" where
  "store_of ps = \<lparr>st_mem = map_of ps, st_brk = 3, st_pool = (\<lambda>_. []), st_junk = (\<lambda>_ _. 0)\<rparr>"

definition buffer2 :: block_buffer where
  "buffer2 = \<lparr>bb_head = Some 0, bb_tail = Some 1, bb_totallen = 5\<rparr>"

definition buffer3 :: block_buffer where
  "buffer3 = \<lparr>bb_head = Some 0, bb_tail = Some 2, bb_totallen = 1014\<rparr>"

lemma length_live_block: "rd \<le> wr \<Longrightarrow> length (live (block rd wr nx)) = nat (wr - rd)"
  by (simp add: live_def used_def block_def)

lemma bb_rep_chain2: "bb_rep (store_of chain2) buffer2 chain2"
  unfolding bb_rep_def links_def chain2_def
  by (simp add: store_of_def buffer2_def store_ok_def pooled_def length_live_block)
    (simp add: block_def inner_ok_def last_ok_def block_ok_def sized_def)

lemma bb_rep_chain3: "bb_rep (store_of chain3) buffer3 chain3"
  unfolding bb_rep_def links_def chain3_def
  by (simp add: store_of_def buffer3_def store_ok_def pooled_def length_live_block)
    (simp add: block_def inner_ok_def last_ok_def block_ok_def sized_def)

lemma bb_rep_new_beside: "bb_rep (store_of ps) new_BlockBuffer [] \<longleftrightarrow> store_ok (store_of ps)"
  by (simp add: bb_rep_def links_def new_BlockBuffer_def)

subsection \<open>Appending and removing\<close>

text \<open>\<open>Insert\<close> appends its data, whatever the chain and the pool look like, and it touches
  no block of any other buffer on the same pool: the other buffer holds what it held and the
  two still share no block.\<close>

theorem Insert_appends_separately:
  assumes "bb_rep s q ps" "bb_rep s q' ps'" "addrs ps' \<inter> addrs ps = {}"
    "length (content ps) + length data \<le> 2 ^ 30"
  shows "\<exists>s1 q1 ps1. Insert s q data = ret (s1, q1) \<and> bb_rep s1 q1 ps1 \<and>
           content ps1 = content ps @ data \<and> bb_rep s1 q' ps' \<and> addrs ps' \<inter> addrs ps1 = {}"
proof -
  have "int (length data) \<le> 2 ^ 30" "bb_totallen q + int (length data) < 2 ^ 31"
    using assms(1,4) by (auto simp: bb_rep_def)
  then obtain s1 q1 ps1 where I: "Insert s q data = ret (s1, q1)" "bb_rep s1 q1 ps1"
    "content ps1 = content ps @ data" "evolves s ps s1 ps1"
    using Insert_rep [OF assms(1)] by blast
  have "store_ok s1" using I(2) by (simp add: bb_rep_def links_def)
  then show ?thesis using bb_rep_frame [OF assms(2) I(4)] assms(3) I by blast
qed

lemma Insert_appends_separately_witness:
  "\<exists>s1 q1 ps1. Insert (store_of chain2) new_BlockBuffer [1, 2] = ret (s1, q1) \<and> bb_rep s1 q1 ps1 \<and>
     content ps1 = [1, 2] \<and> bb_rep s1 buffer2 chain2 \<and> addrs chain2 \<inter> addrs ps1 = {}"
proof -
  have "bb_rep (store_of chain2) new_BlockBuffer []"
    using bb_rep_chain2 by (simp only: bb_rep_new_beside) (simp add: bb_rep_def links_def)
  from Insert_appends_separately [OF this bb_rep_chain2, of "[1, 2]"] show ?thesis by simp
qed

text \<open>\<open>Move\<close> removes the first \<open>min n total\<close> bytes and returns that number, giving exhausted
  blocks back to the pool; the caller's array, if there is one, gets each block's bytes at its
  start (\<open>delivered\<close>); no other buffer on the pool is touched.\<close>

theorem Move_drops_separately:
  assumes "bb_rep s q ps" "bb_rep s q' ps'" "addrs ps' \<inter> addrs ps = {}" "0 \<le> n"
    "\<forall>d. dest = Some d \<longrightarrow> n \<le> int (length d)"
  shows "\<exists>s1 q1 ps1. Move s q dest n = ret (s1, q1, map_option (delivered (lives ps) (nat n)) dest,
             min n (int (length (content ps)))) \<and>
           bb_rep s1 q1 ps1 \<and> content ps1 = drop (nat n) (content ps) \<and> bb_rep s1 q' ps' \<and>
           addrs ps' \<inter> addrs ps1 = {}"
proof -
  obtain s1 q1 ps1 where M: "Move s q dest n
      = ret (s1, q1, map_option (delivered (lives ps) (nat n)) dest, min n (bb_totallen q))"
    "bb_rep s1 q1 ps1" "content ps1 = drop (nat n) (content ps)" "evolves s ps s1 ps1"
    using Move_rep [OF assms(1,4,5)] by blast
  have "store_ok s1" "bb_totallen q = int (length (content ps))"
    using M(2) assms(1) by (simp_all add: bb_rep_def links_def)
  then show ?thesis using bb_rep_frame [OF assms(2) M(4)] assms(3) M by auto
qed

lemma Move_drops_separately_witness:
  "\<exists>s1 q1 ps1. Move (store_of chain2) buffer2 None 3 = ret (s1, q1, None, 3) \<and>
     bb_rep s1 q1 ps1 \<and> content ps1 = drop 3 (content chain2) \<and> bb_rep s1 new_BlockBuffer [] \<and>
     addrs [] \<inter> addrs ps1 = {}"
proof -
  have "bb_rep (store_of chain2) new_BlockBuffer []"
    using bb_rep_chain2 by (simp only: bb_rep_new_beside) (simp add: bb_rep_def links_def)
  moreover have "length (content chain2) = 5" by (simp add: chain2_def length_live_block)
  ultimately show ?thesis
    using Move_drops_separately [OF bb_rep_chain2, of new_BlockBuffer "[]" 3 None] by simp
qed

subsection \<open>Copying out\<close>

text \<open>\<open>Copy\<close> leaves the buffer alone and fills the caller's array with the first \<open>n\<close> bytes
  when the head block holds that many.\<close>

theorem Copy_within_head:
  assumes "bb_rep s q (p # ps)" "0 \<le> n" "n \<le> used (snd p)" "n \<le> int (length d)"
  shows "Copy s q d n = ret (take (nat n) (content (p # ps)) @ drop (nat n) d, n)"
proof -
  have b: "block_ok (snd p)"
    using assms(1) shape_block_ok [of "map snd (p # ps)" "snd p"] by (simp add: bb_rep_def)
  then have l: "int (length (live (snd p))) = used (snd p)" by (rule length_live)
  then have "nat n \<le> length (live (snd p))" using assms(3) by linarith
  moreover have "min n (bb_totallen q) = n" using assms(1,3) l by (simp add: bb_rep_def)
  ultimately show ?thesis
    using Copy_rep [OF assms(1,2,4)] by (simp add: delivered_head del: delivered.simps)
qed

lemma Copy_within_head_witness:
  "Copy (store_of chain2) buffer2 [7, 7, 7, 7] 2
     = ret (take 2 (content chain2) @ [7, 7], 2)"
  using Copy_within_head [OF bb_rep_chain2 [unfolded chain2_def], of 2 "[7, 7, 7, 7]"]
  by (simp add: chain2_def block_def used_def numeral_eq_Suc)

text \<open>When the bytes asked for continue in the second block, \<open>Copy\<close> returns the right count
  but writes the second block's bytes over the first's: the destination is not advanced.\<close>

theorem Copy_across_blocks:
  assumes "bb_rep s q (p1 # p2 # ps)" "used (snd p1) < n" "n < used (snd p1) + used (snd p2)"
    "n \<le> int (length d)"
  shows "Copy s q d n =
    ret (take (nat (n - used (snd p1))) (live (snd p2)) @
         drop (nat (n - used (snd p1))) (live (snd p1) @ drop (nat (used (snd p1))) d), n)"
proof -
  have b: "block_ok (snd p1)" "block_ok (snd p2)"
    using assms(1) shape_block_ok [of "map snd (p1 # p2 # ps)"] by (auto simp: bb_rep_def)
  then have l: "int (length (live (snd p1))) = used (snd p1)" "int (length (live (snd p2))) = used (snd p2)"
    by (auto intro: length_live)
  have n: "0 \<le> n" using assms(2) l(1) by linarith
  have "\<not> nat n < length (live (snd p1))" "nat n - length (live (snd p1)) = nat (n - used (snd p1))"
    "nat (n - used (snd p1)) < length (live (snd p2))" "length (live (snd p1)) = nat (used (snd p1))"
    using assms(2,3) l by linarith+
  moreover have "min n (bb_totallen q) = n" using assms(1,3) l by (simp add: bb_rep_def)
  moreover have "\<not> n < used (snd p1)" using assms(2) by simp
  ultimately show ?thesis using Copy_rep [OF assms(1) n assms(4)] by simp
qed

lemma Copy_across_blocks_witness:
  "Copy (store_of chain2) buffer2 [7, 7, 7, 7] 4 = ret ([0, 1, 7, 7], 4) \<and>
   take 4 (content chain2) = [254, 255, 0, 1]"
proof -
  have u: "[0..<2] = [0, 1]" "[0..<3] = [0, 1, 2]" by (simp_all add: upt_rec)
  have l: "live (block 510 512 x) = [254, 255]" "take 2 (live (block 0 3 x)) = [0, 1]" for x
    by (simp_all add: live_def used_def block_def mread_def u)
  have "Copy (store_of chain2) buffer2 [7, 7, 7, 7] 4 = ret ([0, 1, 7, 7], 4)"
    using Copy_across_blocks [OF bb_rep_chain2 [unfolded chain2_def], of 4 "[7, 7, 7, 7]"] l
    by (simp add: chain2_def block_def used_def)
  moreover have "take 4 (content chain2) = [254, 255, 0, 1]"
    using l by (simp add: chain2_def)
  ultimately show ?thesis by simp
qed

subsection \<open>Writing in place\<close>

text \<open>On a chain of at most two blocks, or when \<open>expand\<close> does not choose to replace the last
  one, \<open>GetBufferToWrite(n)\<close> yields room for \<open>n\<close> bytes; storing at most that many there and
  committing them with \<open>FinishBufferWrite\<close> appends them to what the buffer held.\<close>

theorem write_in_place_appends:
  assumes "bb_rep s q ps" "0 \<le> n" "n \<le> 2 ^ 29" "length ps \<le> 2 \<or> \<not> needs_replace (snd (last ps)) n"
    "int (length xs) \<le> n" "length (content ps) + length xs \<le> 2 ^ 30"
  shows "\<exists>s1 q1 ptr s2 s3 q3 ps3. GetBufferToWrite s q n = ret (s1, q1, ptr) \<and>
           store_bytes s1 ptr xs = ret s2 \<and> FinishBufferWrite s2 q1 (int (length xs)) = ret (s3, q3) \<and>
           bb_rep s3 q3 ps3 \<and> content ps3 = content ps @ xs"
proof -
  obtain s1 q1 ptr ps1 where G: "GetBufferToWrite s q n = ret (s1, q1, ptr)" "bb_rep s1 q1 ps1"
    "content ps1 = content ps" "writable q1 ps1 ptr n"
    using GetBufferToWrite_rep [OF assms(1-4)] by blast
  have "bb_totallen q1 + int (length xs) < 2 ^ 31" using G(2,3) assms(6) by (simp add: bb_rep_def)
  then show ?thesis using commit_rep [OF G(2,4) assms(5)] G(1,3) by metis
qed

lemma write_in_place_appends_witness:
  "\<exists>s1 q1 ptr s2 s3 q3 ps3. GetBufferToWrite (store_of chain2) buffer2 600 = ret (s1, q1, ptr) \<and>
     store_bytes s1 ptr [5, 6] = ret s2 \<and> FinishBufferWrite s2 q1 2 = ret (s3, q3) \<and>
     bb_rep s3 q3 ps3 \<and> content ps3 = content chain2 @ [5, 6]"
  using write_in_place_appends [OF bb_rep_chain2, of 600 "[5, 6]"]
  by (simp add: chain2_def length_live_block)

text \<open>C31. On a chain of three or more blocks whose last block has to be replaced,
  \<open>GetBufferToWrite\<close> does not return: the search for the predecessor never advances.\<close>

theorem GetBufferToWrite_never_returns:
  assumes "bb_rep s q ps" "0 \<le> n" "n \<le> 2 ^ 29" "3 \<le> length ps" "needs_replace (snd (last ps)) n"
  shows "GetBufferToWrite s q n = None"
  using assms by (rule GetBufferToWrite_diverges)

lemma GetBufferToWrite_never_returns_witness:
  "GetBufferToWrite (store_of chain3) buffer3 100 = None"
  using GetBufferToWrite_never_returns [OF bb_rep_chain3, of 100]
  by (simp add: chain3_def needs_replace_def used_def block_def MOVE_BLOCK_SIZE_def COPY_BLOCK_SIZE_def)

subsection \<open>Allocation and release\<close>

text \<open>The size of an allocated block is the least power of two, at least 512, that holds the
  request; the doubling loop ends exactly for requests of at most 2^63 bytes.\<close>

theorem alloc_len_least:
  "(if sz \<le> 2 ^ 63
    then \<exists>j. alloc_len MIN_BLOCK_SIZE sz = Some (2 ^ j) \<and> 9 \<le> j \<and> sz \<le> 2 ^ j \<and>
           (\<forall>i \<in> {9..<j}. 2 ^ i < sz)
    else alloc_len MIN_BLOCK_SIZE sz = None)"
proof (cases "sz \<le> 2 ^ 63")
  case True
  then obtain j where "alloc_len (2 ^ 9) sz = Some (2 ^ j)" "9 \<le> j" "sz \<le> 2 ^ j"
    "\<forall>i. 9 \<le> i \<longrightarrow> sz \<le> 2 ^ i \<longrightarrow> j \<le> i"
    using alloc_len_pow2 [of sz 9] by auto
  then have "alloc_len MIN_BLOCK_SIZE sz = Some (2 ^ j) \<and> 9 \<le> j \<and> sz \<le> 2 ^ j \<and>
      (\<forall>i \<in> {9..<j}. 2 ^ i < sz)"
    by (auto simp: MIN_BLOCK_SIZE_def not_le [symmetric])
  with True show ?thesis by auto
next
  case False
  then show ?thesis using alloc_len_diverges [of sz 9] by (simp add: MIN_BLOCK_SIZE_def)
qed

lemma alloc_len_least_witness: "alloc_len MIN_BLOCK_SIZE (2 ^ 63 + 1) = None"
  using alloc_len_least [of "2 ^ 63 + 1"] by simp

text \<open>Destroying a buffer gives every one of its blocks back to the pool, each exactly once,
  and touches nothing else.\<close>

theorem delete_returns_blocks:
  assumes "bb_rep s q ps"
  shows "\<exists>s1. delete_BlockBuffer s q = ret (s1, new_BlockBuffer) \<and> store_ok s1 \<and>
           pooled s1 = pooled s \<union> addrs ps \<and> unchanged_outside (addrs ps) s s1"
  using delete_BlockBuffer_rep [OF assms] by (auto simp: evolves_def)

lemma delete_returns_blocks_witness:
  "\<exists>s1. delete_BlockBuffer (store_of chain2) buffer2 = ret (s1, new_BlockBuffer) \<and> store_ok s1 \<and>
     pooled s1 = pooled (store_of chain2) \<union> {0, 1} \<and> unchanged_outside {0, 1} (store_of chain2) s1"
  using delete_returns_blocks [OF bb_rep_chain2] by (simp add: chain2_def)

end
