(* ===== verification/Loop_Queue.thy ===== *)
theory Loop_Queue
  imports Mkx_Prelude
begin

text \<open>
  \<open>LoopQueue\<close> (framework/LoopQueue.h, LoopQueue.cc): a ring of variable-sized blocks in one
  byte buffer, used between the network thread and the workers.  The packed header
  \<open>block_t\<close> is laid out byte for byte (little endian, as on the target); the block's
  payload follows it.  The code does not check that the header and the payload lie within
  the buffer: an access beyond it is the fault \<open>Out_of_bounds\<close> here.
\<close>

section \<open>The queue and its blocks\<close>

text \<open>The \<open>type\<close> of a block (\<open>enum MessageType\<close>).\<close>

definition MT_ADD_SVR_FD :: int where "MT_ADD_SVR_FD = 1"
definition MT_ADD_CLI_FD :: int where "MT_ADD_CLI_FD = 2"
definition MT_DEL_SVR_FD :: int where "MT_DEL_SVR_FD = 3"
definition MT_DEL_CLI_FD :: int where "MT_DEL_CLI_FD = 4"
definition MT_SVR_MESSAGE :: int where "MT_SVR_MESSAGE = 5"
definition MT_CLI_MESSAGE :: int where "MT_CLI_MESSAGE = 6"

record loop_queue =
  lq_buff :: region
  lq_bufflen :: int
  lq_head :: int
  lq_tail :: int

definition sizeof_block :: int where
  "sizeof_block = 22"

text \<open>Offsets of \<open>len\<close>, \<open>discard\<close>, \<open>fd\<close>, \<open>remote\<close>, \<open>type\<close>, \<open>datalen\<close>, \<open>data\<close>: 0, 4, 5, 9, 17, 18, 22.\<close>

definition header_bytes :: "int \<Rightarrow> bool \<Rightarrow> int \<Rightarrow> int \<Rightarrow> int \<Rightarrow> int \<Rightarrow> byte list" where
  "header_bytes len discard fd remote type datalen =
     le_bytes 4 len @ [if discard then 1 else 0] @ le_bytes 4 fd @ le_bytes 8 remote @
     le_bytes 1 type @ le_bytes 4 datalen"

definition bt_len :: "region \<Rightarrow> int \<Rightarrow> int" where
  "bt_len f off = to_i32 (le_val (mread f off 4))"

definition bt_discard :: "region \<Rightarrow> int \<Rightarrow> bool" where
  "bt_discard f off \<longleftrightarrow> f (off + 4) \<noteq> 0"

definition bt_fd :: "region \<Rightarrow> int \<Rightarrow> int" where
  "bt_fd f off = to_i32 (le_val (mread f (off + 5) 4))"

definition bt_remote :: "region \<Rightarrow> int \<Rightarrow> int" where
  "bt_remote f off = le_val (mread f (off + 9) 8)"

definition bt_type :: "region \<Rightarrow> int \<Rightarrow> int" where
  "bt_type f off = le_val (mread f (off + 17) 1)"

definition bt_datalen :: "region \<Rightarrow> int \<Rightarrow> int" where
  "bt_datalen f off = to_i32 (le_val (mread f (off + 18) 4))"

definition buff_write :: "loop_queue \<Rightarrow> int \<Rightarrow> byte list \<Rightarrow> loop_queue run" where
  "buff_write q off xs =
     (if 0 \<le> off \<and> off + int (length xs) \<le> lq_bufflen q
      then ret (q\<lparr>lq_buff := mwrite (lq_buff q) off xs\<rparr>)
      else fail Out_of_bounds)"

definition buff_check :: "loop_queue \<Rightarrow> int \<Rightarrow> int \<Rightarrow> unit run" where
  "buff_check q off n =
     (if 0 \<le> off \<and> 0 \<le> n \<and> off + n \<le> lq_bufflen q then ret () else fail Out_of_bounds)"

section \<open>Operations\<close>

definition new_LoopQueue :: loop_queue where
  "new_LoopQueue = \<lparr>lq_buff = (\<lambda>_. 0), lq_bufflen = 0, lq_head = -1, lq_tail = -1\<rparr>"

definition Init :: "loop_queue \<Rightarrow> int \<Rightarrow> loop_queue \<times> bool" where
  "Init q bufflen =
     (if bufflen \<le> 0 then (q, False)
      else (\<lparr>lq_buff = (\<lambda>_. 0), lq_bufflen = bufflen, lq_head = 0, lq_tail = 0\<rparr>, True))"

text \<open>The result is the offset of \<open>bt->data\<close>, or \<open>None\<close> for a null pointer.\<close>

definition BufferForPush ::
  "loop_queue \<Rightarrow> int \<Rightarrow> int \<Rightarrow> int \<Rightarrow> int \<Rightarrow> (loop_queue \<times> int option) run" where
  "BufferForPush q fd remote type msglen =
     (let blocklen = sizeof_block;
          q1 = (if lq_tail q \<ge> lq_head q \<and> lq_tail q + blocklen > lq_bufflen q
                then q\<lparr>lq_tail := 0\<rparr> else q)
      in rbind
           (if lq_tail q1 \<ge> lq_head q1 \<and> lq_tail q1 + blocklen + msglen > lq_bufflen q1
            then rbind (buff_write q1 (lq_tail q1) (le_bytes 4 blocklen @ [1])) (\<lambda>q2.
                   ret (q2\<lparr>lq_tail := 0\<rparr>))
            else ret q1)
           (\<lambda>q2.
              if lq_tail q2 < lq_head q2 \<and> lq_tail q2 + blocklen + msglen \<ge> lq_head q2
              then ret (q2, None)
              else rbind (buff_write q2 (lq_tail q2)
                            (header_bytes (blocklen + msglen) False fd remote type msglen))
                     (\<lambda>q3. ret (q3, Some (lq_tail q3 + blocklen)))))"

definition PushFinish :: "loop_queue \<Rightarrow> int \<Rightarrow> loop_queue" where
  "PushFinish q copylen = q\<lparr>lq_tail := lq_tail q + (sizeof_block + copylen)\<rparr>"

definition Push ::
  "loop_queue \<Rightarrow> int \<Rightarrow> int \<Rightarrow> int \<Rightarrow> byte list \<Rightarrow> (loop_queue \<times> bool) run" where
  "Push q fd remote type msg =
     rbind (BufferForPush q fd remote type (int (length msg))) (\<lambda>(q1, prebuff).
       case prebuff of
         None \<Rightarrow> ret (q1, False)
       | Some off \<Rightarrow>
           rbind (if length msg > 0 then buff_write q1 off msg else ret q1) (\<lambda>q2.
             ret (PushFinish q2 (int (length msg)), True)))"

text \<open>The result is the offset stored through \<open>block\<close>, or \<open>None\<close> where the code returns false.\<close>

definition FrontBlock :: "loop_queue \<Rightarrow> (loop_queue \<times> int option) run" where
  "FrontBlock q =
     (let blen = sizeof_block
      in if lq_head q = lq_tail q then ret (q, None)
         else
           (let q1 = (if lq_head q + blen > lq_bufflen q then q\<lparr>lq_head := 0\<rparr> else q)
            in rbind (buff_check q1 (lq_head q1) blen) (\<lambda>_.
                 let q2 = (if bt_len (lq_buff q1) (lq_head q1) = blen \<and>
                              bt_discard (lq_buff q1) (lq_head q1)
                           then q1\<lparr>lq_head := 0\<rparr> else q1);
                     len = bt_len (lq_buff q2) (lq_head q2)
                 in if lq_head q2 < lq_tail q2 \<and> lq_head q2 + len > lq_tail q2 then ret (q2, None)
                    else if len < blen then ret (q2, None)
                    else ret (q2, Some (lq_head q2)))))"

definition PopBlock :: "loop_queue \<Rightarrow> int \<Rightarrow> loop_queue" where
  "PopBlock q len = q\<lparr>lq_head := lq_head q + len\<rparr>"

section \<open>Messages\<close>

text \<open>What a consumer reads of a block.\<close>

record message =
  msg_fd :: int
  msg_remote :: int
  msg_type :: int
  msg_data :: "byte list"

definition read_block :: "loop_queue \<Rightarrow> int \<Rightarrow> message run" where
  "read_block q off =
     (let n = bt_datalen (lq_buff q) off
      in rbind (buff_check q (off + sizeof_block) n) (\<lambda>_.
           ret \<lparr>msg_fd = bt_fd (lq_buff q) off, msg_remote = bt_remote (lq_buff q) off,
                msg_type = bt_type (lq_buff q) off,
                msg_data = mread (lq_buff q) (off + sizeof_block) n\<rparr>))"

text \<open>
  The consumers' step (\<open>Worker::dealRecvQue\<close>, \<open>NetMessage::OnSendMsgEvent\<close>): look at the
  front block, read it, pop as many bytes as its header says.
\<close>

definition TakeBlock :: "loop_queue \<Rightarrow> (loop_queue \<times> message option) run" where
  "TakeBlock q =
     rbind (FrontBlock q) (\<lambda>(q1, block).
       case block of
         None \<Rightarrow> ret (q1, None)
       | Some off \<Rightarrow>
           rbind (read_block q1 off) (\<lambda>m.
             ret (PopBlock q1 (bt_len (lq_buff q1) off), Some m)))"

definition PushMsg :: "loop_queue \<Rightarrow> message \<Rightarrow> (loop_queue \<times> bool) run" where
  "PushMsg q m = Push q (msg_fd m) (msg_remote m) (msg_type m) (msg_data m)"

section \<open>Encoding of a block\<close>

definition enc :: "message \<Rightarrow> byte list" where
  "enc m = header_bytes (sizeof_block + int (length (msg_data m))) False (msg_fd m) (msg_remote m)
             (msg_type m) (int (length (msg_data m))) @ msg_data m"

definition msg_ok :: "message \<Rightarrow> bool" where
  "msg_ok m \<longleftrightarrow> - (2 ^ 31) \<le> msg_fd m \<and> msg_fd m < 2 ^ 31 \<and> 0 \<le> msg_remote m \<and> msg_remote m < 2 ^ 64 \<and>
     0 \<le> msg_type m \<and> msg_type m < 256 \<and> length (msg_data m) < 2 ^ 30"

definition bsize :: "message \<Rightarrow> int" where
  "bsize m = sizeof_block + int (length (msg_data m))"

lemma length_header [simp]: "length (header_bytes l d fd r t n) = 22"
  by (simp add: header_bytes_def)

lemma length_enc [simp]: "int (length (enc m)) = bsize m"
  by (simp add: enc_def bsize_def sizeof_block_def)

lemma bsize_ge: "22 \<le> bsize m"
  by (simp add: bsize_def sizeof_block_def)

text \<open>\<open>holds f off xs\<close>: the bytes \<open>xs\<close> are in memory at \<open>off\<close>.\<close>

definition holds :: "region \<Rightarrow> int \<Rightarrow> byte list \<Rightarrow> bool" where
  "holds f off xs \<longleftrightarrow> mread f off (int (length xs)) = xs"

lemma holds_Nil [simp]: "holds f off []"
  by (simp add: holds_def)

lemma holds_append [simp]:
  "holds f off (xs @ ys) \<longleftrightarrow> holds f off xs \<and> holds f (off + int (length xs)) ys"
  using mread_append [of "int (length xs)" "int (length ys)" f off] by (auto simp: holds_def)

lemma holds_mwrite_same: "holds (mwrite f off xs) off xs"
  by (simp add: holds_def mread_mwrite_same)

lemma mwrite_holds: "holds f off xs \<Longrightarrow> mwrite f off xs = f"
proof (rule ext)
  fix i
  assume h: "holds f off xs"
  have "xs ! nat (i - off) = f i" if "off \<le> i" "i < off + int (length xs)"
  proof -
    have "mread f off (int (length xs)) ! nat (i - off) = f (off + int (nat (i - off)))"
      using that by (intro nth_mread) simp
    then show ?thesis using h that by (simp add: holds_def)
  qed
  then show "mwrite f off xs i = f i" by (simp add: mwrite_def)
qed

lemma holds_mwrite_disjoint:
  "off + int (length xs) \<le> off' \<or> off' + int (length ys) \<le> off \<Longrightarrow>
     holds (mwrite f off' ys) off xs = holds f off xs"
  unfolding holds_def by (subst mread_mwrite_disjoint) auto

lemma holds_Cons [simp]: "holds f off (x # xs) \<longleftrightarrow> f off = x \<and> holds f (off + 1) xs"
  using holds_append [of f off "[x]" xs] by (simp add: holds_def mread_def)

lemma holds_le_val: "holds f off (le_bytes n x) \<Longrightarrow> le_val (mread f off (int n)) = x mod 256 ^ n"
  by (simp add: holds_def del: le_bytes.simps)

lemma bt_fields:
  assumes "holds f off (header_bytes l d fd r t n)"
  shows "bt_len f off = to_i32 (l mod 2 ^ 32)" "bt_discard f off = d"
    "bt_fd f off = to_i32 (fd mod 2 ^ 32)" "bt_remote f off = r mod 2 ^ 64"
    "bt_type f off = t mod 256" "bt_datalen f off = to_i32 (n mod 2 ^ 32)"
proof -
  have H: "holds f off (le_bytes 4 l)" "f (off + 4) = (if d then 1 else 0)"
    "holds f (off + 5) (le_bytes 4 fd)" "holds f (off + 9) (le_bytes 8 r)"
    "holds f (off + 17) (le_bytes 1 t)" "holds f (off + 18) (le_bytes 4 n)"
    using assms by (simp_all add: header_bytes_def algebra_simps del: le_bytes.simps)
  show "bt_discard f off = d" using H(2) by (simp add: bt_discard_def)
  show "bt_len f off = to_i32 (l mod 2 ^ 32)" "bt_fd f off = to_i32 (fd mod 2 ^ 32)"
    "bt_remote f off = r mod 2 ^ 64" "bt_type f off = t mod 256"
    "bt_datalen f off = to_i32 (n mod 2 ^ 32)"
    using holds_le_val [OF H(1)] holds_le_val [OF H(3)] holds_le_val [OF H(4)]
      holds_le_val [OF H(5)] holds_le_val [OF H(6)]
    by (simp_all add: bt_len_def bt_fd_def bt_remote_def bt_type_def bt_datalen_def)
qed

lemma read_block_enc:
  assumes h: "holds (lq_buff q) off (enc m)" and ok: "msg_ok m"
    and room: "0 \<le> off" "off + bsize m \<le> lq_bufflen q"
  shows "read_block q off = ret m" "bt_len (lq_buff q) off = bsize m"
    "\<not> bt_discard (lq_buff q) off"
proof -
  let ?n = "int (length (msg_data m))"
  have hd: "holds (lq_buff q) off (header_bytes (22 + ?n) False (msg_fd m) (msg_remote m)
        (msg_type m) ?n)" and dt: "holds (lq_buff q) (off + 22) (msg_data m)"
    using h by (simp_all add: enc_def sizeof_block_def)
  have n: "?n < 2 ^ 30" using ok by (simp add: msg_ok_def)
  note f = bt_fields [OF hd]
  have len: "bt_datalen (lq_buff q) off = ?n" using f(6) n by (simp del: to_i32_mod add: to_i32_mod [of ?n, simplified])
  show "bt_len (lq_buff q) off = bsize m"
    using f(1) n by (simp add: bsize_def sizeof_block_def to_i32_mod [of "22 + ?n", simplified])
  show "\<not> bt_discard (lq_buff q) off" using f(2) by simp
  show "read_block q off = ret m"
    using f ok len room dt to_i32_mod [of "msg_fd m"]
    by (simp add: read_block_def buff_check_def holds_def msg_ok_def sizeof_block_def bsize_def)
qed

end
