(* ===== verification/Loop_Queue_Fifo.thy ===== *)
theory Loop_Queue_Fifo
  imports Loop_Queue
begin

text \<open>
  The messages a \<open>LoopQueue\<close> represents and what its operations do to them.

  A queue is \<open>linear\<close> when its blocks lie between \<open>head_\<close> and \<open>tail_\<close>, and \<open>wrapped\<close> when
  the older ones lie from \<open>head_\<close> to an end mark and the newer ones from 0 to \<open>tail_\<close>.  The
  interface \<open>fifo\<close> is what its clients rely on; \<open>LoopQueue\<close> provides it for pushes that
  are \<open>push_safe\<close>.
\<close>

section \<open>The interface: a bounded first-in first-out queue\<close>

datatype 'm queue_op = Send 'm | Receive

text \<open>Run a sequence of operations; collect what was accepted and what was received.\<close>

fun run_queue ::
  "('q \<Rightarrow> 'm \<Rightarrow> ('q \<times> bool) run) \<Rightarrow> ('q \<Rightarrow> ('q \<times> 'm option) run) \<Rightarrow> 'q \<Rightarrow> 'm queue_op list \<Rightarrow>
     ('q \<times> 'm list \<times> 'm list) run" where
  "run_queue push recv q [] = ret (q, [], [])"
| "run_queue push recv q (Send m # ops) =
     rbind (push q m) (\<lambda>(q1, ok).
       rbind (run_queue push recv q1 ops) (\<lambda>(q2, ins, outs).
         ret (q2, if ok then m # ins else ins, outs)))"
| "run_queue push recv q (Receive # ops) =
     rbind (recv q) (\<lambda>(q1, r).
       rbind (run_queue push recv q1 ops) (\<lambda>(q2, ins, outs).
         ret (q2, ins, case r of None \<Rightarrow> outs | Some m \<Rightarrow> m # outs)))"

text \<open>Every push of the run happens in a state where it is safe.\<close>

fun safe_run ::
  "('q \<Rightarrow> 'm \<Rightarrow> ('q \<times> bool) run) \<Rightarrow> ('q \<Rightarrow> ('q \<times> 'm option) run) \<Rightarrow> ('q \<Rightarrow> 'm \<Rightarrow> bool) \<Rightarrow> 'q \<Rightarrow>
     'm queue_op list \<Rightarrow> bool" where
  "safe_run push recv safe q [] = True"
| "safe_run push recv safe q (Send m # ops) =
     (safe q m \<and> (case push q m of
        Some (Inr (q1, ok)) \<Rightarrow> safe_run push recv safe q1 ops
      | _ \<Rightarrow> True))"
| "safe_run push recv safe q (Receive # ops) =
     (case recv q of
        Some (Inr (q1, r)) \<Rightarrow> safe_run push recv safe q1 ops
      | _ \<Rightarrow> True)"

locale fifo =
  fixes repr :: "'q \<Rightarrow> 'm list \<Rightarrow> bool"
    and safe :: "'q \<Rightarrow> 'm \<Rightarrow> bool"
    and push :: "'q \<Rightarrow> 'm \<Rightarrow> ('q \<times> bool) run"
    and recv :: "'q \<Rightarrow> ('q \<times> 'm option) run"
  assumes push: "repr q ms \<Longrightarrow> safe q m \<Longrightarrow>
      \<exists>q1 ok. push q m = ret (q1, ok) \<and> repr q1 (if ok then ms @ [m] else ms)"
    and recv_Nil: "repr q [] \<Longrightarrow> \<exists>q1. recv q = ret (q1, None) \<and> repr q1 []"
    and recv_Cons: "repr q (m # ms) \<Longrightarrow> \<exists>q1. recv q = ret (q1, Some m) \<and> repr q1 ms"
begin

text \<open>Whatever the interleaving, messages come out in the order in which they were accepted.\<close>

lemma in_order:
  assumes "repr q ms" "safe_run push recv safe q ops"
  shows "\<exists>q1 ins outs rest. run_queue push recv q ops = ret (q1, ins, outs) \<and>
    repr q1 rest \<and> ms @ ins = outs @ rest"
  using assms
proof (induction ops arbitrary: q ms)
  case Nil
  then show ?case by auto
next
  case (Cons c ops)
  show ?case
  proof (cases c)
    case (Send m)
    obtain q1 ok where P: "push q m = ret (q1, ok)" "repr q1 (if ok then ms @ [m] else ms)"
      using push Cons.prems Send by fastforce
    have "safe_run push recv safe q1 ops" using Cons.prems(2) Send P(1) by (simp add: ret_def)
    then show ?thesis using Cons.IH [OF P(2)] Send P(1) by (cases ok) fastforce+
  next
    case Receive
    show ?thesis
    proof (cases ms)
      case Nil
      then obtain q1 where T: "recv q = ret (q1, None)" "repr q1 []"
        using recv_Nil Cons.prems(1) by blast
      have "safe_run push recv safe q1 ops" using Cons.prems(2) Receive T(1) by (simp add: ret_def)
      then show ?thesis using Cons.IH [OF T(2)] Receive T(1) Nil by fastforce
    next
      case (Cons m ms1)
      then obtain q1 where T: "recv q = ret (q1, Some m)" "repr q1 ms1"
        using recv_Cons Cons.prems(1) by blast
      have "safe_run push recv safe q1 ops" using Cons.prems(2) Receive T(1) by (simp add: ret_def)
      then show ?thesis using Cons.IH [OF T(2)] Receive T(1) Cons by fastforce
    qed
  qed
qed

text \<open>A consumer that takes as often as there are messages gets them all and empties the queue.\<close>

lemma drain:
  assumes "repr q ms"
  shows "\<exists>q1. run_queue push recv q (replicate (length ms) Receive) = ret (q1, [], ms) \<and> repr q1 []"
  using assms
proof (induction ms arbitrary: q)
  case Nil
  then show ?case by simp
next
  case (Cons m ms)
  then obtain q1 where "recv q = ret (q1, Some m)" "repr q1 ms" using recv_Cons by blast
  then show ?case using Cons.IH [of q1] by auto
qed

end

section \<open>Representation\<close>

definition encs :: "message list \<Rightarrow> byte list" where
  "encs ms = concat (map enc ms)"

definition bsizes :: "message list \<Rightarrow> int" where
  "bsizes ms = int (length (encs ms))"

lemma encs_simps [simp]:
  "encs [] = []" "encs (m # ms) = enc m @ encs ms" "encs (ms @ ns) = encs ms @ encs ns"
  by (simp_all add: encs_def)

lemma bsizes_simps [simp]:
  "bsizes [] = 0" "bsizes (m # ms) = bsize m + bsizes ms" "bsizes (ms @ ns) = bsizes ms + bsizes ns"
  by (simp_all add: bsizes_def)

lemma bsizes_nonneg: "0 \<le> bsizes ms"
  by (simp add: bsizes_def)

lemma length_encs [simp]: "int (length (encs ms)) = bsizes ms"
  by (simp add: bsizes_def)

lemma bsizes_pos: "ms \<noteq> [] \<Longrightarrow> 22 \<le> bsizes ms"
  using bsize_ge [of "hd ms"] bsizes_nonneg [of "tl ms"] by (cases ms) auto

definition linear :: "loop_queue \<Rightarrow> message list \<Rightarrow> bool" where
  "linear q ms \<longleftrightarrow>
     0 \<le> lq_head q \<and> lq_head q + bsizes ms = lq_tail q \<and> lq_tail q \<le> lq_bufflen q \<and>
     holds (lq_buff q) (lq_head q) (encs ms)"

text \<open>Where the older part of a wrapped queue ends: no room for a header, or a discard block.\<close>

definition end_mark :: "region \<Rightarrow> int \<Rightarrow> int \<Rightarrow> bool" where
  "end_mark f bufflen p \<longleftrightarrow> bufflen < p + 22 \<or> bt_len f p = 22 \<and> bt_discard f p"

definition wrapped :: "loop_queue \<Rightarrow> message list \<Rightarrow> message list \<Rightarrow> bool" where
  "wrapped q ms ns \<longleftrightarrow>
     ns \<noteq> [] \<and> lq_tail q = bsizes ns \<and> lq_tail q < lq_head q \<and>
     lq_head q + bsizes ms \<le> lq_bufflen q \<and>
     holds (lq_buff q) 0 (encs ns) \<and> holds (lq_buff q) (lq_head q) (encs ms) \<and>
     end_mark (lq_buff q) (lq_bufflen q) (lq_head q + bsizes ms)"

definition lq_rep :: "loop_queue \<Rightarrow> message list \<Rightarrow> bool" where
  "lq_rep q ms \<longleftrightarrow>
     22 \<le> lq_bufflen q \<and> lq_bufflen q \<le> 2 ^ 30 \<and> (\<forall>m \<in> set ms. msg_ok m) \<and>
     (linear q ms \<or> (\<exists>ms1 ms2. ms = ms1 @ ms2 \<and> wrapped q ms1 ms2))"

definition push_safe :: "loop_queue \<Rightarrow> message \<Rightarrow> bool" where
  "push_safe q m \<longleftrightarrow>
     msg_ok m \<and> (lq_tail q < lq_head q \<or> lq_tail q + bsize m \<le> lq_bufflen q \<or> bsize m < lq_head q)"

lemma lq_rep_bounds:
  assumes "lq_rep q ms"
  shows "0 \<le> lq_head q" "0 \<le> lq_tail q" "lq_head q \<le> lq_bufflen q" "lq_tail q \<le> lq_bufflen q"
    "22 \<le> lq_bufflen q"
proof -
  have "0 \<le> lq_head q \<and> 0 \<le> lq_tail q \<and> lq_head q \<le> lq_bufflen q \<and> lq_tail q \<le> lq_bufflen q"
    using assms bsizes_nonneg [of ms]
    by (auto simp: lq_rep_def linear_def wrapped_def)
      (smt (verit) bsizes_nonneg)+
  then show "0 \<le> lq_head q" "0 \<le> lq_tail q" "lq_head q \<le> lq_bufflen q" "lq_tail q \<le> lq_bufflen q"
    by auto
  show "22 \<le> lq_bufflen q" using assms by (simp add: lq_rep_def)
qed

lemma lq_rep_Init:
  "22 \<le> n \<Longrightarrow> n \<le> 2 ^ 30 \<Longrightarrow> lq_rep (fst (Init q n)) [] \<and> snd (Init q n)"
  by (simp add: Init_def lq_rep_def linear_def)

section \<open>Pushing\<close>

definition stored :: "loop_queue \<Rightarrow> message \<Rightarrow> loop_queue" where
  "stored q m = q\<lparr>lq_buff := mwrite (lq_buff q) (lq_tail q) (enc m), lq_tail := lq_tail q + bsize m\<rparr>"

definition wrap_tail :: "loop_queue \<Rightarrow> loop_queue" where
  "wrap_tail q =
     (if lq_tail q + 22 > lq_bufflen q then q\<lparr>lq_tail := 0\<rparr>
      else q\<lparr>lq_buff := mwrite (lq_buff q) (lq_tail q) (le_bytes 4 22 @ [1]), lq_tail := 0\<rparr>)"

lemma wrap_tail_simps [simp]:
  "lq_tail (wrap_tail q) = 0" "lq_head (wrap_tail q) = lq_head q"
  "lq_bufflen (wrap_tail q) = lq_bufflen q"
  by (simp_all add: wrap_tail_def)

text \<open>The block is written and the tail advanced, once the tail is where it may stay.\<close>

lemma Push_store:
  assumes "0 \<le> lq_tail q" "lq_tail q + bsize m \<le> lq_bufflen q"
    "lq_tail q < lq_head q \<longrightarrow> lq_tail q + bsize m < lq_head q"
  shows "PushMsg q m = ret (stored q m, True)"
proof -
  have w: "mwrite (mwrite (lq_buff q) (lq_tail q) h) (lq_tail q + 22) xs
      = mwrite (lq_buff q) (lq_tail q) (h @ xs)" if "length h = 22" for h xs
    using that by (simp add: mwrite_append)
  show ?thesis
  proof (cases "msg_data m = []")
    case True
    then show ?thesis
      using assms
      by (auto simp: PushMsg_def Push_def BufferForPush_def PushFinish_def buff_write_def stored_def
          sizeof_block_def bsize_def enc_def Let_def)
  next
    case False
    then show ?thesis
      using assms w
      by (auto simp: PushMsg_def Push_def BufferForPush_def PushFinish_def buff_write_def stored_def
          sizeof_block_def bsize_def enc_def Let_def)
  qed
qed

lemma Push_full:
  assumes "lq_tail q < lq_head q" "lq_head q \<le> lq_tail q + bsize m"
  shows "PushMsg q m = ret (q, False)"
  using assms
  by (auto simp: PushMsg_def Push_def BufferForPush_def sizeof_block_def bsize_def Let_def)

lemma Push_wraps:
  assumes "0 \<le> lq_tail q" "lq_head q \<le> lq_tail q" "lq_bufflen q < lq_tail q + bsize m"
    "22 \<le> lq_bufflen q" "0 < lq_head q \<or> bsize m \<le> lq_bufflen q"
  shows "PushMsg q m = PushMsg (wrap_tail q) m"
  using assms
  by (auto simp: PushMsg_def Push_def BufferForPush_def buff_write_def wrap_tail_def
      sizeof_block_def bsize_def Let_def)

lemma linear_stored:
  assumes "linear q ms" "lq_tail q + bsize m \<le> lq_bufflen q"
  shows "linear (stored q m) (ms @ [m])"
proof -
  have "holds (mwrite (lq_buff q) (lq_tail q) (enc m)) (lq_head q) (encs ms)"
    using assms(1) by (subst holds_mwrite_disjoint) (auto simp: linear_def)
  moreover have "lq_head q + bsizes ms = lq_tail q" using assms(1) by (simp add: linear_def)
  ultimately show ?thesis
    using assms holds_mwrite_same [of "lq_buff q" "lq_tail q" "enc m"]
    by (auto simp: linear_def stored_def)
qed

lemma end_mark_mwrite:
  "off + int (length xs) \<le> p \<Longrightarrow> end_mark (mwrite f off xs) n p = end_mark f n p"
  unfolding end_mark_def bt_len_def bt_discard_def
  by (subst mread_mwrite_disjoint) (auto simp: mwrite_def)

lemma wrapped_stored:
  assumes "wrapped q ms ns" "lq_tail q + bsize m < lq_head q"
  shows "wrapped (stored q m) ms (ns @ [m])"
proof -
  have w: "lq_tail q = bsizes ns" "lq_tail q < lq_head q" using assms(1) by (auto simp: wrapped_def)
  have "holds (mwrite (lq_buff q) (lq_tail q) (enc m)) (lq_head q) (encs ms)"
    "holds (mwrite (lq_buff q) (lq_tail q) (enc m)) 0 (encs ns)"
    using assms by (subst holds_mwrite_disjoint; auto simp: wrapped_def)+
  moreover have "end_mark (mwrite (lq_buff q) (lq_tail q) (enc m)) (lq_bufflen q) (lq_head q + bsizes ms)"
    using assms bsizes_nonneg [of ms] by (subst end_mark_mwrite) (auto simp: wrapped_def)
  ultimately show ?thesis
    using assms holds_mwrite_same [of "lq_buff q" "lq_tail q" "enc m"]
    by (auto simp: wrapped_def stored_def)
qed

lemma end_mark_wrap_tail:
  assumes "0 \<le> lq_tail q"
  shows "end_mark (lq_buff (wrap_tail q)) (lq_bufflen q) (lq_tail q)"
proof (cases "lq_tail q + 22 > lq_bufflen q")
  case True
  then show ?thesis by (simp add: end_mark_def)
next
  case False
  let ?f = "lq_buff (wrap_tail q)"
  have "holds ?f (lq_tail q) (le_bytes 4 22 @ [1])"
    using False by (simp add: wrap_tail_def holds_mwrite_same del: holds_append holds_Cons)
  then have "le_val (mread ?f (lq_tail q) (int 4)) = 22 mod 256 ^ 4" "?f (lq_tail q + 4) = 1"
    using holds_le_val [of ?f "lq_tail q" 4 22] by (simp_all del: le_bytes.simps)
  then show ?thesis by (simp add: end_mark_def bt_len_def bt_discard_def to_i32_def)
qed

lemma holds_wrap_tail:
  "off + int (length xs) \<le> lq_tail q \<Longrightarrow> holds (lq_buff (wrap_tail q)) off xs = holds (lq_buff q) off xs"
  by (simp add: wrap_tail_def holds_mwrite_disjoint)

lemma wrapped_start:
  assumes "linear q ms" "bsize m < lq_head q"
  shows "wrapped (stored (wrap_tail q) m) ms [m]"
proof -
  have l: "0 \<le> lq_head q" "lq_head q + bsizes ms = lq_tail q" "lq_tail q \<le> lq_bufflen q"
    "holds (lq_buff q) (lq_head q) (encs ms)"
    using assms(1) by (auto simp: linear_def)
  have "0 \<le> lq_tail q" using l bsizes_nonneg [of ms] by simp
  then have "end_mark (mwrite (lq_buff (wrap_tail q)) 0 (enc m)) (lq_bufflen q) (lq_tail q)"
    using end_mark_wrap_tail [of q] assms(2) l(2) bsizes_nonneg [of ms]
    by (subst end_mark_mwrite) auto
  moreover have "holds (mwrite (lq_buff (wrap_tail q)) 0 (enc m)) (lq_head q) (encs ms)"
    using l assms(2) holds_wrap_tail [of "lq_head q" "encs ms" q]
    by (subst holds_mwrite_disjoint) auto
  ultimately show ?thesis
    using l assms(2) holds_mwrite_same [of "lq_buff (wrap_tail q)" 0 "enc m"]
    by (simp add: wrapped_def stored_def)
qed

text \<open>
  What a safe push does: nothing, or the message joins the newer messages.  Where it wraps, all
  messages waiting become the older part.
\<close>

lemma PushMsg_shape:
  assumes rep: "lq_rep q ms0" and sf: "push_safe q m"
  shows "PushMsg q m = ret (q, False) \<or>
    (\<exists>q1. PushMsg q m = ret (q1, True) \<and> lq_bufflen q1 = lq_bufflen q \<and>
       (\<forall>ms. linear q ms \<longrightarrow> linear q1 (ms @ [m]) \<or> wrapped q1 ms [m]) \<and>
       (\<forall>ms ns. wrapped q ms ns \<longrightarrow> wrapped q1 ms (ns @ [m])))"
proof -
  note b = lq_rep_bounds [OF rep]
  have st: "lq_bufflen (stored q m) = lq_bufflen q" for q by (simp add: stored_def)
  consider (full) "lq_tail q < lq_head q" "lq_head q \<le> lq_tail q + bsize m"
    | (fits) "lq_tail q + bsize m \<le> lq_bufflen q" "lq_tail q < lq_head q \<longrightarrow> lq_tail q + bsize m < lq_head q"
    | (wraps) "lq_head q \<le> lq_tail q" "lq_bufflen q < lq_tail q + bsize m"
    using b by linarith
  then show ?thesis
  proof cases
    case full
    then show ?thesis using Push_full by blast
  next
    case fits
    then have "PushMsg q m = ret (stored q m, True)" using b by (intro Push_store) auto
    moreover have "wrapped (stored q m) ms (ns @ [m])" if "wrapped q ms ns" for ms ns
    proof -
      have "lq_tail q < lq_head q" using that by (simp add: wrapped_def)
      then show ?thesis using wrapped_stored [OF that] fits(2) by blast
    qed
    ultimately show ?thesis using linear_stored fits(1) st by auto
  next
    case wraps
    then have small: "bsize m < lq_head q" using sf b by (auto simp: push_safe_def)
    then have "PushMsg q m = ret (stored (wrap_tail q) m, True)"
      using wraps b bsize_ge [of m] Push_store [of "wrap_tail q" m] Push_wraps [of q m] by simp
    moreover have "\<not> wrapped q ms ns" for ms ns using wraps(1) by (simp add: wrapped_def)
    ultimately show ?thesis using wrapped_start [OF _ small] st by auto
  qed
qed

lemma PushMsg_rep:
  assumes rep: "lq_rep q ms" and sf: "push_safe q m"
  shows "\<exists>q1 ok. PushMsg q m = ret (q1, ok) \<and> lq_rep q1 (if ok then ms @ [m] else ms)"
proof -
  have g: "22 \<le> lq_bufflen q" "lq_bufflen q \<le> 2 ^ 30" "\<forall>m \<in> set (ms @ [m]). msg_ok m"
    using rep sf by (auto simp: lq_rep_def push_safe_def)
  from PushMsg_shape [OF assms] show ?thesis
  proof (elim disjE exE conjE)
    fix q1 assume q1: "PushMsg q m = ret (q1, True)" "lq_bufflen q1 = lq_bufflen q"
      "\<forall>ms. linear q ms \<longrightarrow> linear q1 (ms @ [m]) \<or> wrapped q1 ms [m]"
      "\<forall>ms ns. wrapped q ms ns \<longrightarrow> wrapped q1 ms (ns @ [m])"
    have "lq_rep q1 (ms @ [m])"
      using rep g q1(2-4) unfolding lq_rep_def by (metis append.assoc)
    with q1(1) show ?thesis by auto
  qed (use rep in auto)
qed

lemma PushMsg_head: "PushMsg q m = ret (q1, ok) \<Longrightarrow> lq_head q1 = lq_head q"
  by (auto simp: PushMsg_def Push_def BufferForPush_def PushFinish_def buff_write_def rbind_eq_ret Let_def
      split: if_splits option.splits)

text \<open>The oldest message lies at the head.\<close>

definition fronted :: "loop_queue \<Rightarrow> message \<Rightarrow> message list \<Rightarrow> bool" where
  "fronted q m ms \<longleftrightarrow>
     lq_rep q (m # ms) \<and> (linear q (m # ms) \<or> (\<exists>ms1 ms2. ms = ms1 @ ms2 \<and> wrapped q (m # ms1) ms2))"

lemma PushMsg_fronted:
  assumes f: "fronted q m ms" and sf: "push_safe q m1"
  shows "\<exists>q1 ok. PushMsg q m1 = ret (q1, ok) \<and> fronted q1 m (if ok then ms @ [m1] else ms)"
proof -
  have rep: "lq_rep q (m # ms)" using f by (simp add: fronted_def)
  from PushMsg_shape [OF rep sf] show ?thesis
  proof (elim disjE exE conjE)
    fix q1 assume q1: "PushMsg q m1 = ret (q1, True)"
      "\<forall>ms. linear q ms \<longrightarrow> linear q1 (ms @ [m1]) \<or> wrapped q1 ms [m1]"
      "\<forall>ms ns. wrapped q ms ns \<longrightarrow> wrapped q1 ms (ns @ [m1])"
    have "lq_rep q1 (m # ms @ [m1])" using PushMsg_rep [OF rep sf] q1(1) by auto
    moreover have "linear q1 (m # ms @ [m1]) \<or> (\<exists>ms1 ms2. ms @ [m1] = ms1 @ ms2 \<and> wrapped q1 (m # ms1) ms2)"
      using f q1(2,3) unfolding fronted_def by (metis append.assoc append_Cons)
    ultimately show ?thesis using q1(1) by (auto simp: fronted_def)
  qed (use f in auto)
qed

section \<open>A push in its parts\<close>

text \<open>Bytes written behind the tail change nothing.\<close>

lemma behind_tail:
  assumes "lq_tail q < lq_head q \<longrightarrow> lq_tail q + int (length xs) \<le> lq_head q"
  shows "linear q ms \<Longrightarrow> linear (q\<lparr>lq_buff := mwrite (lq_buff q) (lq_tail q) xs\<rparr>) ms"
    "wrapped q ms ns \<Longrightarrow> wrapped (q\<lparr>lq_buff := mwrite (lq_buff q) (lq_tail q) xs\<rparr>) ms ns"
proof -
  let ?f = "mwrite (lq_buff q) (lq_tail q) xs"
  show "linear (q\<lparr>lq_buff := ?f\<rparr>) ms" if "linear q ms"
  proof -
    have "holds ?f (lq_head q) (encs ms) = holds (lq_buff q) (lq_head q) (encs ms)"
      using that by (intro holds_mwrite_disjoint) (simp add: linear_def)
    then show ?thesis using that by (simp add: linear_def)
  qed
  show "wrapped (q\<lparr>lq_buff := ?f\<rparr>) ms ns" if w: "wrapped q ms ns"
  proof -
    have t: "lq_tail q = bsizes ns" "lq_tail q + int (length xs) \<le> lq_head q" using w assms by (auto simp: wrapped_def)
    then have "holds ?f 0 (encs ns) = holds (lq_buff q) 0 (encs ns)" by (intro holds_mwrite_disjoint) simp
    moreover have "holds ?f (lq_head q) (encs ms) = holds (lq_buff q) (lq_head q) (encs ms)"
      using t by (intro holds_mwrite_disjoint) simp
    moreover have "end_mark ?f (lq_bufflen q) (lq_head q + bsizes ms) = end_mark (lq_buff q) (lq_bufflen q) (lq_head q + bsizes ms)"
      using t bsizes_nonneg [of ms] by (intro end_mark_mwrite) simp
    ultimately show ?thesis using w by (simp add: wrapped_def)
  qed
qed

text \<open>A push that does not wrap has begun: the header is behind the tail, and there is room for the data.\<close>

definition filling :: "loop_queue \<Rightarrow> message \<Rightarrow> bool" where
  "filling q m \<longleftrightarrow>
     msg_ok m \<and> 0 \<le> lq_tail q \<and> lq_tail q + bsize m \<le> lq_bufflen q \<and>
     (lq_tail q < lq_head q \<longrightarrow> lq_tail q + bsize m < lq_head q) \<and>
     holds (lq_buff q) (lq_tail q)
       (header_bytes (bsize m) False (msg_fd m) (msg_remote m) (msg_type m) (int (length (msg_data m))))"

lemma BufferForPush_begins:
  assumes m: "msg_ok m" "lq_tail q + bsize m \<le> lq_bufflen q" and t: "0 \<le> lq_tail q"
    and b: "BufferForPush q (msg_fd m) (msg_remote m) (msg_type m) (int (length (msg_data m))) = ret (q1, Some off)"
  shows "off = lq_tail q1 + 22" "lq_head q1 = lq_head q" "filling q1 m" "lq_rep q ms \<Longrightarrow> lq_rep q1 ms"
    "fronted q m0 ms \<Longrightarrow> fronted q1 m0 ms"
proof -
  let ?h = "header_bytes (bsize m) False (msg_fd m) (msg_remote m) (msg_type m) (int (length (msg_data m)))"
  have B: "off = lq_tail q + 22 \<and> q1 = q\<lparr>lq_buff := mwrite (lq_buff q) (lq_tail q) ?h\<rparr> \<and>
      (lq_tail q < lq_head q \<longrightarrow> lq_tail q + bsize m < lq_head q)"
    using b m(2) t by (auto simp: BufferForPush_def buff_write_def sizeof_block_def bsize_def Let_def split: if_splits)
  then have room: "lq_tail q < lq_head q \<longrightarrow> lq_tail q + int (length ?h) \<le> lq_head q" using bsize_ge [of m] by auto
  show "off = lq_tail q1 + 22" "lq_head q1 = lq_head q" using B by simp_all
  show "filling q1 m" using B m t by (simp add: filling_def holds_mwrite_same)
  have l: "linear q ms \<Longrightarrow> linear q1 ms" for ms using behind_tail(1) [OF room] B by blast
  have w: "wrapped q ms ns \<Longrightarrow> wrapped q1 ms ns" for ms ns using behind_tail(2) [OF room] B by blast
  have len: "lq_bufflen q1 = lq_bufflen q" using B by simp
  show rep: "lq_rep q1 ms" if "lq_rep q ms" for ms
    using that l w len unfolding lq_rep_def by metis
  show "fronted q1 m0 ms" if "fronted q m0 ms"
    using that rep [of "m0 # ms"] l w unfolding fronted_def by metis
qed

text \<open>Finishing it is as good as pushing it then.\<close>

lemma filling_finish:
  assumes "filling q m"
  shows "push_safe q m" "PushMsg q m = ret (stored q m, True)"
    "buff_write q (lq_tail q + 22) (msg_data m) = ret q2 \<Longrightarrow> PushFinish q2 (int (length (msg_data m))) = stored q m"
proof -
  let ?h = "header_bytes (bsize m) False (msg_fd m) (msg_remote m) (msg_type m) (int (length (msg_data m)))"
  have f: "msg_ok m" "0 \<le> lq_tail q" "lq_tail q + bsize m \<le> lq_bufflen q" "lq_tail q < lq_head q \<longrightarrow> lq_tail q + bsize m < lq_head q"
    "holds (lq_buff q) (lq_tail q) ?h"
    using assms by (auto simp: filling_def)
  show "push_safe q m" using f by (simp add: push_safe_def)
  show "PushMsg q m = ret (stored q m, True)" using f by (intro Push_store)
  have "mwrite (lq_buff q) (lq_tail q) (enc m) = mwrite (mwrite (lq_buff q) (lq_tail q) ?h) (lq_tail q + 22) (msg_data m)"
    by (simp add: enc_def bsize_def sizeof_block_def mwrite_append)
  moreover have "mwrite (lq_buff q) (lq_tail q) ?h = lq_buff q" using f(5) by (simp add: mwrite_holds)
  ultimately show "PushFinish q2 (int (length (msg_data m))) = stored q m"
    if "buff_write q (lq_tail q + 22) (msg_data m) = ret q2"
    using that by (auto simp: buff_write_def stored_def PushFinish_def bsize_def sizeof_block_def add.assoc split: if_splits)
qed

text \<open>What a consumer does in between does not matter.\<close>

lemma filling_head:
  assumes "filling q m" "lq_buff q1 = lq_buff q" "lq_tail q1 = lq_tail q" "lq_bufflen q1 = lq_bufflen q"
    "lq_head q1 \<le> lq_tail q \<or> (lq_tail q < lq_head q \<and> lq_head q \<le> lq_head q1)"
  shows "filling q1 m"
  using assms by (auto simp: filling_def)

lemma FrontBlock_filling:
  assumes "filling q m" "FrontBlock q = ret (q1, b)"
  shows "filling q1 m \<and> lq_tail q1 = lq_tail q"
proof -
  have "(q1 = q \<or> q1 = q\<lparr>lq_head := 0\<rparr>)"
    using assms(2) by (auto simp: FrontBlock_def rbind_eq_ret Let_def split: if_splits)
  then show ?thesis using assms(1) by (auto simp: filling_def)
qed

section \<open>Taking\<close>

lemma FrontBlock_at:
  assumes h: "holds (lq_buff q) (lq_head q) (enc m)" and ok: "msg_ok m"
    and room: "0 \<le> lq_head q" "lq_head q + bsize m \<le> lq_bufflen q"
    and ne: "lq_head q \<noteq> lq_tail q" and lin: "lq_head q < lq_tail q \<longrightarrow> lq_head q + bsize m \<le> lq_tail q"
  shows "FrontBlock q = ret (q, Some (lq_head q))"
proof -
  have "bt_len (lq_buff q) (lq_head q) = bsize m" "\<not> bt_discard (lq_buff q) (lq_head q)"
    using read_block_enc [OF h ok room] by simp_all
  then show ?thesis
    using room ne lin bsize_ge [of m]
    by (auto simp: FrontBlock_def buff_check_def sizeof_block_def Let_def)
qed

lemma FrontBlock_end_mark:
  assumes "end_mark (lq_buff q) (lq_bufflen q) (lq_head q)" "lq_tail q < lq_head q" "0 < lq_tail q"
    "22 \<le> lq_bufflen q" and h: "holds (lq_buff q) 0 (enc m)" and ok: "msg_ok m"
    and lin: "bsize m \<le> lq_tail q" "lq_tail q \<le> lq_bufflen q"
  shows "FrontBlock q = FrontBlock (q\<lparr>lq_head := 0\<rparr>)"
proof -
  have "bt_len (lq_buff q) 0 = bsize m" "\<not> bt_discard (lq_buff q) 0"
    using read_block_enc [OF h ok] lin by simp_all
  then show ?thesis
    using assms
    by (auto simp: FrontBlock_def buff_check_def sizeof_block_def end_mark_def Let_def)
qed

lemma TakeBlock_Nil:
  assumes "lq_rep q []"
  shows "TakeBlock q = ret (q, None)"
proof -
  have "lq_head q = lq_tail q" using assms by (auto simp: lq_rep_def linear_def wrapped_def)
  then show ?thesis by (simp add: TakeBlock_def FrontBlock_def)
qed

lemma FrontBlock_linear:
  assumes l: "linear q (m # ms)" and ok: "msg_ok m"
  shows "FrontBlock q = ret (q, Some (lq_head q))"
  using l bsize_ge [of m] bsizes_nonneg [of ms]
  by (intro FrontBlock_at [OF _ ok]) (auto simp: linear_def)

text \<open>The front block is the oldest message; popping it leaves the others.\<close>

lemma frontedD:
  assumes "fronted q m ms"
  shows "FrontBlock q = ret (q, Some (lq_head q))" "holds (lq_buff q) (lq_head q) (enc m)" "msg_ok m"
    "0 \<le> lq_head q" "lq_head q + bsize m \<le> lq_bufflen q" "lq_rep (PopBlock q (bsize m)) ms"
    "read_block q (lq_head q) = ret m" "bt_len (lq_buff q) (lq_head q) = bsize m"
proof -
  have g: "22 \<le> lq_bufflen q" "lq_bufflen q \<le> 2 ^ 30" "msg_ok m" "\<forall>m \<in> set ms. msg_ok m"
    using assms by (auto simp: fronted_def lq_rep_def)
  have "FrontBlock q = ret (q, Some (lq_head q)) \<and> holds (lq_buff q) (lq_head q) (enc m) \<and>
    0 \<le> lq_head q \<and> lq_head q + bsize m \<le> lq_bufflen q \<and> lq_rep (PopBlock q (bsize m)) ms"
  proof (cases "linear q (m # ms)")
    case True
    then show ?thesis using FrontBlock_linear [OF True g(3)] g bsizes_nonneg [of ms] bsize_ge [of m]
      by (auto simp: lq_rep_def PopBlock_def linear_def)
  next
    case False
    then obtain ms1 ms2 where old: "ms = ms1 @ ms2" "wrapped q (m # ms1) ms2" using assms by (auto simp: fronted_def)
    let ?q = "PopBlock q (bsize m)"
    have pos: "0 \<le> lq_head q" "lq_tail q < lq_head q" "lq_head q + bsize m \<le> lq_bufflen q"
      "holds (lq_buff q) (lq_head q) (enc m)"
      using old(2) bsizes_nonneg [of ms1] bsizes_nonneg [of ms2] by (auto simp: wrapped_def)
    have "FrontBlock q = ret (q, Some (lq_head q))"
      using pos by (intro FrontBlock_at [OF _ g(3)]) auto
    moreover have "wrapped ?q ms1 ms2"
      using old(2) bsize_ge [of m] by (auto simp: wrapped_def PopBlock_def add.assoc)
    ultimately show ?thesis using old(1) g pos by (auto simp: lq_rep_def PopBlock_def)
  qed
  then show "FrontBlock q = ret (q, Some (lq_head q))" "holds (lq_buff q) (lq_head q) (enc m)" "msg_ok m"
    "0 \<le> lq_head q" "lq_head q + bsize m \<le> lq_bufflen q" "lq_rep (PopBlock q (bsize m)) ms"
    using g(3) by auto
  then show "read_block q (lq_head q) = ret m" "bt_len (lq_buff q) (lq_head q) = bsize m"
    using read_block_enc by blast+
qed

lemma PopBlock_filling:
  assumes "fronted q m0 ms" "filling q m"
  shows "filling (PopBlock q (bsize m0)) m"
proof (rule filling_head [OF assms(2)])
  show "lq_head (PopBlock q (bsize m0)) \<le> lq_tail q \<or>
      (lq_tail q < lq_head q \<and> lq_head q \<le> lq_head (PopBlock q (bsize m0)))"
    using assms(1) bsizes_nonneg [of ms] bsize_ge [of m0]
    by (auto simp: fronted_def linear_def wrapped_def PopBlock_def)
qed (simp_all add: PopBlock_def)

lemma FrontBlock_fronted:
  assumes rep: "lq_rep q (m # ms)"
  shows "\<exists>q1. FrontBlock q = ret (q1, Some (lq_head q1)) \<and> fronted q1 m ms"
proof (cases "linear q (m # ms) \<or> (\<exists>ms1 ms2. ms = ms1 @ ms2 \<and> wrapped q (m # ms1) ms2)")
  case True
  then have "fronted q m ms" using rep by (simp add: fronted_def)
  then show ?thesis using frontedD(1) by blast
next
  case False
  then have new: "wrapped q [] (m # ms)" using rep by (auto simp: lq_rep_def Cons_eq_append_conv)
  have g: "22 \<le> lq_bufflen q" "lq_bufflen q \<le> 2 ^ 30" "msg_ok m" "\<forall>m \<in> set ms. msg_ok m"
    using rep by (auto simp: lq_rep_def)
  let ?q = "q\<lparr>lq_head := 0\<rparr>"
  have l: "linear ?q (m # ms)" using new by (auto simp: wrapped_def linear_def)
  then have "fronted ?q m ms" using g by (auto simp: fronted_def lq_rep_def)
  moreover have "FrontBlock q = FrontBlock ?q"
    using new g bsize_ge [of m] bsizes_nonneg [of ms]
    by (intro FrontBlock_end_mark [of _ m]) (auto simp: wrapped_def)
  ultimately show ?thesis using FrontBlock_linear [OF l g(3)] by auto
qed

lemma FrontBlock_result:
  assumes rep: "lq_rep q ms"
  shows "\<exists>q1 b. FrontBlock q = ret (q1, b) \<and>
    (case b of None \<Rightarrow> ms = [] \<and> q1 = q
     | Some off \<Rightarrow> off = lq_head q1 \<and> ms \<noteq> [] \<and> fronted q1 (hd ms) (tl ms))"
proof (cases ms)
  case Nil
  then have "lq_head q = lq_tail q" using rep by (auto simp: lq_rep_def linear_def wrapped_def)
  with Nil show ?thesis by (simp add: FrontBlock_def)
next
  case (Cons m ms')
  then show ?thesis using FrontBlock_fronted [of q m ms'] rep by auto
qed

lemma FrontBlock_Cons:
  assumes rep: "lq_rep q (m # ms)"
  shows "\<exists>q1. FrontBlock q = ret (q1, Some (lq_head q1)) \<and> holds (lq_buff q1) (lq_head q1) (enc m) \<and> msg_ok m \<and>
    0 \<le> lq_head q1 \<and> lq_head q1 + bsize m \<le> lq_bufflen q1 \<and> lq_rep (PopBlock q1 (bsize m)) ms"
  using FrontBlock_fronted [OF rep] frontedD by blast

lemma TakeBlock_Cons:
  assumes rep: "lq_rep q (m # ms)"
  shows "\<exists>q1. TakeBlock q = ret (q1, Some m) \<and> lq_rep q1 ms"
proof -
  obtain q1 where q1: "FrontBlock q = ret (q1, Some (lq_head q1))" "holds (lq_buff q1) (lq_head q1) (enc m)"
    "msg_ok m" "0 \<le> lq_head q1" "lq_head q1 + bsize m \<le> lq_bufflen q1" "lq_rep (PopBlock q1 (bsize m)) ms"
    using FrontBlock_Cons [OF rep] by blast
  then show ?thesis using read_block_enc [OF q1(2-5)] by (simp add: TakeBlock_def)
qed

interpretation lq: fifo lq_rep push_safe PushMsg TakeBlock
  by unfold_locales (rule PushMsg_rep TakeBlock_Cons, assumption+ | simp add: TakeBlock_Nil)+

end
