(* ===== verification/Loop_Queue_Spec.thy ===== *)
theory Loop_Queue_Spec
  imports Loop_Queue_Fifo
begin

text \<open>
  The properties of \<open>LoopQueue\<close>: what it promises for pushes that are \<open>push_safe\<close>, and, in
  the last section, what happens on the others.
\<close>

section \<open>Example states\<close>

definition sample_msg :: "int \<Rightarrow> nat \<Rightarrow> message" where
  "sample_msg fd n = \<lparr>msg_fd = fd, msg_remote = 0, msg_type = MT_CLI_MESSAGE, msg_data = replicate n 7\<rparr>"

definition queue60 :: loop_queue where
  "queue60 = fst (Init new_LoopQueue 60)"

lemma queue60_simps:
  "lq_bufflen queue60 = 60" "lq_head queue60 = 0" "lq_tail queue60 = 0"
  by (simp_all add: queue60_def Init_def)

lemma bsize_msg: "bsize (sample_msg fd n) = 22 + int n"
  by (simp add: bsize_def sizeof_block_def sample_msg_def)

lemma msg_ok_msg: "0 \<le> fd \<Longrightarrow> fd < 2 ^ 31 \<Longrightarrow> n < 2 ^ 30 \<Longrightarrow> msg_ok (sample_msg fd n)"
  by (simp add: msg_ok_def sample_msg_def MT_CLI_MESSAGE_def)

lemma lq_rep_queue60: "lq_rep queue60 []"
  using lq_rep_Init [of 60 new_LoopQueue] by (simp add: queue60_def)

lemma stored_simps:
  "lq_tail (stored q m) = lq_tail q + bsize m" "lq_head (stored q m) = lq_head q"
  "lq_bufflen (stored q m) = lq_bufflen q"
  "lq_buff (stored q m) = mwrite (lq_buff q) (lq_tail q) (enc m)"
  by (simp_all add: stored_def)

lemma lq_rep_stored60:
  "0 \<le> fd \<Longrightarrow> fd < 2 ^ 31 \<Longrightarrow> lq_rep (stored queue60 (sample_msg fd 10)) [sample_msg fd 10]"
  using linear_stored [of queue60 "[]" "sample_msg fd 10"]
  by (simp add: lq_rep_def linear_def queue60_simps stored_simps bsize_msg msg_ok_msg)

lemma lq_rep_stored5: "lq_rep (stored queue60 (sample_msg 5 10)) [sample_msg 5 10]"
  by (rule lq_rep_stored60) simp_all

section \<open>First in, first out\<close>

text \<open>C6. Whatever the interleaving of pushes and takes on a fresh queue, as long as every push
  is safe where it happens: no access leaves the buffer, and the messages come out exactly as
  they were pushed, in the order in which they were accepted; what was accepted and has not
  come out is still in the queue.\<close>

theorem LoopQueue_in_order:
  assumes "22 \<le> n" "n \<le> 2 ^ 30" "safe_run PushMsg TakeBlock push_safe (fst (Init q n)) ops"
  shows "\<exists>q1 ins outs rest. run_queue PushMsg TakeBlock (fst (Init q n)) ops = ret (q1, ins, outs) \<and>
    lq_rep q1 rest \<and> ins = outs @ rest"
  using lq.in_order [of "fst (Init q n)" "[]" ops] lq_rep_Init [OF assms(1,2)] assms(3) by simp

lemma LoopQueue_in_order_witness:
  "\<exists>q1 ins outs rest. run_queue PushMsg TakeBlock (fst (Init new_LoopQueue 60))
      [Send (sample_msg 5 3), Send (sample_msg 6 2), Receive] = ret (q1, ins, outs) \<and> lq_rep q1 rest \<and> ins = outs @ rest"
proof (rule LoopQueue_in_order)
  have "PushMsg queue60 (sample_msg 5 3) = ret (stored queue60 (sample_msg 5 3), True)"
    by (rule Push_store) (simp_all add: queue60_simps bsize_msg)
  moreover have "PushMsg (stored queue60 (sample_msg 5 3)) (sample_msg 6 2)
      = ret (stored (stored queue60 (sample_msg 5 3)) (sample_msg 6 2), True)"
    by (rule Push_store) (simp_all add: queue60_simps stored_simps bsize_msg)
  ultimately show "safe_run PushMsg TakeBlock push_safe (fst (Init new_LoopQueue 60))
      [Send (sample_msg 5 3), Send (sample_msg 6 2), Receive]"
    by (fold queue60_def)
      (simp add: push_safe_def queue60_simps stored_simps bsize_msg msg_ok_msg ret_def
        split: option.split sum.split)
qed simp_all

text \<open>A safe push is accepted exactly when the tail is not behind the head or the block stays
  strictly before the head; a refused push changes nothing, an accepted one puts the message
  behind those that wait.\<close>

lemma PushMsg_decides:
  assumes "lq_rep q ms" "push_safe q m"
  shows "if lq_tail q < lq_head q \<and> lq_head q \<le> lq_tail q + bsize m
    then PushMsg q m = ret (q, False)
    else \<exists>q1. PushMsg q m = ret (q1, True) \<and> lq_rep q1 (ms @ [m])"
proof (cases "lq_tail q < lq_head q \<and> lq_head q \<le> lq_tail q + bsize m")
  case True
  then show ?thesis using Push_full by auto
next
  case False
  obtain q1 ok where P: "PushMsg q m = ret (q1, ok)" "lq_rep q1 (if ok then ms @ [m] else ms)"
    using PushMsg_rep [OF assms] by blast
  have pos: "0 \<le> lq_tail q" "lq_tail q \<le> lq_bufflen q" "lq_head q \<le> lq_bufflen q" "22 \<le> lq_bufflen q"
    using lq_rep_bounds [OF assms(1)] by auto
  have ok
  proof (cases "lq_tail q + bsize m \<le> lq_bufflen q")
    case True
    then have "PushMsg q m = ret (stored q m, True)"
      using False pos by (intro Push_store) auto
    with P show ?thesis by simp
  next
    case wide: False
    then have "lq_head q \<le> lq_tail q" "bsize m < lq_head q"
      using False pos assms(2) by (auto simp: push_safe_def)
    then have "PushMsg q m = ret (stored (wrap_tail q) m, True)"
      using wide pos bsize_ge [of m] Push_wraps [of q m] Push_store [of "wrap_tail q" m] by simp
    with P show ?thesis by simp
  qed
  with P False show ?thesis by auto
qed

text \<open>A consumer that takes as often as there are messages waiting gets all of them, in
  order, and leaves the queue empty.\<close>

theorem LoopQueue_drain:
  assumes "lq_rep q ms"
  shows "\<exists>q1. run_queue PushMsg TakeBlock q (replicate (length ms) Receive) = ret (q1, [], ms) \<and> lq_rep q1 []"
  using assms by (rule lq.drain)

lemma LoopQueue_drain_witness:
  "\<exists>q1. run_queue PushMsg TakeBlock (stored queue60 (sample_msg 5 10)) [Receive] = ret (q1, [], [sample_msg 5 10]) \<and>
     lq_rep q1 []"
  using LoopQueue_drain [OF lq_rep_stored5] by (simp add: numeral_eq_Suc)

section \<open>Outside the safe pushes\<close>

text \<open>The tail is reset to 0 without looking at the head.  With the head at 0 the queue then
  looks empty and the new block overwrites the messages still waiting.
\<close>

theorem Push_loses:
  assumes rep: "lq_rep q ms" and "lq_head q = 0" "lq_bufflen q < lq_tail q + bsize m"
    "bsize m \<le> lq_bufflen q" "msg_ok m"
  shows "\<exists>q1. PushMsg q m = ret (q1, True) \<and> lq_rep q1 [m]"
proof -
  have "\<not> wrapped q ms1 ms2" for ms1 ms2
    using assms(2) bsizes_nonneg [of ms2] by (auto simp: wrapped_def)
  then have l: "linear q ms" and g: "22 \<le> lq_bufflen q" "lq_bufflen q \<le> 2 ^ 30"
    using rep by (auto simp: lq_rep_def)
  have pos: "0 \<le> lq_tail q" using l assms(2) bsizes_nonneg [of ms] by (simp add: linear_def)
  have "PushMsg q m = ret (stored (wrap_tail q) m, True)"
    using assms pos g Push_wraps [of q m] Push_store [of "wrap_tail q" m] by simp
  moreover have "linear (stored (wrap_tail q) m) [m]"
    using assms by (simp add: linear_def stored_def holds_mwrite_same)
  ultimately show ?thesis using g assms(5) by (auto simp: lq_rep_def stored_def)
qed

lemma Push_loses_witness:
  "\<exists>q1. PushMsg (stored queue60 (sample_msg 5 10)) (sample_msg 6 10) = ret (q1, True) \<and> lq_rep q1 [sample_msg 6 10]"
  using Push_loses [OF lq_rep_stored5, of "sample_msg 6 10"]
  by (simp add: queue60_simps stored_simps bsize_msg msg_ok_msg)

text \<open>A push that wraps the tail and then finds the ring full leaves the tail at 0.  Once the
  consumer reaches the end mark it takes whatever block lies at 0: a message already
  delivered is delivered again.
\<close>

theorem Push_replays:
  assumes rep: "lq_rep q []" and m: "lq_bufflen q < lq_tail q + bsize m" "lq_head q \<le> bsize m"
    and old: "holds (lq_buff q) 0 (enc m0)" "msg_ok m0" "bsize m0 \<le> lq_head q"
  shows "\<exists>q1 q2. PushMsg q m = ret (q1, False) \<and> TakeBlock q1 = ret (q2, Some m0)"
proof -
  have g: "22 \<le> lq_bufflen q" and e: "lq_head q = lq_tail q" "0 \<le> lq_head q" "lq_tail q \<le> lq_bufflen q"
    using rep by (auto simp: lq_rep_def linear_def wrapped_def)
  have h: "0 < lq_head q" using old(3) bsize_ge [of m0] by simp
  let ?q = "wrap_tail q"
  have P: "PushMsg q m = ret (?q, False)"
    using e g h m Push_wraps [of q m] Push_full [of ?q m] by simp
  have h0: "holds (lq_buff ?q) 0 (enc m0)"
    using old e holds_wrap_tail [of 0 "enc m0" q] by simp
  have f: "bt_len (lq_buff ?q) 0 = bsize m0" "\<not> bt_discard (lq_buff ?q) 0"
    "read_block (?q\<lparr>lq_head := 0\<rparr>) 0 = ret m0"
    using read_block_enc [of ?q 0 m0] read_block_enc [of "?q\<lparr>lq_head := 0\<rparr>" 0 m0] h0 old e by simp_all
  have "end_mark (lq_buff ?q) (lq_bufflen q) (lq_head q)"
    using end_mark_wrap_tail [of q] e by simp
  then have "FrontBlock ?q = ret (?q\<lparr>lq_head := 0\<rparr>, Some 0)"
    using f h g e bsize_ge [of m0]
    by (auto simp: FrontBlock_def buff_check_def sizeof_block_def end_mark_def Let_def)
  then have "TakeBlock ?q = ret (PopBlock (?q\<lparr>lq_head := 0\<rparr>) (bsize m0), Some m0)"
    using f by (simp add: TakeBlock_def)
  with P show ?thesis by blast
qed

lemma Push_replays_witness:
  "\<exists>q1 q2. PushMsg ((stored queue60 (sample_msg 5 10))\<lparr>lq_head := 32\<rparr>) (sample_msg 6 10) = ret (q1, False) \<and>
     TakeBlock q1 = ret (q2, Some (sample_msg 5 10))"
proof -
  have "lq_rep ((stored queue60 (sample_msg 5 10))\<lparr>lq_head := 32\<rparr>) []"
    by (simp add: lq_rep_def linear_def queue60_simps stored_simps bsize_msg)
  from Push_replays [OF this, of "sample_msg 6 10" "sample_msg 5 10"] show ?thesis
    by (simp add: queue60_simps stored_simps bsize_msg msg_ok_msg holds_mwrite_same)
qed

text \<open>C38. A push is not safe against a consumer in its midst, although the network thread pushes without the
  lock the workers take.  When the tail is wrapped in front of an empty queue, \<open>BufferForPush\<close> makes
  the block visible at once: a worker that looks before the message has been copied takes
  the block with whatever bytes lie there, and once the push is finished the queue is empty and the
  message itself is never delivered.\<close>

theorem unfinished_push_taken:
  assumes rep: "lq_rep q []" and m: "msg_ok m" "bsize m < lq_head q" "lq_bufflen q < lq_tail q + bsize m"
  shows "\<exists>q1 q2 q3. BufferForPush q (msg_fd m) (msg_remote m) (msg_type m) (int (length (msg_data m))) = ret (q1, Some 22) \<and>
    TakeBlock q1 = ret (q2, Some (m\<lparr>msg_data := mread (lq_buff q) 22 (int (length (msg_data m)))\<rparr>)) \<and>
    buff_write q2 22 (msg_data m) = ret q3 \<and> lq_rep (PushFinish q3 (int (length (msg_data m)))) []"
proof -
  let ?n = "int (length (msg_data m))"
  let ?m = "m\<lparr>msg_data := mread (lq_buff q) 22 ?n\<rparr>"
  let ?h = "header_bytes (22 + ?n) False (msg_fd m) (msg_remote m) (msg_type m) ?n"
  have g: "22 \<le> lq_bufflen q" "lq_bufflen q \<le> 2 ^ 30"
    and e: "lq_head q = lq_tail q" "0 \<le> lq_head q" "lq_tail q \<le> lq_bufflen q"
    using rep by (auto simp: lq_rep_def linear_def wrapped_def)
  have b: "bsize m = 22 + ?n" "bsize ?m = 22 + ?n" by (simp_all add: bsize_def sizeof_block_def)
  let ?q1 = "(wrap_tail q)\<lparr>lq_buff := mwrite (lq_buff (wrap_tail q)) 0 ?h\<rparr>"
  have B: "BufferForPush q (msg_fd m) (msg_remote m) (msg_type m) ?n = ret (?q1, Some 22)"
    using e g m b by (auto simp: BufferForPush_def buff_write_def wrap_tail_def sizeof_block_def Let_def)
  have h: "holds (lq_buff ?q1) 0 (enc ?m)"
  proof -
    have "holds (lq_buff (wrap_tail q)) 22 (mread (lq_buff q) 22 ?n)"
      using m(2) e(1) b(1) by (subst holds_wrap_tail) (simp_all add: holds_def)
    then have "holds (lq_buff ?q1) 22 (mread (lq_buff q) 22 ?n)" by (simp add: holds_mwrite_disjoint)
    then show ?thesis by (simp add: enc_def sizeof_block_def holds_mwrite_same)
  qed
  have ok: "msg_ok ?m" using m(1) by (simp add: msg_ok_def)
  note f = read_block_enc [OF h ok]
  have f': "bt_len (lq_buff ?q1) 0 = bsize ?m" "\<not> bt_discard (lq_buff ?q1) 0" "read_block (?q1\<lparr>lq_head := 0\<rparr>) 0 = ret ?m"
    using f read_block_enc [of "?q1\<lparr>lq_head := 0\<rparr>" 0 ?m] h ok m(2) e b by simp_all
  have "end_mark (lq_buff ?q1) (lq_bufflen q) (lq_head q)"
    using end_mark_wrap_tail [of q] e m(2) b(1) by (simp add: end_mark_mwrite)
  then have "FrontBlock ?q1 = ret (?q1\<lparr>lq_head := 0\<rparr>, Some 0)"
    using f' g e m(2) b by (auto simp: FrontBlock_def buff_check_def sizeof_block_def end_mark_def Let_def)
  then have T: "TakeBlock ?q1 = ret (PopBlock (?q1\<lparr>lq_head := 0\<rparr>) (bsize ?m), Some ?m)"
    using f' by (simp add: TakeBlock_def)
  let ?q2 = "PopBlock (?q1\<lparr>lq_head := 0\<rparr>) (bsize ?m)"
  have W: "buff_write ?q2 22 (msg_data m) = ret (?q2\<lparr>lq_buff := mwrite (lq_buff ?q2) 22 (msg_data m)\<rparr>)"
    using m(2) e b by (simp add: buff_write_def PopBlock_def)
  have "lq_rep (PushFinish (?q2\<lparr>lq_buff := mwrite (lq_buff ?q2) 22 (msg_data m)\<rparr>) ?n) []"
    using g e m(2) b by (simp add: lq_rep_def linear_def PushFinish_def PopBlock_def sizeof_block_def)
  with B T W show ?thesis by blast
qed

text \<open>Nine bytes 1 are pushed; the worker takes nine bytes 7 of an old message.\<close>

lemma unfinished_push_taken_witness:
  "\<exists>q1 q2. BufferForPush ((stored queue60 (sample_msg 5 10))\<lparr>lq_head := 32\<rparr>) 6 0 MT_CLI_MESSAGE 9 = ret (q1, Some 22) \<and>
     TakeBlock q1 = ret (q2, Some (sample_msg 6 9))"
proof -
  let ?q = "(stored queue60 (sample_msg 5 10))\<lparr>lq_head := 32\<rparr>"
  let ?m = "(sample_msg 6 9)\<lparr>msg_data := replicate 9 1\<rparr>"
  have rep: "lq_rep ?q []" by (simp add: lq_rep_def linear_def queue60_simps stored_simps bsize_msg)
  have "holds (lq_buff ?q) 0 (enc (sample_msg 5 10))" by (simp add: stored_simps queue60_simps holds_mwrite_same)
  then have "holds (lq_buff ?q) 22 (replicate 9 7 @ [7])"
    by (simp add: enc_def sample_msg_def sizeof_block_def numeral_eq_Suc)
  then have "mread (lq_buff ?q) 22 9 = replicate 9 7" unfolding holds_append by (simp add: holds_def)
  then have "?m\<lparr>msg_data := mread (lq_buff ?q) 22 (int (length (msg_data ?m)))\<rparr> = sample_msg 6 9"
    by (simp add: sample_msg_def)
  moreover have "msg_ok ?m" "bsize ?m < lq_head ?q" "lq_bufflen ?q < lq_tail ?q + bsize ?m"
    by (simp_all add: msg_ok_def sample_msg_def MT_CLI_MESSAGE_def bsize_def sizeof_block_def queue60_simps stored_simps)
  ultimately show ?thesis using unfinished_push_taken [OF rep, of ?m] by (auto simp: sample_msg_def)
qed

text \<open>A message larger than the whole buffer is copied past its end when the head is at 0.\<close>

theorem Push_overflows:
  assumes "0 \<le> lq_tail q" "lq_head q = 0" "lq_tail q \<le> lq_bufflen q" "22 \<le> lq_bufflen q"
    "lq_bufflen q < bsize m"
  shows "PushMsg q m = fail Out_of_bounds"
  using assms
  by (auto simp: PushMsg_def Push_def BufferForPush_def buff_write_def sizeof_block_def bsize_def Let_def)

lemma Push_overflows_witness: "PushMsg queue60 (sample_msg 6 50) = fail Out_of_bounds"
  using Push_overflows [of queue60 "sample_msg 6 50"] by (simp add: queue60_simps bsize_msg)

end
