(* ===== verification/Rpc_Head.thy ===== *)
theory Rpc_Head
  imports Mkx_Prelude
begin

text \<open>
  \<open>RpcHead\<close> (framework/IRpc.h, IRpc.cc): the header of an RPC message.  On the wire it is
  three 32-bit big-endian numbers, the total length, the return code and the length of the
  name, followed by the name; the payload follows.

  \<open>Encode\<close> writes the header so that it ends at offset \<open>MaxHeadLen\<close> of the buffer, where
  the payload already lies.  \<open>Decode\<close> reads from a pointer; the bytes that may be read
  there are the list \<open>mem\<close>, which may be longer than \<open>msglen\<close>.
\<close>

record rpc_head =
  rh_Len :: int
  rh_Ret :: int
  rh_Name :: "byte list"
  rh_DataLen :: int
  rh_Data :: "int option"

definition MAX_HEAD_LEN :: int where "MAX_HEAD_LEN = 256"
definition BUFF_LEN :: int where "BUFF_LEN = 1048576"

definition HeadLen :: "rpc_head \<Rightarrow> int" where
  "HeadLen h = to_u32 (12 + int (length (rh_Name h)))"

definition MaxHeadLen :: int where
  "MaxHeadLen = to_u32 MAX_HEAD_LEN"

text \<open>\<open>ntohl\<close> of the four bytes at an offset.\<close>

definition read_u32 :: "byte list \<Rightarrow> nat \<Rightarrow> int run" where
  "read_u32 mem off =
     (if off + 4 \<le> length mem then ret (be_val (take 4 (drop off mem))) else fail Out_of_bounds)"

definition Decode :: "rpc_head \<Rightarrow> byte list \<Rightarrow> int \<Rightarrow> (rpc_head \<times> int) run" where
  "Decode h mem msglen =
     rbind (read_u32 mem 0) (\<lambda>len.
     rbind (read_u32 mem 4) (\<lambda>r.
     rbind (read_u32 mem 8) (\<lambda>nameLen0.
       let hlen = to_u32 (12 + nameLen0);
           nameLen = (if hlen > MaxHeadLen then to_u32 (nameLen0 - (hlen - MaxHeadLen)) else nameLen0);
           h1 = h\<lparr>rh_Len := len, rh_Ret := r\<rparr>
       in if len \<noteq> to_u32 msglen \<or> len < hlen then ret (h1, -1)
          else if 12 + nameLen > int (length mem) then fail Out_of_bounds
          else ret (h1\<lparr>rh_Name := take (nat nameLen) (drop 12 mem),
                       rh_Data := (if len = hlen then None else Some hlen),
                       rh_DataLen := to_u32 (msglen - hlen)\<rparr>, 0))))"

definition databuff_write :: "region \<Rightarrow> int \<Rightarrow> byte list \<Rightarrow> region run" where
  "databuff_write buf off xs =
     (if 0 \<le> off \<and> off + int (length xs) \<le> BUFF_LEN then ret (mwrite buf off xs)
      else fail Out_of_bounds)"

definition Encode :: "rpc_head \<Rightarrow> region \<Rightarrow> int \<Rightarrow> (rpc_head \<times> region \<times> int) run" where
  "Encode h data datalen =
     (let hlen = HeadLen h;
          h1 = h\<lparr>rh_DataLen := to_u32 datalen, rh_Len := to_u32 (hlen + to_u32 datalen)\<rparr>
      in if hlen > MaxHeadLen then ret (h1, data, -1)
         else
           (let sidx = to_u32 (MaxHeadLen - hlen)
            in rbind (databuff_write data sidx (be_bytes 4 (rh_Len h1))) (\<lambda>d1.
               rbind (databuff_write d1 (sidx + 4) (be_bytes 4 (rh_Ret h1))) (\<lambda>d2.
               rbind (databuff_write d2 (sidx + 8) (be_bytes 4 (int (length (rh_Name h1))))) (\<lambda>d3.
               rbind (databuff_write d3 (sidx + 12) (rh_Name h1)) (\<lambda>d4.
                 ret (h1, d4, sidx)))))))"

section \<open>The wire format\<close>

definition head_bytes :: "int \<Rightarrow> byte list \<Rightarrow> int \<Rightarrow> byte list" where
  "head_bytes r name datalen =
     be_bytes 4 (12 + int (length name) + datalen) @ be_bytes 4 r @ be_bytes 4 (int (length name)) @ name"

lemma length_head_bytes [simp]: "length (head_bytes r name n) = 12 + length name"
  by (simp add: head_bytes_def)

lemma head_bytes_ne: "head_bytes r name n \<noteq> []"
  using length_head_bytes [of r name n] by (metis Zero_not_Suc add_Suc list.size(3) numeral_eq_Suc)

lemma Encode_ok:
  assumes name: "length (rh_Name h) \<le> 244" and n: "0 \<le> n" "n < 2 ^ 31"
  shows "Encode h data n = ret (h\<lparr>rh_DataLen := n, rh_Len := 12 + int (length (rh_Name h)) + n\<rparr>,
    mwrite data (244 - int (length (rh_Name h))) (head_bytes (rh_Ret h) (rh_Name h) n),
    244 - int (length (rh_Name h)))"
proof -
  have hl: "HeadLen h = 12 + int (length (rh_Name h))" "MaxHeadLen = 256"
    using name by (simp_all add: HeadLen_def MaxHeadLen_def MAX_HEAD_LEN_def cint_simps)
  have u: "to_u32 n = n" "to_u32 (12 + int (length (rh_Name h)) + n) = 12 + int (length (rh_Name h)) + n"
    "to_u32 (244 - int (length (rh_Name h))) = 244 - int (length (rh_Name h))"
    using name n by (auto intro!: to_u32_id)
  show ?thesis
    using name
    by (simp add: Encode_def hl u Let_def databuff_write_def BUFF_LEN_def mwrite_append head_bytes_def)
qed

lemma Encode_too_long:
  assumes "244 < length (rh_Name h)" "length (rh_Name h) < 2 ^ 31"
  shows "\<exists>h1. Encode h data n = ret (h1, data, -1)"
proof -
  have "HeadLen h = 12 + int (length (rh_Name h))"
    using assms by (simp add: HeadLen_def cint_simps)
  then show ?thesis
    using assms by (simp add: Encode_def MaxHeadLen_def MAX_HEAD_LEN_def to_u32_def Let_def)
qed

lemma read_u32_be: "length xs = off \<Longrightarrow> read_u32 (xs @ be_bytes 4 x @ ys) off = ret (x mod 2 ^ 32)"
  by (simp add: read_u32_def)

lemma Decode_ok:
  assumes name: "length name \<le> 244" and r: "0 \<le> r" "r < 2 ^ 32"
    and len: "12 + int (length name) + int (length data) < 2 ^ 31"
  shows "Decode h (head_bytes r name (int (length data)) @ data @ rest)
           (12 + int (length name) + int (length data))
    = ret (h\<lparr>rh_Len := 12 + int (length name) + int (length data), rh_Ret := r, rh_Name := name,
             rh_Data := (if data = [] then None else Some (12 + int (length name))),
             rh_DataLen := int (length data)\<rparr>, 0)"
proof -
  let ?L = "12 + int (length name) + int (length data)"
  let ?m = "head_bytes r name (int (length data)) @ data @ rest"
  have m: "?m = [] @ be_bytes 4 ?L @ (be_bytes 4 r @ be_bytes 4 (int (length name)) @ name @ data @ rest)"
    "?m = be_bytes 4 ?L @ be_bytes 4 r @ (be_bytes 4 (int (length name)) @ name @ data @ rest)"
    "?m = (be_bytes 4 ?L @ be_bytes 4 r) @ be_bytes 4 (int (length name)) @ (name @ data @ rest)"
    by (simp_all add: head_bytes_def)
  have R0: "read_u32 ?m 0 = ret ?L"
    using len by (subst m(1), subst read_u32_be) simp_all
  have R4: "read_u32 ?m 4 = ret r"
    using r by (subst m(2), subst read_u32_be) simp_all
  have R8: "read_u32 ?m 8 = ret (int (length name))"
    using name by (subst m(3), subst read_u32_be) simp_all
  have u: "to_u32 ?L = ?L" "to_u32 (12 + int (length name)) = 12 + int (length name)"
    "to_u32 (int (length data)) = int (length data)" "MaxHeadLen = 256"
    using len name by (auto simp: MaxHeadLen_def MAX_HEAD_LEN_def intro!: to_u32_id)
  have "take (length name) (drop 12 ?m) = name" by (simp add: head_bytes_def)
  then show ?thesis using name
    by (simp add: Decode_def R0 R4 R8 u Let_def)
qed

text \<open>A message whose first word is not its length, or which is shorter than its header, is refused.\<close>

lemma Decode_refused:
  assumes "12 \<le> length mem"
    "be_val (take 4 mem) \<noteq> to_u32 msglen \<or>
     be_val (take 4 mem) < to_u32 (12 + be_val (take 4 (drop 8 mem)))"
  shows "\<exists>h1. Decode h mem msglen = ret (h1, -1) \<and> rh_Name h1 = rh_Name h"
  using assms by (auto simp: Decode_def read_u32_def Let_def)

text \<open>
  The header length is computed in 32 bits.  A name length within 12 of \<open>2 ^ 32\<close> wraps it to
  a small number, passes every check and makes the name's bytes run out of the message.
\<close>

lemma Decode_wraps:
  assumes len: "12 \<le> length mem" "length mem < 2 ^ 31"
    and nl: "be_val (take 4 (drop 8 mem)) = 2 ^ 32 - 12 + k" "0 \<le> k" "k < 12"
    and ok: "be_val (take 4 mem) = to_u32 msglen" "k \<le> to_u32 msglen"
  shows "Decode h mem msglen = fail Out_of_bounds"
proof -
  have "to_u32 (12 + be_val (take 4 (drop 8 mem))) = k"
    using nl by (simp add: to_u32_def)
  then show ?thesis
    using len nl ok by (simp add: Decode_def read_u32_def Let_def MaxHeadLen_def MAX_HEAD_LEN_def to_u32_def)
qed

end
