(* ===== verification/Registry.thy ===== *)
theory Registry
  imports Mkx_Prelude
begin

text \<open>
  Registries.  \<open>IRpc\<close> keeps handlers by name and the event library keeps handler factories by
  type; both promise that the first registration of a key stays.  The interface \<open>registry\<close>
  states that promise.  \<open>IOEventHandler.cc\<close>'s global table of factories is modelled here;
  \<open>IRpc\<close>'s maps are in theory \<open>Rpc\<close>.
\<close>

section \<open>The interface\<close>

text \<open>Make the registrations of a list one after the other; collect the codes returned.\<close>

fun register_all :: "('r \<Rightarrow> 'k \<Rightarrow> 'v \<Rightarrow> 'r \<times> int) \<Rightarrow> 'r \<Rightarrow> ('k \<times> 'v) list \<Rightarrow> 'r \<times> int list" where
  "register_all add r [] = (r, [])"
| "register_all add r ((k, v) # kvs) =
     (let (r1, c) = add r k v; (r2, cs) = register_all add r1 kvs in (r2, c # cs))"

locale registry =
  fixes lookup :: "'r \<Rightarrow> 'k \<Rightarrow> 'v option"
    and add :: "'r \<Rightarrow> 'k \<Rightarrow> 'v \<Rightarrow> 'r \<times> int"
    and valid :: "'k \<Rightarrow> bool"
  assumes add_new: "valid k \<Longrightarrow> lookup r k = None \<Longrightarrow>
      snd (add r k v) = 0 \<and> lookup (fst (add r k v)) = (lookup r)(k \<mapsto> v)"
    and add_refused: "\<not> valid k \<or> lookup r k \<noteq> None \<Longrightarrow> add r k v = (r, -1)"
begin

lemma keeps: "lookup r k = Some v \<Longrightarrow> lookup (fst (add r k' v')) k = Some v"
  using add_new [of k' r v'] add_refused [of k' r v'] by (cases "valid k' \<and> lookup r k' = None") auto

text \<open>A key holds what was registered for it first, and a call fails exactly on a bad or used key.\<close>

lemma first_wins:
  "lookup (fst (register_all add r kvs)) =
     map_of (filter (\<lambda>(k, v). valid k) kvs) ++ lookup r"
proof (induction kvs arbitrary: r)
  case Nil
  then show ?case by simp
next
  case (Cons kv kvs)
  obtain k v where kv: "kv = (k, v)" by fastforce
  have step: "lookup (fst (register_all add r (kv # kvs)))
      = map_of (filter (\<lambda>(k, v). valid k) kvs) ++ lookup (fst (add r k v))"
    using Cons.IH [of "fst (add r k v)"] kv
    by (cases "add r k v"; cases "register_all add (fst (add r k v)) kvs") simp
  show ?case
  proof (cases "valid k \<and> lookup r k = None")
    case True
    then show ?thesis using add_new [of k r v] step kv
      by (auto simp: fun_eq_iff map_add_def split: option.splits)
  next
    case False
    then have "lookup (fst (add r k v)) = lookup r" using add_refused [of k r v] by auto
    then show ?thesis using False step kv
      by (auto simp: fun_eq_iff map_add_def split: option.splits)
  qed
qed

end

section \<open>Event handler factories\<close>

text \<open>\<open>gFactorys\<close> (framework/IOEventHandler.cc): factories are values of the type parameter \<open>'f\<close>.\<close>

type_synonym 'f factories = "int \<rightharpoonup> 'f"

definition SetIOEventHandlerFactory :: "'f factories \<Rightarrow> int \<Rightarrow> 'f \<Rightarrow> 'f factories \<times> int" where
  "SetIOEventHandlerFactory g type factory =
     (if g type \<noteq> None then (g, -1) else (g(type \<mapsto> factory), 0))"

definition GetIOEventHandlerFactory :: "'f factories \<Rightarrow> int \<Rightarrow> 'f option" where
  "GetIOEventHandlerFactory g type = g type"

interpretation factories: registry GetIOEventHandlerFactory SetIOEventHandlerFactory "\<lambda>_. True"
  by unfold_locales (auto simp: GetIOEventHandlerFactory_def SetIOEventHandlerFactory_def)

text \<open>However factories are registered, a type is served by the first factory registered
  for it.\<close>

theorem factories_first_wins:
  "GetIOEventHandlerFactory (fst (register_all SetIOEventHandlerFactory Map.empty kvs)) = map_of kvs"
proof -
  have "GetIOEventHandlerFactory (Map.empty :: 'a factories) = Map.empty"
    by (simp add: GetIOEventHandlerFactory_def fun_eq_iff)
  then show ?thesis using factories.first_wins [of Map.empty kvs] by simp
qed

end
