(* ===== verification/Rpc.thy ===== *)
theory Rpc
  imports Rpc_Head Registry
begin

text \<open>
  \<open>IRpc\<close> (framework/IRpc.h, IRpc.cc): registration of handlers by name, dispatch of
  received messages, and sending of requests and responses.

  Handlers (\<open>std::function\<close> objects of the application) and services are values of the type
  parameters \<open>'h\<close> and \<open>'s\<close>; an empty function is \<open>None\<close>.  \<open>IRpc\<close> calls a handler or
  \<open>Server::SendMsg\<close> last, or ignores the result, so an operation yields the calls it makes,
  in order, and whether it returns a constant or what the last call returns.
\<close>

record ('h, 's) irpc =
  rpc_requestMap :: "byte list \<rightharpoonup> 'h"
  rpc_respondMap :: "byte list \<rightharpoonup> 'h"
  rpc_baseRequest :: "'h option"
  rpc_serviceMap :: "byte list \<rightharpoonup> 's"
  rpc_databuff :: region
  rpc_rhead :: rpc_head

text \<open>
  \<open>Call_request h fd remote data datalen\<close> and so on; \<open>data\<close> is \<open>None\<close> for a null pointer.
\<close>

datatype 'h rpc_call =
    Call_request 'h int int "byte list option" int
  | Call_base 'h int "byte list" "byte list option" int
  | Call_respond 'h int int "byte list option" int
  | Server_SendMsg int int "byte list"

datatype rpc_value = Const int | Last_call

type_synonym 'h outcome = "'h rpc_call list \<times> rpc_value"

definition new_IRpc :: "region \<Rightarrow> ('h, 's) irpc" where
  "new_IRpc buf =
     \<lparr>rpc_requestMap = Map.empty, rpc_respondMap = Map.empty, rpc_baseRequest = None,
      rpc_serviceMap = Map.empty, rpc_databuff = buf,
      rpc_rhead = \<lparr>rh_Len = 0, rh_Ret = 0, rh_Name = [], rh_DataLen = 0, rh_Data = None\<rparr>\<rparr>"

section \<open>Registration\<close>

definition AddRequestFunction ::
  "('h, 's) irpc \<Rightarrow> byte list \<Rightarrow> 'h option \<Rightarrow> ('h, 's) irpc \<times> int" where
  "AddRequestFunction r name func =
     (case func of
        None \<Rightarrow> (r, -1)
      | Some h \<Rightarrow>
          if name = [] then (r, -1)
          else if rpc_requestMap r name \<noteq> None then (r, -1)
          else (r\<lparr>rpc_requestMap := (rpc_requestMap r)(name \<mapsto> h)\<rparr>, 0))"

definition AddRespondFunction ::
  "('h, 's) irpc \<Rightarrow> byte list \<Rightarrow> 'h option \<Rightarrow> ('h, 's) irpc \<times> int" where
  "AddRespondFunction r name func =
     (case func of
        None \<Rightarrow> (r, -1)
      | Some h \<Rightarrow>
          if name = [] then (r, -1)
          else if rpc_respondMap r name \<noteq> None then (r, -1)
          else (r\<lparr>rpc_respondMap := (rpc_respondMap r)(name \<mapsto> h)\<rparr>, 0))"

definition SetRequestFunction :: "('h, 's) irpc \<Rightarrow> 'h option \<Rightarrow> ('h, 's) irpc \<times> int" where
  "SetRequestFunction r func = (r\<lparr>rpc_baseRequest := func\<rparr>, 0)"

text \<open>
  \<open>AddService\<close> takes the service's name and its \<open>RegisterServiceFunction\<close>.  The iterator it
  compares with \<open>end()\<close> is \<open>end()\<close> itself, so the test for a registered name never
  succeeds; \<open>emplace\<close> keeps an existing entry; the result of the registration is ignored.
\<close>

definition AddService ::
  "('h, 's) irpc \<Rightarrow> 's \<Rightarrow> byte list \<Rightarrow> (('h, 's) irpc \<Rightarrow> ('h, 's) irpc \<times> int) \<Rightarrow> ('h, 's) irpc \<times> int"
where
  "AddService r service sname register =
     (if sname = [] then (r, -1)
      else
        (let it_is_end = True
         in if \<not> it_is_end then (r, -1)
            else
              (let r1 = fst (register r)
               in (r1\<lparr>rpc_serviceMap :=
                       (case rpc_serviceMap r1 sname of
                          None \<Rightarrow> (rpc_serviceMap r1)(sname \<mapsto> service)
                        | Some _ \<Rightarrow> rpc_serviceMap r1)\<rparr>, 0))))"

section \<open>Sending\<close>

text \<open>The offset of the payload area in \<open>databuff_\<close>, or \<open>None\<close> for a null pointer.\<close>

definition GetDataBuff :: "('h, 's) irpc \<Rightarrow> int \<Rightarrow> int option" where
  "GetDataBuff r sz = (if sz > to_u32 (BUFF_LEN - MaxHeadLen) then None else Some MaxHeadLen)"

text \<open>What the application does with that pointer: serialise the payload there.\<close>

definition fill_databuff :: "('h, 's) irpc \<Rightarrow> byte list \<Rightarrow> ('h, 's) irpc run" where
  "fill_databuff r xs =
     rbind (databuff_write (rpc_databuff r) MaxHeadLen xs) (\<lambda>d. ret (r\<lparr>rpc_databuff := d\<rparr>))"

definition databuff_read :: "region \<Rightarrow> int \<Rightarrow> int \<Rightarrow> byte list run" where
  "databuff_read buf off n =
     (if 0 \<le> off \<and> 0 \<le> n \<and> off + n \<le> BUFF_LEN then ret (mread buf off n) else fail Out_of_bounds)"

definition send_encoded :: "('h, 's) irpc \<Rightarrow> int \<Rightarrow> int \<Rightarrow> int \<Rightarrow> (('h, 's) irpc \<times> 'h outcome) run" where
  "send_encoded r fd remote datalen =
     rbind (Encode (rpc_rhead r) (rpc_databuff r) datalen) (\<lambda>(h, d, sidx).
       let r1 = r\<lparr>rpc_rhead := h, rpc_databuff := d\<rparr>
       in if sidx < 0 then ret (r1, ([], Const (-1)))
          else rbind (databuff_read d sidx (to_i32 (rh_Len h))) (\<lambda>msg.
                 ret (r1, ([Server_SendMsg fd remote msg], Last_call))))"

definition SendRespond ::
  "('h, 's) irpc \<Rightarrow> int \<Rightarrow> int \<Rightarrow> int \<Rightarrow> byte list \<Rightarrow> int \<Rightarrow> (('h, 's) irpc \<times> 'h outcome) run" where
  "SendRespond r fd remote rcode name datalen =
     send_encoded (r\<lparr>rpc_rhead := (rpc_rhead r)\<lparr>rh_Ret := to_u32 rcode, rh_Name := name\<rparr>\<rparr>)
       fd remote datalen"

definition SendRequest ::
  "('h, 's) irpc \<Rightarrow> int \<Rightarrow> byte list \<Rightarrow> int \<Rightarrow> (('h, 's) irpc \<times> 'h outcome) run" where
  "SendRequest r fd name datalen =
     send_encoded (r\<lparr>rpc_rhead := (rpc_rhead r)\<lparr>rh_Ret := 0, rh_Name := name\<rparr>\<rparr>) fd 0 datalen"

section \<open>Dispatch\<close>

definition payload :: "byte list \<Rightarrow> rpc_head \<Rightarrow> byte list option" where
  "payload mem h = map_option (\<lambda>off. take (nat (rh_DataLen h)) (drop (nat off) mem)) (rh_Data h)"

definition OnRecvCliMsg ::
  "('h, 's) irpc \<Rightarrow> int \<Rightarrow> int \<Rightarrow> byte list option \<Rightarrow> int \<Rightarrow> (('h, 's) irpc \<times> 'h outcome) run" where
  "OnRecvCliMsg r fd remote msg msglen =
     (case msg of
        None \<Rightarrow> ret (r, ([], Const (-1)))
      | Some mem \<Rightarrow>
          rbind (Decode (rpc_rhead r) mem msglen) (\<lambda>(h, hret).
            let r1 = r\<lparr>rpc_rhead := h\<rparr>
            in if hret \<noteq> 0 then ret (r1, ([], Const hret))
               else
                 (case rpc_requestMap r1 (rh_Name h) of
                    None \<Rightarrow>
                      (case rpc_baseRequest r1 of
                         Some b \<Rightarrow>
                           ret (r1, ([Call_base b fd (rh_Name h) (payload mem h)
                                        (to_i32 (rh_DataLen h))], Last_call))
                       | None \<Rightarrow>
                           rbind (SendRespond r1 fd remote 101 (rh_Name h) 0) (\<lambda>(r2, calls, _).
                             ret (r2, (calls, Const (-1)))))
                  | Some f \<Rightarrow>
                      ret (r1, ([Call_request f fd (to_i64 remote) (payload mem h)
                                   (to_i32 (rh_DataLen h))], Last_call)))))"

definition OnRecvSvrMsg ::
  "('h, 's) irpc \<Rightarrow> int \<Rightarrow> byte list option \<Rightarrow> int \<Rightarrow> (('h, 's) irpc \<times> 'h outcome) run" where
  "OnRecvSvrMsg r fd msg msglen =
     (case msg of
        None \<Rightarrow> ret (r, ([], Const (-1)))
      | Some mem \<Rightarrow>
          rbind (Decode (rpc_rhead r) mem msglen) (\<lambda>(h, hret).
            let r1 = r\<lparr>rpc_rhead := h\<rparr>
            in if hret \<noteq> 0 then ret (r1, ([], Const hret))
               else
                 (case rpc_respondMap r1 (rh_Name h) of
                    None \<Rightarrow> ret (r1, ([], Const (-1)))
                  | Some f \<Rightarrow>
                      ret (r1, ([Call_respond f fd (to_i32 (rh_Ret h)) (payload mem h)
                                   (to_i32 (rh_DataLen h))], Last_call)))))"

section \<open>Facts about registration\<close>

lemma AddRequestFunction_refused:
  "name = [] \<or> func = None \<or> rpc_requestMap r name \<noteq> None \<Longrightarrow> AddRequestFunction r name func = (r, -1)"
  by (auto simp: AddRequestFunction_def split: option.splits)

lemma AddRespondFunction_refused:
  "name = [] \<or> func = None \<or> rpc_respondMap r name \<noteq> None \<Longrightarrow> AddRespondFunction r name func = (r, -1)"
  by (auto simp: AddRespondFunction_def split: option.splits)

definition add_request :: "('h, 's) irpc \<Rightarrow> byte list \<Rightarrow> 'h \<Rightarrow> ('h, 's) irpc \<times> int" where
  "add_request r name h = AddRequestFunction r name (Some h)"

definition add_respond :: "('h, 's) irpc \<Rightarrow> byte list \<Rightarrow> 'h \<Rightarrow> ('h, 's) irpc \<times> int" where
  "add_respond r name h = AddRespondFunction r name (Some h)"

interpretation requests: registry rpc_requestMap add_request "\<lambda>name. name \<noteq> []"
  by unfold_locales (auto simp: add_request_def AddRequestFunction_def)

interpretation responds: registry rpc_respondMap add_respond "\<lambda>name. name \<noteq> []"
  by unfold_locales (auto simp: add_respond_def AddRespondFunction_def)

section \<open>From one side to the other\<close>

lemma GetDataBuff_room:
  "0 \<le> sz \<Longrightarrow> GetDataBuff r sz = (if sz \<le> 1048320 then Some 256 else None)"
  by (simp add: GetDataBuff_def MaxHeadLen_def MAX_HEAD_LEN_def BUFF_LEN_def to_u32_def)

text \<open>What goes out is the header followed by the payload that lies in the data area.\<close>

lemma send_encoded_ok:
  assumes name: "length (rh_Name (rpc_rhead r)) \<le> 244" and n: "0 \<le> n" "n \<le> 1048320"
  shows "\<exists>r1. send_encoded r fd remote n = ret (r1, ([Server_SendMsg fd remote
      (head_bytes (rh_Ret (rpc_rhead r)) (rh_Name (rpc_rhead r)) n @ mread (rpc_databuff r) 256 n)],
      Last_call)) \<and> rpc_requestMap r1 = rpc_requestMap r \<and> rpc_respondMap r1 = rpc_respondMap r"
proof -
  let ?l = "length (rh_Name (rpc_rhead r))"
  let ?hb = "head_bytes (rh_Ret (rpc_rhead r)) (rh_Name (rpc_rhead r)) n"
  have E: "Encode (rpc_rhead r) (rpc_databuff r) n
      = ret ((rpc_rhead r)\<lparr>rh_DataLen := n, rh_Len := 12 + int ?l + n\<rparr>,
             mwrite (rpc_databuff r) (244 - int ?l) ?hb, 244 - int ?l)"
    using name n by (intro Encode_ok) auto
  have i: "to_i32 (12 + int ?l + n) = 12 + int ?l + n"
    using name n by (intro to_i32_id) auto
  have "mread (mwrite (rpc_databuff r) (244 - int ?l) ?hb) (244 - int ?l) (12 + int ?l + n)
      = mread (mwrite (rpc_databuff r) (244 - int ?l) ?hb) (244 - int ?l) (12 + int ?l) @
        mread (mwrite (rpc_databuff r) (244 - int ?l) ?hb) (244 - int ?l + (12 + int ?l)) n"
    using n by (intro mread_append) auto
  also have "\<dots> = ?hb @ mread (rpc_databuff r) 256 n"
    by (simp add: mread_mwrite_same mread_mwrite_disjoint)
  finally have M: "mread (mwrite (rpc_databuff r) (244 - int ?l) ?hb) (244 - int ?l) (12 + int ?l + n)
      = ?hb @ mread (rpc_databuff r) 256 n" .
  show ?thesis using name n
    by (auto simp: send_encoded_def E i M databuff_read_def BUFF_LEN_def Let_def)
qed

lemma fill_databuff_ok:
  "length xs \<le> 1048320 \<Longrightarrow>
     fill_databuff r xs = ret (r\<lparr>rpc_databuff := mwrite (rpc_databuff r) 256 xs\<rparr>)"
  by (simp add: fill_databuff_def databuff_write_def MaxHeadLen_def MAX_HEAD_LEN_def BUFF_LEN_def
      to_u32_def)

text \<open>A payload written to the data area goes out behind its header, whatever sends it.\<close>

lemma sent_bytes:
  assumes "length name \<le> 244" "length xs \<le> 1048320"
  shows "\<exists>r1. rbind (fill_databuff r xs) (\<lambda>r1. send_encoded
      (r1\<lparr>rpc_rhead := (rpc_rhead r1)\<lparr>rh_Ret := c, rh_Name := name\<rparr>\<rparr>) fd remote (int (length xs))) =
    ret (r1, ([Server_SendMsg fd remote (head_bytes c name (int (length xs)) @ xs)], Last_call)) \<and>
    rpc_requestMap r1 = rpc_requestMap r \<and> rpc_respondMap r1 = rpc_respondMap r"
proof -
  let ?r = "r\<lparr>rpc_databuff := mwrite (rpc_databuff r) 256 xs\<rparr>"
  show ?thesis
    using send_encoded_ok [of "?r\<lparr>rpc_rhead := (rpc_rhead ?r)\<lparr>rh_Ret := c, rh_Name := name\<rparr>\<rparr>" "int (length xs)" fd remote]
      assms fill_databuff_ok [OF assms(2), of r]
    by (auto simp: mread_mwrite_same)
qed

lemma fill_and_send:
  assumes "length name \<le> 244" "length data \<le> 1048320"
  shows "\<exists>c1 c2. fill_databuff c data = ret c1 \<and> SendRequest c1 fd name (int (length data))
      = ret (c2, ([Server_SendMsg fd 0 (head_bytes 0 name (int (length data)) @ data)], Last_call))"
    "\<exists>c1 c2. fill_databuff c data = ret c1 \<and> SendRespond c1 fd remote rc name (int (length data))
      = ret (c2, ([Server_SendMsg fd remote (head_bytes (to_u32 rc) name (int (length data)) @ data)], Last_call))"
  using sent_bytes [OF assms, of c 0 fd 0] sent_bytes [OF assms, of c "to_u32 rc" fd remote] fill_databuff_ok [OF assms(2), of c]
  by (auto simp: SendRequest_def SendRespond_def)

lemma payload_received:
  "payload (head_bytes c name (int (length data)) @ data @ rest)
     (h\<lparr>rh_Data := (if data = [] then None else Some (12 + int (length name))),
        rh_DataLen := int (length data)\<rparr>)
   = (if data = [] then None else Some data)"
  by (simp add: payload_def nat_add_distrib)

text \<open>The handler registered under a request's name is called with the sender's payload.\<close>

lemma OnRecvCliMsg_dispatches:
  assumes name: "length name \<le> 244" and len: "12 + int (length name) + int (length data) < 2 ^ 31"
    and c: "0 \<le> c" "c < 2 ^ 32" and f: "rpc_requestMap r name = Some f"
  shows "\<exists>r1. OnRecvCliMsg r fd remote (Some (head_bytes c name (int (length data)) @ data @ rest))
      (12 + int (length name) + int (length data))
    = ret (r1, ([Call_request f fd (to_i64 remote) (if data = [] then None else Some data)
                  (int (length data))], Last_call))"
proof -
  have i: "to_i32 (int (length data)) = int (length data)" using len by (intro to_i32_id) auto
  show ?thesis
    by (simp add: OnRecvCliMsg_def Decode_ok [OF name c len] Let_def f i payload_def nat_add_distrib)
qed

lemma OnRecvSvrMsg_dispatches:
  assumes name: "length name \<le> 244" and len: "12 + int (length name) + int (length data) < 2 ^ 31"
    and c: "0 \<le> c" "c < 2 ^ 32"
  shows "\<exists>r1. OnRecvSvrMsg r fd (Some (head_bytes c name (int (length data)) @ data @ rest))
      (12 + int (length name) + int (length data))
    = ret (r1, case rpc_respondMap r name of
        None \<Rightarrow> ([], Const (-1))
      | Some f \<Rightarrow> ([Call_respond f fd (to_i32 c) (if data = [] then None else Some data)
                  (int (length data))], Last_call))"
proof -
  have i: "to_i32 (int (length data)) = int (length data)" using len by (intro to_i32_id) auto
  show ?thesis
    by (simp add: OnRecvSvrMsg_def Decode_ok [OF name c len] Let_def i payload_def nat_add_distrib
        split: option.split)
qed

text \<open>A request nobody handles is answered with code 101 and no payload.\<close>

lemma OnRecvCliMsg_unknown:
  assumes name: "length name \<le> 244" and len: "12 + int (length name) + int (length data) < 2 ^ 31"
    and c: "0 \<le> c" "c < 2 ^ 32" and f: "rpc_requestMap r name = None" "rpc_baseRequest r = None"
  shows "\<exists>r1. OnRecvCliMsg r fd remote (Some (head_bytes c name (int (length data)) @ data @ rest))
      (12 + int (length name) + int (length data))
    = ret (r1, ([Server_SendMsg fd remote (head_bytes 101 name 0)], Const (-1)))"
proof -
  have u: "to_u32 101 = 101" by (simp add: to_u32_def)
  let ?h = "(rpc_rhead r)\<lparr>rh_Len := 12 + int (length name) + int (length data), rh_Ret := c,
      rh_Name := name, rh_Data := (if data = [] then None else Some (12 + int (length name))),
      rh_DataLen := int (length data)\<rparr>"
  obtain r1 where "send_encoded (r\<lparr>rpc_rhead := ?h\<lparr>rh_Ret := 101, rh_Name := name\<rparr>\<rparr>) fd remote 0
      = ret (r1, ([Server_SendMsg fd remote (head_bytes 101 name 0)], Last_call))"
    using send_encoded_ok [of "r\<lparr>rpc_rhead := ?h\<lparr>rh_Ret := 101, rh_Name := name\<rparr>\<rparr>" 0 fd remote] name
    by auto
  then show ?thesis
    using f by (simp add: OnRecvCliMsg_def Decode_ok [OF name c len] Let_def SendRespond_def u)
qed

text \<open>Neither sending nor receiving changes what is registered.\<close>

definition rpc_tables :: "('h, 's) irpc \<Rightarrow> (byte list \<rightharpoonup> 'h) \<times> (byte list \<rightharpoonup> 'h) \<times> (byte list \<rightharpoonup> 's) \<times> 'h option" where
  "rpc_tables r = (rpc_requestMap r, rpc_respondMap r, rpc_serviceMap r, rpc_baseRequest r)"

lemma rpc_tables_upd [simp]:
  "rpc_tables (r\<lparr>rpc_rhead := h\<rparr>) = rpc_tables r" "rpc_tables (r\<lparr>rpc_databuff := d\<rparr>) = rpc_tables r"
  by (simp_all add: rpc_tables_def)

lemma send_encoded_tables: "send_encoded r fd remote n = ret (r1, c) \<Longrightarrow> rpc_tables r1 = rpc_tables r"
  by (auto simp: send_encoded_def rbind_eq_ret Let_def split: if_splits)

lemma OnRecvCliMsg_tables: "OnRecvCliMsg r fd remote msg n = ret (r1, c) \<Longrightarrow> rpc_tables r1 = rpc_tables r"
  by (auto simp: OnRecvCliMsg_def SendRespond_def rbind_eq_ret Let_def dest!: send_encoded_tables
      split: option.splits if_splits)

lemma fill_databuff_tables: "fill_databuff r xs = ret r1 \<Longrightarrow> rpc_tables r1 = rpc_tables r"
  by (auto simp: fill_databuff_def rbind_eq_ret)

end
