(* ===== verification/Rpc_Spec.thy ===== *)
theory Rpc_Spec
  imports Rpc
begin

text \<open>
  The properties of the RPC layer: registration, and what a message sent by one side makes
  the other side do.  The two sides are two \<open>IRpc\<close> objects; the bytes handed to
  \<open>Server::SendMsg\<close> by one are what the other is given (theories \<open>Block_Buffer_Spec\<close> and
  \<open>Loop_Queue_Spec\<close> show that the transport in between keeps them).
\<close>

section \<open>Registration\<close>

text \<open>After any sequence of registrations of request handlers on a new \<open>IRpc\<close>, a name is
  served by the first handler registered for it; the empty name by none.\<close>

theorem requests_first_wins:
  "rpc_requestMap (fst (register_all add_request (new_IRpc buf) kvs))
     = map_of (filter (\<lambda>(name, h). name \<noteq> []) kvs)"
  using requests.first_wins [of "new_IRpc buf" kvs] by (simp add: new_IRpc_def)

text \<open>The same for the handlers of responses.\<close>

theorem responds_first_wins:
  "rpc_respondMap (fst (register_all add_respond (new_IRpc buf) kvs))
     = map_of (filter (\<lambda>(name, h). name \<noteq> []) kvs)"
  using responds.first_wins [of "new_IRpc buf" kvs] by (simp add: new_IRpc_def)

text \<open>\<open>AddService\<close> does not notice a service that is already registered: it runs the
  registration again and reports success, although the entry keeps the first service.\<close>

theorem AddService_twice:
  assumes "sname \<noteq> []" "rpc_serviceMap (fst (reg r)) sname = Some s0"
  shows "AddService r s sname reg = (fst (reg r), 0)"
  using assms by (simp add: AddService_def Let_def)

lemma AddService_twice_witness:
  "let r = fst (AddService (new_IRpc (\<lambda>_. 0) :: (nat, nat) irpc) 1 [65] (\<lambda>r. (r, 0)))
   in AddService r 2 [65] (\<lambda>r. (r, 0)) = (r, 0)"
  using AddService_twice [of "[65]" "\<lambda>r. (r, 0)"
      "fst (AddService (new_IRpc (\<lambda>_. 0) :: (nat, nat) irpc) 1 [65] (\<lambda>r. (r, 0)))" 1 2]
  by (simp add: AddService_def new_IRpc_def Let_def)

section \<open>Requests\<close>

text \<open>C10. A request travels: with the payload written to the data area, \<open>SendRequest\<close> hands one
  message to the server, and that message makes the other side call the handler registered
  under the request's name with exactly the payload (a null pointer when it is empty).\<close>

theorem request_reaches_handler:
  assumes "length name \<le> 244" "length data \<le> 1048320" "rpc_requestMap svr name = Some f"
  shows "\<exists>c1 c2 bytes svr1. fill_databuff c data = ret c1 \<and>
    SendRequest c1 fd name (int (length data)) = ret (c2, ([Server_SendMsg fd 0 bytes], Last_call)) \<and>
    OnRecvCliMsg svr fd' remote (Some bytes) (int (length bytes)) =
      ret (svr1, ([Call_request f fd' (to_i64 remote) (if data = [] then None else Some data)
                     (int (length data))], Last_call))"
proof -
  let ?m = "head_bytes 0 name (int (length data)) @ data"
  obtain c1 c2 where "fill_databuff c data = ret c1"
    "SendRequest c1 fd name (int (length data)) = ret (c2, ([Server_SendMsg fd 0 ?m], Last_call))"
    using fill_and_send(1) [OF assms(1,2)] by blast
  moreover obtain svr1 where "OnRecvCliMsg svr fd' remote (Some (?m @ [])) (12 + int (length name) + int (length data))
      = ret (svr1, ([Call_request f fd' (to_i64 remote) (if data = [] then None else Some data)
                     (int (length data))], Last_call))"
    using OnRecvCliMsg_dispatches [of name data 0 svr f fd' remote "[]"] assms by auto
  ultimately show ?thesis by (intro exI [of _ ?m] exI [of _ c1] exI [of _ c2] exI [of _ svr1]) simp
qed

definition server_side :: "(nat, nat) irpc" where
  "server_side = fst (add_request (new_IRpc (\<lambda>_. 0)) [76, 111] 7)"

lemma request_reaches_handler_witness:
  "\<exists>c1 c2 bytes svr1. fill_databuff (new_IRpc (\<lambda>_. 1) :: (nat, nat) irpc) [1, 2, 3] = ret c1 \<and>
    SendRequest c1 5 [76, 111] 3 = ret (c2, ([Server_SendMsg 5 0 bytes], Last_call)) \<and>
    OnRecvCliMsg server_side 9 0 (Some bytes) (int (length bytes)) =
      ret (svr1, ([Call_request 7 9 0 (Some [1, 2, 3]) 3], Last_call))"
  using request_reaches_handler [of "[76, 111]" "[1, 2, 3]" server_side 7 "new_IRpc (\<lambda>_. 1)" 5 9 0]
  by (simp add: server_side_def add_request_def AddRequestFunction_def new_IRpc_def)

text \<open>C13. A response travels the same way, with its return code.\<close>

theorem respond_reaches_handler:
  assumes "length name \<le> 244" "length data \<le> 1048320" "- (2 ^ 31) \<le> code" "code < 2 ^ 31"
    "rpc_respondMap cli name = Some f"
  shows "\<exists>s1 s2 bytes cli1. fill_databuff s data = ret s1 \<and>
    SendRespond s1 fd remote code name (int (length data)) =
      ret (s2, ([Server_SendMsg fd remote bytes], Last_call)) \<and>
    OnRecvSvrMsg cli fd' (Some bytes) (int (length bytes)) =
      ret (cli1, ([Call_respond f fd' code (if data = [] then None else Some data)
                     (int (length data))], Last_call))"
proof -
  let ?m = "head_bytes (to_u32 code) name (int (length data)) @ data"
  have code: "to_i32 (to_u32 code) = code"
    using to_i32_mod [OF assms(3,4)] by (simp add: to_u32_def del: to_i32_mod)
  obtain s1 s2 where "fill_databuff s data = ret s1"
    "SendRespond s1 fd remote code name (int (length data)) = ret (s2, ([Server_SendMsg fd remote ?m], Last_call))"
    using fill_and_send(2) [OF assms(1,2)] by blast
  moreover obtain cli1 where "OnRecvSvrMsg cli fd' (Some (?m @ [])) (12 + int (length name) + int (length data))
      = ret (cli1, ([Call_respond f fd' code (if data = [] then None else Some data)
                     (int (length data))], Last_call))"
    using OnRecvSvrMsg_dispatches [of name data "to_u32 code" cli fd' "[]"] assms to_u32_bounds [of code] code by auto
  ultimately show ?thesis by (intro exI [of _ ?m] exI [of _ s1] exI [of _ s2] exI [of _ cli1]) simp
qed

definition client_side :: "(nat, nat) irpc" where
  "client_side = fst (add_respond (new_IRpc (\<lambda>_. 0)) [76, 111] 8)"

lemma respond_reaches_handler_witness:
  "\<exists>s1 s2 bytes cli1. fill_databuff (new_IRpc (\<lambda>_. 1) :: (nat, nat) irpc) [4] = ret s1 \<and>
    SendRespond s1 5 6 (-3) [76, 111] 1 = ret (s2, ([Server_SendMsg 5 6 bytes], Last_call)) \<and>
    OnRecvSvrMsg client_side 9 (Some bytes) (int (length bytes)) =
      ret (cli1, ([Call_respond 8 9 (-3) (Some [4]) 1], Last_call))"
  using respond_reaches_handler [of "[76, 111]" "[4]" "-3" client_side 8 "new_IRpc (\<lambda>_. 1)" 5 6 9]
  by (simp add: client_side_def add_respond_def AddRespondFunction_def new_IRpc_def)

text \<open>C25. A request nobody handles is answered: the message sent back makes the caller's response
  handler of that name run with code 101 and no payload.\<close>

theorem unknown_request_answered:
  assumes "length name \<le> 244" "12 + int (length name) + int (length data) < 2 ^ 31"
    "rpc_requestMap svr name = None" "rpc_baseRequest svr = None" "rpc_respondMap cli name = Some f"
  shows "\<exists>svr1 bytes cli1.
    OnRecvCliMsg svr fd remote (Some (head_bytes 0 name (int (length data)) @ data))
        (12 + int (length name) + int (length data))
      = ret (svr1, ([Server_SendMsg fd remote bytes], Const (-1))) \<and>
    OnRecvSvrMsg cli fd' (Some bytes) (int (length bytes)) =
      ret (cli1, ([Call_respond f fd' 101 None 0], Last_call))"
proof -
  obtain svr1 where "OnRecvCliMsg svr fd remote (Some (head_bytes 0 name (int (length data)) @ data @ []))
        (12 + int (length name) + int (length data))
      = ret (svr1, ([Server_SendMsg fd remote (head_bytes 101 name 0)], Const (-1)))"
    using OnRecvCliMsg_unknown [of name data 0 svr fd remote "[]"] assms by auto
  moreover have "to_i32 101 = 101" by (intro to_i32_id) auto
  then have "\<exists>cli1. OnRecvSvrMsg cli fd' (Some (head_bytes 101 name (int (length [])) @ [] @ []))
      (12 + int (length name) + int (length ([] :: byte list)))
      = ret (cli1, ([Call_respond f fd' 101 None 0], Last_call))"
    using OnRecvSvrMsg_dispatches [of name "[]" 101 cli fd' "[]"] assms(1,5) by simp
  ultimately show ?thesis by auto
qed

lemma unknown_request_answered_witness:
  "\<exists>svr1 bytes cli1.
    OnRecvCliMsg (new_IRpc (\<lambda>_. 0) :: (nat, nat) irpc) 5 0
        (Some (head_bytes 0 [76, 111] 1 @ [4])) 15 = ret (svr1, ([Server_SendMsg 5 0 bytes], Const (-1))) \<and>
    OnRecvSvrMsg client_side 9 (Some bytes) (int (length bytes)) =
      ret (cli1, ([Call_respond 8 9 101 None 0], Last_call))"
  using unknown_request_answered [of "[76, 111]" "[4]" "new_IRpc (\<lambda>_. 0)" client_side 8 5 0 9]
  by (simp add: client_side_def add_respond_def AddRespondFunction_def new_IRpc_def)

section \<open>Refused messages\<close>

text \<open>A name of more than 244 bytes is refused by \<open>SendRequest\<close>: it returns -1 and nothing
  is sent and the data area is not changed.\<close>

theorem SendRequest_long_name:
  assumes "244 < length name" "length name < 2 ^ 31"
  shows "\<exists>r1. SendRequest r fd name n = ret (r1, ([], Const (-1))) \<and> rpc_databuff r1 = rpc_databuff r"
proof -
  let ?h = "(rpc_rhead r)\<lparr>rh_Ret := 0, rh_Name := name\<rparr>"
  obtain h1 where "Encode ?h (rpc_databuff r) n = ret (h1, rpc_databuff r, -1)"
    using Encode_too_long [of ?h "rpc_databuff r" n] assms by auto
  then show ?thesis by (auto simp: SendRequest_def send_encoded_def)
qed

lemma SendRequest_long_name_witness:
  "\<exists>r1. SendRequest server_side 5 (replicate 245 65) 3 = ret (r1, ([], Const (-1))) \<and>
     rpc_databuff r1 = rpc_databuff server_side"
  using SendRequest_long_name [of "replicate 245 65" server_side 5 3] by simp

text \<open>Bytes whose first word is not their length, or is less than the length of the header
  they announce, are refused: no handler runs and nothing is sent.\<close>

theorem malformed_request_refused:
  assumes "12 \<le> length mem"
    "be_val (take 4 mem) \<noteq> to_u32 msglen \<or>
     be_val (take 4 mem) < to_u32 (12 + be_val (take 4 (drop 8 mem)))"
  shows "\<exists>r1. OnRecvCliMsg r fd remote (Some mem) msglen = ret (r1, ([], Const (-1)))"
  using Decode_refused [OF assms, of "rpc_rhead r"] by (auto simp: OnRecvCliMsg_def Let_def)

lemma malformed_request_refused_witness:
  "\<exists>r1. OnRecvCliMsg server_side 5 0 (Some (replicate 12 0)) 12 = ret (r1, ([], Const (-1)))"
proof -
  have "be_val (replicate 4 0) = 0" by (simp add: be_val_def numeral_eq_Suc)
  then show ?thesis
    using malformed_request_refused [of "replicate 12 0" 12 server_side 5 0] by (simp add: to_u32_def)
qed

text \<open>C40. The header length is computed in 32 bits.  A name length within 12 of 2^32 wraps it to
  a small number, passes every check and makes the name's bytes run out of the message.\<close>

theorem hostile_name_length:
  assumes "12 \<le> length mem" "length mem < 2 ^ 31"
    "be_val (take 4 (drop 8 mem)) = 2 ^ 32 - 12 + k" "0 \<le> k" "k < 12"
    "be_val (take 4 mem) = to_u32 msglen" "k \<le> to_u32 msglen"
  shows "OnRecvCliMsg r fd remote (Some mem) msglen = fail Out_of_bounds"
  using Decode_wraps [OF assms, of "rpc_rhead r"] by (simp add: OnRecvCliMsg_def)

lemma hostile_name_length_witness:
  "OnRecvCliMsg server_side 5 0
     (Some ([0, 0, 0, 12] @ [0, 0, 0, 0] @ [255, 255, 255, 244])) 12 = fail Out_of_bounds"
proof (rule hostile_name_length [where k = 0])
  have "be_val [0, 0, 0, 12] = 12" "be_val [255, 255, 255, 244] = 2 ^ 32 - 12"
    by (simp_all add: be_val_def)
  then show "be_val (take 4 (drop 8 ([0, 0, 0, 12] @ [0, 0, 0, 0] @ [255, 255, 255, 244]))) = 2 ^ 32 - 12 + 0"
    "be_val (take 4 ([0, 0, 0, 12] @ [0, 0, 0, 0] @ [255, 255, 255, 244])) = to_u32 12"
    by (simp_all add: to_u32_def)
qed (simp_all add: to_u32_def)

end
