(* ===== verification/Ini_Config.thy ===== *)
theory Ini_Config
  imports Mkx_Prelude
begin

text \<open>
  \<open>IniConfig\<close> (framework/IniConfig.h, IniConfig.cc): the configuration file.  A file is the
  string of its bytes, or \<open>None\<close> when \<open>fopen\<close> fails.  \<open>fgets\<close>, \<open>std::string\<close>'s searches
  and \<open>atoi\<close> are modelled as the standard library defines them; a line read into the
  buffer ends at its first NUL, because \<open>string line(buff)\<close> stops there.
\<close>

record ini_config =
  ini_fields :: "string \<rightharpoonup> string"

definition new_IniConfig :: ini_config where
  "new_IniConfig = \<lparr>ini_fields = Map.empty\<rparr>"

section \<open>Strings\<close>

definition newline :: char where
  "newline = CHR 0x0A"

text \<open>\<open>erase(0, find_first_not_of(c))\<close> and \<open>erase(find_last_not_of(c) + 1)\<close>.\<close>

definition trim_left :: "char \<Rightarrow> string \<Rightarrow> string" where
  "trim_left c s = dropWhile (\<lambda>x. x = c) s"

definition trim_right :: "char \<Rightarrow> string \<Rightarrow> string" where
  "trim_right c s = rev (dropWhile (\<lambda>x. x = c) (rev s))"

definition strTrim :: "string \<Rightarrow> string" where
  "strTrim s = trim_right CHR '' '' (trim_right newline (trim_left CHR '' '' s))"

text \<open>\<open>find(c)\<close>: the text before the first \<open>c\<close> and the text after it, if there is one.\<close>

fun split_at :: "char \<Rightarrow> string \<Rightarrow> (string \<times> string) option" where
  "split_at c [] = None"
| "split_at c (x # xs) =
     (if x = c then Some ([], xs)
      else map_option (\<lambda>(a, b). (x # a, b)) (split_at c xs))"

text \<open>\<open>fgets(buff, 2048, file)\<close>: up to 2047 characters, through the first newline.\<close>

fun fgets :: "nat \<Rightarrow> string \<Rightarrow> string \<times> string" where
  "fgets 0 s = ([], s)"
| "fgets (Suc n) [] = ([], [])"
| "fgets (Suc n) (c # s) =
     (if c = newline then ([c], s) else (let (l, rest) = fgets n s in (c # l, rest)))"

lemma fgets_split: "fgets n s = (l, rest) \<Longrightarrow> s = l @ rest"
  by (induction n s arbitrary: l rest rule: fgets.induct) (auto split: if_splits prod.splits)

lemma fgets_progress: "0 < n \<Longrightarrow> s \<noteq> [] \<Longrightarrow> length (snd (fgets n s)) < length s"
proof -
  assume "0 < n" "s \<noteq> []"
  then have "fst (fgets n s) \<noteq> []" by (cases n; cases s) (auto split: prod.splits)
  moreover have "s = fst (fgets n s) @ snd (fgets n s)"
    using fgets_split [of n s "fst (fgets n s)" "snd (fgets n s)"] by simp
  then have "length s = length (fst (fgets n s)) + length (snd (fgets n s))"
    by (metis length_append)
  ultimately show ?thesis by simp
qed

section \<open>Parsing\<close>

definition INI_BUFF_LEN :: nat where
  "INI_BUFF_LEN = 2048"

text \<open>One iteration of the loop on what \<open>fgets\<close> read.\<close>

definition parse_line :: "(string \<rightharpoonup> string) \<Rightarrow> string \<Rightarrow> (string \<rightharpoonup> string)" where
  "parse_line flds buff =
     (let line0 = takeWhile (\<lambda>c. c \<noteq> CHR 0x00) buff;
          line1 = (case split_at CHR '';'' line0 of None \<Rightarrow> line0 | Some (before, _) \<Rightarrow> before);
          line = strTrim line1
      in if line = [] then flds
         else
           (case split_at CHR ''='' line of
              None \<Rightarrow> flds
            | Some (k, v) \<Rightarrow> flds(strTrim k \<mapsto> strTrim v)))"

function parse_loop :: "(string \<rightharpoonup> string) \<Rightarrow> string \<Rightarrow> (string \<rightharpoonup> string)" where
  "parse_loop flds file =
     (if file = [] then flds
      else (let (buff, rest) = fgets (INI_BUFF_LEN - 1) file in parse_loop (parse_line flds buff) rest))"
  by pat_completeness auto
termination
proof (relation "measure (\<lambda>(flds, file). length file)")
  fix flds :: "string \<rightharpoonup> string" and contents buff rest :: string and x
  assume f: "contents \<noteq> []" and x: "x = fgets (INI_BUFF_LEN - 1) contents" "(buff, rest) = x"
  have "length (snd (fgets (INI_BUFF_LEN - 1) contents)) < length contents"
    using f by (intro fgets_progress) (simp_all add: INI_BUFF_LEN_def)
  with x show "((parse_line flds buff, rest), (flds, contents)) \<in> measure (\<lambda>(flds, file). length file)"
    by (metis (no_types, lifting) case_prod_conv in_measure snd_conv)
qed simp

declare parse_loop.simps [simp del]

definition Parse :: "ini_config \<Rightarrow> string option \<Rightarrow> ini_config \<times> int" where
  "Parse c file =
     (case file of
        None \<Rightarrow> (c, -1)
      | Some text \<Rightarrow> (c\<lparr>ini_fields := parse_loop Map.empty text\<rparr>, 0))"

section \<open>Lookup\<close>

definition getVal :: "ini_config \<Rightarrow> string \<Rightarrow> string option" where
  "getVal c key = ini_fields c key"

definition GetStr :: "ini_config \<Rightarrow> string \<Rightarrow> string" where
  "GetStr c name = (case getVal c name of Some v \<Rightarrow> v | None \<Rightarrow> [])"

text \<open>
  \<open>atoi\<close>: leading white space, an optional sign, digits.  A value that does not fit an
  \<open>int\<close> is undefined in C; the conversion keeps the low 32 bits, as glibc does.
\<close>

definition is_space :: "char \<Rightarrow> bool" where
  "is_space c \<longleftrightarrow> c \<in> {CHR '' '', CHR 0x09, CHR 0x0A, CHR 0x0B, CHR 0x0C, CHR 0x0D}"

definition digit_val :: "char \<Rightarrow> int option" where
  "digit_val c = (let n = int (of_char c) in if 48 \<le> n \<and> n \<le> 57 then Some (n - 48) else None)"

fun digits :: "int \<Rightarrow> string \<Rightarrow> int" where
  "digits acc [] = acc"
| "digits acc (c # s) = (case digit_val c of None \<Rightarrow> acc | Some d \<Rightarrow> digits (10 * acc + d) s)"

definition atoi :: "string \<Rightarrow> int" where
  "atoi s =
     (case dropWhile is_space s of
        [] \<Rightarrow> 0
      | c # t \<Rightarrow>
          if c = CHR ''-'' then to_i32 (- digits 0 t)
          else if c = CHR ''+'' then to_i32 (digits 0 t)
          else to_i32 (digits 0 (c # t)))"

definition GetInt :: "ini_config \<Rightarrow> string \<Rightarrow> int \<Rightarrow> int" where
  "GetInt c name defaultVal =
     (case getVal c name of Some v \<Rightarrow> atoi v | None \<Rightarrow> defaultVal)"

section \<open>Facts about trimming and splitting\<close>

lemma split_at_Some: "split_at c s = Some (a, b) \<Longrightarrow> s = a @ c # b \<and> c \<notin> set a"
  by (induction s arbitrary: a) (auto split: if_splits)

lemma split_at_None: "split_at c s = None \<longleftrightarrow> c \<notin> set s"
  by (induction s) (auto split: if_splits)

lemma split_at_append [simp]: "c \<notin> set a \<Longrightarrow> split_at c (a @ c # b) = Some (a, b)"
  by (induction a) auto

lemma trim_left_id: "s = [] \<or> hd s \<noteq> c \<Longrightarrow> trim_left c s = s"
  by (cases s) (auto simp: trim_left_def)

lemma trim_right_id: "s = [] \<or> last s \<noteq> c \<Longrightarrow> trim_right c s = s"
  by (cases s rule: rev_cases) (auto simp: trim_right_def)

lemma trim_right_snoc [simp]: "trim_right c (s @ [c]) = trim_right c s"
  by (simp add: trim_right_def)

lemma trim_right_replicate: "trim_right c (s @ replicate n c) = trim_right c s"
  by (induction n) (simp_all add: replicate_append_same [symmetric] flip: append_assoc)

lemma trim_left_replicate: "trim_left c (replicate n c @ s) = trim_left c s"
  by (induction n) (simp_all add: trim_left_def)

text \<open>A text that neither starts with a space nor ends with a space or newline stays as it is.\<close>

definition trimmed :: "string \<Rightarrow> bool" where
  "trimmed s \<longleftrightarrow> s = [] \<or> hd s \<noteq> CHR '' '' \<and> last s \<noteq> CHR '' '' \<and> last s \<noteq> newline"

lemma strTrim_pad:
  assumes "trimmed s" "s \<noteq> []"
  shows "strTrim (replicate i CHR '' '' @ s @ replicate j CHR '' '') = s"
proof -
  have s: "hd s \<noteq> CHR '' ''" "last s \<noteq> CHR '' ''" "last s \<noteq> newline"
    using assms by (auto simp: trimmed_def)
  have l: "trim_left CHR '' '' (replicate i CHR '' '' @ s @ replicate j CHR '' '') = s @ replicate j CHR '' ''"
    using s assms(2) by (simp add: trim_left_replicate trim_left_id)
  have n: "trim_right newline (s @ replicate j CHR '' '') = s @ replicate j CHR '' ''"
    using s assms(2) by (intro trim_right_id) (cases "j = 0"; simp add: newline_def)
  show ?thesis
    using s by (simp add: strTrim_def l n trim_right_replicate trim_right_id)
qed

lemma strTrim_pad_newline:
  assumes "trimmed s" "s \<noteq> []"
  shows "strTrim (replicate i CHR '' '' @ s @ replicate j CHR '' '' @ [newline]) = s"
proof -
  have "hd s \<noteq> CHR '' ''" using assms by (auto simp: trimmed_def)
  then have l: "trim_left CHR '' '' (replicate i CHR '' '' @ s @ xs) = s @ xs" for xs
    using assms(2) by (simp add: trim_left_replicate trim_left_id)
  have "strTrim (replicate i CHR '' '' @ s @ replicate j CHR '' '' @ [newline])
      = strTrim (replicate i CHR '' '' @ s @ replicate j CHR '' '')"
    unfolding strTrim_def l by (metis append_assoc trim_right_snoc)
  then show ?thesis using strTrim_pad [OF assms] by simp
qed

lemma set_strTrim: "set (strTrim s) \<subseteq> set s"
  unfolding strTrim_def trim_left_def trim_right_def
  by (auto dest!: set_dropWhileD)

lemma fgets_line:
  "newline \<notin> set s \<Longrightarrow> length s < n \<Longrightarrow> fgets n (s @ newline # rest) = (s @ [newline], rest)"
proof (induction s arbitrary: n)
  case Nil
  then show ?case by (cases n) auto
next
  case (Cons c s)
  then obtain m where "n = Suc m" by (cases n) auto
  with Cons show ?case by auto
qed

text \<open>A line that fits the buffer is one iteration of the loop.\<close>

lemma parse_loop_line:
  assumes "newline \<notin> set s" "Suc (length s) < INI_BUFF_LEN"
  shows "parse_loop flds (s @ newline # rest) = parse_loop (parse_line flds (s @ [newline])) rest"
  using fgets_line [of s "INI_BUFF_LEN - 1" rest] assms by (subst parse_loop.simps) simp

section \<open>Numbers as text\<close>

fun decimal :: "nat \<Rightarrow> string" where
  "decimal n = (if n < 10 then [char_of (48 + n)] else decimal (n div 10) @ [char_of (48 + n mod 10)])"

declare decimal.simps [simp del]

definition show_int :: "int \<Rightarrow> string" where
  "show_int x = (if x < 0 then CHR ''-'' # decimal (nat (- x)) else decimal (nat x))"

lemma digit_val_char: "n < 10 \<Longrightarrow> digit_val (char_of (48 + n)) = Some (int n)"
  by (simp add: digit_val_def Let_def of_char_of)

lemma digits_snoc: "digits a (xs @ [char_of (48 + n :: nat)]) = 10 * digits a xs + int n"
  if "n < 10" "\<forall>c \<in> set xs. digit_val c \<noteq> None"
  using that by (induction xs arbitrary: a) (auto simp: digit_val_char)

lemma decimal_digits: "c \<in> set (decimal n) \<Longrightarrow> digit_val c \<noteq> None"
proof (induction n rule: decimal.induct)
  case (1 n)
  then show ?case by (subst (asm) (2) decimal.simps) (auto simp: digit_val_char split: if_splits)
qed

lemma digits_decimal: "digits 0 (decimal n) = int n"
proof (induction n rule: decimal.induct)
  case (1 n)
  show ?case
  proof (cases "n < 10")
    case True
    then show ?thesis by (subst decimal.simps) (simp add: digit_val_char)
  next
    case False
    have "10 * int (n div 10) + int (n mod 10) = int n" by (simp add: zdiv_int zmod_int)
    with False show ?thesis
      using 1 digits_snoc [of "n mod 10" "decimal (n div 10)" 0] decimal_digits
      by (subst decimal.simps) auto
  qed
qed

lemma decimal_hd: "\<exists>c t. decimal n = c # t \<and> digit_val c \<noteq> None"
proof (cases "decimal n")
  case Nil
  then show ?thesis by (subst (asm) decimal.simps) (auto split: if_splits)
next
  case (Cons c t)
  then show ?thesis using decimal_digits [of c n] by auto
qed

lemma digit_not_special: "digit_val c \<noteq> None \<Longrightarrow> \<not> is_space c \<and> c \<noteq> CHR ''-'' \<and> c \<noteq> CHR ''+''"
  by (auto simp: digit_val_def is_space_def Let_def split: if_splits)

lemma atoi_show: "- (2 ^ 31) \<le> x \<Longrightarrow> x < 2 ^ 31 \<Longrightarrow> atoi (show_int x) = x"
proof -
  assume x: "- (2 ^ 31) \<le> x" "x < 2 ^ 31"
  obtain c t where d: "decimal (nat x) = c # t" "digit_val c \<noteq> None" using decimal_hd by blast
  have sp: "\<not> is_space CHR ''-''" by (simp add: is_space_def)
  show ?thesis
  proof (cases "x < 0")
    case True
    then show ?thesis using x sp digits_decimal [of "nat (- x)"] by (simp add: atoi_def show_int_def to_i32_id)
  next
    case False
    then show ?thesis
      using x d digit_not_special [OF d(2)] digits_decimal [of "nat x"]
      by (simp add: atoi_def show_int_def to_i32_id del: digits.simps)
  qed
qed

end
