(* ===== verification/Ini_Spec.thy ===== *)
theory Ini_Spec
  imports Ini_Config
begin

text \<open>
  Writing a configuration file and reading it back: what the values of a file are, for the
  files a careful author writes.
\<close>

section \<open>Files\<close>

text \<open>A line \<open>key = value; comment\<close>, with any padding around key and value.\<close>

record ini_line =
  il_key :: string
  il_val :: string
  il_pads :: "nat \<times> nat \<times> nat \<times> nat"
  il_comment :: "string option"

datatype ini_item = Assign ini_line | Other string

definition render_body :: "ini_line \<Rightarrow> string" where
  "render_body l =
     (case il_pads l of (i, j, k, m) \<Rightarrow>
        replicate i CHR '' '' @ il_key l @ replicate j CHR '' '' @ CHR ''='' #
        replicate k CHR '' '' @ il_val l @ replicate m CHR '' '')"

definition render_comment :: "ini_line \<Rightarrow> string" where
  "render_comment l = (case il_comment l of None \<Rightarrow> [] | Some c \<Rightarrow> CHR '';'' # c)"

fun render :: "ini_item \<Rightarrow> string" where
  "render (Assign l) = render_body l @ render_comment l"
| "render (Other s) = s"

definition render_file :: "ini_item list \<Rightarrow> string" where
  "render_file items = concat (map (\<lambda>it. render it @ [newline]) items)"

definition plain :: "string \<Rightarrow> bool" where
  "plain s \<longleftrightarrow> CHR '';'' \<notin> set s \<and> newline \<notin> set s \<and> CHR 0x00 \<notin> set s"

fun item_ok :: "ini_item \<Rightarrow> bool" where
  "item_ok (Assign l) \<longleftrightarrow>
     trimmed (il_key l) \<and> il_key l \<noteq> [] \<and> CHR ''='' \<notin> set (il_key l) \<and> plain (il_key l) \<and>
     trimmed (il_val l) \<and> il_val l \<noteq> [] \<and> plain (il_val l) \<and>
     newline \<notin> set (render_comment l) \<and> CHR 0x00 \<notin> set (render_comment l) \<and>
     Suc (length (render (Assign l))) < INI_BUFF_LEN"
| "item_ok (Other s) \<longleftrightarrow>
     newline \<notin> set s \<and> CHR 0x00 \<notin> set s \<and> CHR ''='' \<notin> set (takeWhile (\<lambda>c. c \<noteq> CHR '';'') s) \<and>
     Suc (length s) < INI_BUFF_LEN"

fun assignment :: "ini_item \<Rightarrow> (string \<times> string) list" where
  "assignment (Assign l) = [(il_key l, il_val l)]"
| "assignment (Other s) = []"

section \<open>One line\<close>

lemma no_nul: "CHR 0x00 \<notin> set s \<Longrightarrow> takeWhile (\<lambda>c. c \<noteq> CHR 0x00) (s @ [newline]) = s @ [newline]"
  by (intro takeWhile_eq_all_conv [THEN iffD2]) (auto simp: newline_def)

lemma plain_body:
  assumes "item_ok (Assign l)"
  shows "plain (render_body l)"
proof -
  obtain i j k m where "il_pads l = (i, j, k, m)" by (cases "il_pads l") auto
  then show ?thesis using assms by (auto simp: render_body_def plain_def newline_def)
qed

lemma strTrim_body:
  assumes "item_ok (Assign l)"
  shows "strTrim (render_body l @ (if nl then [newline] else []))
      = il_key l @ replicate (fst (snd (il_pads l))) CHR '' '' @ CHR ''='' #
        replicate (fst (snd (snd (il_pads l)))) CHR '' '' @ il_val l"
proof -
  obtain i j k m where p: "il_pads l = (i, j, k, m)" by (cases "il_pads l") auto
  let ?b = "il_key l @ replicate j CHR '' '' @ CHR ''='' # replicate k CHR '' '' @ il_val l"
  have "trimmed ?b" "?b \<noteq> []" using assms by (auto simp: trimmed_def)
  then show ?thesis
    using strTrim_pad_newline [of ?b i m] strTrim_pad [of ?b i m] by (simp add: render_body_def p)
qed

lemma parse_line_body:
  assumes ok: "item_ok (Assign l)"
    and line: "strTrim line = strTrim (render_body l @ (if nl then [newline] else []))"
  shows "(let l1 = strTrim line in if l1 = [] then flds else
      case split_at CHR ''='' l1 of None \<Rightarrow> flds | Some (k, v) \<Rightarrow> flds(strTrim k \<mapsto> strTrim v))
    = flds(il_key l \<mapsto> il_val l)"
proof -
  obtain i j k m where p: "il_pads l = (i, j, k, m)" by (cases "il_pads l") auto
  have t: "strTrim line = (il_key l @ replicate j CHR '' '') @ CHR ''='' #
      (replicate k CHR '' '' @ il_val l)"
    using line strTrim_body [OF ok, of nl] p by simp
  have "CHR ''='' \<notin> set (il_key l @ replicate j CHR '' '')" using ok by auto
  then have s: "split_at CHR ''='' (strTrim line)
      = Some (il_key l @ replicate j CHR '' '', replicate k CHR '' '' @ il_val l)"
    unfolding t by (rule split_at_append)
  have "strTrim (il_key l @ replicate j CHR '' '') = il_key l"
    "strTrim (replicate k CHR '' '' @ il_val l) = il_val l"
    using strTrim_pad [of "il_key l" 0 j] strTrim_pad [of "il_val l" k 0] ok by auto
  moreover have "strTrim line \<noteq> []" using t by simp
  ultimately show ?thesis by (simp add: s Let_def)
qed

lemma parse_line_item:
  assumes "item_ok it"
  shows "parse_line flds (render it @ [newline]) = flds ++ map_of (assignment it)"
proof (cases it)
  case (Assign l)
  have pl: "plain (render_body l)" using assms Assign plain_body by simp
  have z: "CHR 0x00 \<notin> set (render it)" using pl assms Assign by (simp add: plain_def)
  show ?thesis
  proof (cases "il_comment l")
    case None
    have "split_at CHR '';'' (render_body l @ [newline]) = None"
      using pl by (simp add: split_at_None plain_def newline_def)
    then show ?thesis
      using parse_line_body [of l "render_body l @ [newline]" True flds] assms Assign None
        no_nul [OF z] by (simp add: parse_line_def render_comment_def Let_def cong: if_cong split del: if_split)
  next
    case (Some c)
    have "split_at CHR '';'' (render_body l @ CHR '';'' # (c @ [newline]))
        = Some (render_body l, c @ [newline])"
      using pl by (intro split_at_append) (simp add: plain_def)
    then show ?thesis
      using parse_line_body [of l "render_body l" False flds] assms Assign Some
        no_nul [OF z] by (simp add: parse_line_def render_comment_def Let_def cong: if_cong split del: if_split)
  qed
next
  case (Other s)
  let ?b = "case split_at CHR '';'' (s @ [newline]) of None \<Rightarrow> s @ [newline] | Some (b, _) \<Rightarrow> b"
  have "CHR ''='' \<notin> set ?b"
  proof (cases "split_at CHR '';'' (s @ [newline])")
    case None
    then have "CHR '';'' \<notin> set s" by (simp add: split_at_None)
    then have "\<forall>x \<in> set s. x \<noteq> CHR '';''" by auto
    then have tw: "takeWhile (\<lambda>c. c \<noteq> CHR '';'') s = s" by (simp only: takeWhile_eq_all_conv)
    have "CHR ''='' \<notin> set (takeWhile (\<lambda>c. c \<noteq> CHR '';'') s)" using assms Other by simp
    then have "CHR ''='' \<notin> set s" unfolding tw .
    then show ?thesis using None by (simp add: newline_def)
  next
    case (Some ab)
    obtain a b where ab: "ab = (a, b)" by fastforce
    have e: "s @ [newline] = a @ CHR '';'' # b" "CHR '';'' \<notin> set a"
      using split_at_Some Some ab by blast+
    then have tw: "takeWhile (\<lambda>c. c \<noteq> CHR '';'') (s @ [newline]) = a"
      unfolding e(1) by (subst takeWhile_append2) auto
    have "CHR '';'' \<in> set (s @ [newline])" unfolding e(1) by simp
    then have "CHR '';'' \<in> set s" by (simp add: newline_def)
    then have "takeWhile (\<lambda>c. c \<noteq> CHR '';'') s = a" using tw by (subst (asm) takeWhile_append1) auto
    then show ?thesis using assms Other Some ab by simp
  qed
  then have "CHR ''='' \<notin> set (strTrim ?b)" using set_strTrim by blast
  then have "split_at CHR ''='' (strTrim ?b) = None" by (simp add: split_at_None)
  then show ?thesis
    using assms Other no_nul [of s] by (simp add: parse_line_def Let_def)
qed

section \<open>The file\<close>

lemma parse_loop_file:
  assumes "\<forall>it \<in> set items. item_ok it"
  shows "parse_loop flds (render_file items) = flds ++ map_of (rev (concat (map assignment items)))"
  using assms
proof (induction items arbitrary: flds)
  case Nil
  then show ?case by (simp add: parse_loop.simps render_file_def)
next
  case (Cons it items)
  have ok: "newline \<notin> set (render it)" "Suc (length (render it)) < INI_BUFF_LEN"
    using Cons.prems plain_body by (cases it; auto simp: plain_def)+
  have "render_file (it # items) = render it @ newline # render_file items"
    by (simp add: render_file_def)
  then have "parse_loop flds (render_file (it # items))
      = parse_loop (flds ++ map_of (assignment it)) (render_file items)"
    using parse_loop_line [OF ok, of flds "render_file items"] parse_line_item [of it flds] Cons.prems
    by simp
  also have "\<dots> = flds ++ map_of (assignment it) ++ map_of (rev (concat (map assignment items)))"
    using Cons by simp
  finally show ?case by (cases it) (simp_all add: map_add_def fun_eq_iff split: option.splits)
qed

text \<open>C14. A file of assignments, with padding and comments, section headers and other lines
  without an \<open>=\<close>, is read back as its assignments, the last one for a key winning; \<open>GetStr\<close>
  yields the value assigned, or the empty string.\<close>

theorem Parse_reads_assignments:
  assumes "\<forall>it \<in> set items. item_ok it"
  shows "snd (Parse c (Some (render_file items))) = 0 \<and>
    GetStr (fst (Parse c (Some (render_file items)))) k =
       (case map_of (rev (concat (map assignment items))) k of None \<Rightarrow> [] | Some v \<Rightarrow> v)"
  using parse_loop_file [OF assms, of Map.empty]
  by (simp_all add: Parse_def GetStr_def getVal_def)

definition sample_file :: "ini_item list" where
  "sample_file =
     [Other ''[base]'',
      Assign \<lparr>il_key = ''work_num'', il_val = ''10'', il_pads = (0, 1, 1, 0), il_comment = None\<rparr>,
      Other [],
      Other ''#bindurl; listen = udp'',
      Assign \<lparr>il_key = ''bindurl'', il_val = ''tcp://172.27.0.7:8812'', il_pads = (0, 1, 1, 0),
              il_comment = Some '' listen''\<rparr>,
      Other ''[log]'',
      Assign \<lparr>il_key = ''log_dir'', il_val = ''./log'', il_pads = (0, 1, 1, 0), il_comment = None\<rparr>]"

lemma sample_file_ok: "\<forall>it \<in> set sample_file. item_ok it"
  by (simp add: sample_file_def trimmed_def plain_def newline_def render_comment_def render_body_def
      INI_BUFF_LEN_def)

lemma Parse_reads_assignments_witness:
  "GetStr (fst (Parse new_IniConfig (Some (render_file sample_file)))) ''bindurl'' = ''tcp://172.27.0.7:8812''"
  using Parse_reads_assignments [OF sample_file_ok] by (simp add: sample_file_def)

text \<open>A number assigned to a key is what \<open>GetInt\<close> yields for it, for every value an \<open>int\<close> can
  take; a key not assigned yields the default.\<close>

theorem GetInt_reads_numbers:
  assumes "\<forall>it \<in> set items. item_ok it" "- (2 ^ 31) \<le> x" "x < 2 ^ 31"
    "map_of (rev (concat (map assignment items))) k = Some (show_int x)"
    "map_of (rev (concat (map assignment items))) k' = None"
  shows "GetInt (fst (Parse c (Some (render_file items)))) k d = x \<and>
    GetInt (fst (Parse c (Some (render_file items)))) k' d = d"
  using parse_loop_file [OF assms(1), of Map.empty] assms(4,5) atoi_show [OF assms(2,3)]
  by (simp add: Parse_def GetInt_def getVal_def)

lemma GetInt_reads_numbers_witness:
  "GetInt (fst (Parse new_IniConfig (Some (render_file sample_file)))) ''work_num'' 0 = 10 \<and>
   GetInt (fst (Parse new_IniConfig (Some (render_file sample_file)))) ''max_fd'' 0 = 0"
proof (rule GetInt_reads_numbers [OF sample_file_ok])
  have "show_int 10 = ''10''" by code_simp
  then show "map_of (rev (concat (map assignment sample_file))) ''work_num'' = Some (show_int 10)"
    by (simp add: sample_file_def)
  show "map_of (rev (concat (map assignment sample_file))) ''max_fd'' = None"
    by (simp add: sample_file_def)
qed simp_all

end
