(* ===== verification/Timer_Mgr.thy ===== *)
theory Timer_Mgr
  imports Mkx_Prelude Complex_Main
begin

text \<open>
  \<open>TimerMgr\<close> and \<open>TimerObj\<close> (framework/Timer.h, Timer.cc).  Timer objects live on a heap,
  addressed by natural numbers, because the event library keeps the raw pointer of the object
  it calls back.  An application callback is a value of type \<open>'cb\<close>; what it does to the
  manager is the list of calls that the parameter \<open>calls\<close> yields for it in the state in which
  it runs.  Times are the (finite) doubles as rationals.
\<close>

section \<open>State\<close>

record 'cb timer_obj =
  to_guid :: int
  to_cb :: 'cb
  to_repeatFlag :: bool
  to_after :: rat
  to_repeat :: rat

record 'cb timer_mgr =
  tm_timerGuid :: int
  tm_objs :: "int \<rightharpoonup> nat"
  tm_heap :: "nat \<rightharpoonup> 'cb timer_obj"
  tm_brk :: nat

definition new_TimerMgr :: "'cb timer_mgr" where
  "new_TimerMgr = \<lparr>tm_timerGuid = 0, tm_objs = Map.empty, tm_heap = Map.empty, tm_brk = 0\<rparr>"

section \<open>Operations\<close>

text \<open>A 64-bit counter that restarts at 1 once it has become negative.\<close>

definition GetTimerID :: "'cb timer_mgr \<Rightarrow> 'cb timer_mgr \<times> int" where
  "GetTimerID m =
     (let g = to_i64 (tm_timerGuid m + 1); g1 = (if g < 0 then 1 else g)
      in (m\<lparr>tm_timerGuid := g1\<rparr>, g1))"

text \<open>The double nearest to 0.00001.\<close>

definition repeat_threshold :: rat where
  "repeat_threshold = 5902958103587057 / 590295810358705651712"

definition new_TimerObj :: "'cb timer_mgr \<Rightarrow> rat \<Rightarrow> rat \<Rightarrow> 'cb \<Rightarrow> 'cb timer_mgr \<times> nat" where
  "new_TimerObj m after repeat cb =
     (let (m1, g) = GetTimerID m; a = tm_brk m1
      in (m1\<lparr>tm_heap := (tm_heap m1)(a \<mapsto>
                \<lparr>to_guid = g, to_cb = cb, to_repeatFlag = repeat > repeat_threshold,
                 to_after = after, to_repeat = repeat\<rparr>),
             tm_brk := Suc a\<rparr>, a))"

definition load_timer :: "'cb timer_mgr \<Rightarrow> nat \<Rightarrow> 'cb timer_obj run" where
  "load_timer m a = (case tm_heap m a of None \<Rightarrow> fail Dangling_pointer | Some t \<Rightarrow> ret t)"

definition AddTimer :: "'cb timer_mgr \<Rightarrow> 'cb \<Rightarrow> rat \<Rightarrow> rat \<Rightarrow> ('cb timer_mgr \<times> int) run" where
  "AddTimer m cb after repeat =
     (let (m1, a) = new_TimerObj m after repeat cb
      in rbind (load_timer m1 a) (\<lambda>t.
           ret (m1\<lparr>tm_objs := (tm_objs m1)(to_guid t \<mapsto> a)\<rparr>, to_guid t)))"

definition DelTimer :: "'cb timer_mgr \<Rightarrow> int \<Rightarrow> ('cb timer_mgr \<times> int) run" where
  "DelTimer m timerId =
     (case tm_objs m timerId of
        None \<Rightarrow> ret (m, -1)
      | Some a \<Rightarrow>
          rbind (load_timer m a) (\<lambda>_.
            ret (m\<lparr>tm_heap := (tm_heap m)(a := None), tm_objs := (tm_objs m)(timerId := None)\<rparr>, 0)))"

definition CheckTimer :: "'cb timer_mgr \<Rightarrow> int \<Rightarrow> bool" where
  "CheckTimer m timerId \<longleftrightarrow> tm_objs m timerId \<noteq> None"

section \<open>Callbacks\<close>

datatype 'cb timer_call = Add_timer 'cb rat rat | Del_timer int | Check_timer int

fun do_call :: "'cb timer_mgr \<Rightarrow> 'cb timer_call \<Rightarrow> ('cb timer_mgr \<times> int) run" where
  "do_call m (Add_timer cb after repeat) = AddTimer m cb after repeat"
| "do_call m (Del_timer i) = DelTimer m i"
| "do_call m (Check_timer i) = ret (m, if CheckTimer m i then 1 else 0)"

fun run_calls :: "'cb timer_mgr \<Rightarrow> 'cb timer_call list \<Rightarrow> ('cb timer_mgr \<times> int list) run" where
  "run_calls m [] = ret (m, [])"
| "run_calls m (c # cs) =
     rbind (do_call m c) (\<lambda>(m1, r).
       rbind (run_calls m1 cs) (\<lambda>(m2, rs). ret (m2, r # rs)))"

text \<open>
  \<open>TimeoutCallback\<close> on the object at \<open>a\<close>: the application's callback runs first, then the
  object is looked at again.
\<close>

definition Callback ::
  "('cb \<Rightarrow> 'cb timer_mgr \<Rightarrow> 'cb timer_call list) \<Rightarrow> 'cb timer_mgr \<Rightarrow> nat \<Rightarrow> 'cb timer_mgr run" where
  "Callback calls m a =
     rbind (load_timer m a) (\<lambda>t.
     rbind (run_calls m (calls (to_cb t) m)) (\<lambda>(m1, _).
     rbind (load_timer m1 a) (\<lambda>t1.
       if \<not> to_repeatFlag t1
       then rbind (DelTimer m1 (to_guid t1)) (\<lambda>(m2, _). ret m2)
       else ret m1)))"

section \<open>The abstract manager\<close>

text \<open>A counter and the live timers by number.\<close>

record 'cb timer_spec =
  ts_count :: int
  ts_live :: "int \<rightharpoonup> 'cb timer_obj"

fun spec_call :: "'cb timer_spec \<Rightarrow> 'cb timer_call \<Rightarrow> 'cb timer_spec \<times> int" where
  "spec_call s (Add_timer cb after repeat) =
     (let g = ts_count s + 1
      in (\<lparr>ts_count = g, ts_live = (ts_live s)(g \<mapsto>
              \<lparr>to_guid = g, to_cb = cb, to_repeatFlag = repeat > repeat_threshold,
               to_after = after, to_repeat = repeat\<rparr>)\<rparr>, g))"
| "spec_call s (Del_timer i) =
     (if ts_live s i = None then (s, -1) else (s\<lparr>ts_live := (ts_live s)(i := None)\<rparr>, 0))"
| "spec_call s (Check_timer i) = (s, if ts_live s i = None then 0 else 1)"

fun spec_calls :: "'cb timer_spec \<Rightarrow> 'cb timer_call list \<Rightarrow> 'cb timer_spec \<times> int list" where
  "spec_calls s [] = (s, [])"
| "spec_calls s (c # cs) =
     (let (s1, r) = spec_call s c; (s2, rs) = spec_calls s1 cs in (s2, r # rs))"

text \<open>
  The manager's objects are exactly the live timers: each is on the heap under its own number,
  nothing else is, and no number was given out beyond the counter.
\<close>

definition tm_rep :: "'cb timer_mgr \<Rightarrow> 'cb timer_spec \<Rightarrow> bool" where
  "tm_rep m s \<longleftrightarrow>
     tm_timerGuid m = ts_count s \<and> 0 \<le> ts_count s \<and>
     (\<forall>i. ts_live s i = (case tm_objs m i of None \<Rightarrow> None | Some a \<Rightarrow> tm_heap m a)) \<and>
     (\<forall>i a. tm_objs m i = Some a \<longrightarrow> (\<exists>t. tm_heap m a = Some t \<and> to_guid t = i)) \<and>
     (\<forall>a t. tm_heap m a = Some t \<longrightarrow>
        tm_objs m (to_guid t) = Some a \<and> a < tm_brk m \<and> 1 \<le> to_guid t \<and> to_guid t \<le> ts_count s)"

definition adds :: "'cb timer_call list \<Rightarrow> int" where
  "adds cs = int (length (filter (\<lambda>c. case c of Add_timer _ _ _ \<Rightarrow> True | _ \<Rightarrow> False) cs))"

lemma adds_simps [simp]:
  "adds [] = 0" "adds (Add_timer c x y # cs) = 1 + adds cs" "adds (Del_timer i # cs) = adds cs"
  "adds (Check_timer i # cs) = adds cs"
  by (simp_all add: adds_def)

lemma adds_nonneg: "0 \<le> adds cs"
  by (simp add: adds_def)

lemma tm_rep_new: "tm_rep new_TimerMgr \<lparr>ts_count = 0, ts_live = Map.empty\<rparr>"
  by (simp add: tm_rep_def new_TimerMgr_def)

lemma tm_rep_obj:
  assumes "tm_rep m s" "tm_objs m i = Some a"
  obtains t where "tm_heap m a = Some t" "to_guid t = i" "ts_live s i = Some t"
  using assms by (fastforce simp: tm_rep_def)

lemma tm_rep_ex: "tm_rep m s \<Longrightarrow> tm_objs m i = Some a \<Longrightarrow> \<exists>t. tm_heap m a = Some t \<and> to_guid t = i"
  by (simp add: tm_rep_def)

lemma tm_rep_lookup:
  "tm_rep m s \<Longrightarrow> ts_live s i = (case tm_objs m i of None \<Rightarrow> None | Some a \<Rightarrow> tm_heap m a)"
  by (simp add: tm_rep_def)

lemma tm_rep_live: "tm_rep m s \<Longrightarrow> ts_live s i = None \<longleftrightarrow> tm_objs m i = None"
  by (cases "tm_objs m i") (auto simp: tm_rep_lookup elim: tm_rep_obj)

lemma tm_rep_heap:
  "tm_rep m s \<Longrightarrow> tm_heap m a = Some t \<Longrightarrow>
     tm_objs m (to_guid t) = Some a \<and> a < tm_brk m \<and> 1 \<le> to_guid t \<and> to_guid t \<le> ts_count s"
  by (simp add: tm_rep_def)

lemma AddTimer_rep:
  assumes rep: "tm_rep m s" and c: "ts_count s + 1 < 2 ^ 63"
  shows "\<exists>m1. AddTimer m cb after repeat = ret (m1, snd (spec_call s (Add_timer cb after repeat))) \<and>
    tm_rep m1 (fst (spec_call s (Add_timer cb after repeat)))"
proof -
  let ?g = "ts_count s + 1" and ?a = "tm_brk m"
  let ?t = "\<lparr>to_guid = ?g, to_cb = cb, to_repeatFlag = repeat > repeat_threshold,
               to_after = after, to_repeat = repeat\<rparr>"
  let ?m = "m\<lparr>tm_timerGuid := ?g, tm_heap := (tm_heap m)(?a \<mapsto> ?t), tm_brk := Suc ?a,
              tm_objs := (tm_objs m)(?g \<mapsto> ?a)\<rparr>"
  have g: "to_i64 ?g = ?g" "0 \<le> ts_count s" "tm_timerGuid m = ts_count s"
    using rep c by (auto simp: tm_rep_def intro!: to_i64_id)
  have A: "AddTimer m cb after repeat = ret (?m, ?g)"
    using g by (simp add: AddTimer_def new_TimerObj_def GetTimerID_def load_timer_def Let_def)
  have fresh: "tm_heap m ?a = None"
    using tm_rep_heap [OF rep, of ?a] by (cases "tm_heap m ?a") auto
  have new: "tm_objs m ?g = None"
  proof (cases "tm_objs m ?g")
    case (Some a)
    then obtain t where "tm_heap m a = Some t" "to_guid t = ?g" using tm_rep_obj [OF rep] by blast
    then show ?thesis using tm_rep_heap [OF rep, of a t] by simp
  qed simp
  have other: "a \<noteq> ?a" if "tm_objs m i = Some a" for i a
    using tm_rep_ex [OF rep that] fresh by auto
  have "tm_rep ?m \<lparr>ts_count = ?g, ts_live = (ts_live s)(?g \<mapsto> ?t)\<rparr>"
    unfolding tm_rep_def
  proof (intro conjI allI impI)
    fix i
    show "ts_live \<lparr>ts_count = ?g, ts_live = (ts_live s)(?g \<mapsto> ?t)\<rparr> i =
        (case tm_objs ?m i of None \<Rightarrow> None | Some a \<Rightarrow> tm_heap ?m a)"
    proof (cases "tm_objs m i")
      case None
      then show ?thesis using tm_rep_lookup [OF rep, of i] by simp
    next
      case (Some a)
      then have "i \<noteq> ?g" "a \<noteq> ?a" using new other by auto
      with Some show ?thesis using tm_rep_lookup [OF rep, of i] by simp
    qed
  next
    fix i a
    assume h: "tm_objs ?m i = Some a"
    show "\<exists>t. tm_heap ?m a = Some t \<and> to_guid t = i"
    proof (cases "i = ?g")
      case False
      then have o: "tm_objs m i = Some a" using h by simp
      then have "a \<noteq> ?a" by (rule other)
      then show ?thesis using tm_rep_ex [OF rep o] by simp
    qed (use h in simp)
  next
    fix a t
    assume "tm_heap ?m a = Some t"
    then show "tm_objs ?m (to_guid t) = Some a" "a < tm_brk ?m" "1 \<le> to_guid t"
      "to_guid t \<le> ts_count \<lparr>ts_count = ?g, ts_live = (ts_live s)(?g \<mapsto> ?t)\<rparr>"
      using tm_rep_heap [OF rep, of a t] g(2) by (cases "a = ?a"; auto)+
  qed (use g in simp_all)
  with A show ?thesis by (simp add: Let_def)
qed

lemma DelTimer_rep:
  assumes rep: "tm_rep m s"
  shows "\<exists>m1. DelTimer m i = ret (m1, snd (spec_call s (Del_timer i))) \<and>
    tm_rep m1 (fst (spec_call s (Del_timer i)))"
proof (cases "tm_objs m i")
  case None
  then show ?thesis using rep tm_rep_live [OF rep, of i] by (simp add: DelTimer_def)
next
  case (Some a)
  obtain t where t: "tm_heap m a = Some t" "to_guid t = i" "ts_live s i = Some t"
    using tm_rep_obj [OF rep Some] by blast
  let ?m = "m\<lparr>tm_heap := (tm_heap m)(a := None), tm_objs := (tm_objs m)(i := None)\<rparr>"
  have D: "DelTimer m i = ret (?m, 0)" using Some t by (simp add: DelTimer_def load_timer_def)
  have other: "a' \<noteq> a" if "tm_objs m j = Some a'" "j \<noteq> i" for j a'
    using tm_rep_ex [OF rep that(1)] that(2) t by auto
  have "tm_rep ?m (s\<lparr>ts_live := (ts_live s)(i := None)\<rparr>)"
    unfolding tm_rep_def
  proof (intro conjI allI impI)
    fix j
    show "ts_live (s\<lparr>ts_live := (ts_live s)(i := None)\<rparr>) j =
        (case tm_objs ?m j of None \<Rightarrow> None | Some a \<Rightarrow> tm_heap ?m a)"
    proof (cases "j = i \<or> tm_objs m j = None")
      case True
      then show ?thesis using tm_rep_lookup [OF rep, of j] by auto
    next
      case False
      then obtain a' where a': "tm_objs m j = Some a'" "j \<noteq> i" by auto
      with other have "a' \<noteq> a" by blast
      with a' show ?thesis using tm_rep_lookup [OF rep, of j] by simp
    qed
  next
    fix j a'
    assume "tm_objs ?m j = Some a'"
    then have o: "j \<noteq> i" "tm_objs m j = Some a'" by (auto split: if_splits)
    then have "a' \<noteq> a" by (intro other)
    then show "\<exists>t. tm_heap ?m a' = Some t \<and> to_guid t = j"
      using tm_rep_ex [OF rep o(2)] by simp
  next
    fix a' t'
    assume h: "tm_heap ?m a' = Some t'"
    then have "to_guid t' \<noteq> i" using tm_rep_heap [OF rep, of a' t'] Some by (auto split: if_splits)
    with h show "tm_objs ?m (to_guid t') = Some a'" "a' < tm_brk ?m" "1 \<le> to_guid t'"
      "to_guid t' \<le> ts_count (s\<lparr>ts_live := (ts_live s)(i := None)\<rparr>)"
      using tm_rep_heap [OF rep, of a' t'] by (auto split: if_splits)
  qed (use rep in \<open>simp_all add: tm_rep_def\<close>)
  with D t show ?thesis by simp
qed

lemma do_call_rep:
  assumes "tm_rep m s" "ts_count s + adds [c] < 2 ^ 63"
  shows "\<exists>m1. do_call m c = ret (m1, snd (spec_call s c)) \<and> tm_rep m1 (fst (spec_call s c))"
proof (cases c)
  case (Add_timer cb x y)
  then show ?thesis using AddTimer_rep [OF assms(1)] assms(2) by simp
next
  case (Del_timer i)
  then show ?thesis using DelTimer_rep [OF assms(1)] by simp
next
  case (Check_timer i)
  then show ?thesis using assms(1) tm_rep_live [OF assms(1), of i] by (auto simp: CheckTimer_def)
qed

lemma spec_call_count: "ts_count (fst (spec_call s c)) = ts_count s + adds [c]"
  by (cases c) (simp_all add: Let_def)

lemma run_calls_rep:
  assumes "tm_rep m s" "ts_count s + adds cs < 2 ^ 63"
  shows "\<exists>m1. run_calls m cs = ret (m1, snd (spec_calls s cs)) \<and> tm_rep m1 (fst (spec_calls s cs))"
  using assms
proof (induction cs arbitrary: m s)
  case Nil
  then show ?case by simp
next
  case (Cons c cs)
  have a: "adds (c # cs) = adds [c] + adds cs" by (cases c) simp_all
  then have "ts_count s + adds [c] < 2 ^ 63" using Cons.prems(2) adds_nonneg [of cs] by simp
  then obtain m1 where m1: "do_call m c = ret (m1, snd (spec_call s c))" "tm_rep m1 (fst (spec_call s c))"
    using do_call_rep Cons.prems(1) by blast
  have "ts_count (fst (spec_call s c)) + adds cs < 2 ^ 63"
    using spec_call_count [of s c] a Cons.prems(2) by simp
  then show ?case using Cons.IH [OF m1(2)] m1(1) by (auto simp: Let_def split: prod.splits)
qed

section \<open>What happens to one object\<close>

lemma do_call_keeps:
  assumes rep: "tm_rep m s" and c: "do_call m c = ret (m1, r)"
    and t: "tm_heap m a = Some t" "c \<noteq> Del_timer (to_guid t)"
  shows "tm_heap m1 a = Some t"
proof (cases c)
  case (Add_timer cb x y)
  then show ?thesis using c tm_rep_heap [OF rep t(1)] t(1)
    by (auto simp: AddTimer_def new_TimerObj_def GetTimerID_def load_timer_def Let_def)
next
  case (Del_timer j)
  show ?thesis
  proof (cases "tm_objs m j")
    case None
    then show ?thesis using Del_timer c t by (simp add: DelTimer_def)
  next
    case (Some a')
    then obtain t' where "tm_heap m a' = Some t'" "to_guid t' = j" using tm_rep_ex [OF rep] by blast
    then show ?thesis using Del_timer Some c t by (auto simp: DelTimer_def load_timer_def)
  qed
next
  case (Check_timer j)
  then show ?thesis using c t by simp
qed

lemma do_call_dead:
  assumes "do_call m c = ret (m1, r)" "tm_heap m a = None" "a < tm_brk m"
  shows "tm_heap m1 a = None \<and> a < tm_brk m1"
  using assms
  by (cases c) (auto simp: AddTimer_def new_TimerObj_def GetTimerID_def DelTimer_def load_timer_def
      Let_def split: option.splits)

lemma run_calls_dead:
  assumes "run_calls m cs = ret (m1, rs)" "tm_heap m a = None" "a < tm_brk m"
  shows "tm_heap m1 a = None"
  using assms
proof (induction cs arbitrary: m rs)
  case Nil
  then show ?case by simp
next
  case (Cons c cs)
  then obtain m2 r rs2 where 1: "do_call m c = ret (m2, r)" "run_calls m2 cs = ret (m1, rs2)"
    by (auto simp: rbind_eq_ret)
  then show ?case using Cons.IH do_call_dead [OF 1(1) Cons.prems(2,3)] by blast
qed

lemma run_calls_self:
  assumes "tm_rep m s" "ts_count s + adds cs < 2 ^ 63" "tm_heap m a = Some t"
    "run_calls m cs = ret (m1, rs)"
  shows "tm_heap m1 a = (if Del_timer (to_guid t) \<in> set cs then None else Some t)"
  using assms
proof (induction cs arbitrary: m s rs)
  case Nil
  then show ?case by simp
next
  case (Cons c cs)
  obtain m2 r rs2 where 1: "do_call m c = ret (m2, r)" "run_calls m2 cs = ret (m1, rs2)"
    using Cons.prems(4) by (auto simp: rbind_eq_ret)
  have ad: "adds (c # cs) = adds [c] + adds cs" by (cases c) simp_all
  then have "ts_count s + adds [c] < 2 ^ 63" using Cons.prems(2) adds_nonneg [of cs] by simp
  then have rep2: "tm_rep m2 (fst (spec_call s c))"
    using do_call_rep [OF Cons.prems(1), of c] 1(1) by auto
  have b2: "ts_count (fst (spec_call s c)) + adds cs < 2 ^ 63"
    using spec_call_count [of s c] ad Cons.prems(2) by simp
  show ?case
  proof (cases "c = Del_timer (to_guid t)")
    case True
    have h: "tm_objs m (to_guid t) = Some a" "a < tm_brk m"
      using tm_rep_heap [OF Cons.prems(1,3)] by auto
    then have "tm_heap m2 a = None" "a < tm_brk m2"
      using 1(1) True Cons.prems(3) by (auto simp: DelTimer_def load_timer_def)
    then show ?thesis using run_calls_dead [OF 1(2)] True by simp
  next
    case False
    then have "tm_heap m2 a = Some t" using do_call_keeps [OF Cons.prems(1) 1(1) Cons.prems(3)] by simp
    then show ?thesis using Cons.IH [OF rep2 b2 _ 1(2)] False by auto
  qed
qed

section \<open>Properties\<close>

text \<open>C12. Whatever sequence of \<open>AddTimer\<close>, \<open>DelTimer\<close> and \<open>CheckTimer\<close> calls is made on a new
  manager, with fewer than 2^63 timers in all: no call touches a freed object, the numbers and
  codes returned are those of a counter with a set of live timers, and the objects on the heap
  are exactly the live timers, so that none leaks and none is reachable after its deletion.\<close>

theorem TimerMgr_refines:
  assumes "adds cs < 2 ^ 63"
  shows "\<exists>m. run_calls new_TimerMgr cs = ret (m, snd (spec_calls \<lparr>ts_count = 0, ts_live = Map.empty\<rparr> cs)) \<and>
    tm_rep m (fst (spec_calls \<lparr>ts_count = 0, ts_live = Map.empty\<rparr> cs))"
  using run_calls_rep [OF tm_rep_new, of cs] assms by simp

lemma TimerMgr_refines_witness:
  "\<exists>m. run_calls (new_TimerMgr :: nat timer_mgr) [Add_timer 7 1 0, Add_timer 8 1 2, Del_timer 1, Check_timer 1, Check_timer 2]
     = ret (m, [1, 2, 0, 0, 1])"
  using TimerMgr_refines [of "[Add_timer (7::nat) 1 0, Add_timer 8 1 2, Del_timer 1, Check_timer 1, Check_timer 2]"]
  by auto

text \<open>When a live timer fires and its callback does not delete that timer, the callback's
  calls take effect, and afterwards the timer is live exactly if it repeats.\<close>

theorem Callback_fires:
  assumes "tm_rep m s" "tm_heap m a = Some t" "cs = calls (to_cb t) m"
    "ts_count s + adds cs < 2 ^ 63" "Del_timer (to_guid t) \<notin> set cs"
  shows "\<exists>m1. Callback calls m a = ret m1 \<and>
    tm_rep m1 (if to_repeatFlag t then fst (spec_calls s cs)
      else fst (spec_call (fst (spec_calls s cs)) (Del_timer (to_guid t))))"
proof -
  obtain m1 where m1: "run_calls m cs = ret (m1, snd (spec_calls s cs))" "tm_rep m1 (fst (spec_calls s cs))"
    using run_calls_rep [OF assms(1,4)] by blast
  then have t1: "tm_heap m1 a = Some t" using run_calls_self [OF assms(1,4,2)] assms(5) by simp
  obtain m2 r where m2: "DelTimer m1 (to_guid t) = ret (m2, r)"
    "tm_rep m2 (fst (spec_call (fst (spec_calls s cs)) (Del_timer (to_guid t))))"
    using DelTimer_rep [OF m1(2), of "to_guid t"] by blast
  show ?thesis
    using assms(2,3) m1 t1 m2 by (simp add: Callback_def load_timer_def)
qed

definition one_timer :: "rat \<Rightarrow> nat timer_mgr" where
  "one_timer rp = \<lparr>tm_timerGuid = 1, tm_objs = [1 \<mapsto> 0],
     tm_heap = [0 \<mapsto> \<lparr>to_guid = 1, to_cb = 7, to_repeatFlag = rp > repeat_threshold, to_after = 1,
                     to_repeat = rp\<rparr>], tm_brk = 1\<rparr>"

lemma one_timer_rep:
  "tm_rep (one_timer rp) \<lparr>ts_count = 1, ts_live = [1 \<mapsto> \<lparr>to_guid = 1, to_cb = 7,
     to_repeatFlag = rp > repeat_threshold, to_after = 1, to_repeat = rp\<rparr>]\<rparr>"
  by (simp add: tm_rep_def one_timer_def)

lemma Callback_fires_witness:
  "\<exists>m1. Callback (\<lambda>_ _. [Add_timer 8 1 0]) (one_timer 0) 0 = ret m1 \<and> \<not> CheckTimer m1 1 \<and> CheckTimer m1 2"
proof -
  let ?c = "\<lambda>_ _. [Add_timer 8 1 0]"
  let ?s = "\<lparr>ts_count = 1, ts_live = [1 \<mapsto> \<lparr>to_guid = 1, to_cb = 7,
     to_repeatFlag = 0 > repeat_threshold, to_after = 1, to_repeat = 0\<rparr>]\<rparr>"
  let ?t = "\<lparr>to_guid = 1, to_cb = (7::nat), to_repeatFlag = 0 > repeat_threshold, to_after = 1, to_repeat = 0\<rparr>"
  let ?s1 = "fst (spec_call (fst (spec_calls ?s [Add_timer 8 1 0])) (Del_timer 1))"
  have "tm_heap (one_timer 0) 0 = Some ?t" by (simp add: one_timer_def)
  then obtain m1 where m1: "Callback ?c (one_timer 0) 0 = ret m1" "tm_rep m1 ?s1"
    using Callback_fires [OF one_timer_rep, of 0 0 ?t "[Add_timer 8 1 0]" ?c]
    by (auto simp: repeat_threshold_def)
  have "tm_objs m1 1 = None" "tm_objs m1 2 \<noteq> None"
    using tm_rep_live [OF m1(2), of 1] tm_rep_live [OF m1(2), of 2] by (simp_all add: Let_def)
  then show ?thesis using m1(1) by (auto simp: CheckTimer_def)
qed

text \<open>A callback that deletes its own timer makes \<open>TimerObj::Callback\<close> use the freed object:
  it reads \<open>repeatFlag_\<close> after \<open>cb_()\<close> has returned.\<close>

theorem Callback_self_delete:
  assumes "tm_rep m s" "tm_heap m a = Some t" "cs = calls (to_cb t) m"
    "ts_count s + adds cs < 2 ^ 63" "Del_timer (to_guid t) \<in> set cs"
  shows "Callback calls m a = fail Dangling_pointer"
proof -
  obtain m1 where m1: "run_calls m cs = ret (m1, snd (spec_calls s cs))"
    using run_calls_rep [OF assms(1,4)] by blast
  then have "tm_heap m1 a = None" using run_calls_self [OF assms(1,4,2)] assms(5) by simp
  then show ?thesis using assms(2,3) m1 by (simp add: Callback_def load_timer_def)
qed

lemma Callback_self_delete_witness:
  "Callback (\<lambda>_ _. [Del_timer 1]) (one_timer 5) 0 = fail Dangling_pointer"
  using Callback_self_delete [OF one_timer_rep, of 5 0 _ "[Del_timer 1]" "\<lambda>_ _. [Del_timer 1]"]
  by (auto simp: one_timer_def)

end
