(* ===== verification/Buffer_Event.thy ===== *)
theory Buffer_Event
  imports Block_Buffer
begin

unbundle bit_operations_syntax

text \<open>
  \<open>BufferEventEv\<close> (framework/IOEventEv.h, IOEventEv.cc) over \<open>BufferEvent\<close>
  (framework/IOEventHandler.h): a socket with a receive and a send buffer.

  The operating system is a parameter: a record of the system calls as functions on a state
  of type \<open>'os\<close>.  A call that fails yields a negative number or \<open>Inl\<close> with the \<open>errno\<close>.
  The watchers of the event library are \<open>None\<close> before they are made and then \<open>Some\<close> of
  whether they are started.  Callbacks come last in every operation (or their effects do not
  matter to what follows), so an operation yields the callbacks it makes, in order.
\<close>

section \<open>State\<close>

definition IOEV_READ :: int where "IOEV_READ = 1"
definition IOEV_WRITE :: int where "IOEV_WRITE = 2"
definition IOEV_EVENT_EOF :: int where "IOEV_EVENT_EOF = 1"
definition IOEV_TCP_PROTOCOL :: int where "IOEV_TCP_PROTOCOL = 1"
definition IOEV_UDP_PROTOCOL :: int where "IOEV_UDP_PROTOCOL = 2"

definition EINTR :: int where "EINTR = 4"
definition EAGAIN :: int where "EAGAIN = 11"
definition EWOULDBLOCK :: int where "EWOULDBLOCK = 11"

record 'os sys =
  sys_ioctl :: "'os \<Rightarrow> int \<Rightarrow> 'os \<times> int option"
  sys_recv :: "'os \<Rightarrow> int \<Rightarrow> int \<Rightarrow> 'os \<times> (int + byte list)"
  sys_recvfrom :: "'os \<Rightarrow> int \<Rightarrow> int \<Rightarrow> 'os \<times> (int + byte list) \<times> int \<times> int"
  sys_send :: "'os \<Rightarrow> int \<Rightarrow> byte list \<Rightarrow> 'os \<times> int \<times> int"
  sys_sendto :: "'os \<Rightarrow> int \<Rightarrow> byte list \<Rightarrow> int \<Rightarrow> int \<Rightarrow> 'os \<times> int"
  sys_close :: "'os \<Rightarrow> int \<Rightarrow> 'os"

record buffer_event =
  be_fd :: int
  be_protocol :: int
  be_evrd :: "bool option"
  be_evwr :: "bool option"
  be_recvBuffer :: block_buffer
  be_sendBuffer :: block_buffer
  be_rdcb :: bool
  be_wrcb :: bool
  be_evcb :: bool

text \<open>The callbacks \<open>rdcb_(this, fd, 0, remote)\<close>, \<open>wrcb_(this, fd, 0, 0)\<close>, \<open>evcb_(this, fd, event, 0)\<close>.\<close>

datatype be_call = Rdcb int int | Wrcb int | Evcb int int

definition new_BufferEventEv :: "int \<Rightarrow> int \<Rightarrow> buffer_event" where
  "new_BufferEventEv protocol fd =
     \<lparr>be_fd = fd, be_protocol = protocol, be_evrd = None, be_evwr = None,
      be_recvBuffer = new_BlockBuffer, be_sendBuffer = new_BlockBuffer,
      be_rdcb = False, be_wrcb = False, be_evcb = False\<rparr>"

definition SetCb :: "buffer_event \<Rightarrow> bool \<Rightarrow> bool \<Rightarrow> bool \<Rightarrow> buffer_event" where
  "SetCb e rd wr ev = e\<lparr>be_rdcb := rd, be_wrcb := wr, be_evcb := ev\<rparr>"

definition has_flag :: "int \<Rightarrow> int \<Rightarrow> bool" where
  "has_flag flag x \<longleftrightarrow> flag AND x \<noteq> 0"

definition Enable :: "buffer_event \<Rightarrow> int \<Rightarrow> buffer_event" where
  "Enable e flag =
     (let e1 = (if has_flag flag IOEV_READ then e\<lparr>be_evrd := Some True\<rparr> else e)
      in if has_flag flag IOEV_WRITE
         then (if be_evwr e1 = None then e1\<lparr>be_evwr := Some False\<rparr> else e1)
         else e1)"

text \<open>\<open>ev_io_start\<close> and \<open>ev_io_stop\<close> read the watcher: a null one is a fault.\<close>

definition set_evrd :: "buffer_event \<Rightarrow> bool \<Rightarrow> buffer_event run" where
  "set_evrd e active =
     (if be_evrd e = None then fail Null_pointer else ret (e\<lparr>be_evrd := Some active\<rparr>))"

definition set_evwr :: "buffer_event \<Rightarrow> bool \<Rightarrow> buffer_event run" where
  "set_evwr e active =
     (if be_evwr e = None then fail Null_pointer else ret (e\<lparr>be_evwr := Some active\<rparr>))"

definition Disable :: "buffer_event \<Rightarrow> int \<Rightarrow> buffer_event run" where
  "Disable e flag =
     rbind (if has_flag flag IOEV_READ then set_evrd e False else ret e) (\<lambda>e1.
       if has_flag flag IOEV_WRITE then set_evwr e1 False else ret e1)"

section \<open>Reading from the receive buffer\<close>

definition CopyReadBuff :: "block_store \<Rightarrow> buffer_event \<Rightarrow> byte list \<Rightarrow> int \<Rightarrow> (byte list \<times> int) run" where
  "CopyReadBuff s e copy n =
     rbind (assert_that (n > 0)) (\<lambda>_.
       rbind (Copy s (be_recvBuffer e) copy n) (\<lambda>(d, k). ret (d, to_i32 k)))"

definition GetReadBuffLen :: "block_store \<Rightarrow> buffer_event \<Rightarrow> int run" where
  "GetReadBuffLen s e = rbind (GetTotalLen s (be_recvBuffer e)) (\<lambda>n. ret (to_u64 n))"

definition Read ::
  "block_store \<Rightarrow> buffer_event \<Rightarrow> byte list \<Rightarrow> int \<Rightarrow> (block_store \<times> buffer_event \<times> byte list \<times> int) run"
where
  "Read s e data n =
     rbind (assert_that (n > 0)) (\<lambda>_.
       rbind (Move s (be_recvBuffer e) (Some data) n) (\<lambda>(s1, q1, d, k).
         ret (s1, e\<lparr>be_recvBuffer := q1\<rparr>, the d, k)))"

section \<open>Receiving\<close>

partial_function (option) recv_tcp_loop ::
  "'os sys \<Rightarrow> 'os \<Rightarrow> int \<Rightarrow> block_store \<Rightarrow> block_buffer \<Rightarrow>
     ('os \<times> block_store \<times> block_buffer \<times> bool) run" where
  "recv_tcp_loop sys os fd s q =
     (case sys_ioctl sys os fd of
        (os1, None) \<Rightarrow> ret (os1, s, q, False)
      | (os1, Some slen) \<Rightarrow>
          rbind (GetBufferToWrite s q slen) (\<lambda>(s1, q1, buffer).
            case sys_recv sys os1 fd slen of
              (os2, Inl errno) \<Rightarrow>
                if errno = EINTR then recv_tcp_loop sys os2 fd s1 q1 else ret (os2, s1, q1, True)
            | (os2, Inr xs) \<Rightarrow>
                if xs = [] then ret (os2, s1, q1, False)
                else rbind (store_bytes s1 buffer xs) (\<lambda>s2.
                       rbind (FinishBufferWrite s2 q1 (int (length xs))) (\<lambda>(s3, q3).
                         ret (os2, s3, q3, True)))))"

definition recvTcpData ::
  "'os sys \<Rightarrow> 'os \<Rightarrow> block_store \<Rightarrow> buffer_event \<Rightarrow>
     ('os \<times> block_store \<times> buffer_event \<times> be_call list \<times> int) run" where
  "recvTcpData sys os s e =
     rbind (recv_tcp_loop sys os (be_fd e) s (be_recvBuffer e)) (\<lambda>(os1, s1, q1, ok).
       let e1 = e\<lparr>be_recvBuffer := q1\<rparr>
       in if ok then ret (os1, s1, e1, if be_rdcb e then [Rdcb (be_fd e) 0] else [], 0)
          else ret (os1, s1, e1, if be_evcb e then [Evcb (be_fd e) IOEV_EVENT_EOF] else [], -1))"

text \<open>The peer's address in one number: \<open>s_addr\<close> above, \<open>sin_port\<close> below.\<close>

definition pack_addr :: "int \<Rightarrow> int \<Rightarrow> int" where
  "pack_addr s_addr sin_port = to_u64 (push_bit 32 s_addr OR sin_port)"

partial_function (option) recv_udp_loop ::
  "'os sys \<Rightarrow> 'os \<Rightarrow> int \<Rightarrow> block_store \<Rightarrow> block_buffer \<Rightarrow>
     ('os \<times> block_store \<times> block_buffer \<times> int option) run" where
  "recv_udp_loop sys os fd s q =
     (case sys_ioctl sys os fd of
        (os1, None) \<Rightarrow> ret (os1, s, q, None)
      | (os1, Some slen) \<Rightarrow>
          rbind (GetBufferToWrite s q slen) (\<lambda>(s1, q1, buffer).
            case sys_recvfrom sys os1 fd slen of
              (os2, r, s_addr, sin_port) \<Rightarrow>
                (case r of
                   Inl errno \<Rightarrow>
                     if errno = EINTR then recv_udp_loop sys os2 fd s1 q1
                     else rbind (FinishBufferWrite s1 q1 (-1)) (\<lambda>(s3, q3).
                            ret (os2, s3, q3, Some (pack_addr s_addr sin_port)))
                 | Inr xs \<Rightarrow>
                     rbind (store_bytes s1 buffer xs) (\<lambda>s2.
                       rbind (FinishBufferWrite s2 q1 (int (length xs))) (\<lambda>(s3, q3).
                         ret (os2, s3, q3, Some (pack_addr s_addr sin_port)))))))"

definition recvUdpData ::
  "'os sys \<Rightarrow> 'os \<Rightarrow> block_store \<Rightarrow> buffer_event \<Rightarrow>
     ('os \<times> block_store \<times> buffer_event \<times> be_call list \<times> int) run" where
  "recvUdpData sys os s e =
     rbind (recv_udp_loop sys os (be_fd e) s (be_recvBuffer e)) (\<lambda>(os1, s1, q1, r).
       let e1 = e\<lparr>be_recvBuffer := q1\<rparr>
       in case r of
            Some remote \<Rightarrow> ret (os1, s1, e1, if be_rdcb e then [Rdcb (be_fd e) remote] else [], 0)
          | None \<Rightarrow> ret (os1, s1, e1, if be_evcb e then [Evcb (be_fd e) IOEV_EVENT_EOF] else [], -1))"

definition RecvData ::
  "'os sys \<Rightarrow> 'os \<Rightarrow> block_store \<Rightarrow> buffer_event \<Rightarrow>
     ('os \<times> block_store \<times> buffer_event \<times> be_call list \<times> int) run" where
  "RecvData sys os s e =
     (if be_protocol e = IOEV_TCP_PROTOCOL then recvTcpData sys os s e else recvUdpData sys os s e)"

section \<open>Sending\<close>

text \<open>
  The inner loop of \<open>FlushSendBuffer\<close>: send what lies at \<open>buffer\<close>.  The result is whether to
  go on (all of it sent, or the socket would block) or an error has occurred.
\<close>

partial_function (option) flush_block ::
  "'os sys \<Rightarrow> 'os \<Rightarrow> int \<Rightarrow> block_store \<Rightarrow> block_buffer \<Rightarrow> pointer \<Rightarrow> int \<Rightarrow> int \<Rightarrow>
     ('os \<times> block_store \<times> block_buffer \<times> bool) run" where
  "flush_block sys os fd s q buffer bufferlen sendbytes =
     (if sendbytes < bufferlen
      then rbind (load s (Some (fst buffer))) (\<lambda>b.
           rbind (block_read b (snd buffer + sendbytes) (bufferlen - sendbytes)) (\<lambda>xs.
             case sys_send sys os fd xs of
               (os1, len, errno) \<Rightarrow>
                 if len < 0 \<and> errno \<noteq> EINTR
                 then ret (os1, s, q, errno = EAGAIN \<or> errno = EWOULDBLOCK)
                 else
                   (let len1 = (if len < 0 then 0 else len)
                    in rbind (Move s q None (to_u64 len1)) (\<lambda>(s1, q1, _, _).
                         flush_block sys os1 fd s1 q1 buffer bufferlen (sendbytes + len1)))))
      else ret (os, s, q, True))"

partial_function (option) flush_loop ::
  "'os sys \<Rightarrow> 'os \<Rightarrow> int \<Rightarrow> block_store \<Rightarrow> block_buffer \<Rightarrow>
     ('os \<times> block_store \<times> block_buffer \<times> bool) run" where
  "flush_loop sys os fd s q =
     rbind (GetTotalLen s q) (\<lambda>n.
       if n > 0
       then rbind (GetBufferToRead s q) (\<lambda>r.
            case r of
              None \<Rightarrow> fail Assert_failed
            | Some (buffer, bufferlen) \<Rightarrow>
                rbind (assert_that (bufferlen > 0)) (\<lambda>_.
                rbind (flush_block sys os fd s q buffer bufferlen 0) (\<lambda>(os1, s1, q1, ok).
                  if ok then flush_loop sys os1 fd s1 q1 else ret (os1, s1, q1, False))))
       else ret (os, s, q, True))"

definition FlushSendBuffer ::
  "'os sys \<Rightarrow> 'os \<Rightarrow> block_store \<Rightarrow> buffer_event \<Rightarrow>
     ('os \<times> block_store \<times> buffer_event \<times> be_call list \<times> int) run" where
  "FlushSendBuffer sys os s e =
     rbind (flush_loop sys os (be_fd e) s (be_sendBuffer e)) (\<lambda>(os1, s1, q1, ok).
       let e1 = e\<lparr>be_sendBuffer := q1\<rparr>
       in if ok then ret (os1, s1, e1, [], 0)
          else ret (os1, s1, e1, if be_evcb e then [Evcb (be_fd e) IOEV_EVENT_EOF] else [], -1))"

text \<open>The direct sends of \<open>sendTcpData\<close>: how many bytes went out, or \<open>None\<close> on an error.\<close>

partial_function (option) send_loop ::
  "'os sys \<Rightarrow> 'os \<Rightarrow> int \<Rightarrow> byte list \<Rightarrow> int \<Rightarrow> ('os \<times> int option) option" where
  "send_loop sys os fd data sendbytes =
     (if sendbytes < int (length data)
      then (case sys_send sys os fd (drop (nat sendbytes) data) of
              (os1, len, errno) \<Rightarrow>
                if len < 0 \<and> errno \<noteq> EINTR
                then Some (os1, if errno = EAGAIN \<or> errno = EWOULDBLOCK then Some sendbytes else None)
                else send_loop sys os1 fd data (sendbytes + (if len < 0 then 0 else len)))
      else Some (os, Some sendbytes))"

definition sendTcpData ::
  "'os sys \<Rightarrow> 'os \<Rightarrow> block_store \<Rightarrow> buffer_event \<Rightarrow> byte list \<Rightarrow>
     ('os \<times> block_store \<times> buffer_event \<times> be_call list \<times> int) run" where
  "sendTcpData sys os s e data =
     rbind (FlushSendBuffer sys os s e) (\<lambda>(os1, s1, e1, calls, r).
       if r < 0 then ret (os1, s1, e1, calls, r)
       else rbind (GetTotalLen s1 (be_sendBuffer e1)) (\<lambda>n.
         if n > 0
         then rbind (Insert s1 (be_sendBuffer e1) data) (\<lambda>(s2, q2).
                ret (os1, s2, e1\<lparr>be_sendBuffer := q2\<rparr>, calls, 0))
         else rbind (case be_evwr e1 of
                None \<Rightarrow> fail Null_pointer
              | Some active \<Rightarrow> if active then set_evwr e1 False else ret e1) (\<lambda>e2.
           (case send_loop sys os1 (be_fd e2) data 0 of
              None \<Rightarrow> None
            | Some (os2, None) \<Rightarrow>
                ret (os2, s1, e2,
                     calls @ (if be_evcb e2 then [Evcb (be_fd e2) IOEV_EVENT_EOF] else []), -1)
            | Some (os2, Some sendbytes) \<Rightarrow>
                if sendbytes < int (length data)
                then rbind (Insert s1 (be_sendBuffer e2) (drop (nat sendbytes) data)) (\<lambda>(s2, q2).
                     rbind (set_evwr (e2\<lparr>be_sendBuffer := q2\<rparr>) True) (\<lambda>e3.
                       ret (os2, s2, e3, calls, 0)))
                else ret (os2, s1, e2, calls, 0)))))"

text \<open>
  \<open>sendlen\<close> is a \<open>size_t\<close>: a failed \<open>sendto\<close> leaves \<open>2 ^ 64 - 1\<close> there, the test for a negative
  value never succeeds, and each round overwrites what the one before sent.
\<close>

partial_function (option) sendto_loop ::
  "'os sys \<Rightarrow> 'os \<Rightarrow> int \<Rightarrow> byte list \<Rightarrow> int \<Rightarrow> int \<Rightarrow> int \<Rightarrow> 'os option" where
  "sendto_loop sys os fd data s_addr sin_port sendlen =
     (if sendlen < int (length data)
      then (case sys_sendto sys os fd (drop (nat sendlen) data) s_addr sin_port of
              (os1, n) \<Rightarrow> sendto_loop sys os1 fd data s_addr sin_port (to_u64 n))
      else Some os)"

definition sendUdpData ::
  "'os sys \<Rightarrow> 'os \<Rightarrow> buffer_event \<Rightarrow> int \<Rightarrow> byte list \<Rightarrow> ('os \<times> buffer_event \<times> be_call list \<times> int) run" where
  "sendUdpData sys os e remote data =
     (let s_addr = drop_bit 32 remote; sin_port = take_bit 16 (remote AND (2 ^ 32 - 1))
      in case sendto_loop sys os (be_fd e) data s_addr sin_port 0 of
           None \<Rightarrow> None
         | Some os1 \<Rightarrow> ret (os1, e, if be_wrcb e then [Wrcb (be_fd e)] else [], 0))"

definition Write ::
  "'os sys \<Rightarrow> 'os \<Rightarrow> block_store \<Rightarrow> buffer_event \<Rightarrow> int \<Rightarrow> byte list \<Rightarrow>
     ('os \<times> block_store \<times> buffer_event \<times> be_call list \<times> int) run" where
  "Write sys os s e remote data =
     rbind (assert_that (int (length data) > 0)) (\<lambda>_.
       if be_protocol e = IOEV_TCP_PROTOCOL
       then rbind (sendTcpData sys os s e data) (\<lambda>(os1, s1, e1, calls, _). ret (os1, s1, e1, calls, 0))
       else rbind (sendUdpData sys os e remote data) (\<lambda>(os1, e1, calls, _). ret (os1, s, e1, calls, 0)))"

text \<open>The destructor gives both buffers' blocks back to the pool and closes the descriptor.\<close>

definition delete_BufferEventEv ::
  "'os sys \<Rightarrow> 'os \<Rightarrow> block_store \<Rightarrow> buffer_event \<Rightarrow> ('os \<times> block_store) run" where
  "delete_BufferEventEv sys os s e =
     rbind (delete_BlockBuffer s (be_recvBuffer e)) (\<lambda>(s1, _).
       rbind (delete_BlockBuffer s1 (be_sendBuffer e)) (\<lambda>(s2, _).
         ret (sys_close sys os (be_fd e), s2)))"

end
