(* ===== verification/Buffer_Event_Spec.thy ===== *)
theory Buffer_Event_Spec
  imports Buffer_Event Block_Buffer_Spec
begin

text \<open>
  What the buffered socket keeps: the bytes given to the system followed by the bytes in the
  send buffer are the bytes written, in order; the receive buffer gets what arrives.

  What is assumed of the system is stated as predicates on the record of system calls:
  \<open>wire os\<close> stands for the bytes that \<open>send\<close> has taken so far, \<open>busy os\<close> bounds how often in a
  row the system may still refuse without taking a byte.
\<close>

section \<open>What is assumed of \<open>send\<close>\<close>

definition send_ok :: "'os sys \<Rightarrow> int \<Rightarrow> ('os \<Rightarrow> byte list) \<Rightarrow> bool" where
  "send_ok sys fd wire \<longleftrightarrow>
     (\<forall>os xs os1 len errno. sys_send sys os fd xs = (os1, len, errno) \<longrightarrow>
        len \<le> int (length xs) \<and> wire os1 = wire os @ take (nat len) xs)"

definition send_patient :: "'os sys \<Rightarrow> int \<Rightarrow> ('os \<Rightarrow> nat) \<Rightarrow> bool" where
  "send_patient sys fd busy \<longleftrightarrow>
     (\<forall>os xs os1 len errno. sys_send sys os fd xs = (os1, len, errno) \<longrightarrow> xs \<noteq> [] \<longrightarrow>
        len = 0 \<or> len < 0 \<and> errno \<in> {EINTR, EAGAIN} \<longrightarrow> busy os1 < busy os)"

definition send_fails :: "'os sys \<Rightarrow> int \<Rightarrow> bool" where
  "send_fails sys fd \<longleftrightarrow>
     (\<exists>os xs os1 len errno. sys_send sys os fd xs = (os1, len, errno) \<and> len < 0 \<and> errno \<notin> {EINTR, EAGAIN})"

section \<open>Moving within the head block\<close>

lemma Move_within_head:
  assumes rep: "bb_rep s q ((h, b) # ps)" and n: "0 \<le> n" "n < used b"
    and dest: "\<forall>d. dest = Some d \<longrightarrow> n \<le> int (length d)"
  shows "Move s q dest n =
      ret (put s h (b\<lparr>bk_rdpos := bk_rdpos b + n\<rparr>), q\<lparr>bb_totallen := bb_totallen q - n\<rparr>,
           map_option (\<lambda>d. take (nat n) (live b) @ drop (nat n) d) dest, n)"
    "bb_rep (put s h (b\<lparr>bk_rdpos := bk_rdpos b + n\<rparr>)) (q\<lparr>bb_totallen := bb_totallen q - n\<rparr>)
       ((h, b\<lparr>bk_rdpos := bk_rdpos b + n\<rparr>) # ps)"
    "evolves s ((h, b) # ps) (put s h (b\<lparr>bk_rdpos := bk_rdpos b + n\<rparr>))
       ((h, b\<lparr>bk_rdpos := bk_rdpos b + n\<rparr>) # ps)"
    "live (b\<lparr>bk_rdpos := bk_rdpos b + n\<rparr>) = drop (nat n) (live b)"
proof -
  let ?b = "b\<lparr>bk_rdpos := bk_rdpos b + n\<rparr>"
  have l: "links s q ((h, b) # ps)" and sh: "shape (b # map snd ps)"
    and t: "bb_totallen q = int (length (content ((h, b) # ps)))" "bb_totallen q < 2 ^ 31"
    using rep by (auto simp: bb_rep_def)
  have ok: "block_ok b" using sh shape_block_ok by fastforce
  have x: "bb_head q = Some h" "st_mem s h = Some b" using l by (auto simp: links_def)
  have p: "0 \<le> bk_rdpos b" "bk_rdpos b + n < bk_wrpos b" "bk_wrpos b < 2 ^ 31" "bk_wrpos b - bk_rdpos b = used b"
    using ok n by (auto simp: block_ok_def used_def sized_def)
  have c: "to_u64 (bk_wrpos b - bk_rdpos b) = used b" using ok by (rule to_u64_used)
  have i: "to_i32 (bk_rdpos b + n) = bk_rdpos b + n" using p n by (intro to_i32_id) auto
  have len: "int (length (live b)) = used b" using ok by (rule length_live)
  have tl: "to_i32 (bb_totallen q - n) = bb_totallen q - n"
    using t n len by (intro to_i32_id) auto
  have same: "put s h b = s" using x(2) by (simp add: put_def map_upd_triv)
  have L: "load s (Some h) = ret b" using x by (simp add: load_def)
  have rd: "block_read b (bk_rdpos b) n = ret (take (nat n) (live b))"
    using block_read_prefix [OF ok n(1)] n(2) by simp
  have L1: "load (put s h ?b) (Some h) = ret ?b" by (simp add: load_def put_def)
  let ?d = "map_option (\<lambda>d. take (nat n) (live b) @ drop (nat n) d) dest"
  have d: "move_out dest (take (nat n) (live b)) = ret ?d"
    using dest n len by (auto simp: move_out_def memcpy_to_def split: option.split)
  show "Move s q dest n = ret (put s h ?b, q\<lparr>bb_totallen := bb_totallen q - n\<rparr>, ?d, n)"
  proof (cases "n = 0")
    case True
    then show ?thesis using x L p tl same
      by (simp add: Move_def move_loop.simps [of s q "Some h"] move_finish_def option.map_ident)
  next
    case False
    have "move_loop s q (Some h) dest n 0 = ret (put s h ?b, q, Some h, ?d, n)"
      using False n L rd c i d by (subst move_loop.simps) (simp add: Let_def)
    then show ?thesis using x L1 p tl by (simp add: Move_def move_finish_def)
  qed
  show "evolves s ((h, b) # ps) (put s h ?b) ((h, ?b) # ps)"
    using links_put(2) [of s q "[]" h b ps ?b] l by simp
  show lv: "live ?b = drop (nat n) (live b)" using live_drop [OF ok n(1)] n(2) by simp
  have "block_ok ?b" "live ?b = drop (nat n) (live b)"
    using block_ok_advance [OF ok n(1)] live_drop [OF ok n(1)] n(2) by (simp_all add: advance_def)
  moreover have "shape (?b # map snd ps)"
    using sh p \<open>block_ok ?b\<close> by (cases ps) (auto simp: inner_ok_def last_ok_def)
  moreover have "links (put s h ?b) q ((h, ?b) # ps)"
    using links_put [of s q "[]" h b ps ?b] l \<open>block_ok ?b\<close> ok by (simp add: block_ok_def sized_def)
  ultimately show "bb_rep (put s h ?b) (q\<lparr>bb_totallen := bb_totallen q - n\<rparr>) ((h, ?b) # ps)"
    using t n len by (simp add: bb_rep_def links_def)
qed

section \<open>Flushing\<close>

text \<open>
  The inner loop, at \<open>k\<close> of the \<open>n\<close> bytes of the head block: no byte is lost or sent twice, and
  either the buffer has become shorter or the system has become less busy.
\<close>

lemma flush_block_ok:
  assumes sys: "send_ok sys fd wire" "send_patient sys fd busy"
    and rep: "bb_rep s q ((h, b) # ps)"
    and pos: "bk_rdpos b = off + k" "bk_wrpos b = off + n" "k < n"
  shows "\<exists>os1 s1 q1 ps1 ok. flush_block sys os fd s q (h, off) n k = ret (os1, s1, q1, ok) \<and>
    bb_rep s1 q1 ps1 \<and> wire os1 @ content ps1 = wire os @ content ((h, b) # ps) \<and>
    evolves s ((h, b) # ps) s1 ps1 \<and> (\<not> ok \<longrightarrow> send_fails sys fd) \<and>
    (ok \<longrightarrow> length (content ps1) < length (content ((h, b) # ps)) \<or>
       length (content ps1) = length (content ((h, b) # ps)) \<and> busy os1 < busy os)"
  using rep pos
proof (induction "(nat (n - k), busy os)" arbitrary: os s q b k
    rule: wf_induct_rule [OF wf_lex_prod [OF wf_less_than wf_less_than]])
  case 1
  have sh: "shape (b # map snd ps)" and l: "links s q ((h, b) # ps)"
    using 1(2) by (auto simp: bb_rep_def)
  then have ok: "block_ok b" using shape_block_ok by fastforce
  have u: "used b = n - k" using 1(3,4) by (simp add: used_def)
  have L: "load s (Some h) = ret b" using l by (simp add: load_def links_def)
  have R: "block_read b (off + k) (n - k) = ret (live b)"
    using block_read_live [OF ok] u 1(3) by simp
  have len: "int (length (live b)) = n - k" using length_live [OF ok] u by simp
  then have ne: "live b \<noteq> []" using 1(5) by auto
  obtain os1 w e where S: "sys_send sys os fd (live b) = (os1, w, e)" by (metis prod_cases3)
  have w: "w \<le> n - k" "wire os1 = wire os @ take (nat w) (live b)"
    using sys(1) S len unfolding send_ok_def by fastforce+
  have patient: "w = 0 \<or> w < 0 \<and> e \<in> {EINTR, EAGAIN} \<Longrightarrow> busy os1 < busy os"
    using sys(2) S ne unfolding send_patient_def by blast
  have step: "flush_block sys os fd s q (h, off) n k =
      (if w < 0 \<and> e \<noteq> EINTR then ret (os1, s, q, e = EAGAIN \<or> e = EWOULDBLOCK)
       else rbind (Move s q None (to_u64 (if w < 0 then 0 else w))) (\<lambda>(s1, q1, _, _).
              flush_block sys os1 fd s1 q1 (h, off) n (k + (if w < 0 then 0 else w))))"
    using 1(5) L R S by (subst flush_block.simps) (simp add: Let_def)
  show ?case
  proof (cases "w < 0 \<and> e \<noteq> EINTR")
    case True
    have "send_fails sys fd" if "e \<noteq> EAGAIN" using S True that unfolding send_fails_def by blast
    then show ?thesis
      using step True w patient 1(2)
      by (intro exI [of _ os1] exI [of _ s] exI [of _ q] exI [of _ "(h, b) # ps"]
          exI [of _ "e = EAGAIN \<or> e = EWOULDBLOCK"]) (auto simp: EWOULDBLOCK_def EAGAIN_def)
  next
    case False
    define m where "m = (if w < 0 then 0 else w)"
    have m: "0 \<le> m" "m \<le> n - k" "wire os1 = wire os @ take (nat m) (live b)"
      using w 1(5) by (auto simp: m_def)
    have busy: "busy os1 < busy os" if "m = 0"
      using that False by (intro patient) (auto simp: m_def split: if_splits)
    have "to_u64 m = m" using m ok u by (intro to_u64_id) (auto simp: block_ok_def used_def sized_def)
    then have step': "flush_block sys os fd s q (h, off) n k =
        rbind (Move s q None m) (\<lambda>(s1, q1, _, _). flush_block sys os1 fd s1 q1 (h, off) n (k + m))"
      using step False by (simp add: m_def)
    show ?thesis
    proof (cases "m < n - k")
      case True
      let ?b = "b\<lparr>bk_rdpos := bk_rdpos b + m\<rparr>"
      have M: "Move s q None m = ret (put s h ?b, q\<lparr>bb_totallen := bb_totallen q - m\<rparr>, None, m)"
        "bb_rep (put s h ?b) (q\<lparr>bb_totallen := bb_totallen q - m\<rparr>) ((h, ?b) # ps)"
        "evolves s ((h, b) # ps) (put s h ?b) ((h, ?b) # ps)" "live ?b = drop (nat m) (live b)"
        using Move_within_head [OF 1(2) m(1), of None] True u by auto
      have dec: "((nat (n - (k + m)), busy os1), (nat (n - k), busy os)) \<in> less_than <*lex*> less_than"
        using m busy True 1(5) by auto
      have pos1: "bk_rdpos ?b = off + (k + m)" "bk_wrpos ?b = off + n" "k + m < n"
        using 1(3,4) True by simp_all
      obtain os2 s2 q2 ps2 ok where IH:
        "flush_block sys os1 fd (put s h ?b) (q\<lparr>bb_totallen := bb_totallen q - m\<rparr>) (h, off) n (k + m)
          = ret (os2, s2, q2, ok)" "bb_rep s2 q2 ps2"
        "wire os2 @ content ps2 = wire os1 @ content ((h, ?b) # ps)"
        "evolves (put s h ?b) ((h, ?b) # ps) s2 ps2" "\<not> ok \<longrightarrow> send_fails sys fd"
        "ok \<longrightarrow> length (content ps2) < length (content ((h, ?b) # ps)) \<or>
          length (content ps2) = length (content ((h, ?b) # ps)) \<and> busy os2 < busy os1"
        using 1(1) [OF dec M(2) pos1] by blast
      have c: "content ((h, b) # ps) = take (nat m) (live b) @ content ((h, ?b) # ps)"
        using M(4) by (simp add: append_assoc [symmetric] del: append_assoc)
      have W: "wire os2 @ content ps2 = wire os @ content ((h, b) # ps)"
        unfolding c IH(3) m(3) by simp
      have "length (content ((h, b) # ps)) = nat m + length (content ((h, ?b) # ps))"
        using M(4) len m True by simp
      then have D: "ok \<longrightarrow> length (content ps2) < length (content ((h, b) # ps)) \<or>
          length (content ps2) = length (content ((h, b) # ps)) \<and> busy os2 < busy os"
        using IH(6) busy m(1) by (cases "m = 0") auto
      have "flush_block sys os fd s q (h, off) n k = ret (os2, s2, q2, ok)"
        using step' M(1) IH(1) by simp
      then show ?thesis using IH(2,5) W D evolves_trans [OF M(3) IH(4)] by blast
    next
      case False
      then have all: "m = n - k" using m by simp
      obtain s1 q1 ps1 where M: "Move s q None m = ret (s1, q1, None, min m (bb_totallen q))"
        "bb_rep s1 q1 ps1" "content ps1 = drop (nat m) (content ((h, b) # ps))"
        "evolves s ((h, b) # ps) s1 ps1"
        using Move_rep [OF 1(2) m(1), of None] by auto
      have "flush_block sys os1 fd s1 q1 (h, off) n (k + m) = ret (os1, s1, q1, True)"
        using all by (subst flush_block.simps) simp
      moreover have "content ps1 = content ps" "take (nat m) (live b) = live b"
        using M(3) all len by simp_all
      ultimately show ?thesis
        using step' M m(3) ne
        by (intro exI [of _ os1] exI [of _ s1] exI [of _ q1] exI [of _ ps1] exI [of _ True]) simp
    qed
  qed
qed

lemma front_block:
  assumes rep: "bb_rep s q ps" and ne: "content ps \<noteq> []"
  obtains h b rest where "ps = (h, b) # rest" "0 < used b" "load s (Some h) = ret b" "bb_head q = Some h"
    "GetBufferToRead s q = ret (Some ((h, bk_rdpos b), used b))"
proof -
  obtain h b rest where ps: "ps = (h, b) # rest" using ne by (cases ps) auto
  have sh: "shape (b # map snd rest)" and l: "links s q ps" using rep ps by (auto simp: bb_rep_def)
  then have ok: "block_ok b" using shape_block_ok by fastforce
  have "0 < used b"
  proof (cases "rest = []")
    case True
    then have "live b \<noteq> []" using ne ps by simp
    then show ?thesis using length_live [OF ok] by (cases "live b") auto
  next
    case False
    then show ?thesis using sh used_inner_pos by (simp add: shape_Cons)
  qed
  moreover have "bb_head q = Some h" "load s (Some h) = ret b"
    using l ps by (auto simp: links_def load_def)
  ultimately show ?thesis using that ps by (simp add: GetBufferToRead_def used_def)
qed

lemma flush_loop_ok:
  assumes sys: "send_ok sys fd wire" "send_patient sys fd busy" and rep: "bb_rep s q ps"
  shows "\<exists>os1 s1 q1 ps1 ok. flush_loop sys os fd s q = ret (os1, s1, q1, ok) \<and>
    bb_rep s1 q1 ps1 \<and> wire os1 @ content ps1 = wire os @ content ps \<and> evolves s ps s1 ps1 \<and>
    (ok \<longrightarrow> content ps1 = []) \<and> (\<not> ok \<longrightarrow> send_fails sys fd)"
  using rep
proof (induction "(length (content ps), busy os)" arbitrary: os s q ps
    rule: wf_induct_rule [OF wf_lex_prod [OF wf_less_than wf_less_than]])
  case 1
  have T: "GetTotalLen s q = ret (int (length (content ps)))" using 1(2) by (rule GetTotalLen_rep)
  show ?case
  proof (cases "content ps = []")
    case True
    then have "flush_loop sys os fd s q = ret (os, s, q, True)"
      using T by (subst flush_loop.simps) simp
    then show ?thesis using True 1(2) evolves_refl by fastforce
  next
    case False
    obtain h b rest where x: "ps = (h, b) # rest" "0 < used b"
      "GetBufferToRead s q = ret (Some ((h, bk_rdpos b), used b))"
      using front_block [OF 1(2) False] by metis
    have rep: "bb_rep s q ((h, b) # rest)" using 1(2) x(1) by simp
    have w: "bk_rdpos b = bk_rdpos b + 0" "bk_wrpos b = bk_rdpos b + used b" by (simp_all add: used_def)
    obtain os1 s1 q1 ps1 ok where F:
      "flush_block sys os fd s q (h, bk_rdpos b) (used b) 0 = ret (os1, s1, q1, ok)" "bb_rep s1 q1 ps1"
      "wire os1 @ content ps1 = wire os @ content ps" "evolves s ps s1 ps1" "\<not> ok \<longrightarrow> send_fails sys fd"
      "ok \<longrightarrow> length (content ps1) < length (content ps) \<or>
        length (content ps1) = length (content ps) \<and> busy os1 < busy os"
      using flush_block_ok [OF sys rep w x(2), of os] x(1) by blast
    have step: "flush_loop sys os fd s q = (if ok then flush_loop sys os1 fd s1 q1 else ret (os1, s1, q1, False))"
      using T False x(2,3) F(1) by (subst flush_loop.simps) simp
    show ?thesis
    proof (cases ok)
      case True
      have dec: "((length (content ps1), busy os1), (length (content ps), busy os)) \<in> less_than <*lex*> less_than"
        using F(6) True by auto
      obtain os2 s2 q2 ps2 ok2 where "flush_loop sys os1 fd s1 q1 = ret (os2, s2, q2, ok2)" "bb_rep s2 q2 ps2"
        "wire os2 @ content ps2 = wire os1 @ content ps1" "evolves s1 ps1 s2 ps2"
        "ok2 \<longrightarrow> content ps2 = []" "\<not> ok2 \<longrightarrow> send_fails sys fd"
        using 1(1) [OF dec F(2)] by blast
      then show ?thesis using step True F(3) evolves_trans [OF F(4)] by metis
    next
      case False
      then show ?thesis using step F by auto
    qed
  qed
qed

lemma flush_loop_stuck:
  assumes rep: "bb_rep s q ps" and ne: "content ps \<noteq> []"
    and again: "\<forall>os xs. \<exists>os1. sys_send sys os fd xs = (os1, -1, EAGAIN)"
  shows "flush_loop sys os fd s q = None"
proof (rule ccontr)
  assume "flush_loop sys os fd s q \<noteq> None"
  then obtain r where r: "flush_loop sys os fd s q = Some r" by blast
  have T: "GetTotalLen s q = ret (int (length (content ps)))" using rep by (rule GetTotalLen_rep)
  obtain h b rest where x: "ps = (h, b) # rest" "0 < used b" "load s (Some h) = ret b"
    "GetBufferToRead s q = ret (Some ((h, bk_rdpos b), used b))"
    using front_block [OF rep ne] by metis
  have ok: "block_ok b" using rep x(1) shape_block_ok by (fastforce simp: bb_rep_def)
  have B: "\<exists>os1. flush_block sys os fd s q (h, bk_rdpos b) (used b) 0 = ret (os1, s, q, True)" for os
  proof -
    obtain os1 where "sys_send sys os fd (live b) = (os1, -1, EAGAIN)" using again by blast
    then show ?thesis using x(2,3) block_read_live [OF ok]
      by (subst flush_block.simps) (simp add: EAGAIN_def EINTR_def)
  qed
  have "\<not> (y = sys \<and> f0 = fd \<and> x = s \<and> z = q)" if "flush_loop y os f0 x z = Some r" for y os f0 x z r
  proof (rule flush_loop.raw_induct
      [where P = "\<lambda>y os f0 x z r. \<not> (y = sys \<and> f0 = fd \<and> x = s \<and> z = q)", OF _ that])
    fix f y os f0 x z r
    assume IH: "\<And>y os f0 x z r. f y os f0 x z = Some r \<Longrightarrow> \<not> (y = sys \<and> f0 = fd \<and> x = s \<and> z = q)"
      and eq: "rbind (GetTotalLen x z) (\<lambda>n.
       if n > 0
       then rbind (GetBufferToRead x z) (\<lambda>r.
            case r of
              None \<Rightarrow> fail Assert_failed
            | Some (buffer, bufferlen) \<Rightarrow>
                rbind (assert_that (bufferlen > 0)) (\<lambda>_.
                rbind (flush_block y os f0 x z buffer bufferlen 0) (\<lambda>(os1, s1, q1, ok).
                  if ok then f y os1 f0 s1 q1 else ret (os1, s1, q1, False))))
       else ret (os, x, z, True)) = Some r"
    show "\<not> (y = sys \<and> f0 = fd \<and> x = s \<and> z = q)"
    proof
      assume e: "y = sys \<and> f0 = fd \<and> x = s \<and> z = q"
      obtain os1 where "flush_block sys os fd s q (h, bk_rdpos b) (used b) 0 = ret (os1, s, q, True)"
        using B by blast
      then have "f y os1 f0 x z = Some r" using eq e T ne x(2,4) by simp
      then show False using IH e by blast
    qed
  qed
  with r show False by blast
qed

section \<open>Writing to a stream socket\<close>

lemma send_loop_ok:
  assumes sys: "send_ok sys fd wire" "send_patient sys fd busy" and k: "k \<le> length data"
  shows "\<exists>os1 r. send_loop sys os fd data (int k) = Some (os1, r) \<and>
    (case r of None \<Rightarrow> send_fails sys fd
     | Some j \<Rightarrow> 0 \<le> j \<and> j \<le> int (length data) \<and>
         wire os1 @ drop (nat j) data = wire os @ drop k data)"
  using k
proof (induction "(length data - k, busy os)" arbitrary: os k
    rule: wf_induct_rule [OF wf_lex_prod [OF wf_less_than wf_less_than]])
  case 1
  show ?case
  proof (cases "k < length data")
    case False
    then show ?thesis using 1(2) by (subst send_loop.simps) simp
  next
    case True
    obtain os1 w e where S: "sys_send sys os fd (drop k data) = (os1, w, e)" by (metis prod_cases3)
    have w: "w \<le> int (length data - k)" "wire os1 = wire os @ take (nat w) (drop k data)"
      using sys(1) S unfolding send_ok_def by fastforce+
    have patient: "w = 0 \<or> w < 0 \<and> e \<in> {EINTR, EAGAIN} \<Longrightarrow> busy os1 < busy os"
      using sys(2) S True unfolding send_patient_def by fastforce
    show ?thesis
    proof (cases "w < 0 \<and> e \<noteq> EINTR")
      case stop: True
      have "send_fails sys fd" if "e \<noteq> EAGAIN" using S stop that unfolding send_fails_def by blast
      then show ?thesis using True S stop w 1(2)
        by (subst send_loop.simps) (auto simp: EWOULDBLOCK_def EAGAIN_def)
    next
      case go: False
      define m where "m = (if w < 0 then 0 else nat w)"
      have m: "m \<le> length data - k" "wire os1 = wire os @ take m (drop k data)"
        using w by (auto simp: m_def)
      have "busy os1 < busy os" if "m = 0"
        using that go by (intro patient) (auto simp: m_def split: if_splits)
      then have dec: "((length data - (k + m), busy os1), (length data - k, busy os)) \<in> less_than <*lex*> less_than"
        using m True by auto
      have "int k + (if w < 0 then 0 else w) = int (k + m)" by (simp add: m_def)
      then have step: "send_loop sys os fd data (int k) = send_loop sys os1 fd data (int (k + m))"
        using True S go by (subst send_loop.simps) auto
      have c: "wire os1 @ drop (k + m) data = wire os @ drop k data"
        unfolding m(2) by (metis append.assoc append_take_drop_id drop_drop add.commute)
      show ?thesis using 1(1) [OF dec] m(1) 1(2) unfolding step c by simp
    qed
  qed
qed

lemma send_loop_start:
  assumes "send_ok sys fd wire" "send_patient sys fd busy"
  shows "\<exists>os1 r. send_loop sys os fd data 0 = Some (os1, r) \<and>
    (case r of None \<Rightarrow> send_fails sys fd
     | Some j \<Rightarrow> 0 \<le> j \<and> j \<le> int (length data) \<and> wire os1 @ drop (nat j) data = wire os @ data)"
  using send_loop_ok [OF assms, of 0 data os] by (simp cong: option.case_cong)

text \<open>What \<open>Write\<close> does on a stream socket whose write watcher exists.\<close>

lemma Write_stream:
  assumes sys: "send_ok sys (be_fd e) wire" "send_patient sys (be_fd e) busy"
    and rep: "bb_rep s (be_sendBuffer e) ps"
    and e: "be_protocol e = IOEV_TCP_PROTOCOL" "be_evwr e \<noteq> None" "be_evcb e"
    and d: "data \<noteq> []" "length data \<le> 2 ^ 30"
  shows "\<exists>os1 s1 q1 x calls ps1.
    Write sys os s e remote data = ret (os1, s1, e\<lparr>be_sendBuffer := q1, be_evwr := x\<rparr>, calls, 0) \<and> x \<noteq> None \<and>
    bb_rep s1 q1 ps1 \<and> evolves s ps s1 ps1 \<and>
    (calls = [] \<and> wire os1 @ content ps1 = wire os @ content ps @ data \<and> (content ps1 \<noteq> [] \<longrightarrow> x = Some True) \<or>
     calls = [Evcb (be_fd e) IOEV_EVENT_EOF] \<and> send_fails sys (be_fd e))"
proof -
  let ?fd = "be_fd e" and ?q = "be_sendBuffer e"
  obtain os1 s1 q1 ps1 ok where F: "flush_loop sys os ?fd s ?q = ret (os1, s1, q1, ok)" "bb_rep s1 q1 ps1"
    "wire os1 @ content ps1 = wire os @ content ps" "evolves s ps s1 ps1"
    "ok \<longrightarrow> content ps1 = []" "\<not> ok \<longrightarrow> send_fails sys ?fd"
    using flush_loop_ok [OF sys rep(1)] by blast
  show ?thesis
  proof (cases ok)
    case False
    have "Write sys os s e remote data = ret (os1, s1, e\<lparr>be_sendBuffer := q1, be_evwr := be_evwr e\<rparr>, [Evcb ?fd IOEV_EVENT_EOF], 0)"
      using False F(1) e d by (simp add: Write_def sendTcpData_def FlushSendBuffer_def)
    then show ?thesis using F(2,4,6) False e(2) by blast
  next
    case True
    then have T: "GetTotalLen s1 q1 = ret 0" and w1: "wire os1 = wire os @ content ps" "content ps1 = []"
      using GetTotalLen_rep [OF F(2)] F(3,5) by simp_all
    define e2 where "e2 = e\<lparr>be_sendBuffer := q1, be_evwr := Some False\<rparr>"
    have W: "(case be_evwr (e\<lparr>be_sendBuffer := q1\<rparr>) of None \<Rightarrow> fail Null_pointer
        | Some active \<Rightarrow> if active then set_evwr (e\<lparr>be_sendBuffer := q1\<rparr>) False
            else ret (e\<lparr>be_sendBuffer := q1\<rparr>)) = ret e2"
      using e(2) by (auto simp: e2_def set_evwr_def)
    obtain os2 r where L: "send_loop sys os1 ?fd data 0 = Some (os2, r)"
      "case r of None \<Rightarrow> send_fails sys ?fd
       | Some j \<Rightarrow> 0 \<le> j \<and> j \<le> int (length data) \<and> wire os2 @ drop (nat j) data = wire os1 @ data"
      using send_loop_start [OF sys, of os1 data] by blast
    note S = Write_def sendTcpData_def FlushSendBuffer_def e2_def
    show ?thesis
    proof (cases r)
      case None
      then have "Write sys os s e remote data = ret (os2, s1, e2, [Evcb ?fd IOEV_EVENT_EOF], 0)"
        using e d True F(1) T W L(1) by (auto simp: S)
      then show ?thesis using None L(2) F(2,4) unfolding e2_def by auto
    next
      case (Some j)
      show ?thesis
      proof (cases "j < int (length data)")
        case False
        have "wire os2 @ content ps1 = wire os @ content ps @ data" using L(2) Some w1 False by simp
        moreover have "Write sys os s e remote data = ret (os2, s1, e2, [], 0)"
          using e d True F(1) T W L(1) Some False by (auto simp: S)
        ultimately show ?thesis using F(2,4) w1(2) unfolding e2_def by fastforce
      next
        case True
        let ?rest = "drop (nat j) data"
        have "int (length ?rest) \<le> 2 ^ 30" "bb_totallen q1 + int (length ?rest) < 2 ^ 31"
          using d(2) F(2) w1(2) by (auto simp: bb_rep_def)
        then obtain s2 q2 ps2 where I: "Insert s1 q1 ?rest = ret (s2, q2)" "bb_rep s2 q2 ps2"
          "content ps2 = content ps1 @ ?rest" "evolves s1 ps1 s2 ps2"
          using Insert_rep [OF F(2)] by blast
        have "Write sys os s e remote data = ret (os2, s2, e\<lparr>be_sendBuffer := q2, be_evwr := Some True\<rparr>, [], 0)"
          using e d \<open>ok\<close> F(1) T W L(1) Some True I(1) by (auto simp: S set_evwr_def)
        moreover have "wire os2 @ content ps2 = wire os @ content ps @ data"
          using L(2) Some I(3) w1 by simp
        ultimately show ?thesis using I(2) evolves_trans [OF F(4) I(4)] by blast
      qed
    qed
  qed
qed

text \<open>C9. Writing \<open>data\<close> to a stream socket whose write watcher exists: when the call returns,
  either everything is as if one byte stream had been extended, the bytes the system has taken
  followed by the bytes still buffered being those from before followed by \<open>data\<close>, and the
  watcher is started if any are buffered; or a send has failed for good and the closing of the
  connection is signalled.  The call returns, as the system stays busy only boundedly often;
  no other buffer on the pool is touched.\<close>

theorem Write_keeps_stream:
  assumes sys: "send_ok sys (be_fd e) wire" "send_patient sys (be_fd e) busy"
    and rep: "bb_rep s (be_sendBuffer e) ps" "bb_rep s q' ps'" "addrs ps' \<inter> addrs ps = {}"
    and e: "be_protocol e = IOEV_TCP_PROTOCOL" "be_evwr e \<noteq> None" "be_evcb e"
    and d: "data \<noteq> []" "length data \<le> 2 ^ 30"
  shows "\<exists>os1 s1 e1 calls ps1. Write sys os s e remote data = ret (os1, s1, e1, calls, 0) \<and>
    bb_rep s1 (be_sendBuffer e1) ps1 \<and> bb_rep s1 q' ps' \<and> addrs ps' \<inter> addrs ps1 = {} \<and>
    (calls = [] \<and> wire os1 @ content ps1 = wire os @ content ps @ data \<and>
       (content ps1 \<noteq> [] \<longrightarrow> be_evwr e1 = Some True) \<or>
     calls = [Evcb (be_fd e) IOEV_EVENT_EOF] \<and> send_fails sys (be_fd e))"
proof -
  obtain os1 s1 q1 x calls ps1 where W:
    "Write sys os s e remote data = ret (os1, s1, e\<lparr>be_sendBuffer := q1, be_evwr := x\<rparr>, calls, 0)"
    "bb_rep s1 q1 ps1" "evolves s ps s1 ps1"
    "calls = [] \<and> wire os1 @ content ps1 = wire os @ content ps @ data \<and> (content ps1 \<noteq> [] \<longrightarrow> x = Some True) \<or>
     calls = [Evcb (be_fd e) IOEV_EVENT_EOF] \<and> send_fails sys (be_fd e)"
    using Write_stream [OF sys rep(1) e d, of os remote] by (elim exE conjE) rule
  have "store_ok s1" using W(2) by (simp add: bb_rep_def links_def)
  note fr = bb_rep_frame [OF rep(2) W(3) this rep(3)]
  have "bb_rep s1 (be_sendBuffer (e\<lparr>be_sendBuffer := q1, be_evwr := x\<rparr>)) ps1"
    "be_evwr (e\<lparr>be_sendBuffer := q1, be_evwr := x\<rparr>) = x" using W(2) by simp_all
  with W(1,4) fr show ?thesis by metis
qed

text \<open>A system for the witnesses: \<open>send\<close> follows a script of results, then takes everything.\<close>

fun script_send :: "(int \<times> int) list \<times> byte list \<Rightarrow> int \<Rightarrow> byte list \<Rightarrow>
    ((int \<times> int) list \<times> byte list) \<times> int \<times> int" where
  "script_send ([], w) fd xs = (([], w @ xs), int (length xs), 0)"
| "script_send ((n, errno) # rs, w) fd xs =
     ((rs, w @ take (nat n) xs), min n (int (length xs)), errno)"

definition script_sys :: "((int \<times> int) list \<times> byte list) sys" where
  "script_sys =
     \<lparr>sys_ioctl = (\<lambda>os fd. (os, Some 4)),
      sys_recv = (\<lambda>os fd n. (os, Inr [1, 2, 3, 4])),
      sys_recvfrom = (\<lambda>os fd n. (os, if snd os = [] then Inr [1, 2, 3, 4] else Inl EAGAIN, 2130706433, 8812)),
      sys_send = script_send,
      sys_sendto = (\<lambda>os fd xs a p. ((fst os, snd os @ xs), int (length xs))),
      sys_close = (\<lambda>os fd. os)\<rparr>"

lemma script_send_ok: "send_ok script_sys fd snd"
  unfolding send_ok_def
proof (intro allI impI)
  fix os os1 :: "(int \<times> int) list \<times> byte list" and xs len errno
  assume "sys_send script_sys os fd xs = (os1, len, errno)"
  then show "len \<le> int (length xs) \<and> snd os1 = snd os @ take (nat len) xs"
    by (cases "(os, fd, xs)" rule: script_send.cases) (auto simp: script_sys_def min_def)
qed

lemma script_send_patient: "send_patient script_sys fd (\<lambda>os. length (fst os))"
  unfolding send_patient_def
proof (intro allI impI)
  fix os os1 :: "(int \<times> int) list \<times> byte list" and xs len errno
  assume "sys_send script_sys os fd xs = (os1, len, errno)" "xs \<noteq> []"
    "len = 0 \<or> len < 0 \<and> errno \<in> {EINTR, EAGAIN}"
  then show "length (fst os1) < length (fst os)"
    by (cases "(os, fd, xs)" rule: script_send.cases) (auto simp: script_sys_def)
qed

definition event2 :: "int \<Rightarrow> buffer_event" where
  "event2 proto = (SetCb (new_BufferEventEv proto 5) True True True)\<lparr>be_evwr := Some False, be_sendBuffer := buffer2\<rparr>"

lemma Write_keeps_stream_witness:
  "\<exists>os1 s1 e1 calls ps1. Write script_sys ([(2, 0), (-1, EINTR), (-1, EAGAIN), (3, 0), (1, 0), (-1, EAGAIN)], [])
      (store_of chain2) (event2 IOEV_TCP_PROTOCOL) 0 [8, 9] = ret (os1, s1, e1, calls, 0) \<and>
    bb_rep s1 (be_sendBuffer e1) ps1 \<and> bb_rep s1 new_BlockBuffer [] \<and> addrs [] \<inter> addrs ps1 = {} \<and>
    (calls = [] \<and> snd os1 @ content ps1 = content chain2 @ [8, 9] \<and>
       (content ps1 \<noteq> [] \<longrightarrow> be_evwr e1 = Some True) \<or>
     calls = [Evcb 5 IOEV_EVENT_EOF] \<and> send_fails script_sys 5)"
proof -
  let ?e = "event2 IOEV_TCP_PROTOCOL"
  have e: "be_fd ?e = 5" "be_sendBuffer ?e = buffer2" "be_protocol ?e = IOEV_TCP_PROTOCOL"
    "be_evwr ?e \<noteq> None" "be_evcb ?e"
    by (simp_all add: event2_def new_BufferEventEv_def SetCb_def)
  have "bb_rep (store_of chain2) new_BlockBuffer []"
    using bb_rep_chain2 by (simp only: bb_rep_new_beside) (simp add: bb_rep_def links_def)
  then show ?thesis
    using Write_keeps_stream [of script_sys ?e snd "\<lambda>os. length (fst os)" "store_of chain2" chain2
        new_BlockBuffer "[]" "[8, 9]" "([(2, 0), (-1, EINTR), (-1, EAGAIN), (3, 0), (1, 0), (-1, EAGAIN)], [])" 0]
      script_send_ok script_send_patient bb_rep_chain2 e by simp
qed

text \<open>A stream socket whose write watcher was never made (no \<open>Enable\<close>) cannot be written to:
  \<open>sendTcpData\<close> asks a null watcher whether it is active.\<close>

theorem Write_not_enabled:
  assumes "bb_rep s (be_sendBuffer e) ps" "content ps = []" "be_protocol e = IOEV_TCP_PROTOCOL"
    "be_evwr e = None" "data \<noteq> []"
  shows "Write sys os s e remote data = fail Null_pointer"
proof -
  have T: "GetTotalLen s (be_sendBuffer e) = ret 0" using GetTotalLen_rep [OF assms(1)] assms(2) by simp
  then have "flush_loop sys os (be_fd e) s (be_sendBuffer e) = ret (os, s, be_sendBuffer e, True)"
    by (subst flush_loop.simps) simp
  then show ?thesis using T assms by (simp add: Write_def sendTcpData_def FlushSendBuffer_def)
qed

lemma Write_not_enabled_witness:
  "Write script_sys ([], []) (empty_store (\<lambda>_ _. 0)) (new_BufferEventEv IOEV_TCP_PROTOCOL 5) 0 [1] = fail Null_pointer"
  by (intro Write_not_enabled [where ps = "[]"]) (simp_all add: new_BufferEventEv_def bb_rep_new store_ok_empty)

text \<open>C32. While bytes are buffered and the socket keeps refusing (\<open>EAGAIN\<close>), \<open>FlushSendBuffer\<close>
  does not return: only the inner loop is left, and the outer one starts over.\<close>

theorem Flush_never_returns:
  assumes "bb_rep s (be_sendBuffer e) ps" "content ps \<noteq> []"
    "\<forall>os xs. \<exists>os1. sys_send sys os (be_fd e) xs = (os1, -1, EAGAIN)"
  shows "FlushSendBuffer sys os s e = None"
  using flush_loop_stuck [OF assms] by (simp add: FlushSendBuffer_def)

lemma Flush_never_returns_witness:
  "FlushSendBuffer (script_sys\<lparr>sys_send := (\<lambda>os fd xs. (os, -1, EAGAIN))\<rparr>) ([], []) (store_of chain2)
     (event2 IOEV_TCP_PROTOCOL) = None"
  by (rule Flush_never_returns [of _ _ chain2])
    (use bb_rep_chain2 length_live_block [of 510 512 "Some 1"] in
      \<open>auto simp: event2_def new_BufferEventEv_def SetCb_def chain2_def\<close>)

section \<open>Receiving\<close>

lemma recvTcpData_commits:
  assumes rep: "bb_rep s (be_recvBuffer e) ps"
    and sys: "sys_ioctl sys os (be_fd e) = (os1, Some n)" "sys_recv sys os1 (be_fd e) n = (os2, Inr xs)"
    and n: "0 \<le> n" "n \<le> 2 ^ 29" "int (length xs) \<le> n"
    and room: "length ps \<le> 2 \<or> \<not> needs_replace (snd (last ps)) n" "length (content ps) + length xs \<le> 2 ^ 30"
    and cb: "be_rdcb e" "be_evcb e"
  shows "\<exists>s1 q1 ps1. recvTcpData sys os s e =
      ret (os2, s1, e\<lparr>be_recvBuffer := q1\<rparr>, if xs = [] then [Evcb (be_fd e) IOEV_EVENT_EOF] else [Rdcb (be_fd e) 0],
           if xs = [] then -1 else 0) \<and>
    bb_rep s1 q1 ps1 \<and> content ps1 = content ps @ xs \<and> evolves s ps s1 ps1 \<and>
    lives ps1 =
       (if ps \<noteq> [] \<and> (n \<le> bk_len (snd (last ps)) - bk_wrpos (snd (last ps)) \<or> used (snd (last ps)) < COPY_BLOCK_SIZE)
        then butlast (lives ps) @ [last (lives ps) @ xs] else lives ps @ [xs])"
proof -
  let ?q = "be_recvBuffer e"
  obtain s1 q1 ptr ps1 where G: "GetBufferToWrite s ?q n = ret (s1, q1, ptr)" "bb_rep s1 q1 ps1"
    "content ps1 = content ps" "writable q1 ps1 ptr n" "evolves s ps s1 ps1"
    "lives ps1 = (if ps \<noteq> [] \<and> (n \<le> bk_len (snd (last ps)) - bk_wrpos (snd (last ps)) \<or>
       used (snd (last ps)) < COPY_BLOCK_SIZE) then lives ps else lives ps @ [[]])"
    using GetBufferToWrite_rep [OF rep n(1,2) room(1)] by blast
  have "bb_totallen q1 + int (length xs) < 2 ^ 31" using G(2,3) room(2) by (simp add: bb_rep_def)
  then obtain s2 s3 q3 ps3 where C: "store_bytes s1 ptr xs = ret s2"
    "FinishBufferWrite s2 q1 (int (length xs)) = ret (s3, q3)" "bb_rep s3 q3 ps3" "content ps3 = content ps1 @ xs"
    "lives ps3 = butlast (lives ps1) @ [last (lives ps1) @ xs]" "evolves s1 ps1 s3 ps3"
    using commit_rep [OF G(2,4) n(3)] by blast
  have "recv_tcp_loop sys os (be_fd e) s ?q =
      (if xs = [] then ret (os2, s1, q1, False) else ret (os2, s3, q3, True))"
    using sys G(1) C(1,2) by (subst recv_tcp_loop.simps) simp
  then have "recvTcpData sys os s e = (if xs = [] then ret (os2, s1, e\<lparr>be_recvBuffer := q1\<rparr>, [Evcb (be_fd e) IOEV_EVENT_EOF], -1)
      else ret (os2, s3, e\<lparr>be_recvBuffer := q3\<rparr>, [Rdcb (be_fd e) 0], 0))"
    using cb by (simp add: recvTcpData_def)
  then show ?thesis
  proof (cases "xs = []")
    case True
    then have "ps \<noteq> [] \<Longrightarrow> butlast (lives ps) @ [last (lives ps) @ xs] = lives ps" by (cases ps rule: rev_cases) simp_all
    then show ?thesis using True G(2,3,5,6) \<open>recvTcpData sys os s e = _\<close>
      by (intro exI [of _ s1] exI [of _ q1] exI [of _ ps1]) simp
  next
    case False
    then show ?thesis using G(3,6) C(3-5) evolves_trans [OF G(5) C(6)] \<open>recvTcpData sys os s e = _\<close> by (intro exI [of _ s3] exI [of _ q3] exI [of _ ps3]) simp
  qed
qed

text \<open>One call of the read callback on a stream socket: the bytes \<open>recv\<close> delivers are appended
  to the receive buffer and the read callback is made; an orderly close or a failed \<open>ioctl\<close> is
  signalled as the end of the connection.\<close>

theorem recvTcpData_appends:
  assumes rep: "bb_rep s (be_recvBuffer e) ps"
    and sys: "sys_ioctl sys os (be_fd e) = (os1, Some n)" "sys_recv sys os1 (be_fd e) n = (os2, Inr xs)"
    and n: "0 \<le> n" "n \<le> 2 ^ 29" "int (length xs) \<le> n"
    and room: "length ps \<le> 2 \<or> \<not> needs_replace (snd (last ps)) n" "length (content ps) + length xs \<le> 2 ^ 30"
    and cb: "be_rdcb e" "be_evcb e"
  shows "\<exists>s1 e1 ps1. recvTcpData sys os s e =
      ret (os2, s1, e1, if xs = [] then [Evcb (be_fd e) IOEV_EVENT_EOF] else [Rdcb (be_fd e) 0],
           if xs = [] then -1 else 0) \<and>
    bb_rep s1 (be_recvBuffer e1) ps1 \<and> content ps1 = content ps @ xs"
  using recvTcpData_commits [OF assms] by (elim exE conjE) (intro exI conjI, assumption, simp_all)

lemma recvTcpData_appends_witness:
  "\<exists>s1 e1 ps1. recvTcpData script_sys ([], []) (empty_store (\<lambda>_ _. 0))
      (SetCb (new_BufferEventEv IOEV_TCP_PROTOCOL 5) True True True) = ret (([], []), s1, e1, [Rdcb 5 0], 0) \<and>
    bb_rep s1 (be_recvBuffer e1) ps1 \<and> content ps1 = [1, 2, 3, 4]"
  using recvTcpData_appends [of "empty_store (\<lambda>_ _. 0)"
      "SetCb (new_BufferEventEv IOEV_TCP_PROTOCOL 5) True True True" "[]" script_sys
      "([], [])" "([], [])" 4 "([], [])" "[1, 2, 3, 4]"] bb_rep_new [OF store_ok_empty]
  by (simp add: SetCb_def new_BufferEventEv_def script_sys_def)

section \<open>Datagrams\<close>

lemma pack_addr_fields:
  assumes "0 \<le> a" "a < 2 ^ 32" "0 \<le> p" "p < 2 ^ 16"
  shows "drop_bit 32 (pack_addr a p) = a" "take_bit 16 (pack_addr a p AND (2 ^ 32 - 1)) = p"
proof -
  have p32: "p < 2 ^ 32" using assms(4) by simp
  have "push_bit 32 a OR p = push_bit 32 a + p"
  proof (rule disjunctive_add [symmetric])
    fix n
    show "\<not> bit (push_bit 32 a) n \<or> \<not> bit p n"
    proof (cases "n < 32")
      case False
      have "take_bit 32 p = p" using assms(3) p32 by (simp add: take_bit_int_eq_self)
      then have "\<not> bit p n" using False bit_take_bit_iff [of 32 p n] by auto
      then show ?thesis by simp
    qed (simp add: bit_push_bit_iff)
  qed
  moreover have "a * 2 ^ 32 + p < 2 ^ 64" using assms p32 by simp
  ultimately have e: "pack_addr a p = a * 2 ^ 32 + p"
    using assms by (simp add: pack_addr_def push_bit_eq_mult to_u64_id)
  show "drop_bit 32 (pack_addr a p) = a"
    unfolding e drop_bit_eq_div using assms(3) p32 by simp
  have "pack_addr a p AND (2 ^ 32 - 1) = p"
  proof -
    have "x AND (2 ^ 32 - 1) = take_bit 32 x" for x :: int
      by (simp add: take_bit_eq_mask mask_eq_exp_minus_1)
    then show ?thesis unfolding e using assms(3) p32 by (simp add: take_bit_eq_mod)
  qed
  then show "take_bit 16 (pack_addr a p AND (2 ^ 32 - 1)) = p"
    using assms(3,4) by (simp add: take_bit_int_eq_self)
qed

text \<open>A buffer that has been read empty consists of one block at most.\<close>

lemma content_Nil_short:
  assumes "bb_rep s q ps" "content ps = []"
  shows "length ps \<le> 1"
proof (cases ps)
  case (Cons p rest)
  then have sh: "shape (snd p # map snd rest)" using assms(1) by (simp add: bb_rep_def)
  have "rest = []"
  proof (rule ccontr)
    assume "rest \<noteq> []"
    then have i: "inner_ok (snd p)" using sh by (simp add: shape_Cons)
    then have "0 < int (length (live (snd p)))"
      using length_live inner_okD used_inner_pos by metis
    then show False using assms(2) Cons by simp
  qed
  then show ?thesis using Cons by simp
qed simp

lemma recvUdpData_gets:
  assumes rep: "bb_rep s (be_recvBuffer e) ps"
    and sys: "sys_ioctl sys os (be_fd e) = (os1, Some n)" "sys_recvfrom sys os1 (be_fd e) n = (os2, Inr xs, a, p)"
    and n: "0 \<le> n" "n \<le> 2 ^ 29" "int (length xs) \<le> n"
    and room: "length ps \<le> 2 \<or> \<not> needs_replace (snd (last ps)) n" "length (content ps) + length xs \<le> 2 ^ 30"
    and e: "be_rdcb e" "be_protocol e = IOEV_UDP_PROTOCOL"
  shows "\<exists>s1 q1 ps1. RecvData sys os s e = ret (os2, s1, e\<lparr>be_recvBuffer := q1\<rparr>, [Rdcb (be_fd e) (pack_addr a p)], 0) \<and>
    bb_rep s1 q1 ps1 \<and> content ps1 = content ps @ xs \<and> (content ps = [] \<longrightarrow> length ps1 \<le> 1)"
proof -
  let ?q = "be_recvBuffer e"
  obtain s1 q1 ptr ps1 where G: "GetBufferToWrite s ?q n = ret (s1, q1, ptr)" "bb_rep s1 q1 ps1"
    "content ps1 = content ps" "writable q1 ps1 ptr n"
    using GetBufferToWrite_rep [OF rep n(1,2) room(1)] by blast
  have "bb_totallen q1 + int (length xs) < 2 ^ 31" using G(2,3) room(2) by (simp add: bb_rep_def)
  then obtain s2 s3 q3 ps3 where C: "store_bytes s1 ptr xs = ret s2"
    "FinishBufferWrite s2 q1 (int (length xs)) = ret (s3, q3)" "bb_rep s3 q3 ps3" "content ps3 = content ps1 @ xs"
    "length ps3 = length ps1"
    using commit_rep [OF G(2,4) n(3)] by blast
  have "recv_udp_loop sys os (be_fd e) s ?q = ret (os2, s3, q3, Some (pack_addr a p))"
    using sys G(1) C(1,2) by (subst recv_udp_loop.simps) simp
  then have "RecvData sys os s e = ret (os2, s3, e\<lparr>be_recvBuffer := q3\<rparr>, [Rdcb (be_fd e) (pack_addr a p)], 0)"
    using e by (simp add: RecvData_def recvUdpData_def IOEV_UDP_PROTOCOL_def IOEV_TCP_PROTOCOL_def)
  moreover have "length ps3 \<le> 1" if "content ps = []" using content_Nil_short [OF G(2)] G(3) C(5) that by simp
  ultimately show ?thesis using C(3,4) G(3) by auto
qed

lemma Write_datagram:
  assumes "sys_sendto sys os (be_fd e) answer a p = (os1, int (length answer))"
    and "be_wrcb e" "be_protocol e = IOEV_UDP_PROTOCOL" "0 \<le> a" "a < 2 ^ 32" "0 \<le> p" "p < 2 ^ 16"
    and "answer \<noteq> []" "length answer < 2 ^ 63"
  shows "Write sys os s e (pack_addr a p) answer = ret (os1, s, e, [Wrcb (be_fd e)], 0)"
proof -
  have u: "to_u64 (int (length answer)) = int (length answer)" using assms(9) by (intro to_u64_id) auto
  have "sendto_loop sys os (be_fd e) answer a p 0 = Some os1"
    using assms(1,8) u by (simp add: sendto_loop.simps [of _ _ _ _ _ _ 0] sendto_loop.simps [of _ os1])
  then show ?thesis
    using assms(2,3,8) pack_addr_fields [OF assms(4-7)]
    by (simp add: Write_def sendUdpData_def IOEV_UDP_PROTOCOL_def IOEV_TCP_PROTOCOL_def Let_def)
qed

text \<open>C22. A datagram is answered to the address it came from: the read callback gets the sender's
  address and port packed in one number, and writing with that number sends the whole answer
  as one datagram to that address and port.\<close>

theorem datagram_answered:
  assumes rep: "bb_rep s (be_recvBuffer e) ps"
    and sys: "sys_ioctl sys os (be_fd e) = (os1, Some n)"
      "sys_recvfrom sys os1 (be_fd e) n = (os2, Inr xs, a, p)"
      "sys_sendto sys os2 (be_fd e) answer a p = (os3, int (length answer))"
    and n: "0 \<le> n" "n \<le> 2 ^ 29" "int (length xs) \<le> n"
    and room: "length ps \<le> 2 \<or> \<not> needs_replace (snd (last ps)) n" "length (content ps) + length xs \<le> 2 ^ 30"
    and e: "be_rdcb e" "be_wrcb e" "be_protocol e = IOEV_UDP_PROTOCOL"
    and addr: "0 \<le> a" "a < 2 ^ 32" "0 \<le> p" "p < 2 ^ 16"
    and answer: "answer \<noteq> []" "length answer < 2 ^ 63"
  shows "\<exists>s1 e1 ps1 remote. RecvData sys os s e = ret (os2, s1, e1, [Rdcb (be_fd e) remote], 0) \<and>
    bb_rep s1 (be_recvBuffer e1) ps1 \<and> content ps1 = content ps @ xs \<and>
    Write sys os2 s1 e1 remote answer = ret (os3, s1, e1, [Wrcb (be_fd e)], 0)"
proof -
  obtain s1 q1 ps1 where R: "RecvData sys os s e = ret (os2, s1, e\<lparr>be_recvBuffer := q1\<rparr>, [Rdcb (be_fd e) (pack_addr a p)], 0)"
    "bb_rep s1 q1 ps1" "content ps1 = content ps @ xs"
    using recvUdpData_gets [OF rep sys(1,2) n room e(1,3)] by blast
  have "Write sys os2 s1 (e\<lparr>be_recvBuffer := q1\<rparr>) (pack_addr a p) answer
      = ret (os3, s1, e\<lparr>be_recvBuffer := q1\<rparr>, [Wrcb (be_fd e)], 0)"
    using Write_datagram [of sys os2 "e\<lparr>be_recvBuffer := q1\<rparr>" answer a p os3 s1] sys(3) e(2,3) addr answer by simp
  with R show ?thesis by (intro exI [of _ s1] exI [of _ "e\<lparr>be_recvBuffer := q1\<rparr>"] exI [of _ ps1]) auto
qed

lemma datagram_answered_witness:
  "\<exists>s1 e1 ps1 remote. RecvData script_sys ([], []) (empty_store (\<lambda>_ _. 0))
      (SetCb (new_BufferEventEv IOEV_UDP_PROTOCOL 5) True True True) = ret (([], []), s1, e1, [Rdcb 5 remote], 0) \<and>
    bb_rep s1 (be_recvBuffer e1) ps1 \<and> content ps1 = [1, 2, 3, 4] \<and>
    Write script_sys ([], []) s1 e1 remote [9] = ret (([], [9]), s1, e1, [Wrcb 5], 0)"
  using datagram_answered [of "empty_store (\<lambda>_ _. 0)"
      "SetCb (new_BufferEventEv IOEV_UDP_PROTOCOL 5) True True True" "[]" script_sys
      "([], [])" "([], [])" 4 "([], [])" "[1, 2, 3, 4]" 2130706433 8812 "[9]" "([], [9])"]
    bb_rep_new [OF store_ok_empty]
  by (simp add: SetCb_def new_BufferEventEv_def script_sys_def)

text \<open>When \<open>recvfrom\<close> fails with anything but \<open>EINTR\<close> on an empty buffer, -1 is committed as
  the number of bytes received: the read callback is made all the same, and the buffer then
  claims to hold 2^64 - 1 bytes.\<close>

theorem failed_recvfrom_committed:
  assumes rep: "bb_rep s (be_recvBuffer e) []"
    and sys: "sys_ioctl sys os (be_fd e) = (os1, Some n)"
      "sys_recvfrom sys os1 (be_fd e) n = (os2, Inl errno, a, p)" "errno \<noteq> EINTR"
    and n: "0 \<le> n" "n \<le> 2 ^ 29" and e: "be_rdcb e"
  shows "\<exists>s1 e1. recvUdpData sys os s e = ret (os2, s1, e1, [Rdcb (be_fd e) (pack_addr a p)], 0) \<and>
    GetReadBuffLen s1 e1 = ret (2 ^ 64 - 1)"
proof -
  let ?q = "be_recvBuffer e"
  have l: "links s ?q []" "bb_totallen ?q = 0" "bb_head ?q = None" "bb_tail ?q = None"
    using rep by (auto simp: bb_rep_def links_def)
  have u: "to_u64 n = n" "n \<le> 2 ^ 30" using n by (auto intro!: to_u64_id)
  obtain s1 c blk where A: "Alloc s n = ret (s1, c)" "st_mem s1 c = Some blk" "idle blk" "sized blk"
    using links_Alloc [OF l(1) u(2)] by metis
  have b: "bk_rdpos blk = 0" "bk_wrpos blk = 0" "bk_next blk = None" "0 < bk_len blk"
    using A(3,4) by (auto simp: idle_def sized_def)
  let ?q1 = "?q\<lparr>bb_head := Some c, bb_tail := Some c\<rparr>"
  let ?s3 = "put s1 c (blk\<lparr>bk_wrpos := -1\<rparr>)" and ?q3 = "?q1\<lparr>bb_totallen := -1\<rparr>"
  have G: "GetBufferToWrite s ?q n = ret (s1, ?q1, (c, 0))"
    using l u A(1,2) b by (simp add: GetBufferToWrite_def expand_def load_def)
  have F: "FinishBufferWrite s1 ?q1 (-1) = ret (?s3, ?q3)"
    using A(2) b l(2) by (simp add: FinishBufferWrite_def load_def modify_def)
  have "recv_udp_loop sys os (be_fd e) s ?q = ret (os2, ?s3, ?q3, Some (pack_addr a p))"
    using sys G F by (subst recv_udp_loop.simps) simp
  then have R: "recvUdpData sys os s e
      = ret (os2, ?s3, e\<lparr>be_recvBuffer := ?q3\<rparr>, [Rdcb (be_fd e) (pack_addr a p)], 0)"
    using e by (simp add: recvUdpData_def)
  have "total_loop ?s3 (Some c) 0 = ret (-1)"
    using b by (subst total_loop.simps)
      (simp add: load_def put_def to_u64_def to_i32_def Let_def)
  then have "GetReadBuffLen ?s3 (e\<lparr>be_recvBuffer := ?q3\<rparr>) = ret (2 ^ 64 - 1)"
    by (simp add: GetReadBuffLen_def GetTotalLen_def to_u64_def)
  with R show ?thesis by blast
qed

lemma failed_recvfrom_committed_witness:
  "\<exists>s1 e1. recvUdpData script_sys ([], [1]) (empty_store (\<lambda>_ _. 0))
      (SetCb (new_BufferEventEv IOEV_UDP_PROTOCOL 5) True True True)
      = ret (([], [1]), s1, e1, [Rdcb 5 (pack_addr 2130706433 8812)], 0) \<and>
    GetReadBuffLen s1 e1 = ret (2 ^ 64 - 1)"
  using failed_recvfrom_committed [of "empty_store (\<lambda>_ _. 0)"
      "SetCb (new_BufferEventEv IOEV_UDP_PROTOCOL 5) True True True" script_sys
      "([], [1])" "([], [1])" 4 "([], [1])" EAGAIN 2130706433 8812]
    bb_rep_new [OF store_ok_empty]
  by (simp add: SetCb_def new_BufferEventEv_def script_sys_def EAGAIN_def EINTR_def)

end
