(* ===== verification/Net_Message.thy ===== *)
theory Net_Message
  imports Buffer_Event Loop_Queue
begin

text \<open>
  \<open>NetMessage\<close> (framework/NetMessage.h, NetMessage.cc): the table of connections, the cutting of
  the received bytes into messages, and sending.

  The state holds, besides \<open>NetMessage\<close>'s own fields, what its operations reach through
  pointers: the buffer events on their heap, the store of their blocks, the queue to the
  workers, and the rest of the server as a value of type \<open>'app\<close>.  The methods of \<open>Server\<close>
  that \<open>NetMessage\<close> calls are a record of functions on that state (theory \<open>Server\<close> provides
  them).  The callbacks an event has made are dealt with right after the call that made them.
\<close>

section \<open>State\<close>

definition CONN_TYPE_CLI :: int where "CONN_TYPE_CLI = 1"
definition CONN_TYPE_SVR :: int where "CONN_TYPE_SVR = 2"

record conn_info =
  ci_fd :: int
  ci_ctype :: int
  ci_protocol :: int
  ci_bev :: "nat option"

record ('os, 'app) net =
  net_os :: 'os
  net_store :: block_store
  net_bevs :: "nat \<rightharpoonup> buffer_event"
  net_brk :: nat
  net_conns :: "int \<Rightarrow> conn_info"
  net_maxfds :: int
  net_maxMsglen :: int
  net_single :: bool
  net_recvBuffer :: "byte list"
  net_recvQue :: loop_queue
  net_app :: 'app

record 'n server_calls =
  svr_OnRecvMsg :: "'n \<Rightarrow> int \<Rightarrow> int \<Rightarrow> byte list \<Rightarrow> bool \<Rightarrow> 'n run"
  svr_OnCliConnected :: "'n \<Rightarrow> int \<Rightarrow> 'n run"
  svr_OnCliClosed :: "'n \<Rightarrow> int \<Rightarrow> 'n run"
  svr_OnSvrClosed :: "'n \<Rightarrow> int \<Rightarrow> 'n run"

text \<open>The constructor, given the two configuration values and whether the server has no workers.\<close>

definition new_NetMessage ::
  "'os \<Rightarrow> block_store \<Rightarrow> int \<Rightarrow> int \<Rightarrow> bool \<Rightarrow> byte list \<Rightarrow> loop_queue \<Rightarrow> 'app \<Rightarrow> ('os, 'app) net" where
  "new_NetMessage os s max_msglen max_fd single buf recvq app =
     \<lparr>net_os = os, net_store = s, net_bevs = Map.empty, net_brk = 0,
      net_conns = (\<lambda>_. \<lparr>ci_fd = -1, ci_ctype = 0, ci_protocol = 0, ci_bev = None\<rparr>),
      net_maxfds = max_fd, net_maxMsglen = to_u32 max_msglen, net_single = single,
      net_recvBuffer = (if single then buf else []), net_recvQue = recvq, net_app = app\<rparr>"

definition get_bev :: "('os, 'app) net \<Rightarrow> nat option \<Rightarrow> buffer_event run" where
  "get_bev n p =
     (case p of
        None \<Rightarrow> fail Null_pointer
      | Some h \<Rightarrow> (case net_bevs n h of None \<Rightarrow> fail Dangling_pointer | Some e \<Rightarrow> ret e))"

definition set_bev :: "('os, 'app) net \<Rightarrow> nat option \<Rightarrow> buffer_event \<Rightarrow> ('os, 'app) net" where
  "set_bev n p e = n\<lparr>net_bevs := (net_bevs n)(the p \<mapsto> e)\<rparr>"

definition NewBufferEvent :: "('os, 'app) net \<Rightarrow> int \<Rightarrow> int \<Rightarrow> ('os, 'app) net \<times> nat" where
  "NewBufferEvent n protocol fd =
     (n\<lparr>net_bevs := (net_bevs n)(net_brk n \<mapsto> new_BufferEventEv protocol fd), net_brk := Suc (net_brk n)\<rparr>,
      net_brk n)"

definition delete_bev :: "'os sys \<Rightarrow> ('os, 'app) net \<Rightarrow> nat \<Rightarrow> ('os, 'app) net run" where
  "delete_bev sys n h =
     rbind (get_bev n (Some h)) (\<lambda>e.
       rbind (delete_BufferEventEv sys (net_os n) (net_store n) e) (\<lambda>(os1, s1).
         ret (n\<lparr>net_os := os1, net_store := s1, net_bevs := (net_bevs n)(h := None)\<rparr>)))"

section \<open>The table of connections\<close>

text \<open>A \<open>conn_info*\<close> is the index of the entry.\<close>

definition GetConn :: "('os, 'app) net \<Rightarrow> int \<Rightarrow> int option" where
  "GetConn n fd =
     (if fd \<ge> net_maxfds n \<or> fd < 0 then None
      else if ci_fd (net_conns n fd) \<noteq> fd then None
      else Some fd)"

definition OpenConn ::
  "('os, 'app) net server_calls \<Rightarrow> ('os, 'app) net \<Rightarrow> int \<Rightarrow> nat option \<Rightarrow> int \<Rightarrow> int \<Rightarrow> (('os, 'app) net \<times> int) run"
where
  "OpenConn srv n fd bev protocol listenfd =
     (if fd \<ge> net_maxfds n \<or> fd < 0 then ret (n, -1)
      else if ci_fd (net_conns n fd) > 0 then ret (n, -1)
      else rbind
        (if listenfd > 0
         then rbind (if protocol = IOEV_TCP_PROTOCOL then svr_OnCliConnected srv n fd else ret n) (\<lambda>n1.
                ret (n1, CONN_TYPE_CLI))
         else ret (n, CONN_TYPE_SVR)) (\<lambda>(n1, ctype).
           ret (n1\<lparr>net_conns := (net_conns n1)(fd :=
                   \<lparr>ci_fd = fd, ci_ctype = ctype, ci_protocol = protocol, ci_bev = bev\<rparr>)\<rparr>, 0)))"

definition CloseConn ::
  "'os sys \<Rightarrow> ('os, 'app) net server_calls \<Rightarrow> ('os, 'app) net \<Rightarrow> int \<Rightarrow> (('os, 'app) net \<times> int) run" where
  "CloseConn sys srv n fd =
     (if fd \<ge> net_maxfds n \<or> fd < 0 then ret (n, -1)
      else if ci_fd (net_conns n fd) \<noteq> fd then ret (n, -1)
      else
        (let n1 = n\<lparr>net_os := sys_close sys (net_os n) fd\<rparr>
         in rbind (if ci_ctype (net_conns n1 fd) = CONN_TYPE_CLI
                   then svr_OnCliClosed srv n1 fd else svr_OnSvrClosed srv n1 fd) (\<lambda>n2.
            rbind (case ci_bev (net_conns n2 fd) of
                     None \<Rightarrow> ret n2
                   | Some h \<Rightarrow> delete_bev sys n2 h) (\<lambda>n3.
              ret (n3\<lparr>net_conns := (net_conns n3)(fd := (net_conns n3 fd)\<lparr>ci_fd := -1, ci_bev := None\<rparr>)\<rparr>, 0)))))"

definition OnConnClosed ::
  "'os sys \<Rightarrow> ('os, 'app) net server_calls \<Rightarrow> ('os, 'app) net \<Rightarrow> int \<Rightarrow> (('os, 'app) net \<times> int) run" where
  "OnConnClosed sys srv n fd = CloseConn sys srv n fd"

section \<open>Receiving\<close>

text \<open>
  \<open>recvTcpMsg\<close> and \<open>recvUdpMsg\<close> are the same but for the \<open>remote\<close> they pass on (0 for TCP).
  A thread waiting for the queue is signalled after a push; that is the scheduler's matter.
\<close>

definition recv_msg ::
  "('os, 'app) net server_calls \<Rightarrow> ('os, 'app) net \<Rightarrow> int \<Rightarrow> int \<Rightarrow> (('os, 'app) net \<times> int) run" where
  "recv_msg srv n conn remote =
     (let fd = ci_fd (net_conns n conn); p = ci_bev (net_conns n conn)
      in rbind (get_bev n p) (\<lambda>bev.
         rbind (CopyReadBuff (net_store n) bev [0, 0, 0, 0] 4) (\<lambda>(lenbuff, copylen).
         if copylen \<noteq> 4 then ret (n, -1)
         else
           (let reallen = be_val lenbuff
            in if reallen > net_maxMsglen n then ret (n, -1)
               else rbind (GetReadBuffLen (net_store n) bev) (\<lambda>avail.
                 if reallen > avail then ret (n, 0)
                 else
                   (let mtype = (if ci_ctype (net_conns n fd) = CONN_TYPE_SVR then MT_SVR_MESSAGE
                                 else MT_CLI_MESSAGE)
                    in if net_single n
                       then rbind (Read (net_store n) bev (net_recvBuffer n) reallen) (\<lambda>(s1, bev1, buf, _).
                              rbind (svr_OnRecvMsg srv
                                       ((set_bev n p bev1)\<lparr>net_store := s1, net_recvBuffer := buf\<rparr>)
                                       fd remote (take (nat reallen) buf) (mtype = MT_CLI_MESSAGE)) (\<lambda>n1.
                                ret (n1, to_i32 reallen)))
                       else rbind (BufferForPush (net_recvQue n) fd remote mtype (to_i32 reallen)) (\<lambda>(q1, buffer).
                         case buffer of
                           None \<Rightarrow> ret (n\<lparr>net_recvQue := q1\<rparr>, -1)
                         | Some off \<Rightarrow>
                             rbind (Read (net_store n) bev (mread (lq_buff q1) off reallen) reallen)
                               (\<lambda>(s1, bev1, buf, _).
                                 rbind (buff_write q1 off buf) (\<lambda>q2.
                                   ret ((set_bev n p bev1)\<lparr>net_store := s1,
                                          net_recvQue := PushFinish q2 (to_i32 reallen)\<rparr>, to_i32 reallen)))))))))) "

definition recvTcpMsg ::
  "('os, 'app) net server_calls \<Rightarrow> ('os, 'app) net \<Rightarrow> int \<Rightarrow> (('os, 'app) net \<times> int) run" where
  "recvTcpMsg srv n conn = recv_msg srv n conn 0"

definition recvUdpMsg ::
  "('os, 'app) net server_calls \<Rightarrow> ('os, 'app) net \<Rightarrow> int \<Rightarrow> int \<Rightarrow> (('os, 'app) net \<times> int) run" where
  "recvUdpMsg srv n conn remote = recv_msg srv n conn remote"

partial_function (option) recv_all ::
  "('os, 'app) net server_calls \<Rightarrow> ('os, 'app) net \<Rightarrow> int \<Rightarrow> int \<Rightarrow> ('os, 'app) net run" where
  "recv_all srv n conn remote =
     rbind (if ci_protocol (net_conns n conn) = IOEV_TCP_PROTOCOL then recvTcpMsg srv n conn
            else recvUdpMsg srv n conn remote) (\<lambda>(n1, r).
       if r > 0 then recv_all srv n1 conn remote else ret n1)"

definition RecvMsg ::
  "('os, 'app) net server_calls \<Rightarrow> ('os, 'app) net \<Rightarrow> int \<Rightarrow> int \<Rightarrow> (('os, 'app) net \<times> int) run" where
  "RecvMsg srv n fd remote =
     (case GetConn n fd of
        None \<Rightarrow> ret (n, -1)
      | Some conn \<Rightarrow> rbind (recv_all srv n conn remote) (\<lambda>n1. ret (n1, 0)))"

section \<open>Callbacks\<close>

text \<open>\<open>readCb\<close>, \<open>writeCb\<close> and \<open>eventCb\<close>, for the calls an operation on an event has made.\<close>

definition event_callback ::
  "'os sys \<Rightarrow> ('os, 'app) net server_calls \<Rightarrow> ('os, 'app) net \<Rightarrow> be_call \<Rightarrow> ('os, 'app) net run" where
  "event_callback sys srv n c =
     (case c of
        Rdcb fd remote \<Rightarrow> rbind (RecvMsg srv n fd remote) (\<lambda>(n1, _). ret n1)
      | Wrcb fd \<Rightarrow> ret n
      | Evcb fd events \<Rightarrow>
          if events = IOEV_EVENT_EOF then rbind (OnConnClosed sys srv n fd) (\<lambda>(n1, _). ret n1) else ret n)"

fun event_callbacks ::
  "'os sys \<Rightarrow> ('os, 'app) net server_calls \<Rightarrow> ('os, 'app) net \<Rightarrow> be_call list \<Rightarrow> ('os, 'app) net run" where
  "event_callbacks sys srv n [] = ret n"
| "event_callbacks sys srv n (c # cs) =
     rbind (event_callback sys srv n c) (\<lambda>n1. event_callbacks sys srv n1 cs)"

text \<open>The event library calls back on a readable or writable descriptor.\<close>

definition on_readable ::
  "'os sys \<Rightarrow> ('os, 'app) net server_calls \<Rightarrow> ('os, 'app) net \<Rightarrow> nat \<Rightarrow> ('os, 'app) net run" where
  "on_readable sys srv n h =
     rbind (get_bev n (Some h)) (\<lambda>e.
       rbind (RecvData sys (net_os n) (net_store n) e) (\<lambda>(os1, s1, e1, calls, _).
         event_callbacks sys srv ((set_bev n (Some h) e1)\<lparr>net_os := os1, net_store := s1\<rparr>) calls))"

definition on_writable ::
  "'os sys \<Rightarrow> ('os, 'app) net server_calls \<Rightarrow> ('os, 'app) net \<Rightarrow> nat \<Rightarrow> ('os, 'app) net run" where
  "on_writable sys srv n h =
     rbind (get_bev n (Some h)) (\<lambda>e.
       rbind (FlushSendBuffer sys (net_os n) (net_store n) e) (\<lambda>(os1, s1, e1, calls, _).
         event_callbacks sys srv ((set_bev n (Some h) e1)\<lparr>net_os := os1, net_store := s1\<rparr>) calls))"

section \<open>Sending and connecting\<close>

definition SendMsg ::
  "'os sys \<Rightarrow> ('os, 'app) net server_calls \<Rightarrow> ('os, 'app) net \<Rightarrow> int \<Rightarrow> int \<Rightarrow> byte list \<Rightarrow>
     (('os, 'app) net \<times> int) run" where
  "SendMsg sys srv n fd remote msg =
     (case GetConn n fd of
        None \<Rightarrow> ret (n, -1)
      | Some conn \<Rightarrow>
          (let p = ci_bev (net_conns n conn)
           in rbind (get_bev n p) (\<lambda>e.
              rbind (assert_that (be_fd e = fd)) (\<lambda>_.
              rbind (Write sys (net_os n) (net_store n) e remote msg) (\<lambda>(os1, s1, e1, calls, r).
              rbind (event_callbacks sys srv ((set_bev n p e1)\<lparr>net_os := os1, net_store := s1\<rparr>) calls) (\<lambda>n1.
                ret (n1, r)))))))"

text \<open>
  \<open>OnSendMsgEvent\<close> takes the messages of the send queue.  The queue is the server's; it is
  passed along.
\<close>

partial_function (option) OnSendMsgEvent ::
  "'os sys \<Rightarrow> ('os, 'app) net server_calls \<Rightarrow> ('os, 'app) net \<Rightarrow> loop_queue \<Rightarrow> (('os, 'app) net \<times> loop_queue) run"
where
  "OnSendMsgEvent sys srv n sendq =
     rbind (FrontBlock sendq) (\<lambda>(q1, block).
       case block of
         None \<Rightarrow> ret (n, q1)
       | Some off \<Rightarrow>
           rbind (read_block q1 off) (\<lambda>m.
           rbind (if msg_type m = MT_SVR_MESSAGE \<or> msg_type m = MT_CLI_MESSAGE
                  then rbind (SendMsg sys srv n (msg_fd m) (msg_remote m) (msg_data m)) (\<lambda>(n1, _). ret n1)
                  else ret n) (\<lambda>n1.
             OnSendMsgEvent sys srv n1 (PopBlock q1 (bt_len (lq_buff q1) off)))))"

text \<open>\<open>listenCb\<close>: a connection has been accepted on the listening descriptor \<open>lfd\<close>.\<close>

definition on_accept ::
  "'os sys \<Rightarrow> ('os, 'app) net server_calls \<Rightarrow> ('os, 'app) net \<Rightarrow> int \<Rightarrow> int \<Rightarrow> ('os, 'app) net run" where
  "on_accept sys srv n lfd fd =
     (let (n1, h) = NewBufferEvent n IOEV_TCP_PROTOCOL fd
      in rbind (OpenConn srv n1 fd (Some h) IOEV_TCP_PROTOCOL lfd) (\<lambda>(n2, r).
           if r \<noteq> 0 then delete_bev sys n2 h
           else rbind (get_bev n2 (Some h)) (\<lambda>e.
             ret (set_bev n2 (Some h) (Enable (SetCb e True True True) (IOEV_READ OR IOEV_WRITE))))))"

text \<open>\<open>Connect\<close>, given the descriptor the event handler connected, or none.\<close>

definition Connect ::
  "'os sys \<Rightarrow> ('os, 'app) net server_calls \<Rightarrow> ('os, 'app) net \<Rightarrow> int \<Rightarrow> int option \<Rightarrow> (('os, 'app) net \<times> int) run"
where
  "Connect sys srv n protocol connected =
     (case connected of
        None \<Rightarrow> ret (n, -1)
      | Some fd \<Rightarrow>
          (let (n1, h) = NewBufferEvent n protocol fd
           in rbind (OpenConn srv n1 fd (Some h) protocol (-1)) (\<lambda>(n2, r).
                if r \<noteq> 0 then rbind (delete_bev sys n2 h) (\<lambda>n3. ret (n3, -1))
                else ret (n2, fd))))"

text \<open>
  \<open>Bind\<close>, given the descriptor the event handler bound, or a negative number.  The result
  tells for TCP that a listening event was started.
\<close>

definition Bind ::
  "'os sys \<Rightarrow> ('os, 'app) net server_calls \<Rightarrow> ('os, 'app) net \<Rightarrow> int \<Rightarrow> int \<Rightarrow>
     (('os, 'app) net \<times> int option \<times> int) run" where
  "Bind sys srv n protocol fd =
     (if fd < 0 then ret (n, None, -1)
      else if protocol = IOEV_TCP_PROTOCOL then ret (n, Some fd, 0)
      else
        (let (n1, h) = NewBufferEvent n protocol fd
         in rbind (OpenConn srv n1 fd (Some h) protocol fd) (\<lambda>(n2, r).
              if r \<noteq> 0 then rbind (delete_bev sys n2 h) (\<lambda>n3. ret (n3, None, -1))
              else rbind (get_bev n2 (Some h)) (\<lambda>e.
                ret (set_bev n2 (Some h) (Enable (SetCb e True True True) (IOEV_READ OR IOEV_WRITE)), None, 0)))))"

end
