(* ===== verification/Net_Table.thy ===== *)
theory Net_Table
  imports Net_Message Block_Buffer_Spec
begin

text \<open>
  The table of connections as a state machine: connections are accepted, made and closed.  In
  every reachable state the table, the buffer events on the heap and the blocks of their
  buffers are in step.
\<close>

section \<open>The invariant\<close>

definition buffer_of :: "buffer_event \<Rightarrow> bool \<Rightarrow> block_buffer" where
  "buffer_of e sending = (if sending then be_sendBuffer e else be_recvBuffer e)"

text \<open>Every buffer of every event represents a chain of its own.\<close>

definition events_ok ::
  "block_store \<Rightarrow> (nat \<rightharpoonup> buffer_event) \<Rightarrow> (nat \<times> bool \<Rightarrow> blocks) \<Rightarrow> bool" where
  "events_ok s bevs R \<longleftrightarrow>
     store_ok s \<and>
     (\<forall>h e sd. bevs h = Some e \<longrightarrow> bb_rep s (buffer_of e sd) (R (h, sd))) \<and>
     (\<forall>x y. bevs (fst x) \<noteq> None \<longrightarrow> bevs (fst y) \<noteq> None \<longrightarrow> x \<noteq> y \<longrightarrow> addrs (R x) \<inter> addrs (R y) = {})"

text \<open>Events and open entries of the table correspond one to one.\<close>

definition table_ok :: "(int \<Rightarrow> conn_info) \<Rightarrow> (nat \<rightharpoonup> buffer_event) \<Rightarrow> int \<Rightarrow> bool" where
  "table_ok conns bevs maxfds \<longleftrightarrow>
     (\<forall>fd. if ci_fd (conns fd) = -1 then ci_bev (conns fd) = None
           else ci_fd (conns fd) = fd \<and> 0 < fd \<and> fd < maxfds \<and>
             (\<exists>h e. ci_bev (conns fd) = Some h \<and> bevs h = Some e \<and> be_fd e = fd)) \<and>
     (\<forall>h e. bevs h = Some e \<longrightarrow> ci_fd (conns (be_fd e)) = be_fd e \<and> ci_bev (conns (be_fd e)) = Some h)"

definition net_inv :: "('os, 'app) net \<Rightarrow> bool" where
  "net_inv n \<longleftrightarrow>
     (\<exists>R. events_ok (net_store n) (net_bevs n) R) \<and>
     (\<forall>h. net_bevs n h \<noteq> None \<longrightarrow> h < net_brk n) \<and>
     table_ok (net_conns n) (net_bevs n) (net_maxfds n)"

text \<open>What is assumed of the server's callbacks: they touch only the server's own part.\<close>

definition svr_quiet :: "('os, 'app) net server_calls \<Rightarrow> bool" where
  "svr_quiet srv \<longleftrightarrow>
     (\<forall>n fd. (\<exists>a. svr_OnCliConnected srv n fd = ret (n\<lparr>net_app := a\<rparr>)) \<and>
             (\<exists>a. svr_OnCliClosed srv n fd = ret (n\<lparr>net_app := a\<rparr>)) \<and>
             (\<exists>a. svr_OnSvrClosed srv n fd = ret (n\<lparr>net_app := a\<rparr>)))"

lemma svr_quietD:
  assumes "svr_quiet srv"
  shows "\<exists>a. svr_OnCliConnected srv n fd = ret (n\<lparr>net_app := a\<rparr>)"
    "\<exists>a. svr_OnCliClosed srv n fd = ret (n\<lparr>net_app := a\<rparr>)"
    "\<exists>a. svr_OnSvrClosed srv n fd = ret (n\<lparr>net_app := a\<rparr>)"
  using assms unfolding svr_quiet_def by blast+

section \<open>Events\<close>

lemma events_ok_upd_keep:
  "events_ok s bevs R \<Longrightarrow> bevs h = Some e \<Longrightarrow> be_recvBuffer e1 = be_recvBuffer e \<Longrightarrow>
     be_sendBuffer e1 = be_sendBuffer e \<Longrightarrow> events_ok s (bevs(h \<mapsto> e1)) R"
  unfolding events_ok_def buffer_of_def by (auto split: if_splits)

lemma events_ok_new:
  assumes ok: "events_ok s bevs R" and h: "bevs h = None"
    and e: "be_recvBuffer e = new_BlockBuffer" "be_sendBuffer e = new_BlockBuffer"
  shows "events_ok s (bevs(h \<mapsto> e)) (\<lambda>x. if fst x = h then [] else R x)"
proof -
  have "bb_rep s new_BlockBuffer []" using ok by (simp add: events_ok_def bb_rep_new)
  then show ?thesis
    using ok e h unfolding events_ok_def buffer_of_def by auto
qed

lemma delete_buffer_keeps:
  assumes ok: "events_ok s bevs R" and h: "bevs h = Some e"
  shows "\<exists>s1. delete_BlockBuffer s (buffer_of e sd) = ret (s1, new_BlockBuffer) \<and> store_ok s1 \<and>
    (\<forall>x e1. x \<noteq> (h, sd) \<longrightarrow> bevs (fst x) = Some e1 \<longrightarrow> bb_rep s1 (buffer_of e1 (snd x)) (R x))"
proof -
  have rep: "bb_rep s (buffer_of e sd) (R (h, sd))" using ok h by (simp add: events_ok_def)
  obtain s1 where D: "delete_BlockBuffer s (buffer_of e sd) = ret (s1, new_BlockBuffer)" "store_ok s1"
    "evolves s (R (h, sd)) s1 []"
    using delete_BlockBuffer_rep [OF rep] by blast
  have "bb_rep s1 (buffer_of e1 (snd x)) (R x)" if x: "x \<noteq> (h, sd)" "bevs (fst x) = Some e1" for x e1
  proof -
    have "bb_rep s (buffer_of e1 (snd x)) (R x)" using ok x(2) by (cases x) (simp add: events_ok_def)
    moreover have "addrs (R x) \<inter> addrs (R (h, sd)) = {}"
      using ok x h unfolding events_ok_def by (metis fst_conv option.distinct(1))
    ultimately show ?thesis using bb_rep_frame D(2,3) by blast
  qed
  with D show ?thesis by blast
qed

lemma delete_event_ok:
  assumes ok: "events_ok s bevs R" and h: "bevs h = Some e"
  shows "\<exists>s1. delete_BufferEventEv sys os s e = ret (sys_close sys os (be_fd e), s1) \<and>
    events_ok s1 (bevs(h := None)) R"
proof -
  obtain s1 where 1: "delete_BlockBuffer s (be_recvBuffer e) = ret (s1, new_BlockBuffer)" "store_ok s1"
    "\<forall>x e1. x \<noteq> (h, False) \<longrightarrow> bevs (fst x) = Some e1 \<longrightarrow> bb_rep s1 (buffer_of e1 (snd x)) (R x)"
    using delete_buffer_keeps [OF ok h, of False] by (auto simp: buffer_of_def)
  have rep: "bb_rep s1 (be_sendBuffer e) (R (h, True))"
    using 1(3) [rule_format, of "(h, True)" e] h by (simp add: buffer_of_def)
  obtain s2 where 2: "delete_BlockBuffer s1 (be_sendBuffer e) = ret (s2, new_BlockBuffer)" "store_ok s2"
    "evolves s1 (R (h, True)) s2 []"
    using delete_BlockBuffer_rep [OF rep] by blast
  have keep: "bb_rep s2 (buffer_of e1 sd) (R (h1, sd))" if x: "h1 \<noteq> h" "bevs h1 = Some e1" for h1 e1 sd
  proof -
    have "bb_rep s1 (buffer_of e1 sd) (R (h1, sd))" using 1(3) [rule_format, of "(h1, sd)" e1] x by simp
    moreover have "addrs (R (h1, sd)) \<inter> addrs (R (h, True)) = {}"
      using ok x h unfolding events_ok_def by (metis fst_conv option.distinct(1) prod.inject)
    ultimately show ?thesis using bb_rep_frame 2(2,3) by blast
  qed
  have "events_ok s2 (bevs(h := None)) R"
    using ok 2(2) keep unfolding events_ok_def by auto
  then show ?thesis using 1(1) 2(1) by (simp add: delete_BufferEventEv_def)
qed

section \<open>Closing\<close>

lemma table_ok_entry:
  assumes "table_ok conns bevs mx" "ci_fd (conns fd) = fd" "fd \<noteq> -1"
  obtains h e where "ci_bev (conns fd) = Some h" "bevs h = Some e" "be_fd e = fd" "0 < fd" "fd < mx"
  using assms unfolding table_ok_def by metis

lemma table_ok_unique:
  "table_ok conns bevs mx \<Longrightarrow> bevs h = Some e \<Longrightarrow> be_fd e = fd \<Longrightarrow> ci_bev (conns fd) = Some h"
  by (auto simp: table_ok_def)

lemma table_ok_close:
  assumes t: "table_ok conns bevs mx" and x: "ci_bev (conns fd) = Some h" "bevs h = Some e" "be_fd e = fd"
  shows "table_ok (conns(fd := (conns fd)\<lparr>ci_fd := -1, ci_bev := None\<rparr>)) (bevs(h := None)) mx"
proof -
  have other: "g \<noteq> h" if "ci_bev (conns fd') = Some g" "bevs g = Some e'" "be_fd e' = fd'" "fd' \<noteq> fd" for fd' g e'
    using that x by auto
  show ?thesis
    unfolding table_ok_def
  proof (intro conjI allI impI)
    fix fd'
    let ?c = "(conns(fd := (conns fd)\<lparr>ci_fd := -1, ci_bev := None\<rparr>)) fd'"
    show "if ci_fd ?c = -1 then ci_bev ?c = None
      else ci_fd ?c = fd' \<and> 0 < fd' \<and> fd' < mx \<and>
        (\<exists>g e. ci_bev ?c = Some g \<and> (bevs(h := None)) g = Some e \<and> be_fd e = fd')"
    proof (cases "fd' = fd \<or> ci_fd (conns fd') = -1")
      case True
      then show ?thesis using t by (auto simp: table_ok_def)
    next
      case False
      then have "ci_fd (conns fd') = fd'" "0 < fd'" "fd' < mx"
        and "\<exists>g e. ci_bev (conns fd') = Some g \<and> bevs g = Some e \<and> be_fd e = fd'"
        using t unfolding table_ok_def by metis+
      moreover from this obtain g e' where g: "ci_bev (conns fd') = Some g" "bevs g = Some e'" "be_fd e' = fd'"
        by blast
      moreover have "g \<noteq> h" using False by (intro other [OF g]) simp
      ultimately show ?thesis using False by simp
    qed
  next
    fix g e'
    assume g: "(bevs(h := None)) g = Some e'"
    then have b: "bevs g = Some e'" "g \<noteq> h" by (auto split: if_splits)
    then have "ci_fd (conns (be_fd e')) = be_fd e'" "ci_bev (conns (be_fd e')) = Some g"
      using t by (auto simp: table_ok_def)
    moreover have "be_fd e' \<noteq> fd" using b(2) calculation(2) x(1) by auto
    ultimately show "ci_fd ((conns(fd := (conns fd)\<lparr>ci_fd := -1, ci_bev := None\<rparr>)) (be_fd e')) = be_fd e'"
      "ci_bev ((conns(fd := (conns fd)\<lparr>ci_fd := -1, ci_bev := None\<rparr>)) (be_fd e')) = Some g"
      by simp_all
  qed
qed

lemma CloseConn_inv:
  assumes inv: "net_inv n" and q: "svr_quiet srv" and g: "GetConn n fd = Some fd"
  shows "\<exists>n1. CloseConn sys srv n fd = ret (n1, 0) \<and> net_inv n1 \<and> GetConn n1 fd = None \<and>
    (\<forall>fd'. fd' \<noteq> fd \<longrightarrow> GetConn n1 fd' = GetConn n fd') \<and>
    net_os n1 = sys_close sys (sys_close sys (net_os n) fd) fd"
proof -
  have f: "0 \<le> fd" "fd < net_maxfds n" "ci_fd (net_conns n fd) = fd"
    using g by (auto simp: GetConn_def split: if_splits)
  have t: "table_ok (net_conns n) (net_bevs n) (net_maxfds n)" using inv by (simp add: net_inv_def)
  obtain h e where x: "ci_bev (net_conns n fd) = Some h" "net_bevs n h = Some e" "be_fd e = fd"
    using table_ok_entry [OF t f(3)] f(1) by (metis neg_0_le_iff_le not_one_le_zero)
  obtain R where R: "events_ok (net_store n) (net_bevs n) R" using inv by (auto simp: net_inv_def)
  let ?n0 = "n\<lparr>net_os := sys_close sys (net_os n) fd\<rparr>"
  have "\<exists>a. (if ci_ctype (net_conns n fd) = CONN_TYPE_CLI then svr_OnCliClosed srv ?n0 fd
      else svr_OnSvrClosed srv ?n0 fd) = ret (?n0\<lparr>net_app := a\<rparr>)"
    using svr_quietD(2,3) [OF q, of ?n0 fd] by (simp split: if_split)
  then obtain a where a: "(if ci_ctype (net_conns n fd) = CONN_TYPE_CLI then svr_OnCliClosed srv ?n0 fd
      else svr_OnSvrClosed srv ?n0 fd) = ret (?n0\<lparr>net_app := a\<rparr>)"
    by blast
  obtain s1 where D: "delete_BufferEventEv sys (sys_close sys (net_os n) fd) (net_store n) e
      = ret (sys_close sys (sys_close sys (net_os n) fd) fd, s1)"
    "events_ok s1 ((net_bevs n)(h := None)) R"
    using delete_event_ok [OF R x(2), of sys "sys_close sys (net_os n) fd", unfolded x(3)] by blast
  let ?n1 = "n\<lparr>net_os := sys_close sys (sys_close sys (net_os n) fd) fd, net_app := a, net_store := s1,
      net_bevs := (net_bevs n)(h := None),
      net_conns := (net_conns n)(fd := (net_conns n fd)\<lparr>ci_fd := -1, ci_bev := None\<rparr>)\<rparr>"
  have "CloseConn sys srv n fd = ret (?n1, 0)"
    using f a x D(1) by (simp add: CloseConn_def delete_bev_def get_bev_def)
  moreover have "net_inv ?n1"
    using D(2) table_ok_close [OF t x] inv unfolding net_inv_def by (auto split: if_splits)
  ultimately show ?thesis using f(1) by (intro exI [of _ ?n1]) (auto simp: GetConn_def)
qed

section \<open>Opening\<close>

lemma table_ok_open:
  assumes t: "table_ok conns bevs mx" and h: "bevs h = None"
    and fd: "0 < fd" "fd < mx" "ci_fd (conns fd) \<le> 0" and e: "be_fd e = fd"
  shows "table_ok (conns(fd := \<lparr>ci_fd = fd, ci_ctype = ct, ci_protocol = pr, ci_bev = Some h\<rparr>))
    (bevs(h \<mapsto> e)) mx"
proof -
  have free: "ci_fd (conns fd) = -1"
    using t fd(1,3) unfolding table_ok_def by (metis not_le)
  have notfd: "be_fd e' \<noteq> fd" if "bevs g = Some e'" for g e'
  proof
    assume "be_fd e' = fd"
    then have "ci_fd (conns fd) = fd" using t that unfolding table_ok_def by blast
    then show False using free fd(1) by simp
  qed
  show ?thesis
    unfolding table_ok_def
  proof (intro conjI allI impI)
    fix fd'
    let ?c = "(conns(fd := \<lparr>ci_fd = fd, ci_ctype = ct, ci_protocol = pr, ci_bev = Some h\<rparr>)) fd'"
    have old: "if ci_fd (conns fd') = -1 then ci_bev (conns fd') = None
      else ci_fd (conns fd') = fd' \<and> 0 < fd' \<and> fd' < mx \<and>
        (\<exists>g e. ci_bev (conns fd') = Some g \<and> bevs g = Some e \<and> be_fd e = fd')"
      using t unfolding table_ok_def by blast
    show "if ci_fd ?c = -1 then ci_bev ?c = None
      else ci_fd ?c = fd' \<and> 0 < fd' \<and> fd' < mx \<and>
        (\<exists>g e'. ci_bev ?c = Some g \<and> (bevs(h \<mapsto> e)) g = Some e' \<and> be_fd e' = fd')"
    proof (cases "fd' = fd")
      case True
      then show ?thesis using fd e by simp
    next
      case False
      then show ?thesis using old h by (auto split: if_splits)
    qed
  next
    fix g e'
    assume g: "(bevs(h \<mapsto> e)) g = Some e'"
    show "ci_fd ((conns(fd := \<lparr>ci_fd = fd, ci_ctype = ct, ci_protocol = pr, ci_bev = Some h\<rparr>)) (be_fd e')) = be_fd e'"
      "ci_bev ((conns(fd := \<lparr>ci_fd = fd, ci_ctype = ct, ci_protocol = pr, ci_bev = Some h\<rparr>)) (be_fd e')) = Some g"
    proof -
      have "g = h \<and> e' = e \<or> bevs g = Some e' \<and> be_fd e' \<noteq> fd \<and> ci_fd (conns (be_fd e')) = be_fd e' \<and>
          ci_bev (conns (be_fd e')) = Some g"
        using g t notfd unfolding table_ok_def by (metis map_upd_Some_unfold)
      then show "ci_fd ((conns(fd := \<lparr>ci_fd = fd, ci_ctype = ct, ci_protocol = pr, ci_bev = Some h\<rparr>)) (be_fd e')) = be_fd e'"
        "ci_bev ((conns(fd := \<lparr>ci_fd = fd, ci_ctype = ct, ci_protocol = pr, ci_bev = Some h\<rparr>)) (be_fd e')) = Some g"
        using e by auto
    qed
  qed
qed

lemma net_inv_fresh:
  assumes "net_inv n"
  shows "net_bevs n (net_brk n) = None"
  using assms unfolding net_inv_def by blast

lemma net_inv_opened:
  assumes inv: "net_inv n" and fd: "0 < fd" "fd < net_maxfds n" "ci_fd (net_conns n fd) \<le> 0"
    and e: "be_fd e = fd" "be_recvBuffer e = new_BlockBuffer" "be_sendBuffer e = new_BlockBuffer"
  shows "net_inv (n\<lparr>net_bevs := (net_bevs n)(net_brk n \<mapsto> e), net_brk := Suc (net_brk n), net_app := a,
    net_conns := (net_conns n)(fd := \<lparr>ci_fd = fd, ci_ctype = ct, ci_protocol = pr, ci_bev = Some (net_brk n)\<rparr>)\<rparr>)"
proof -
  obtain R where R: "events_ok (net_store n) (net_bevs n) R" using inv by (auto simp: net_inv_def)
  note fresh = net_inv_fresh [OF inv]
  have "\<exists>R. events_ok (net_store n) ((net_bevs n)(net_brk n \<mapsto> e)) R"
    using events_ok_new [OF R fresh e(2,3)] by blast
  moreover have "\<forall>h. ((net_bevs n)(net_brk n \<mapsto> e)) h \<noteq> None \<longrightarrow> h < Suc (net_brk n)"
    using inv by (auto simp: net_inv_def less_Suc_eq)
  moreover have "table_ok (net_conns n) (net_bevs n) (net_maxfds n)" using inv by (simp add: net_inv_def)
  note table_ok_open [OF this fresh fd e(1), of ct pr]
  ultimately show ?thesis by (simp add: net_inv_def)
qed

text \<open>A fresh event that found no place in the table is deleted again.\<close>

lemma net_inv_refused:
  assumes inv: "net_inv n"
  shows "\<exists>s1 os1. delete_bev sys (fst (NewBufferEvent n protocol fd)) (snd (NewBufferEvent n protocol fd)) = ret (n\<lparr>net_brk := Suc (net_brk n), net_store := s1, net_os := os1\<rparr>) \<and>
    net_inv (n\<lparr>net_brk := Suc (net_brk n), net_store := s1, net_os := os1\<rparr>)"
proof -
  let ?e = "new_BufferEventEv protocol fd" and ?h = "net_brk n"
  obtain R where R: "events_ok (net_store n) (net_bevs n) R" using inv by (auto simp: net_inv_def)
  note fresh = net_inv_fresh [OF inv]
  have E: "events_ok (net_store n) ((net_bevs n)(?h \<mapsto> ?e)) (\<lambda>x. if fst x = ?h then [] else R x)"
    by (rule events_ok_new [OF R fresh]) (simp_all add: new_BufferEventEv_def)
  obtain s1 where D: "delete_BufferEventEv sys (net_os n) (net_store n) ?e
      = ret (sys_close sys (net_os n) (be_fd ?e), s1)"
    "events_ok s1 (((net_bevs n)(?h \<mapsto> ?e))(?h := None)) (\<lambda>x. if fst x = ?h then [] else R x)"
    using delete_event_ok [OF E, of ?h ?e sys "net_os n"] by auto
  have same: "((net_bevs n)(?h \<mapsto> ?e))(?h := None) = net_bevs n" using fresh by (auto simp: fun_eq_iff)
  have "delete_bev sys (fst (NewBufferEvent n protocol fd)) (snd (NewBufferEvent n protocol fd))
      = ret (n\<lparr>net_brk := Suc ?h, net_store := s1, net_os := sys_close sys (net_os n) (be_fd ?e)\<rparr>)"
    using D(1) same by (simp add: NewBufferEvent_def delete_bev_def get_bev_def)
  moreover have "net_inv (n\<lparr>net_brk := Suc ?h, net_store := s1, net_os := sys_close sys (net_os n) (be_fd ?e)\<rparr>)"
    using D(2) inv unfolding same by (auto simp: net_inv_def less_Suc_eq)
  ultimately show ?thesis by blast
qed

lemma on_accept_inv:
  assumes inv: "net_inv n" and q: "svr_quiet srv" and fd: "0 < fd" "0 < lfd"
  shows "\<exists>n1. on_accept sys srv n lfd fd = ret n1 \<and> net_inv n1 \<and>
    (if fd < net_maxfds n \<and> ci_fd (net_conns n fd) \<le> 0
     then GetConn n1 fd = Some fd \<and> ci_ctype (net_conns n1 fd) = CONN_TYPE_CLI
     else net_conns n1 = net_conns n)"
proof (cases "fd < net_maxfds n \<and> ci_fd (net_conns n fd) \<le> 0")
  case True
  let ?h = "net_brk n" and ?start = "new_BufferEventEv IOEV_TCP_PROTOCOL fd"
  let ?e = "Enable (SetCb ?start True True True) (IOEV_READ OR IOEV_WRITE)"
  let ?n0 = "n\<lparr>net_bevs := (net_bevs n)(?h \<mapsto> ?start), net_brk := Suc ?h\<rparr>"
  obtain a where a: "svr_OnCliConnected srv ?n0 fd = ret (?n0\<lparr>net_app := a\<rparr>)"
    using svr_quietD(1) [OF q, of ?n0 fd] by blast
  let ?n1 = "n\<lparr>net_bevs := (net_bevs n)(?h \<mapsto> ?e), net_brk := Suc ?h, net_app := a,
      net_conns := (net_conns n)(fd := \<lparr>ci_fd = fd, ci_ctype = CONN_TYPE_CLI,
        ci_protocol = IOEV_TCP_PROTOCOL, ci_bev = Some ?h\<rparr>)\<rparr>"
  have e: "be_fd ?e = fd" "be_recvBuffer ?e = new_BlockBuffer" "be_sendBuffer ?e = new_BlockBuffer"
    by (simp_all add: Enable_def SetCb_def new_BufferEventEv_def Let_def)
  have "on_accept sys srv n lfd fd = ret ?n1"
    using True fd a by (simp add: on_accept_def NewBufferEvent_def OpenConn_def get_bev_def set_bev_def)
  moreover have "net_inv ?n1"
    using True by (intro net_inv_opened [OF inv fd(1) _ _ e]) simp_all
  ultimately show ?thesis using True fd(1)
    by (intro exI [of _ ?n1]) (simp add: GetConn_def)
next
  case False
  obtain s1 os1 where D: "delete_bev sys (fst (NewBufferEvent n IOEV_TCP_PROTOCOL fd))
      (snd (NewBufferEvent n IOEV_TCP_PROTOCOL fd)) = ret (n\<lparr>net_brk := Suc (net_brk n), net_store := s1, net_os := os1\<rparr>)"
    "net_inv (n\<lparr>net_brk := Suc (net_brk n), net_store := s1, net_os := os1\<rparr>)"
    using net_inv_refused [OF inv, of sys IOEV_TCP_PROTOCOL fd] by blast
  have "OpenConn srv (fst (NewBufferEvent n IOEV_TCP_PROTOCOL fd)) fd b IOEV_TCP_PROTOCOL lfd
      = ret (fst (NewBufferEvent n IOEV_TCP_PROTOCOL fd), -1)" for b
    using False fd by (auto simp: OpenConn_def NewBufferEvent_def)
  then have "on_accept sys srv n lfd fd = ret (n\<lparr>net_brk := Suc (net_brk n), net_store := s1, net_os := os1\<rparr>)"
    using D(1) by (cases "NewBufferEvent n IOEV_TCP_PROTOCOL fd") (simp add: on_accept_def)
  then show ?thesis using D(2) False by auto
qed

lemma Connect_inv:
  assumes inv: "net_inv n" and fd: "0 < fd"
  shows "\<exists>n1 r. Connect sys srv n protocol (Some fd) = ret (n1, r) \<and> net_inv n1 \<and>
    (if fd < net_maxfds n \<and> ci_fd (net_conns n fd) \<le> 0
     then r = fd \<and> GetConn n1 fd = Some fd \<and> ci_ctype (net_conns n1 fd) = CONN_TYPE_SVR
     else r = -1 \<and> net_conns n1 = net_conns n)"
proof (cases "fd < net_maxfds n \<and> ci_fd (net_conns n fd) \<le> 0")
  case True
  let ?h = "net_brk n" and ?e = "new_BufferEventEv protocol fd"
  let ?n1 = "n\<lparr>net_bevs := (net_bevs n)(?h \<mapsto> ?e), net_brk := Suc ?h, net_app := net_app n,
      net_conns := (net_conns n)(fd := \<lparr>ci_fd = fd, ci_ctype = CONN_TYPE_SVR,
        ci_protocol = protocol, ci_bev = Some ?h\<rparr>)\<rparr>"
  have e: "be_fd ?e = fd" "be_recvBuffer ?e = new_BlockBuffer" "be_sendBuffer ?e = new_BlockBuffer"
    by (simp_all add: new_BufferEventEv_def)
  have "Connect sys srv n protocol (Some fd) = ret (?n1, fd)"
    using True fd by (simp add: Connect_def NewBufferEvent_def OpenConn_def)
  moreover have "net_inv ?n1"
    using True by (intro net_inv_opened [OF inv fd(1) _ _ e]) simp_all
  ultimately show ?thesis using True fd(1)
    by (intro exI [of _ ?n1] exI [of _ fd]) (simp add: GetConn_def)
next
  case False
  obtain s1 os1 where D: "delete_bev sys (fst (NewBufferEvent n protocol fd))
      (snd (NewBufferEvent n protocol fd)) = ret (n\<lparr>net_brk := Suc (net_brk n), net_store := s1, net_os := os1\<rparr>)"
    "net_inv (n\<lparr>net_brk := Suc (net_brk n), net_store := s1, net_os := os1\<rparr>)"
    using net_inv_refused [OF inv, of sys protocol fd] by blast
  have "OpenConn srv (fst (NewBufferEvent n protocol fd)) fd b protocol (-1)
      = ret (fst (NewBufferEvent n protocol fd), -1)" for b
    using False fd by (auto simp: OpenConn_def NewBufferEvent_def)
  then have "Connect sys srv n protocol (Some fd) = ret (n\<lparr>net_brk := Suc (net_brk n), net_store := s1, net_os := os1\<rparr>, -1)"
    using D(1) by (cases "NewBufferEvent n protocol fd") (simp add: Connect_def)
  then show ?thesis using D(2) False by auto
qed

section \<open>The state machine\<close>

text \<open>Descriptors the system hands out are positive (0 is the standard input).\<close>

inductive conn_step ::
  "'os sys \<Rightarrow> ('os, 'app) net server_calls \<Rightarrow> ('os, 'app) net \<Rightarrow> ('os, 'app) net \<Rightarrow> bool"
  for sys srv where
  accept: "on_accept sys srv n lfd fd = ret n1 \<Longrightarrow> 0 < fd \<Longrightarrow> 0 < lfd \<Longrightarrow> conn_step sys srv n n1"
| connect: "Connect sys srv n protocol (Some fd) = ret (n1, r) \<Longrightarrow> 0 < fd \<Longrightarrow> conn_step sys srv n n1"
| close: "CloseConn sys srv n fd = ret (n1, r) \<Longrightarrow> conn_step sys srv n n1"

inductive_cases conn_stepE: "conn_step sys srv n n1"

inductive reachable :: "'os sys \<Rightarrow> ('os, 'app) net server_calls \<Rightarrow> ('os, 'app) net \<Rightarrow> ('os, 'app) net \<Rightarrow> bool"
  for sys srv where
  start: "reachable sys srv n n"
| step: "reachable sys srv n n1 \<Longrightarrow> conn_step sys srv n1 n2 \<Longrightarrow> reachable sys srv n n2"

lemma net_inv_new: "store_ok s \<Longrightarrow> net_inv (new_NetMessage os s ml mf single buf rq app)"
  by (auto simp: net_inv_def new_NetMessage_def events_ok_def table_ok_def)

lemma CloseConn_refused: "GetConn n fd = None \<Longrightarrow> CloseConn sys srv n fd = ret (n, -1)"
  by (auto simp: GetConn_def CloseConn_def split: if_splits)

lemma conn_step_inv:
  assumes q: "svr_quiet srv" and st: "conn_step sys srv n n1" and inv: "net_inv n"
  shows "net_inv n1"
  using st
proof (rule conn_stepE)
  fix lfd fd :: int
  assume "on_accept sys srv n lfd fd = ret n1" "0 < fd" "0 < lfd"
  then show ?thesis using on_accept_inv [OF inv q, of fd lfd sys] by auto
next
  fix protocol fd r
  assume "Connect sys srv n protocol (Some fd) = ret (n1, r)" "0 < fd"
  then show ?thesis using Connect_inv [OF inv, of fd sys srv protocol] by auto
next
  fix fd r
  assume c: "CloseConn sys srv n fd = ret (n1, r)"
  show ?thesis
  proof (cases "GetConn n fd")
    case None
    then show ?thesis using c CloseConn_refused [OF None, of sys srv] inv by simp
  next
    case (Some x)
    then have "GetConn n fd = Some fd" by (auto simp: GetConn_def split: if_splits)
    then show ?thesis using CloseConn_inv [OF inv q, of fd sys] c by auto
  qed
qed

section \<open>Properties\<close>


definition quiet_server :: "(int list, unit) net server_calls" where
  "quiet_server = \<lparr>svr_OnRecvMsg = (\<lambda>n _ _ _ _. ret n), svr_OnCliConnected = (\<lambda>n _. ret n),
     svr_OnCliClosed = (\<lambda>n _. ret n), svr_OnSvrClosed = (\<lambda>n _. ret n)\<rparr>"

lemma quiet_server_ok: "svr_quiet quiet_server"
  unfolding svr_quiet_def quiet_server_def by (auto intro: exI [of _ "()"])

definition start_net :: "(int list, unit) net" where
  "start_net = new_NetMessage [] (empty_store (\<lambda>_ _. 0)) 100 10 True (replicate 100 0) new_LoopQueue ()"

text \<open>A system that notes the descriptors closed.\<close>

definition close_sys :: "int list sys" where
  "close_sys =
     \<lparr>sys_ioctl = (\<lambda>os fd. (os, None)), sys_recv = (\<lambda>os fd n. (os, Inl EAGAIN)),
      sys_recvfrom = (\<lambda>os fd n. (os, Inl EAGAIN, 0, 0)), sys_send = (\<lambda>os fd xs. (os, -1, EAGAIN)),
      sys_sendto = (\<lambda>os fd xs a p. (os, -1)), sys_close = (\<lambda>os fd. os @ [fd])\<rparr>"

lemma start_net_accept:
  "\<exists>n1. on_accept close_sys quiet_server start_net 3 5 = ret n1 \<and> net_inv n1 \<and> GetConn n1 5 = Some 5 \<and>
     net_os n1 = []"
proof -
  have inv: "net_inv start_net" unfolding start_net_def by (rule net_inv_new [OF store_ok_empty])
  have f: "(5::int) < net_maxfds start_net" "ci_fd (net_conns start_net 5) = -1"
    by (simp_all add: start_net_def new_NetMessage_def)
  obtain n1 where n1: "on_accept close_sys quiet_server start_net 3 5 = ret n1" "net_inv n1" "GetConn n1 5 = Some 5"
    using on_accept_inv [OF inv quiet_server_ok, of 5 3 close_sys] f by auto
  moreover have "net_os n1 = []"
    using n1(1) f by (simp add: on_accept_def NewBufferEvent_def OpenConn_def get_bev_def set_bev_def
        quiet_server_def start_net_def new_NetMessage_def)
      (auto simp: new_NetMessage_def)
  ultimately show ?thesis by blast
qed


text \<open>Closing an open connection succeeds: its entry is free again, its event and the blocks of
  its buffers are released, all other connections stay as they are; but the descriptor is closed
  twice, by \<open>CloseConn\<close> and again by the event's destructor.\<close>

theorem CloseConn_closes_twice:
  assumes "net_inv n" "svr_quiet srv" "GetConn n fd = Some fd"
  shows "\<exists>n1. CloseConn sys srv n fd = ret (n1, 0) \<and> net_inv n1 \<and> GetConn n1 fd = None \<and>
    (\<forall>fd'. fd' \<noteq> fd \<longrightarrow> GetConn n1 fd' = GetConn n fd') \<and>
    net_os n1 = sys_close sys (sys_close sys (net_os n) fd) fd"
  using assms by (rule CloseConn_inv)

lemma CloseConn_closes_twice_witness:
  "\<exists>n n1. on_accept close_sys quiet_server start_net 3 5 = ret n \<and>
     CloseConn close_sys quiet_server n 5 = ret (n1, 0) \<and> GetConn n1 5 = None \<and> net_os n1 = [5, 5]"
proof -
  obtain n where n: "on_accept close_sys quiet_server start_net 3 5 = ret n" "net_inv n" "GetConn n 5 = Some 5"
    "net_os n = []"
    using start_net_accept by blast
  show ?thesis
    using CloseConn_closes_twice [OF n(2) quiet_server_ok n(3), of close_sys] n(1,4) by (auto simp: close_sys_def)
qed

end
