(* ===== verification/Net_Message_Spec.thy ===== *)
theory Net_Message_Spec
  imports Net_Message Buffer_Event_Spec Loop_Queue_Spec
begin

text \<open>
  What \<open>NetMessage\<close> promises: the messages cut out of the received bytes are the ones the peer
  sent, the table of connections and the buffer events stay in step, queued messages go out in
  order.
\<close>

section \<open>One-block receive buffers\<close>

text \<open>
  \<open>Copy\<close> and \<open>Move\<close> deliver the right bytes as long as what is read lies in the head block; the
  lemmas here are for buffers of at most one block.
\<close>

lemma Move_single:
  assumes rep: "bb_rep s q ps" and one: "length ps \<le> 1"
    and n: "0 \<le> n" "n \<le> int (length (content ps))" "n \<le> int (length d)"
  shows "\<exists>s1 q1 ps1. Move s q (Some d) n =
      ret (s1, q1, Some (take (nat n) (content ps) @ drop (nat n) d), n) \<and>
    bb_rep s1 q1 ps1 \<and> length ps1 \<le> 1 \<and> content ps1 = drop (nat n) (content ps) \<and> evolves s ps s1 ps1"
proof -
  obtain s1 q1 ps1 where M: "Move s q (Some d) n =
      ret (s1, q1, map_option (delivered (lives ps) (nat n)) (Some d), min n (bb_totallen q))"
    "bb_rep s1 q1 ps1" "content ps1 = drop (nat n) (content ps)" "evolves s ps s1 ps1"
    using Move_rep [OF rep n(1), of "Some d"] n(3) by auto
  have t: "min n (bb_totallen q) = n" using rep n(2) by (simp add: bb_rep_def)
  have D: "delivered (lives ps) (nat n) d = take (nat n) (content ps) @ drop (nat n) d"
  proof (cases ps)
    case Nil
    then show ?thesis using n by simp
  next
    case (Cons p rest)
    then have "rest = []" using one by (cases rest) auto
    then show ?thesis using Cons n(2) by (simp add: delivered_head del: delivered.simps)
  qed
  show ?thesis
  proof (cases "n < int (length (content ps))")
    case False
    then have "content ps1 = []" using M(3) by simp
    then show ?thesis using M t D content_Nil_short [OF M(2)] by auto
  next
    case True
    then have "ps \<noteq> []" using n(1) by auto
    then obtain h b where ps: "ps = [(h, b)]" using one by (cases ps; cases "tl ps") auto
    have "block_ok b" using rep ps by (simp add: bb_rep_def last_ok_def)
    then have "n < used b" using True ps length_live by simp
    then show ?thesis
      using Move_within_head [OF rep [unfolded ps] n(1), of "Some d"] ps n(3)
      by (intro exI [of _ "put s h (b\<lparr>bk_rdpos := bk_rdpos b + n\<rparr>)"]
          exI [of _ "q\<lparr>bb_totallen := bb_totallen q - n\<rparr>"] exI [of _ "[(h, b\<lparr>bk_rdpos := bk_rdpos b + n\<rparr>)]"]) auto
  qed
qed

lemma Copy_single:
  assumes rep: "bb_rep s q ps" and one: "length ps \<le> 1" and d: "length d = 4"
  shows "\<exists>x. Copy s q d 4 = ret (x, min 4 (int (length (content ps)))) \<and>
    (4 \<le> length (content ps) \<longrightarrow> x = take 4 (content ps))"
proof -
  have C: "Copy s q d 4 = ret (delivered (lives ps) 4 d, min 4 (int (length (content ps))))"
    using Copy_rep [OF rep, of 4 d] d rep by (simp add: bb_rep_def)
  have "delivered (lives ps) 4 d = take 4 (content ps)" if "4 \<le> length (content ps)"
  proof -
    have "ps \<noteq> []" using that by auto
    then obtain h b where "ps = [(h, b)]" using one by (cases ps; cases "tl ps") auto
    then show ?thesis using that d by (simp add: delivered_head del: delivered.simps)
  qed
  with C show ?thesis by blast
qed

section \<open>A connection that receives\<close>

definition conn_ready :: "('os, 'app) net \<Rightarrow> int \<Rightarrow> byte list \<Rightarrow> bool" where
  "conn_ready n fd c \<longleftrightarrow>
     GetConn n fd = Some fd \<and> net_single n \<and> 0 \<le> net_maxMsglen n \<and> net_maxMsglen n \<le> 2 ^ 30 \<and>
     int (length (net_recvBuffer n)) = net_maxMsglen n \<and> length c < 2 ^ 31 \<and>
     (\<exists>h e ps. ci_bev (net_conns n fd) = Some h \<and> net_bevs n h = Some e \<and>
        bb_rep (net_store n) (be_recvBuffer e) ps \<and> length ps \<le> 1 \<and> content ps = c)"

text \<open>
  What is assumed of the server's \<open>OnRecvMsg\<close> here: it may do anything but change what this
  connection still has to receive; \<open>log\<close> stands for where it notes what it was given.
\<close>

definition handler_ok ::
  "('os, 'app) net server_calls \<Rightarrow> int \<Rightarrow> (('os, 'app) net \<Rightarrow> (int \<times> byte list \<times> bool) list) \<Rightarrow> bool" where
  "handler_ok srv fd log \<longleftrightarrow>
     (\<forall>n remote msg cli c. conn_ready n fd c \<longrightarrow>
        (\<exists>n1. svr_OnRecvMsg srv n fd remote msg cli = ret n1 \<and> conn_ready n1 fd c \<and>
           ci_ctype (net_conns n1 fd) = ci_ctype (net_conns n fd) \<and>
           ci_protocol (net_conns n1 fd) = ci_protocol (net_conns n fd) \<and>
           net_maxMsglen n1 = net_maxMsglen n \<and> log n1 = log n @ [(remote, msg, cli)]))"

text \<open>
  More generally: on messages of a kind \<open>P\<close>, in states with \<open>J\<close>, the server notes \<open>g\<close> of
  what it is given and keeps \<open>J\<close>.
\<close>

definition handler_on ::
  "('os, 'app) net server_calls \<Rightarrow> int \<Rightarrow> (('os, 'app) net \<Rightarrow> bool) \<Rightarrow> (byte list \<Rightarrow> bool \<Rightarrow> bool) \<Rightarrow>
     (int \<Rightarrow> byte list \<Rightarrow> bool \<Rightarrow> 'e list) \<Rightarrow> (('os, 'app) net \<Rightarrow> 'e list) \<Rightarrow> bool" where
  "handler_on srv fd J P g log \<longleftrightarrow>
     (\<forall>n remote msg cli c. conn_ready n fd c \<longrightarrow> J n \<longrightarrow> P msg cli \<longrightarrow>
        (\<exists>n1. svr_OnRecvMsg srv n fd remote msg cli = ret n1 \<and> conn_ready n1 fd c \<and>
           ci_ctype (net_conns n1 fd) = ci_ctype (net_conns n fd) \<and>
           ci_protocol (net_conns n1 fd) = ci_protocol (net_conns n fd) \<and>
           net_maxMsglen n1 = net_maxMsglen n \<and> J n1 \<and> log n1 = log n @ g remote msg cli))"

lemma handler_onD:
  assumes "handler_on srv fd J P g log" "conn_ready n fd c" "J n" "P msg cli"
  shows "\<exists>n1. svr_OnRecvMsg srv n fd remote msg cli = ret n1 \<and> conn_ready n1 fd c \<and>
    ci_ctype (net_conns n1 fd) = ci_ctype (net_conns n fd) \<and>
    ci_protocol (net_conns n1 fd) = ci_protocol (net_conns n fd) \<and>
    net_maxMsglen n1 = net_maxMsglen n \<and> J n1 \<and> log n1 = log n @ g remote msg cli"
  using assms unfolding handler_on_def by blast

lemma handler_ok_on:
  "handler_ok srv fd log \<Longrightarrow> handler_on srv fd (\<lambda>_. True) (\<lambda>_ _. True) (\<lambda>r m c. [(r, m, c)]) log"
  by (simp add: handler_ok_def handler_on_def)

text \<open>What looks only at the server's own part.\<close>

definition on_app :: "(('os, 'app) net \<Rightarrow> 'b) \<Rightarrow> bool" where
  "on_app g \<longleftrightarrow> (\<forall>n m. net_app n = net_app m \<longrightarrow> g n = g m)"

definition frame_ok :: "int \<Rightarrow> byte list \<Rightarrow> bool" where
  "frame_ok mx f \<longleftrightarrow> 4 \<le> length f \<and> be_val (take 4 f) = int (length f) \<and> int (length f) \<le> mx"

definition incomplete :: "int \<Rightarrow> byte list \<Rightarrow> bool" where
  "incomplete mx r \<longleftrightarrow>
     length r < 4 \<or> be_val (take 4 r) \<le> mx \<and> int (length r) < be_val (take 4 r)"

text \<open>Reading one whole frame off the buffer.\<close>

lemma read_frame:
  assumes x: "bb_rep s (be_recvBuffer e) ps" "length ps \<le> 1" "content ps = f @ rest" "length (f @ rest) < 2 ^ 31"
    and f: "frame_ok mx f" and d: "length f \<le> length d"
  shows "CopyReadBuff s e [0, 0, 0, 0] 4 = ret (take 4 f, 4) \<and> GetReadBuffLen s e = ret (int (length (f @ rest))) \<and>
    (\<exists>s1 q1 ps1. Read s e d (int (length f)) = ret (s1, e\<lparr>be_recvBuffer := q1\<rparr>, f @ drop (length f) d, int (length f)) \<and>
       bb_rep s1 q1 ps1 \<and> length ps1 \<le> 1 \<and> content ps1 = rest \<and> evolves s ps s1 ps1)"
proof -
  let ?q = "be_recvBuffer e" and ?L = "int (length f)"
  have f: "4 \<le> length f" using f by (simp add: frame_ok_def)
  obtain x4 where C: "Copy s ?q [0, 0, 0, 0] 4 = ret (x4, min 4 (int (length (content ps))))" "x4 = take 4 (content ps)"
    using Copy_single [OF x(1,2), of "[0, 0, 0, 0]"] f x(3) by auto
  have C4: "CopyReadBuff s e [0, 0, 0, 0] 4 = ret (take 4 f, 4)"
    using C x(3) f by (simp add: CopyReadBuff_def to_i32_id)
  have G: "GetReadBuffLen s e = ret (int (length (f @ rest)))"
    using GetTotalLen_rep [OF x(1)] x(3,4) by (simp add: GetReadBuffLen_def to_u64_id)
  obtain s1 q1 ps1 where M: "Move s ?q (Some d) ?L = ret (s1, q1, Some (f @ drop (length f) d), ?L)"
    "bb_rep s1 q1 ps1" "length ps1 \<le> 1" "content ps1 = rest" "evolves s ps s1 ps1"
    using Move_single [OF x(1,2), of ?L d] x(3) f d by auto
  have "Read s e d ?L = ret (s1, e\<lparr>be_recvBuffer := q1\<rparr>, f @ drop (length f) d, ?L)"
    using M(1) f by (cases f) (simp_all add: Read_def)
  then show ?thesis using C4 G M(2-5) by blast
qed

text \<open>The connection after a frame has been read off its buffer into the receive buffer.\<close>

definition frame_taken ::
  "('os, 'app) net \<Rightarrow> nat \<Rightarrow> buffer_event \<Rightarrow> block_store \<Rightarrow> block_buffer \<Rightarrow> byte list \<Rightarrow> ('os, 'app) net" where
  "frame_taken n p e s1 q1 f =
     (set_bev n (Some p) (e\<lparr>be_recvBuffer := q1\<rparr>))
       \<lparr>net_store := s1, net_recvBuffer := f @ drop (length f) (net_recvBuffer n)\<rparr>"

lemma frame_taken_simps [simp]:
  "net_conns (frame_taken n p e s1 q1 f) = net_conns n" "net_app (frame_taken n p e s1 q1 f) = net_app n"
  "net_maxMsglen (frame_taken n p e s1 q1 f) = net_maxMsglen n" "net_os (frame_taken n p e s1 q1 f) = net_os n"
  "net_maxfds (frame_taken n p e s1 q1 f) = net_maxfds n" "net_store (frame_taken n p e s1 q1 f) = s1"
  "net_single (frame_taken n p e s1 q1 f) = net_single n"
  "net_bevs (frame_taken n p e s1 q1 f) = (net_bevs n)(p \<mapsto> e\<lparr>be_recvBuffer := q1\<rparr>)"
  by (simp_all add: frame_taken_def set_bev_def)

text \<open>What reading a frame off a buffer does not change.\<close>

definition off_buffer :: "(('os, 'app) net \<Rightarrow> 'b) \<Rightarrow> bool" where
  "off_buffer g \<longleftrightarrow> (\<forall>n p e s1 q1 f. net_bevs n p = Some e \<longrightarrow> g (frame_taken n p e s1 q1 f) = g n)"

lemma on_app_off_buffer: "on_app g \<Longrightarrow> off_buffer g"
  unfolding on_app_def off_buffer_def by (metis frame_taken_simps(2))

lemma recv_msg_with:
  assumes x: "ci_bev (net_conns n fd) = Some p" "net_bevs n p = Some e" "GetConn n fd = Some fd" "net_single n"
      "net_maxMsglen n \<le> 2 ^ 30"
    and head: "CopyReadBuff (net_store n) e [0, 0, 0, 0] 4 = ret (xs, 4)" "be_val xs = l" "0 \<le> l" "l \<le> net_maxMsglen n"
    and len: "GetReadBuffLen (net_store n) e = ret t" "l \<le> t"
    and rd: "Read (net_store n) e (net_recvBuffer n) l = ret (s1, e1, buf, l1)"
  shows "recv_msg srv n fd remote =
    rbind (svr_OnRecvMsg srv ((set_bev n (Some p) e1)\<lparr>net_store := s1, net_recvBuffer := buf\<rparr>) fd remote (take (nat l) buf)
        (ci_ctype (net_conns n fd) \<noteq> CONN_TYPE_SVR)) (\<lambda>n1. ret (n1, l))"
proof -
  have cfd: "ci_fd (net_conns n fd) = fd" using x(3) by (simp add: GetConn_def split: if_splits)
  have mt: "((if ci_ctype (net_conns n fd) = CONN_TYPE_SVR then MT_SVR_MESSAGE else MT_CLI_MESSAGE)
      = MT_CLI_MESSAGE) = (ci_ctype (net_conns n fd) \<noteq> CONN_TYPE_SVR)"
    by (simp add: MT_SVR_MESSAGE_def MT_CLI_MESSAGE_def)
  have B: "get_bev n (ci_bev (net_conns n fd)) = ret e" using x(1,2) by (simp add: get_bev_def)
  have i: "to_i32 l = l" using head(3,4) x(5) by (intro to_i32_id) auto
  show ?thesis
    unfolding recv_msg_def Let_def cfd B rbind_ret head(1) prod.case
    using head(2-4) len rd x(1,4) mt i by simp
qed

lemma recv_msg_reads:
  assumes r: "conn_ready n fd (f @ rest)" and f: "frame_ok (net_maxMsglen n) f"
  shows "\<exists>p e s1 q1. ci_bev (net_conns n fd) = Some p \<and> net_bevs n p = Some e \<and>
    conn_ready (frame_taken n p e s1 q1 f) fd rest \<and>
    recv_msg srv n fd remote =
      rbind (svr_OnRecvMsg srv (frame_taken n p e s1 q1 f) fd remote f (ci_ctype (net_conns n fd) \<noteq> CONN_TYPE_SVR))
        (\<lambda>n1. ret (n1, int (length f)))"
proof -
  obtain p e ps where x: "ci_bev (net_conns n fd) = Some p" "net_bevs n p = Some e"
    "bb_rep (net_store n) (be_recvBuffer e) ps" "length ps \<le> 1" "content ps = f @ rest"
    and gc: "GetConn n fd = Some fd" "net_single n" "net_maxMsglen n \<le> 2 ^ 30"
      "int (length (net_recvBuffer n)) = net_maxMsglen n" "length (f @ rest) < 2 ^ 31"
    using r unfolding conn_ready_def by blast
  let ?s = "net_store n" and ?L = "int (length f)" and ?b = "net_recvBuffer n"
  have f: "4 \<le> length f" "be_val (take 4 f) = ?L" "?L \<le> net_maxMsglen n"
    using f by (auto simp: frame_ok_def)
  have "?L \<le> int (length ?b)" using f gc(4) by simp
  then have rf: "CopyReadBuff ?s e [0, 0, 0, 0] 4 = ret (take 4 f, 4) \<and> GetReadBuffLen ?s e = ret (int (length (f @ rest))) \<and>
    (\<exists>s1 q1 ps1. Read ?s e ?b ?L = ret (s1, e\<lparr>be_recvBuffer := q1\<rparr>, f @ drop (length f) ?b, ?L) \<and>
       bb_rep s1 q1 ps1 \<and> length ps1 \<le> 1 \<and> content ps1 = rest \<and> evolves ?s ps s1 ps1)"
    using f by (intro read_frame [OF x(3-5) gc(5), of "net_maxMsglen n"]) (auto simp: frame_ok_def)
  then obtain s1 q1 ps1 where R: "Read ?s e ?b ?L = ret (s1, e\<lparr>be_recvBuffer := q1\<rparr>, f @ drop (length f) ?b, ?L)"
    and M: "bb_rep s1 q1 ps1" "length ps1 \<le> 1" "content ps1 = rest"
    by blast
  from rf have C4: "CopyReadBuff ?s e [0, 0, 0, 0] 4 = ret (take 4 f, 4)"
    and G: "GetReadBuffLen ?s e = ret (int (length (f @ rest)))"
    by simp_all
  let ?n = "frame_taken n p e s1 q1 f"
  have ready: "conn_ready ?n fd rest"
    unfolding conn_ready_def
  proof (intro conjI exI)
    show "int (length (net_recvBuffer ?n)) = net_maxMsglen ?n" using f gc(4) by (simp add: frame_taken_def set_bev_def)
  qed (use r gc x M in \<open>auto simp: GetConn_def conn_ready_def split: if_splits\<close>)
  have "recv_msg srv n fd remote =
      rbind (svr_OnRecvMsg srv ?n fd remote f (ci_ctype (net_conns n fd) \<noteq> CONN_TYPE_SVR)) (\<lambda>n1. ret (n1, ?L))"
    using recv_msg_with [OF x(1,2) gc(1,2,3) C4 f(2) _ f(3) G _ R, of srv remote] by (simp add: frame_taken_def)
  with x(1,2) ready show ?thesis by blast
qed

lemma recv_msg_frame:
  assumes h: "handler_on srv fd J P g log" "on_app log" "off_buffer J" and r: "conn_ready n fd (f @ rest)" "J n"
    and f: "frame_ok (net_maxMsglen n) f" "P f (ci_ctype (net_conns n fd) \<noteq> CONN_TYPE_SVR)"
  shows "\<exists>n1. recv_msg srv n fd remote = ret (n1, int (length f)) \<and> conn_ready n1 fd rest \<and>
    ci_ctype (net_conns n1 fd) = ci_ctype (net_conns n fd) \<and>
    ci_protocol (net_conns n1 fd) = ci_protocol (net_conns n fd) \<and>
    net_maxMsglen n1 = net_maxMsglen n \<and> J n1 \<and>
    log n1 = log n @ g remote f (ci_ctype (net_conns n fd) \<noteq> CONN_TYPE_SVR)"
proof -
  obtain p e s1 q1 where b: "net_bevs n p = Some e" and x: "conn_ready (frame_taken n p e s1 q1 f) fd rest"
    "recv_msg srv n fd remote =
      rbind (svr_OnRecvMsg srv (frame_taken n p e s1 q1 f) fd remote f (ci_ctype (net_conns n fd) \<noteq> CONN_TYPE_SVR))
        (\<lambda>n1. ret (n1, int (length f)))"
    using recv_msg_reads [OF r(1) f(1)] by blast
  let ?n = "frame_taken n p e s1 q1 f"
  have "J ?n = J n" by (rule h(3) [unfolded off_buffer_def, rule_format, OF b])
  then have Jn: "J ?n" using r(2) by blast
  have l: "log ?n = log n" by (rule on_app_off_buffer [OF h(2), unfolded off_buffer_def, rule_format, OF b])
  from handler_onD [where P = P, OF h(1) x(1) Jn f(2), of remote] show ?thesis unfolding x(2) l
    by (elim exE conjE) (simp add: frame_taken_simps)
qed

lemma recv_msg_stops:
  assumes x: "ci_bev (net_conns n fd) = Some p" "net_bevs n p = Some e"
    "bb_rep (net_store n) (be_recvBuffer e) ps" "length ps \<le> 1" "content ps = c" "length c < 2 ^ 31"
    and i: "incomplete (net_maxMsglen n) c"
  shows "\<exists>k. recv_msg srv n fd remote = ret (n, k) \<and> k \<le> 0"
proof -
  let ?s = "net_store n"
  obtain x4 where C: "Copy ?s (be_recvBuffer e) [0, 0, 0, 0] 4 = ret (x4, min 4 (int (length c)))"
    "4 \<le> length c \<longrightarrow> x4 = take 4 c"
    using Copy_single [OF x(3,4), of "[0, 0, 0, 0]"] x(5) by auto
  have C4: "CopyReadBuff ?s e [0, 0, 0, 0] 4 = ret (x4, min 4 (int (length c)))"
    using C by (simp add: CopyReadBuff_def to_i32_id)
  have G: "GetReadBuffLen ?s e = ret (int (length c))"
    using GetTotalLen_rep [OF x(3)] x(5,6) by (simp add: GetReadBuffLen_def to_u64_id)
  have B: "get_bev n (ci_bev (net_conns n fd)) = ret e" using x(1,2) by (simp add: get_bev_def)
  show ?thesis
    unfolding recv_msg_def Let_def B rbind_ret C4 prod.case
    using i C(2) G by (auto simp: incomplete_def)
qed

lemma recv_msg_incomplete:
  assumes r: "conn_ready n fd c" and i: "incomplete (net_maxMsglen n) c"
  shows "\<exists>k. recv_msg srv n fd remote = ret (n, k) \<and> k \<le> 0"
  using r recv_msg_stops [OF _ _ _ _ _ _ i] unfolding conn_ready_def by blast

lemma recv_all_frames:
  assumes h: "handler_on srv fd J P g log" "on_app log" "off_buffer J"
  shows "conn_ready n fd (concat fs @ rest) \<Longrightarrow> \<forall>f \<in> set fs. frame_ok (net_maxMsglen n) f \<Longrightarrow>
    incomplete (net_maxMsglen n) rest \<Longrightarrow> J n \<Longrightarrow>
    \<forall>f \<in> set fs. P f (ci_ctype (net_conns n fd) \<noteq> CONN_TYPE_SVR) \<Longrightarrow>
    \<exists>n1. recv_all srv n fd remote = ret n1 \<and> conn_ready n1 fd rest \<and> J n1 \<and>
      log n1 = log n @ concat (map (\<lambda>f. g (if ci_protocol (net_conns n fd) = IOEV_TCP_PROTOCOL then 0 else remote) f
        (ci_ctype (net_conns n fd) \<noteq> CONN_TYPE_SVR)) fs)"
proof (induction fs arbitrary: n)
  case Nil
  then have r: "conn_ready n fd rest" by simp
  obtain k k' where "recv_msg srv n fd remote = ret (n, k)" "k \<le> 0" "recv_msg srv n fd 0 = ret (n, k')" "k' \<le> 0"
    using recv_msg_incomplete [OF r Nil(3)] by meson
  then show ?case using r Nil(4)
    by (subst recv_all.simps) (auto simp: recvTcpMsg_def recvUdpMsg_def)
next
  case (Cons f fs)
  let ?r = "if ci_protocol (net_conns n fd) = IOEV_TCP_PROTOCOL then 0 else remote"
  have f: "frame_ok (net_maxMsglen n) f" and r: "conn_ready n fd (f @ concat fs @ rest)"
    and Pf: "P f (ci_ctype (net_conns n fd) \<noteq> CONN_TYPE_SVR)"
    using Cons.prems by simp_all
  obtain n1 where n1: "recv_msg srv n fd ?r = ret (n1, int (length f))" "conn_ready n1 fd (concat fs @ rest)"
    "ci_ctype (net_conns n1 fd) = ci_ctype (net_conns n fd)"
    "ci_protocol (net_conns n1 fd) = ci_protocol (net_conns n fd)"
    "net_maxMsglen n1 = net_maxMsglen n" "J n1"
    "log n1 = log n @ g ?r f (ci_ctype (net_conns n fd) \<noteq> CONN_TYPE_SVR)"
    using recv_msg_frame [where P = P, OF h r Cons.prems(4) f Pf, of ?r] by blast
  have "0 < length f" using f by (auto simp: frame_ok_def)
  then have step: "recv_all srv n fd remote = recv_all srv n1 fd remote"
    using n1(1) by (subst recv_all.simps)
      (cases "ci_protocol (net_conns n fd) = IOEV_TCP_PROTOCOL"; simp add: recvTcpMsg_def recvUdpMsg_def)
  have "\<forall>f \<in> set fs. frame_ok (net_maxMsglen n1) f" "incomplete (net_maxMsglen n1) rest"
    "\<forall>f \<in> set fs. P f (ci_ctype (net_conns n1 fd) \<noteq> CONN_TYPE_SVR)"
    using Cons.prems n1(3,5) by simp_all
  from Cons.IH [OF n1(2) this(1,2) n1(6) this(3)] show ?case using step n1(3,4,7) by auto
qed

section \<open>Messages\<close>

text \<open>A connection whose receive buffer is one block holding any number of whole frames and
  part of another: one call of the read callback hands the server exactly those frames, each
  once and in order, with the peer's address for UDP, marked as a client's or a server's; what
  stays in the buffer is the incomplete one.\<close>

theorem RecvMsg_cuts_frames:
  assumes "handler_ok srv fd log" "on_app log" "conn_ready n fd (concat fs @ rest)"
    "\<forall>f \<in> set fs. frame_ok (net_maxMsglen n) f" "incomplete (net_maxMsglen n) rest"
  shows "\<exists>n1. RecvMsg srv n fd remote = ret (n1, 0) \<and> conn_ready n1 fd rest \<and>
    log n1 = log n @ map (\<lambda>f. (if ci_protocol (net_conns n fd) = IOEV_TCP_PROTOCOL then 0 else remote, f,
      ci_ctype (net_conns n fd) \<noteq> CONN_TYPE_SVR)) fs"
proof -
  have "GetConn n fd = Some fd" using assms(3) by (simp add: conn_ready_def)
  moreover have "off_buffer (\<lambda>_ :: ('a, 'b) net. True)" by (simp add: off_buffer_def)
  ultimately show ?thesis
    using recv_all_frames [OF handler_ok_on [OF assms(1)] assms(2) _ assms(3-5), of remote]
    by (auto simp: RecvMsg_def concat_map_singleton)
qed

text \<open>For the witnesses: a server that notes what it is given, and one connection on descriptor 5.\<close>

definition noting :: "('os, (int \<times> byte list \<times> bool) list) net server_calls" where
  "noting = \<lparr>svr_OnRecvMsg = (\<lambda>n fd remote msg cli. ret (n\<lparr>net_app := net_app n @ [(remote, msg, cli)]\<rparr>)),
     svr_OnCliConnected = (\<lambda>n fd. ret n), svr_OnCliClosed = (\<lambda>n fd. ret n), svr_OnSvrClosed = (\<lambda>n fd. ret n)\<rparr>"

lemma noting_ok: "handler_ok noting fd net_app" "on_app net_app"
  by (auto simp: handler_ok_def noting_def conn_ready_def GetConn_def on_app_def)

definition block_of :: "byte list \<Rightarrow> buffer_block" where
  "block_of xs = \<lparr>bk_buf = mwrite (\<lambda>_. 0) 0 xs, bk_len = 512, bk_rlen = 512, bk_rdpos = 0,
     bk_wrpos = int (length xs), bk_next = None\<rparr>"

definition net_at5 :: "'app \<Rightarrow> int \<Rightarrow> byte list \<Rightarrow> (unit, 'app) net" where
  "net_at5 app proto xs =
     (let e = (SetCb (new_BufferEventEv proto 5) True True True)
            \<lparr>be_evwr := Some False,
             be_recvBuffer := \<lparr>bb_head = Some 0, bb_tail = Some 0, bb_totallen = int (length xs)\<rparr>\<rparr>
      in (new_NetMessage () (store_of [(0, block_of xs)]) 64 16 True (replicate 64 0) new_LoopQueue app)
           \<lparr>net_bevs := [0 \<mapsto> e], net_brk := 1,
            net_conns := (\<lambda>_. \<lparr>ci_fd = -1, ci_ctype = 0, ci_protocol = 0, ci_bev = None\<rparr>)
              (5 := \<lparr>ci_fd = 5, ci_ctype = CONN_TYPE_CLI, ci_protocol = proto, ci_bev = Some 0\<rparr>)\<rparr>)"

definition net5 :: "int \<Rightarrow> byte list \<Rightarrow> (unit, (int \<times> byte list \<times> bool) list) net" where
  "net5 = net_at5 []"

text \<open>A system where nothing arrives, streams are busy and datagrams go out.\<close>

definition udp_sys :: "unit sys" where
  "udp_sys =
     \<lparr>sys_ioctl = (\<lambda>os fd. (os, None)), sys_recv = (\<lambda>os fd n. (os, Inl EAGAIN)),
      sys_recvfrom = (\<lambda>os fd n. (os, Inl EAGAIN, 0, 0)), sys_send = (\<lambda>os fd xs. (os, -1, EAGAIN)),
      sys_sendto = (\<lambda>os fd xs a p. (os, int (length xs))), sys_close = (\<lambda>os fd. os)\<rparr>"

lemma live_block_of: "live (block_of xs) = xs"
  by (simp add: live_def used_def block_of_def mread_mwrite_same)

lemma bb_rep_net5:
  assumes "xs \<noteq> []" "length xs \<le> 512"
  shows "bb_rep (store_of [(0, block_of xs)])
    \<lparr>bb_head = Some 0, bb_tail = Some 0, bb_totallen = int (length xs)\<rparr> [(0, block_of xs)]"
  using assms unfolding bb_rep_def links_def
  by (simp add: store_of_def store_ok_def pooled_def live_block_of)
    (simp add: block_of_def last_ok_def block_ok_def sized_def)

lemma net_at5_ready:
  assumes "xs \<noteq> []" "length xs \<le> 512"
  shows "conn_ready (net_at5 app proto xs) 5 xs"
  using bb_rep_net5 [OF assms] assms unfolding conn_ready_def
  by (auto simp: net_at5_def Let_def new_NetMessage_def GetConn_def to_u32_id live_block_of
      intro!: exI [of _ "[(0, block_of xs)]"])

lemma net5_ready: "xs \<noteq> [] \<Longrightarrow> length xs \<le> 512 \<Longrightarrow> conn_ready (net5 proto xs) 5 xs"
  unfolding net5_def by (rule net_at5_ready)

lemma RecvMsg_cuts_frames_witness:
  "\<exists>n1. RecvMsg noting (net5 IOEV_UDP_PROTOCOL ([0, 0, 0, 5, 9] @ [0, 0, 0, 4] @ [0, 0])) 5 77 = ret (n1, 0) \<and>
     conn_ready n1 5 [0, 0] \<and> net_app n1 = [(77, [0, 0, 0, 5, 9], True), (77, [0, 0, 0, 4], True)]"
proof -
  let ?n = "net5 IOEV_UDP_PROTOCOL ([0, 0, 0, 5, 9] @ [0, 0, 0, 4] @ [0, 0])"
  have r: "conn_ready ?n 5 (concat [[0, 0, 0, 5, 9], [0, 0, 0, 4]] @ [0, 0])"
    using net5_ready [of "[0, 0, 0, 5, 9] @ [0, 0, 0, 4] @ [0, 0]" IOEV_UDP_PROTOCOL] by simp
  have m: "net_maxMsglen ?n = 64" by (simp add: net5_def net_at5_def new_NetMessage_def Let_def to_u32_id)
  have "be_val [0, 0, 0, 5] = 5" "be_val [0, 0, 0, 4] = 4" by (simp_all add: be_val_def)
  then have f: "\<forall>f \<in> set [[0, 0, 0, 5, 9], [0, 0, 0, 4]]. frame_ok (net_maxMsglen ?n) f"
    using m by (simp add: frame_ok_def)
  have "incomplete (net_maxMsglen ?n) [0, 0]" by (simp add: incomplete_def)
  from RecvMsg_cuts_frames [OF noting_ok r f this, of 77] show ?thesis
    by (simp add: net5_def net_at5_def Let_def new_NetMessage_def IOEV_UDP_PROTOCOL_def IOEV_TCP_PROTOCOL_def
        CONN_TYPE_CLI_def CONN_TYPE_SVR_def)
qed

text \<open>A frame that announces length 0 makes the process abort: \<open>Read\<close> asserts a positive size.\<close>

theorem zero_frame_aborts:
  assumes "conn_ready n fd c" "4 \<le> length c" "be_val (take 4 c) = 0"
  shows "RecvMsg srv n fd remote = fail Assert_failed"
proof -
  obtain p e ps where x: "ci_bev (net_conns n fd) = Some p" "net_bevs n p = Some e"
    "bb_rep (net_store n) (be_recvBuffer e) ps" "length ps \<le> 1" "content ps = c"
    and g: "length c < 2 ^ 31" "GetConn n fd = Some fd" "net_single n" "0 \<le> net_maxMsglen n"
    using assms(1) unfolding conn_ready_def by blast
  let ?s = "net_store n"
  have "Copy ?s (be_recvBuffer e) [0, 0, 0, 0] 4 = ret (take 4 c, 4)"
    using Copy_single [OF x(3,4), of "[0, 0, 0, 0]"] x(5) assms(2) by auto
  then have C4: "CopyReadBuff ?s e [0, 0, 0, 0] 4 = ret (take 4 c, 4)"
    by (simp add: CopyReadBuff_def to_i32_id)
  have G: "GetReadBuffLen ?s e = ret (int (length c))"
    using GetTotalLen_rep [OF x(3)] x(5) g by (simp add: GetReadBuffLen_def to_u64_id)
  have B: "get_bev n (ci_bev (net_conns n fd)) = ret e" using x(1,2) by (simp add: get_bev_def)
  have "recv_msg srv n fd r = fail Assert_failed" for r
    unfolding recv_msg_def Let_def B rbind_ret C4 prod.case
    using G assms(3) g by (simp add: Read_def)
  then have "recv_all srv n fd remote = fail Assert_failed"
    by (subst recv_all.simps) (simp add: recvTcpMsg_def recvUdpMsg_def)
  then show ?thesis using g(2) by (simp add: RecvMsg_def)
qed

lemma zero_frame_aborts_witness:
  "RecvMsg noting (net5 IOEV_TCP_PROTOCOL [0, 0, 0, 0]) 5 0 = fail Assert_failed"
  by (rule zero_frame_aborts [OF net5_ready]) (simp_all add: be_val_def)

text \<open>C39. A frame longer than the configured maximum is neither handed on nor dropped: the call
  changes nothing, so the connection delivers nothing more however much arrives.\<close>

theorem oversize_frame_blocks:
  assumes "conn_ready n fd c" "4 \<le> length c" "net_maxMsglen n < be_val (take 4 c)"
  shows "RecvMsg srv n fd remote = ret (n, 0)"
proof -
  obtain p e ps where x: "ci_bev (net_conns n fd) = Some p" "net_bevs n p = Some e"
    "bb_rep (net_store n) (be_recvBuffer e) ps" "length ps \<le> 1" "content ps = c"
    and g: "GetConn n fd = Some fd"
    using assms(1) unfolding conn_ready_def by blast
  have "Copy (net_store n) (be_recvBuffer e) [0, 0, 0, 0] 4 = ret (take 4 c, 4)"
    using Copy_single [OF x(3,4), of "[0, 0, 0, 0]"] x(5) assms(2) by auto
  then have C4: "CopyReadBuff (net_store n) e [0, 0, 0, 0] 4 = ret (take 4 c, 4)"
    by (simp add: CopyReadBuff_def to_i32_id)
  have B: "get_bev n (ci_bev (net_conns n fd)) = ret e" using x(1,2) by (simp add: get_bev_def)
  have "recv_msg srv n fd r = ret (n, -1)" for r
    unfolding recv_msg_def Let_def B rbind_ret C4 prod.case using assms(3) by simp
  then have "recv_all srv n fd remote = ret n"
    by (subst recv_all.simps) (simp add: recvTcpMsg_def recvUdpMsg_def)
  then show ?thesis using g by (simp add: RecvMsg_def)
qed

lemma oversize_frame_blocks_witness:
  "RecvMsg noting (net5 IOEV_TCP_PROTOCOL [0, 0, 1, 0]) 5 0 = ret (net5 IOEV_TCP_PROTOCOL [0, 0, 1, 0], 0)"
  by (rule oversize_frame_blocks [OF net5_ready])
    (simp_all add: be_val_def net5_def net_at5_def new_NetMessage_def Let_def to_u32_id)

section \<open>Connections made\<close>

text \<open>
  A connection made with \<open>Connect\<close> cannot be written to: its event gets neither callbacks nor
  watchers, and the first message sent on it uses a null watcher.
\<close>

lemma Connect_fresh:
  assumes "0 < fd" "fd < net_maxfds n" "ci_fd (net_conns n fd) \<le> 0"
  shows "Connect sys srv n protocol (Some fd) =
    ret (n\<lparr>net_bevs := (net_bevs n)(net_brk n \<mapsto> new_BufferEventEv protocol fd), net_brk := Suc (net_brk n),
           net_conns := (net_conns n)(fd := \<lparr>ci_fd = fd, ci_ctype = CONN_TYPE_SVR,
             ci_protocol = protocol, ci_bev = Some (net_brk n)\<rparr>)\<rparr>, fd)"
  using assms by (simp add: Connect_def NewBufferEvent_def OpenConn_def)

lemma SendMsg_not_enabled:
  assumes "GetConn n fd = Some fd" "ci_bev (net_conns n fd) = Some h"
    "net_bevs n h = Some (new_BufferEventEv IOEV_TCP_PROTOCOL fd)" "store_ok (net_store n)" "msg \<noteq> []"
  shows "SendMsg sys srv n fd remote msg = fail Null_pointer"
proof -
  let ?e = "new_BufferEventEv IOEV_TCP_PROTOCOL fd"
  have e: "be_sendBuffer ?e = new_BlockBuffer" "be_evwr ?e = None" "be_protocol ?e = IOEV_TCP_PROTOCOL" "be_fd ?e = fd"
    by (simp_all add: new_BufferEventEv_def)
  have "Write sys (net_os n) (net_store n) ?e remote msg = fail Null_pointer"
    using e bb_rep_new [OF assms(4)] assms(5) by (intro Write_not_enabled [where ps = "[]"]) simp_all
  then show ?thesis using assms(1-3) e(4) by (simp add: SendMsg_def get_bev_def Let_def)
qed

section \<open>Queued messages\<close>

text \<open>Send messages one after the other.\<close>

fun send_each ::
  "'os sys \<Rightarrow> ('os, 'app) net server_calls \<Rightarrow> ('os, 'app) net \<Rightarrow> message list \<Rightarrow> ('os, 'app) net run" where
  "send_each sys srv n [] = ret n"
| "send_each sys srv n (m # ms) =
     rbind (if msg_type m = MT_SVR_MESSAGE \<or> msg_type m = MT_CLI_MESSAGE
            then rbind (SendMsg sys srv n (msg_fd m) (msg_remote m) (msg_data m)) (\<lambda>(n1, _). ret n1)
            else ret n) (\<lambda>n1. send_each sys srv n1 ms)"

lemma send_each_append:
  "send_each sys srv n (ms @ ms') = rbind (send_each sys srv n ms) (\<lambda>n1. send_each sys srv n1 ms')"
  by (induction ms arbitrary: n) (simp_all add: rbind_assoc)

lemma OnSendMsgEvent_each:
  assumes "lq_rep q ms" "send_each sys srv n ms = ret n1"
  shows "\<exists>q1. OnSendMsgEvent sys srv n q = ret (n1, q1) \<and> lq_rep q1 []"
  using assms
proof (induction ms arbitrary: q n)
  case Nil
  then have "TakeBlock q = ret (q, None)" by (intro TakeBlock_Nil)
  then have "FrontBlock q = ret (q, None)"
    by (auto simp: TakeBlock_def rbind_eq_ret split: option.splits)
  then show ?case using Nil by (subst OnSendMsgEvent.simps) simp
next
  case (Cons m ms)
  obtain q1 where T: "TakeBlock q = ret (q1, Some m)" "lq_rep q1 ms"
    using TakeBlock_Cons [OF Cons.prems(1)] by blast
  obtain q0 off where F: "FrontBlock q = ret (q0, Some off)" "read_block q0 off = ret m"
    "q1 = PopBlock q0 (bt_len (lq_buff q0) off)"
    using T(1) by (auto simp: TakeBlock_def rbind_eq_ret split: option.splits)
  obtain n2 where S: "(if msg_type m = MT_SVR_MESSAGE \<or> msg_type m = MT_CLI_MESSAGE
      then rbind (SendMsg sys srv n (msg_fd m) (msg_remote m) (msg_data m)) (\<lambda>(n1, _). ret n1)
      else ret n) = ret n2" "send_each sys srv n2 ms = ret n1"
    using Cons.prems(2) unfolding send_each.simps rbind_eq_ret by blast
  have "OnSendMsgEvent sys srv n q = OnSendMsgEvent sys srv n2 q1"
    using F S(1) by (subst OnSendMsgEvent.simps) simp
  then show ?case using Cons.IH [OF T(2) S(2)] by simp
qed

text \<open>When the workers' event comes, \<open>OnSendMsgEvent\<close> sends all messages waiting in the send
  queue, in the order in which they were queued, and leaves the queue empty.\<close>

theorem OnSendMsgEvent_sends_all:
  assumes "lq_rep q ms" "send_each sys srv n ms = ret n1"
  shows "\<exists>q1. OnSendMsgEvent sys srv n q = ret (n1, q1) \<and> lq_rep q1 []"
  using assms by (rule OnSendMsgEvent_each)

lemma sendto_loop_udp_sys:
  "data \<noteq> [] \<Longrightarrow> length data < 2 ^ 63 \<Longrightarrow> sendto_loop udp_sys os fd data a p 0 = Some os"
  by (simp add: sendto_loop.simps [of _ _ _ _ _ _ 0] sendto_loop.simps [of _ _ _ _ _ _ "int (length data)"]
      udp_sys_def to_u64_id)

lemma SendMsg_udp_sys:
  assumes "msg \<noteq> []" "length msg < 2 ^ 63"
  shows "SendMsg udp_sys srv (net_at5 app IOEV_UDP_PROTOCOL xs) 5 remote msg
    = ret (net_at5 app IOEV_UDP_PROTOCOL xs, 0)"
  using assms sendto_loop_udp_sys [OF assms]
  by (simp add: SendMsg_def GetConn_def net_at5_def new_NetMessage_def Let_def get_bev_def
      set_bev_def Write_def sendUdpData_def new_BufferEventEv_def SetCb_def IOEV_UDP_PROTOCOL_def
      IOEV_TCP_PROTOCOL_def event_callback_def)

lemma OnSendMsgEvent_sends_all_witness:
  "\<exists>q1. OnSendMsgEvent udp_sys noting (net5 IOEV_UDP_PROTOCOL [1]) (stored queue60 (sample_msg 5 10))
      = ret (net5 IOEV_UDP_PROTOCOL [1], q1) \<and> lq_rep q1 []"
proof (rule OnSendMsgEvent_sends_all [OF lq_rep_stored5])
  show "send_each udp_sys noting (net5 IOEV_UDP_PROTOCOL [1]) [sample_msg 5 10] = ret (net5 IOEV_UDP_PROTOCOL [1])"
    by (simp add: SendMsg_udp_sys sample_msg_def net5_def)
qed

end
