(* ===== verification/Net_Queue.thy ===== *)
theory Net_Queue
  imports Net_Message_Spec
begin

text \<open>
  Receiving in a server with workers: \<open>NetMessage\<close> reads each frame straight into the buffer of
  the receive queue (\<open>BufferForPush\<close>, \<open>Read\<close>, \<open>PushFinish\<close>).  That is as good as reading it and
  pushing it with \<open>Push\<close>; when the queue is full the frame stays in the receive buffer.
\<close>

definition conn_queued :: "('os, 'app) net \<Rightarrow> int \<Rightarrow> byte list \<Rightarrow> bool" where
  "conn_queued n fd c \<longleftrightarrow>
     GetConn n fd = Some fd \<and> \<not> net_single n \<and> net_maxMsglen n \<le> 2 ^ 30 \<and> length c < 2 ^ 31 \<and>
     (\<exists>h e ps. ci_bev (net_conns n fd) = Some h \<and> net_bevs n h = Some e \<and>
        bb_rep (net_store n) (be_recvBuffer e) ps \<and> length ps \<le> 1 \<and> content ps = c)"

text \<open>The message a frame becomes.\<close>

definition frame_msg :: "('os, 'app) net \<Rightarrow> int \<Rightarrow> int \<Rightarrow> byte list \<Rightarrow> message" where
  "frame_msg n fd remote f =
     \<lparr>msg_fd = fd, msg_remote = remote,
      msg_type = (if ci_ctype (net_conns n fd) = CONN_TYPE_SVR then MT_SVR_MESSAGE else MT_CLI_MESSAGE),
      msg_data = f\<rparr>"

text \<open>What receiving leaves as it is: the system, the connections, and all of the socket's event but its
  receive buffer.\<close>

definition kept :: "('os, 'app) net \<Rightarrow> ('os, 'app) net \<Rightarrow> int \<Rightarrow> bool" where
  "kept n n1 fd \<longleftrightarrow>
     net_app n1 = net_app n \<and> net_os n1 = net_os n \<and> net_conns n1 = net_conns n \<and> net_maxMsglen n1 = net_maxMsglen n \<and>
     (\<forall>h e. ci_bev (net_conns n fd) = Some h \<longrightarrow> net_bevs n h = Some e \<longrightarrow>
        (\<exists>q. net_bevs n1 h = Some (e\<lparr>be_recvBuffer := q\<rparr>)))"

lemma recvBuffer_same [simp]: "\<exists>q. e = e\<lparr>be_recvBuffer := q\<rparr>" for e :: buffer_event
  by (rule exI [of _ "be_recvBuffer e"]) simp

lemma kept_refl [simp]: "kept n n fd"
  by (auto simp: kept_def)

lemma kept_trans:
  assumes "kept n n1 fd" "kept n1 n2 fd"
  shows "kept n n2 fd"
proof -
  have "\<exists>q. net_bevs n2 h = Some (e\<lparr>be_recvBuffer := q\<rparr>)" if h: "ci_bev (net_conns n fd) = Some h" "net_bevs n h = Some e" for h e
  proof -
    obtain q where "net_bevs n1 h = Some (e\<lparr>be_recvBuffer := q\<rparr>)" using assms(1) h by (auto simp: kept_def)
    then have "\<exists>q'. net_bevs n2 h = Some (e\<lparr>be_recvBuffer := q\<rparr>\<lparr>be_recvBuffer := q'\<rparr>)"
      using assms h by (simp add: kept_def)
    then show ?thesis by simp
  qed
  then show ?thesis using assms by (simp add: kept_def)
qed

text \<open>The queue accepts messages one after the other, each push being safe.\<close>

fun accepts :: "loop_queue \<Rightarrow> message list \<Rightarrow> loop_queue \<Rightarrow> bool" where
  "accepts q [] q' \<longleftrightarrow> q' = q"
| "accepts q (m # ms) q' \<longleftrightarrow> push_safe q m \<and> (\<exists>q1. PushMsg q m = ret (q1, True) \<and> accepts q1 ms q')"

lemma accepts_rep: "lq_rep q ms0 \<Longrightarrow> accepts q ms q' \<Longrightarrow> lq_rep q' (ms0 @ ms)"
proof (induction ms arbitrary: q ms0)
  case (Cons m ms)
  then obtain q1 where "PushMsg q m = ret (q1, True)" "accepts q1 ms q'" "push_safe q m" by auto
  then show ?case using PushMsg_rep [OF Cons.prems(1)] Cons.IH [of q1 "ms0 @ [m]"] by fastforce
qed simp

lemma PushMsg_parts:
  assumes "PushMsg q m = ret (q1, ok)" "msg_data m \<noteq> []"
  shows "\<exists>q0 b. BufferForPush q (msg_fd m) (msg_remote m) (msg_type m) (int (length (msg_data m))) = ret (q0, b) \<and>
    (case b of None \<Rightarrow> \<not> ok \<and> q1 = q0
     | Some off \<Rightarrow> ok \<and> (\<exists>q2. buff_write q0 off (msg_data m) = ret q2 \<and> q1 = PushFinish q2 (int (length (msg_data m)))))"
proof -
  obtain q0 b where B: "BufferForPush q (msg_fd m) (msg_remote m) (msg_type m) (int (length (msg_data m))) = ret (q0, b)"
    using assms(1) by (auto simp: PushMsg_def Push_def rbind_eq_ret)
  show ?thesis using assms by (cases b) (auto simp: PushMsg_def Push_def B rbind_eq_ret)
qed

text \<open>One call, when a whole frame is there.\<close>

lemma recv_msg_pushing:
  assumes x: "ci_bev (net_conns n fd) = Some p" "net_bevs n p = Some e" "GetConn n fd = Some fd" "\<not> net_single n" "net_maxMsglen n \<le> 2 ^ 30"
    and f: "frame_ok (net_maxMsglen n) f" "CopyReadBuff (net_store n) e [0, 0, 0, 0] 4 = ret (take 4 f, 4)"
      "GetReadBuffLen (net_store n) e = ret (int (length (f @ rest)))"
  shows "recv_msg srv n fd remote = rbind (BufferForPush (net_recvQue n) fd remote (msg_type (frame_msg n fd remote f)) (int (length f)))
    (\<lambda>(q1, buffer).
        case buffer of
          None \<Rightarrow> ret (n\<lparr>net_recvQue := q1\<rparr>, -1)
        | Some off \<Rightarrow>
            rbind (Read (net_store n) e (mread (lq_buff q1) off (int (length f))) (int (length f))) (\<lambda>(s1, bev1, buf, _).
              rbind (buff_write q1 off buf) (\<lambda>q2.
                ret ((set_bev n (Some p) bev1)\<lparr>net_store := s1, net_recvQue := PushFinish q2 (int (length f))\<rparr>, int (length f)))))"
proof -
  have F: "4 \<le> length f" "be_val (take 4 f) = int (length f)" "int (length f) \<le> net_maxMsglen n" using f(1) by (auto simp: frame_ok_def)
  then have i: "to_i32 (int (length f)) = int (length f)" using x(5) by (intro to_i32_id) auto
  have cfd: "ci_fd (net_conns n fd) = fd" using x(3) by (simp add: GetConn_def split: if_splits)
  have gb: "get_bev n (ci_bev (net_conns n fd)) = ret e" using x(1,2) by (simp add: get_bev_def)
  have mt: "(if ci_ctype (net_conns n fd) = CONN_TYPE_SVR then MT_SVR_MESSAGE else MT_CLI_MESSAGE) = msg_type (frame_msg n fd remote f)"
    by (simp add: frame_msg_def)
  show ?thesis
    unfolding recv_msg_def Let_def cfd gb rbind_ret f(2) prod.case
    using F f(3) x(1,4) i mt by simp
qed

lemma recv_msg_queue:
  assumes r: "conn_queued n fd (f @ rest)" and f: "frame_ok (net_maxMsglen n) f"
    and P: "PushMsg (net_recvQue n) (frame_msg n fd remote f) = ret (q1, ok)"
  shows "\<exists>n1. recv_msg srv n fd remote = ret (n1, if ok then int (length f) else -1) \<and>
    conn_queued n1 fd (if ok then rest else f @ rest) \<and> net_recvQue n1 = q1 \<and> kept n n1 fd"
proof -
  let ?L = "int (length f)" and ?m = "frame_msg n fd remote f"
  obtain p e ps where x: "ci_bev (net_conns n fd) = Some p" "net_bevs n p = Some e"
    "bb_rep (net_store n) (be_recvBuffer e) ps" "length ps \<le> 1" "content ps = f @ rest"
    and g: "GetConn n fd = Some fd" "\<not> net_single n" "net_maxMsglen n \<le> 2 ^ 30" "length (f @ rest) < 2 ^ 31"
    using r unfolding conn_queued_def by blast
  have F: "4 \<le> length f" "be_val (take 4 f) = ?L" "?L \<le> net_maxMsglen n" using f by (auto simp: frame_ok_def)
  have md: "msg_data ?m = f" "msg_fd ?m = fd" "msg_remote ?m = remote" by (simp_all add: frame_msg_def)
  have ne: "msg_data ?m \<noteq> []" using F(1) by (auto simp: frame_msg_def)
  obtain q0 b where B: "BufferForPush (net_recvQue n) fd remote (msg_type ?m) ?L = ret (q0, b)"
    "case b of None \<Rightarrow> \<not> ok \<and> q1 = q0
     | Some off \<Rightarrow> ok \<and> (\<exists>q2. buff_write q0 off f = ret q2 \<and> q1 = PushFinish q2 ?L)"
    using PushMsg_parts [OF P ne] unfolding md by blast
  have rf: "CopyReadBuff (net_store n) e [0, 0, 0, 0] 4 = ret (take 4 f, 4) \<and>
      GetReadBuffLen (net_store n) e = ret (int (length (f @ rest))) \<and>
    (\<exists>s1 q1 ps1. Read (net_store n) e d ?L = ret (s1, e\<lparr>be_recvBuffer := q1\<rparr>, f @ drop (length f) d, ?L) \<and>
       bb_rep s1 q1 ps1 \<and> length ps1 \<le> 1 \<and> content ps1 = rest \<and> evolves (net_store n) ps s1 ps1)" if "length d = length f" for d
    using that by (intro read_frame [OF x(3-5) g(4) f]) simp
  have C4: "CopyReadBuff (net_store n) e [0, 0, 0, 0] 4 = ret (take 4 f, 4)"
    and G: "GetReadBuffLen (net_store n) e = ret (int (length (f @ rest)))"
    using rf [of f] by simp_all
  note E = recv_msg_pushing [OF x(1,2) g(1,2,3) f C4 G, of srv remote]
  show ?thesis
  proof (cases b)
    case None
    moreover have "conn_queued (n\<lparr>net_recvQue := q0\<rparr>) fd (f @ rest)"
      using r by (simp add: conn_queued_def GetConn_def split: if_splits)
    moreover have "kept n (n\<lparr>net_recvQue := q0\<rparr>) fd" by (auto simp: kept_def)
    ultimately show ?thesis using B E by auto
  next
    case (Some off)
    then obtain q2 where q2: "ok" "buff_write q0 off f = ret q2" "q1 = PushFinish q2 ?L" using B(2) by auto
    obtain s1 q3 ps1 where R: "Read (net_store n) e (mread (lq_buff q0) off ?L) ?L = ret (s1, e\<lparr>be_recvBuffer := q3\<rparr>, f, ?L)"
      "bb_rep s1 q3 ps1" "length ps1 \<le> 1" "content ps1 = rest"
      using rf [of "mread (lq_buff q0) off ?L"] by auto
    let ?n = "(set_bev n (Some p) (e\<lparr>be_recvBuffer := q3\<rparr>))\<lparr>net_store := s1, net_recvQue := q1\<rparr>"
    have "recv_msg srv n fd remote = ret (?n, ?L)" using E B(1) Some R(1) q2 x(1) by simp
    moreover have "conn_queued ?n fd rest"
      using g x(1) R(2-4) unfolding conn_queued_def by (auto simp: set_bev_def GetConn_def split: if_splits)
    moreover have "kept n ?n fd" using x(1,2) by (auto simp: kept_def set_bev_def)
    ultimately show ?thesis using q2(1) by (intro exI [of _ ?n]) (simp add: set_bev_def)
  qed
qed

lemma recv_msg_incomplete_queued:
  assumes r: "conn_queued n fd c" and i: "incomplete (net_maxMsglen n) c"
  shows "\<exists>k. recv_msg srv n fd remote = ret (n, k) \<and> k \<le> 0"
proof -
  obtain p e ps where x: "ci_bev (net_conns n fd) = Some p" "net_bevs n p = Some e"
    "bb_rep (net_store n) (be_recvBuffer e) ps" "length ps \<le> 1" "content ps = c" "length c < 2 ^ 31"
    using r unfolding conn_queued_def by blast
  then show ?thesis using recv_msg_stops [OF x] i by blast
qed

text \<open>Where receiving stops: part of a frame, or a frame the queue has no room for.\<close>

definition stops_at :: "('os, 'app) net \<Rightarrow> int \<Rightarrow> int \<Rightarrow> loop_queue \<Rightarrow> byte list \<Rightarrow> bool" where
  "stops_at n fd remote q rest \<longleftrightarrow>
     incomplete (net_maxMsglen n) rest \<or>
     (\<exists>f r. rest = f @ r \<and> frame_ok (net_maxMsglen n) f \<and> PushMsg q (frame_msg n fd remote f) = ret (q, False))"

lemma recv_all_queue:
  "conn_queued n fd (concat fs @ rest) \<Longrightarrow> \<forall>f \<in> set fs. frame_ok (net_maxMsglen n) f \<Longrightarrow>
    r = (if ci_protocol (net_conns n fd) = IOEV_TCP_PROTOCOL then 0 else remote) \<Longrightarrow>
    accepts (net_recvQue n) (map (frame_msg n fd r) fs) q' \<Longrightarrow> stops_at n fd r q' rest \<Longrightarrow>
    \<exists>n1. recv_all srv n fd remote = ret n1 \<and> conn_queued n1 fd rest \<and> net_recvQue n1 = q' \<and> kept n n1 fd"
proof (induction fs arbitrary: n)
  case Nil
  then have c: "conn_queued n fd rest" and q': "q' = net_recvQue n" by simp_all
  have "\<exists>n1 k. recv_msg srv n fd r = ret (n1, k) \<and> k \<le> 0 \<and> conn_queued n1 fd rest \<and> net_recvQue n1 = q' \<and>
      kept n n1 fd"
  proof (cases "incomplete (net_maxMsglen n) rest")
    case True
    then show ?thesis using recv_msg_incomplete_queued [OF c True, of srv r] c q' by auto
  next
    case False
    then obtain f t where "rest = f @ t" "frame_ok (net_maxMsglen n) f" "PushMsg q' (frame_msg n fd r f) = ret (q', False)"
      using Nil.prems(5) by (auto simp: stops_at_def)
    then show ?thesis using recv_msg_queue [of n fd f t r q' False srv] c q' by auto
  qed
  then show ?case using Nil.prems(3)
    by (subst recv_all.simps) (auto simp: recvTcpMsg_def recvUdpMsg_def)
next
  case (Cons f fs)
  have f: "frame_ok (net_maxMsglen n) f" and c: "conn_queued n fd (f @ (concat fs @ rest))"
    using Cons.prems by simp_all
  obtain q1 where q1: "PushMsg (net_recvQue n) (frame_msg n fd r f) = ret (q1, True)"
    "accepts q1 (map (frame_msg n fd r) fs) q'"
    using Cons.prems(4) by auto
  obtain n1 where n1: "recv_msg srv n fd r = ret (n1, int (length f))" "conn_queued n1 fd (concat fs @ rest)"
    "net_recvQue n1 = q1" "kept n n1 fd"
    using recv_msg_queue [OF c f q1(1), of srv] by auto
  have k: "net_conns n1 = net_conns n" "net_maxMsglen n1 = net_maxMsglen n" using n1(4) by (simp_all add: kept_def)
  have "0 < length f" using f by (auto simp: frame_ok_def)
  then have step: "recv_all srv n fd remote = recv_all srv n1 fd remote"
    using n1(1) Cons.prems(3) by (subst recv_all.simps)
      (cases "ci_protocol (net_conns n fd) = IOEV_TCP_PROTOCOL"; simp add: recvTcpMsg_def recvUdpMsg_def)
  have m: "frame_msg n1 fd r = frame_msg n fd r" using k by (simp add: frame_msg_def fun_eq_iff)
  have "\<exists>n2. recv_all srv n1 fd remote = ret n2 \<and> conn_queued n2 fd rest \<and> net_recvQue n2 = q' \<and> kept n1 n2 fd"
    using Cons.prems(2,3,5) n1(3) k q1(2) m by (intro Cons.IH [OF n1(2)]) (simp_all add: stops_at_def)
  then show ?case using step kept_trans [OF n1(4)] by auto
qed

text \<open>C15. In a server with workers: of the whole frames a connection has received (in one block of
  its receive buffer), one call of the read callback puts as many into the receive queue as the
  queue accepts, each as one message, in order, exactly as if each had been read and then given
  to \<open>Push\<close>; the rest stays in the receive buffer.\<close>

theorem RecvMsg_queues_frames:
  assumes "conn_queued n fd (concat fs @ rest)" "\<forall>f \<in> set fs. frame_ok (net_maxMsglen n) f"
    "r = (if ci_protocol (net_conns n fd) = IOEV_TCP_PROTOCOL then 0 else remote)"
    "accepts (net_recvQue n) (map (frame_msg n fd r) fs) q'" "stops_at n fd r q' rest"
  shows "\<exists>n1. RecvMsg srv n fd remote = ret (n1, 0) \<and> conn_queued n1 fd rest \<and> net_recvQue n1 = q' \<and>
    net_app n1 = net_app n"
proof -
  have "GetConn n fd = Some fd" using assms(1) by (simp add: conn_queued_def)
  then show ?thesis using recv_all_queue [OF assms, of srv] by (auto simp: RecvMsg_def kept_def)
qed

text \<open>The connection of \<open>net_at5\<close>, with workers and a queue of 60 bytes.\<close>

definition queued5 :: "'app \<Rightarrow> int \<Rightarrow> byte list \<Rightarrow> (unit, 'app) net" where
  "queued5 app proto xs = (net_at5 app proto xs)\<lparr>net_single := False, net_recvQue := queue60\<rparr>"

lemma queued5_ready: "xs \<noteq> [] \<Longrightarrow> length xs \<le> 512 \<Longrightarrow> conn_queued (queued5 app proto xs) 5 xs"
  using net_at5_ready [of xs app proto] unfolding conn_queued_def conn_ready_def queued5_def
  by (auto simp: GetConn_def split: if_splits)

lemma queued5_simps:
  "net_recvQue (queued5 app proto xs) = queue60" "net_maxMsglen (queued5 app proto xs) = 64"
  "net_app (queued5 app proto xs) = app" "ci_protocol (net_conns (queued5 app proto xs) 5) = proto"
  "ci_ctype (net_conns (queued5 app proto xs) 5) = CONN_TYPE_CLI"
  by (simp_all add: queued5_def net_at5_def new_NetMessage_def Let_def to_u32_id)

lemma frame_msg_queued5:
  "frame_msg (queued5 app proto xs) 5 remote f =
     \<lparr>msg_fd = 5, msg_remote = remote, msg_type = MT_CLI_MESSAGE, msg_data = f\<rparr>"
  by (simp add: frame_msg_def queued5_simps CONN_TYPE_CLI_def CONN_TYPE_SVR_def)

lemma accepts_queue60:
  assumes "msg_ok m" "bsize m \<le> 60"
  shows "accepts queue60 [m] (stored queue60 m)"
  using assms Push_store [of queue60 m] by (simp add: push_safe_def queue60_simps)

lemma RecvMsg_queues_frames_witness:
  "\<exists>n1. RecvMsg noting (queued5 [] IOEV_TCP_PROTOCOL ([0, 0, 0, 5, 9] @ [0, 0])) 5 77 = ret (n1, 0) \<and>
     conn_queued n1 5 [0, 0] \<and>
     net_recvQue n1 = stored queue60
       \<lparr>msg_fd = 5, msg_remote = 0, msg_type = MT_CLI_MESSAGE, msg_data = [0, 0, 0, 5, 9]\<rparr>"
proof -
  let ?n = "queued5 [] IOEV_TCP_PROTOCOL ([0, 0, 0, 5, 9] @ [0, 0]) :: (unit, (int \<times> byte list \<times> bool) list) net"
  let ?m = "\<lparr>msg_fd = 5, msg_remote = 0, msg_type = MT_CLI_MESSAGE, msg_data = [0, 0, 0, 5, 9]\<rparr>"
  have r: "conn_queued ?n 5 (concat [[0, 0, 0, 5, 9]] @ [0, 0])"
    using queued5_ready [of "[0, 0, 0, 5, 9] @ [0, 0]" "[]" IOEV_TCP_PROTOCOL] by simp
  have f: "\<forall>f \<in> set [[0, 0, 0, 5, 9]]. frame_ok (net_maxMsglen ?n) f"
    by (simp add: frame_ok_def be_val_def queued5_simps)
  have "msg_ok ?m" "bsize ?m \<le> 60"
    by (simp_all add: msg_ok_def bsize_def sizeof_block_def MT_CLI_MESSAGE_def)
  then have a: "accepts (net_recvQue ?n) (map (frame_msg ?n 5 0) [[0, 0, 0, 5, 9]]) (stored queue60 ?m)"
    using accepts_queue60 [of ?m] by (simp add: queued5_simps(1) frame_msg_queued5)
  have s: "stops_at ?n 5 0 (stored queue60 ?m) [0, 0]" by (simp add: stops_at_def incomplete_def)
  have p: "0 = (if ci_protocol (net_conns ?n 5) = IOEV_TCP_PROTOCOL then 0 else 77)" by (simp add: queued5_simps)
  show ?thesis using RecvMsg_queues_frames [OF r f p a s, of noting] by auto
qed

end
