(* ===== verification/Watchers.thy ===== *)
theory Watchers
  imports Mkx_Prelude Complex_Main
begin

text \<open>
  The events of libev's watchers (framework/IOEventHandler.h, IOEventEv.h, IOEventEv.cc): user events,
  signals, timers and listening descriptors.

  libev is a parameter: a record of functions on the state of its loop.  A watcher is known by its
  address.  A callback (values \<open>'c\<close>) stands for the function and the \<open>udata_\<close> it gets; what an event
  makes happen is the call of the callback with its value.
\<close>

section \<open>The loop\<close>

text \<open>What a watcher waits for; the times of a timer are doubles.\<close>

datatype ev_watch = Ev_async | Ev_signal int | Ev_timer rat rat | Ev_read int

record 'ev ev_loop =
  ev_start :: "'ev \<Rightarrow> nat \<Rightarrow> ev_watch \<Rightarrow> 'ev"
  ev_stop :: "'ev \<Rightarrow> nat \<Rightarrow> 'ev"
  ev_async_send :: "'ev \<Rightarrow> nat \<Rightarrow> 'ev"
  ev_break :: "'ev \<Rightarrow> 'ev"

section \<open>User events\<close>

record 'c user_event =
  ue_watcher :: nat
  ue_cb :: "'c option"

definition new_UserEventEv :: "nat \<Rightarrow> 'c user_event" where
  "new_UserEventEv w = \<lparr>ue_watcher = w, ue_cb = None\<rparr>"

definition UserEvent_SetCb :: "'c user_event \<Rightarrow> 'c \<Rightarrow> 'c user_event" where
  "UserEvent_SetCb e cb = e\<lparr>ue_cb := Some cb\<rparr>"

definition UserEventEv_Start :: "'ev ev_loop \<Rightarrow> 'ev \<Rightarrow> 'c user_event \<Rightarrow> 'ev" where
  "UserEventEv_Start lp ev e = ev_start lp ev (ue_watcher e) Ev_async"

definition Trigger :: "'ev ev_loop \<Rightarrow> 'ev \<Rightarrow> 'c user_event \<Rightarrow> 'ev" where
  "Trigger lp ev e = ev_async_send lp ev (ue_watcher e)"

definition delete_UserEventEv :: "'ev ev_loop \<Rightarrow> 'ev \<Rightarrow> 'c user_event \<Rightarrow> 'ev" where
  "delete_UserEventEv lp ev e = ev_stop lp ev (ue_watcher e)"

text \<open>The call a callback of libev makes: the callback of the event, if it is set, and its value.\<close>

definition UserEventEv_DoCallback :: "'c user_event \<Rightarrow> int \<Rightarrow> ('c \<times> int) option" where
  "UserEventEv_DoCallback e revents = map_option (\<lambda>cb. (cb, revents)) (ue_cb e)"

section \<open>Signals\<close>

record 'c signal_event =
  se_watcher :: nat
  se_signal :: int
  se_cb :: "'c option"

definition new_SignalEventEv :: "nat \<Rightarrow> int \<Rightarrow> 'c signal_event" where
  "new_SignalEventEv w signal = \<lparr>se_watcher = w, se_signal = signal, se_cb = None\<rparr>"

definition SignalEvent_SetCb :: "'c signal_event \<Rightarrow> 'c \<Rightarrow> 'c signal_event" where
  "SignalEvent_SetCb e cb = e\<lparr>se_cb := Some cb\<rparr>"

definition SignalEventEv_Start :: "'ev ev_loop \<Rightarrow> 'ev \<Rightarrow> 'c signal_event \<Rightarrow> 'ev" where
  "SignalEventEv_Start lp ev e = ev_start lp ev (se_watcher e) (Ev_signal (se_signal e))"

definition delete_SignalEventEv :: "'ev ev_loop \<Rightarrow> 'ev \<Rightarrow> 'c signal_event \<Rightarrow> 'ev" where
  "delete_SignalEventEv lp ev e = ev_stop lp ev (se_watcher e)"

definition SignalEventEv_DoCallback :: "'c signal_event \<Rightarrow> ('c \<times> int) option" where
  "SignalEventEv_DoCallback e = map_option (\<lambda>cb. (cb, se_signal e)) (se_cb e)"

section \<open>Timers\<close>

record 'c timer_event =
  te_watcher :: nat
  te_cb :: "'c option"
  te_started :: bool
  te_repeat :: rat

definition new_TimerEventEv :: "nat \<Rightarrow> 'c timer_event" where
  "new_TimerEventEv w = \<lparr>te_watcher = w, te_cb = None, te_started = False, te_repeat = -1\<rparr>"

definition TimerEvent_SetCb :: "'c timer_event \<Rightarrow> 'c \<Rightarrow> 'c timer_event" where
  "TimerEvent_SetCb e cb = e\<lparr>te_cb := Some cb\<rparr>"

definition TimerEventEv_Start ::
  "'ev ev_loop \<Rightarrow> 'ev \<Rightarrow> 'c timer_event \<Rightarrow> rat \<Rightarrow> rat \<Rightarrow> 'ev \<times> 'c timer_event" where
  "TimerEventEv_Start lp ev e after repeat =
     (ev_start lp ev (te_watcher e) (Ev_timer after repeat), e\<lparr>te_repeat := repeat, te_started := True\<rparr>)"

definition Repeated :: "'c timer_event \<Rightarrow> bool" where
  "Repeated e \<longleftrightarrow> te_repeat e > 0"

definition delete_TimerEventEv :: "'ev ev_loop \<Rightarrow> 'ev \<Rightarrow> 'c timer_event \<Rightarrow> 'ev" where
  "delete_TimerEventEv lp ev e = ev_stop lp ev (te_watcher e)"

definition TimerEventEv_DoCallback :: "'c timer_event \<Rightarrow> ('c \<times> int) option" where
  "TimerEventEv_DoCallback e = map_option (\<lambda>cb. (cb, 0)) (te_cb e)"

section \<open>Listening\<close>

record 'c listen_event =
  le_watcher :: "nat option"
  le_lfd :: int
  le_protocol :: int
  le_cb :: "'c option"

definition new_ListenEventEv :: "int \<Rightarrow> int \<Rightarrow> 'c listen_event" where
  "new_ListenEventEv protocol lfd = \<lparr>le_watcher = None, le_lfd = lfd, le_protocol = protocol, le_cb = None\<rparr>"

definition ListenEvent_SetCb :: "'c listen_event \<Rightarrow> 'c \<Rightarrow> 'c listen_event" where
  "ListenEvent_SetCb e cb = e\<lparr>le_cb := Some cb\<rparr>"

text \<open>\<open>Start\<close> allocates the watcher: \<open>w\<close> is its address.\<close>

definition ListenEventEv_Start :: "'ev ev_loop \<Rightarrow> 'ev \<Rightarrow> 'c listen_event \<Rightarrow> nat \<Rightarrow> 'ev \<times> 'c listen_event" where
  "ListenEventEv_Start lp ev e w = (ev_start lp ev w (Ev_read (le_lfd e)), e\<lparr>le_watcher := Some w\<rparr>)"

text \<open>The callback is called without looking whether it is set; the destructor does nothing.\<close>

definition ListenEventEv_DoCallback :: "'c listen_event \<Rightarrow> int \<Rightarrow> ('c \<times> int) run" where
  "ListenEventEv_DoCallback e sockfd = (case le_cb e of None \<Rightarrow> fail Null_pointer | Some cb \<Rightarrow> ret (cb, sockfd))"

section \<open>Callbacks\<close>

text \<open>
  What all of them promise: an event calls the callback set last, whatever was done to the event in
  between, and none before one is set.
\<close>

locale event_source =
  fixes set_cb :: "'e \<Rightarrow> 'c \<Rightarrow> 'e"
    and start :: "'s \<Rightarrow> 'e \<Rightarrow> 'e"
    and fire :: "'e \<Rightarrow> int \<Rightarrow> ('c \<times> int) option"
    and fired :: "'e \<Rightarrow> int \<Rightarrow> int"
  assumes fire_set: "fire (set_cb e cb) v = Some (cb, fired e v)"
    and fired_set: "fired (set_cb e cb) v = fired e v"
    and fire_start: "fire (start s e) v = fire e v"
    and fired_start: "fired (start s e) v = fired e v"
begin

lemma fire_starts: "fire (fold start ss e) v = fire e v"
  by (induction ss arbitrary: e) (simp_all add: fire_start)

lemma fired_sets: "fired (fold (\<lambda>cb e. set_cb e cb) cbs e) v = fired e v"
  by (induction cbs arbitrary: e) (simp_all add: fired_set)

lemma last_set:
  assumes "cbs \<noteq> []"
  shows "fire (fold start ss (fold (\<lambda>cb e. set_cb e cb) cbs e)) v = Some (last cbs, fired e v)"
  using assms
proof (induction cbs rule: rev_induct)
  case (snoc cb cbs)
  then show ?case by (simp add: fire_starts fire_set fired_sets)
qed simp

end

interpretation user: event_source UserEvent_SetCb "\<lambda>_. id" UserEventEv_DoCallback "\<lambda>_ v. v"
  by unfold_locales (simp_all add: UserEvent_SetCb_def UserEventEv_DoCallback_def)

interpretation signal: event_source SignalEvent_SetCb "\<lambda>_. id" "\<lambda>e _. SignalEventEv_DoCallback e" "\<lambda>e _. se_signal e"
  by unfold_locales (simp_all add: SignalEvent_SetCb_def SignalEventEv_DoCallback_def)

interpretation timer: event_source TimerEvent_SetCb "\<lambda>(lp, ev, a, r) e. snd (TimerEventEv_Start lp ev e a r)"
  "\<lambda>e _. TimerEventEv_DoCallback e" "\<lambda>_ _. 0"
  by unfold_locales (auto simp: TimerEvent_SetCb_def TimerEventEv_DoCallback_def TimerEventEv_Start_def)

interpretation listening: event_source ListenEvent_SetCb "\<lambda>(lp, ev, w) e. snd (ListenEventEv_Start lp ev e w)"
  "\<lambda>e v. case ListenEventEv_DoCallback e v of Some (Inr c) \<Rightarrow> Some c | _ \<Rightarrow> None" "\<lambda>_ v. v"
  by unfold_locales
    (auto simp: ListenEvent_SetCb_def ListenEventEv_DoCallback_def ListenEventEv_Start_def ret_def fail_def split: option.split)

end
