(* ===== verification/Server.thy ===== *)
theory Server
  imports Net_Message Rpc Ini_Config Watchers
begin

text \<open>
  \<open>Server\<close> (framework/Server.h, Server.cc) and \<open>SvrConnector\<close> (SvrConnector.h, SvrConnector.cc):
  what ties configuration, network, RPC layer and workers together.

  The server's state is the \<open>net_app\<close> of the network's.  The application is a parameter: the
  code of its handlers (values \<open>'h\<close>) and of its close callbacks (values \<open>'c\<close>), and its own
  state \<open>sv_app\<close>, which the server never looks at.  Which thread runs is an argument:
  \<open>IsMainThread\<close> compares thread ids.
\<close>

section \<open>State\<close>

text \<open>\<open>rpc_\<close> of a connector: the constructor does not set it.\<close>

datatype rpc_pointer = Unset | Null | Attached

record 'c svr_connector =
  sc_fd :: int
  sc_protocol :: int
  sc_ip :: string
  sc_port :: int
  sc_remoteAddr :: int
  sc_rpc :: rpc_pointer
  sc_closedCb :: "'c option"

record ('h, 's, 'c, 'a) server =
  sv_single :: bool
  sv_rpc :: "('h, 's) irpc"
  sv_connectors :: "int \<rightharpoonup> 'c svr_connector"
  sv_sendQue :: loop_queue
  sv_notified :: nat
  sv_app :: 'a

type_synonym ('os, 'h, 's, 'c, 'a) world = "('os, ('h, 's, 'c, 'a) server) net"

record ('os, 'h, 's, 'c, 'a) app_code =
  app_handle :: "'h rpc_call \<Rightarrow> ('os, 'h, 's, 'c, 'a) world \<Rightarrow> ('os, 'h, 's, 'c, 'a) world run"
  app_closed :: "'c \<Rightarrow> int \<Rightarrow> ('os, 'h, 's, 'c, 'a) world \<Rightarrow> ('os, 'h, 's, 'c, 'a) world run"

definition upd_server ::
  "(('h, 's, 'c, 'a) server \<Rightarrow> ('h, 's, 'c, 'a) server) \<Rightarrow> ('os, 'h, 's, 'c, 'a) world \<Rightarrow> ('os, 'h, 's, 'c, 'a) world" where
  "upd_server f n = n\<lparr>net_app := f (net_app n)\<rparr>"

section \<open>Addresses\<close>

text \<open>\<open>std::string::find\<close> of a pattern from a position on.\<close>

fun find_str :: "string \<Rightarrow> string \<Rightarrow> nat option" where
  "find_str pat [] = (if pat = [] then Some 0 else None)"
| "find_str pat (c # s) =
     (if take (length pat) (c # s) = pat then Some 0 else map_option Suc (find_str pat s))"

definition find_from :: "string \<Rightarrow> string \<Rightarrow> nat \<Rightarrow> nat option" where
  "find_from pat s pos = (if pos \<le> length s then map_option ((+) pos) (find_str pat (drop pos s)) else None)"

text \<open>The common part of \<open>Bind\<close> and \<open>ConnectSvr\<close>: protocol, address and port of a URL.\<close>

definition parse_url :: "string \<Rightarrow> (int \<times> string \<times> int) option" where
  "parse_url url =
     (case find_from ''://'' url 0 of
        None \<Rightarrow> None
      | Some n1 \<Rightarrow>
          (let protocolStr = take n1 url; ns = n1 + 3
           in case find_from '':'' url ns of
                None \<Rightarrow> None
              | Some n2 \<Rightarrow>
                  (let ipStr = take (n2 - ns) (drop ns url);
                       portStr = drop (n2 + 1) url;
                       protocol = (if protocolStr = ''udp'' then IOEV_UDP_PROTOCOL else IOEV_TCP_PROTOCOL)
                   in Some (protocol, ipStr, atoi portStr))))"

section \<open>Connectors\<close>

definition htons :: "int \<Rightarrow> int" where
  "htons x = (let y = x mod 2 ^ 16 in (y mod 256) * 256 + y div 256)"

text \<open>\<open>inet\<close> stands for what \<open>inet_pton\<close> stores, 0 when the text is no address.\<close>

definition new_SvrConnector :: "(string \<Rightarrow> int) \<Rightarrow> int \<Rightarrow> string \<Rightarrow> int \<Rightarrow> 'c svr_connector" where
  "new_SvrConnector inet protocol ip port =
     \<lparr>sc_fd = -1, sc_protocol = protocol, sc_ip = ip, sc_port = port,
      sc_remoteAddr = pack_addr (inet ip) (htons port), sc_rpc = Unset, sc_closedCb = None\<rparr>"

definition SetFd :: "'c svr_connector \<Rightarrow> int \<Rightarrow> 'c svr_connector" where
  "SetFd c fd = c\<lparr>sc_fd := fd\<rparr>"

definition AttachRpc :: "'c svr_connector \<Rightarrow> bool \<Rightarrow> 'c svr_connector" where
  "AttachRpc c given = c\<lparr>sc_rpc := (if given then Attached else Null)\<rparr>"

definition SetClosedCb :: "'c svr_connector \<Rightarrow> 'c option \<Rightarrow> 'c svr_connector" where
  "SetClosedCb c cb = c\<lparr>sc_closedCb := cb\<rparr>"

section \<open>Closing\<close>

definition delete_SvrConnector ::
  "('os, 'h, 's, 'c, 'a) app_code \<Rightarrow> ('os, 'h, 's, 'c, 'a) world \<Rightarrow> 'c svr_connector \<Rightarrow> ('os, 'h, 's, 'c, 'a) world run"
where
  "delete_SvrConnector app n c =
     (case sc_closedCb c of None \<Rightarrow> ret n | Some cb \<Rightarrow> app_closed app cb (sc_fd c) n)"

definition OnCliConnected :: "('os, 'h, 's, 'c, 'a) world \<Rightarrow> int \<Rightarrow> ('os, 'h, 's, 'c, 'a) world run" where
  "OnCliConnected n fd = ret n"

definition OnCliClosed :: "('os, 'h, 's, 'c, 'a) world \<Rightarrow> int \<Rightarrow> ('os, 'h, 's, 'c, 'a) world run" where
  "OnCliClosed n fd = ret n"

definition OnSvrClosed ::
  "('os, 'h, 's, 'c, 'a) app_code \<Rightarrow> ('os, 'h, 's, 'c, 'a) world \<Rightarrow> int \<Rightarrow> ('os, 'h, 's, 'c, 'a) world run" where
  "OnSvrClosed app n fd =
     (case sv_connectors (net_app n) fd of
        None \<Rightarrow> ret n
      | Some c \<Rightarrow>
          rbind (delete_SvrConnector app n c) (\<lambda>n1.
            ret (upd_server (\<lambda>sv. sv\<lparr>sv_connectors := (sv_connectors sv)(fd := None)\<rparr>) n1)))"

definition GetSvrConnector :: "('os, 'h, 's, 'c, 'a) world \<Rightarrow> int \<Rightarrow> 'c svr_connector option" where
  "GetSvrConnector n fd = sv_connectors (net_app n) fd"

text \<open>The server as \<open>NetMessage\<close> sees it while it sends: sending never receives (\<open>SendMsg_no_recv\<close>).\<close>

definition close_calls :: "('os, 'h, 's, 'c, 'a) app_code \<Rightarrow> ('os, 'h, 's, 'c, 'a) world server_calls" where
  "close_calls app =
     \<lparr>svr_OnRecvMsg = (\<lambda>n _ _ _ _. ret n), svr_OnCliConnected = OnCliConnected,
      svr_OnCliClosed = OnCliClosed, svr_OnSvrClosed = OnSvrClosed app\<rparr>"

section \<open>Sending\<close>

definition Server_Send ::
  "'os sys \<Rightarrow> ('os, 'h, 's, 'c, 'a) app_code \<Rightarrow> bool \<Rightarrow> ('os, 'h, 's, 'c, 'a) world \<Rightarrow> int \<Rightarrow> int \<Rightarrow> byte list \<Rightarrow>
     (('os, 'h, 's, 'c, 'a) world \<times> int) run" where
  "Server_Send sys app main n fd remote msg =
     (if sv_single (net_app n) \<or> main
      then Net_Message.SendMsg sys (close_calls app) n fd remote msg
      else rbind (Push (sv_sendQue (net_app n)) fd remote MT_SVR_MESSAGE msg) (\<lambda>(q, ok).
             ret (upd_server (\<lambda>sv. sv\<lparr>sv_sendQue := q,
                    sv_notified := (if ok then Suc (sv_notified sv) else sv_notified sv)\<rparr>) n,
                  if ok then 0 else -1)))"

text \<open>\<open>msgEventCb\<close>, on the network thread: the queue it empties is the server's.\<close>

definition msgEventCb ::
  "'os sys \<Rightarrow> ('os, 'h, 's, 'c, 'a) app_code \<Rightarrow> ('os, 'h, 's, 'c, 'a) world \<Rightarrow> ('os, 'h, 's, 'c, 'a) world run"
where
  "msgEventCb sys app n =
     rbind (OnSendMsgEvent sys (close_calls app) n (sv_sendQue (net_app n))) (\<lambda>(n1, q1).
       ret (upd_server (\<lambda>sv. sv\<lparr>sv_sendQue := q1\<rparr>) n1))"

definition SendMsgToSvr ::
  "'os sys \<Rightarrow> ('os, 'h, 's, 'c, 'a) app_code \<Rightarrow> bool \<Rightarrow> ('os, 'h, 's, 'c, 'a) world \<Rightarrow> int \<Rightarrow> byte list \<Rightarrow>
     (('os, 'h, 's, 'c, 'a) world \<times> int) run" where
  "SendMsgToSvr sys app main n fd msg =
     (case sv_connectors (net_app n) fd of
        None \<Rightarrow> ret (n, -1)
      | Some c \<Rightarrow>
          Server_Send sys app main n fd
            (if sc_protocol c = IOEV_UDP_PROTOCOL then sc_remoteAddr c else 0) msg)"

section \<open>Receiving\<close>

text \<open>Make the calls the RPC layer wants made.\<close>

fun do_rpc_calls ::
  "'os sys \<Rightarrow> ('os, 'h, 's, 'c, 'a) app_code \<Rightarrow> bool \<Rightarrow> 'h rpc_call list \<Rightarrow> ('os, 'h, 's, 'c, 'a) world \<Rightarrow>
     ('os, 'h, 's, 'c, 'a) world run" where
  "do_rpc_calls sys app main [] n = ret n"
| "do_rpc_calls sys app main (c # cs) n =
     rbind (case c of
              Server_SendMsg fd remote msg \<Rightarrow>
                rbind (Server_Send sys app main n fd remote msg) (\<lambda>(n1, _). ret n1)
            | _ \<Rightarrow> app_handle app c n) (do_rpc_calls sys app main cs)"

definition SvrConnector_OnRecvMsg ::
  "'os sys \<Rightarrow> ('os, 'h, 's, 'c, 'a) app_code \<Rightarrow> bool \<Rightarrow> ('os, 'h, 's, 'c, 'a) world \<Rightarrow> 'c svr_connector \<Rightarrow> byte list \<Rightarrow>
     ('os, 'h, 's, 'c, 'a) world run" where
  "SvrConnector_OnRecvMsg sys app main n c msg =
     (case sc_rpc c of
        Unset \<Rightarrow> fail Dangling_pointer
      | Null \<Rightarrow> ret n
      | Attached \<Rightarrow>
          rbind (OnRecvSvrMsg (sv_rpc (net_app n)) (sc_fd c) (Some msg) (int (length msg)))
            (\<lambda>(r, calls, _). do_rpc_calls sys app main calls (upd_server (\<lambda>sv. sv\<lparr>sv_rpc := r\<rparr>) n)))"

definition OnRecvMsg ::
  "'os sys \<Rightarrow> ('os, 'h, 's, 'c, 'a) app_code \<Rightarrow> bool \<Rightarrow> ('os, 'h, 's, 'c, 'a) world \<Rightarrow> int \<Rightarrow> int \<Rightarrow> byte list \<Rightarrow> bool \<Rightarrow>
     ('os, 'h, 's, 'c, 'a) world run" where
  "OnRecvMsg sys app main n fd remote msg cli =
     (if cli
      then rbind (OnRecvCliMsg (sv_rpc (net_app n)) fd remote (Some msg) (int (length msg)))
             (\<lambda>(r, calls, _). do_rpc_calls sys app main calls (upd_server (\<lambda>sv. sv\<lparr>sv_rpc := r\<rparr>) n))
      else
        (case sv_connectors (net_app n) fd of
           None \<Rightarrow> ret n
         | Some c \<Rightarrow> SvrConnector_OnRecvMsg sys app main n c msg))"

text \<open>The methods \<open>NetMessage\<close> calls.\<close>

definition server_methods ::
  "'os sys \<Rightarrow> ('os, 'h, 's, 'c, 'a) app_code \<Rightarrow> ('os, 'h, 's, 'c, 'a) world server_calls" where
  "server_methods sys app =
     \<lparr>svr_OnRecvMsg = OnRecvMsg sys app True, svr_OnCliConnected = OnCliConnected,
      svr_OnCliClosed = OnCliClosed, svr_OnSvrClosed = OnSvrClosed app\<rparr>"

section \<open>Setting up\<close>

definition SIGINT :: int where "SIGINT = 2"
definition SIGTERM :: int where "SIGTERM = 15"

text \<open>
  \<open>setSignal\<close> starts a watcher (at the address \<open>w\<close>) whose callback, \<open>sigclose\<close>, stops the loop.  The two
  signals are combined as if they were flags.
\<close>

definition setSignal :: "'ev ev_loop \<Rightarrow> 'ev \<Rightarrow> nat \<Rightarrow> 'cb \<Rightarrow> 'ev \<times> 'cb signal_event" where
  "setSignal lp ev w sigclose_cb =
     (let e = SignalEvent_SetCb (new_SignalEventEv w (SIGINT OR SIGTERM)) sigclose_cb
      in (SignalEventEv_Start lp ev e, e))"

definition sigclose :: "'ev ev_loop \<Rightarrow> 'ev \<Rightarrow> 'ev" where
  "sigclose lp ev = ev_break lp ev"

lemma setSignal_SIGTERM_only:
  "fst (setSignal lp ev w cb) = ev_start lp ev w (Ev_signal SIGTERM)"
  "SignalEventEv_DoCallback (snd (setSignal lp ev w cb)) = Some (cb, SIGTERM)"
  by (simp_all add: setSignal_def SignalEventEv_Start_def SignalEvent_SetCb_def new_SignalEventEv_def
      SignalEventEv_DoCallback_def SIGINT_def SIGTERM_def)

text \<open>
  What \<open>Init\<close> makes of the configuration: the mode, the log's size and level, the workers.
  Forking and the log's own state are left out.
\<close>

definition Server_Init ::
  "ini_config \<Rightarrow> ('h, 's) irpc \<Rightarrow> 'a \<Rightarrow> ('h, 's, 'c, 'a) server \<times> loop_queue \<times> int" where
  "Server_Init cfg rpc app =
     (let workCnt = GetInt cfg ''work_num'' 0;
          multi = workCnt > 0;
          q = (if multi then fst (Loop_Queue.Init new_LoopQueue (1024 * 1024)) else new_LoopQueue)
      in (\<lparr>sv_single = \<not> multi, sv_rpc = rpc, sv_connectors = Map.empty, sv_sendQue = q, sv_notified = 0,
           sv_app = app\<rparr>,
          q, max 0 workCnt))"

definition Server_NetMessage ::
  "ini_config \<Rightarrow> 'os \<Rightarrow> block_store \<Rightarrow> ('h, 's, 'c, 'a) server \<Rightarrow> loop_queue \<Rightarrow> ('os, 'h, 's, 'c, 'a) world" where
  "Server_NetMessage cfg os s sv recvq =
     (let ml = GetInt cfg ''max_msglen'' 81920
      in new_NetMessage os s ml (GetInt cfg ''max_fd'' 10240) (sv_single sv)
           (replicate (nat (to_u32 ml)) 0) recvq sv)"

definition LoadCfg :: "ini_config \<Rightarrow> string option \<Rightarrow> ini_config \<times> int" where
  "LoadCfg cfg file = Parse cfg file"

text \<open>
  \<open>Bind\<close> and \<open>ConnectSvr\<close>; \<open>bind\<close> and \<open>connect\<close> stand for the event handler's operations of
  these names on protocol, address and port.
\<close>

definition Server_Bind ::
  "'os sys \<Rightarrow> ('os, 'h, 's, 'c, 'a) app_code \<Rightarrow> (int \<Rightarrow> string \<Rightarrow> int \<Rightarrow> int) \<Rightarrow> ('os, 'h, 's, 'c, 'a) world \<Rightarrow> string \<Rightarrow>
     (('os, 'h, 's, 'c, 'a) world \<times> int option \<times> int) run" where
  "Server_Bind sys app bind n url =
     (case parse_url url of
        None \<Rightarrow> ret (n, None, -1)
      | Some (protocol, ip, port) \<Rightarrow>
          Net_Message.Bind sys (server_methods sys app) n protocol (bind protocol ip port))"

definition ConnectSvr ::
  "'os sys \<Rightarrow> ('os, 'h, 's, 'c, 'a) app_code \<Rightarrow> (int \<Rightarrow> string \<Rightarrow> int \<Rightarrow> int option) \<Rightarrow> (string \<Rightarrow> int) \<Rightarrow>
     ('os, 'h, 's, 'c, 'a) world \<Rightarrow> string \<Rightarrow> 'c option \<Rightarrow> (('os, 'h, 's, 'c, 'a) world \<times> int) run" where
  "ConnectSvr sys app connect inet n url closeCb =
     (case parse_url url of
        None \<Rightarrow> ret (n, -1)
      | Some (protocol, ip, port) \<Rightarrow>
          rbind (Net_Message.Connect sys (server_methods sys app) n protocol (connect protocol ip port))
            (\<lambda>(n1, fd).
              if fd > 0
              then
                (let c = SetClosedCb (SetFd (new_SvrConnector inet protocol ip port) fd) closeCb
                 in ret (upd_server (\<lambda>sv. sv\<lparr>sv_connectors :=
                          (case sv_connectors sv fd of
                             None \<Rightarrow> (sv_connectors sv)(fd \<mapsto> c)
                           | Some _ \<Rightarrow> sv_connectors sv)\<rparr>) n1, fd))
              else ret (n1, fd)))"

definition CloseSvr ::
  "'os sys \<Rightarrow> ('os, 'h, 's, 'c, 'a) app_code \<Rightarrow> ('os, 'h, 's, 'c, 'a) world \<Rightarrow> int \<Rightarrow> ('os, 'h, 's, 'c, 'a) world run" where
  "CloseSvr sys app n fd =
     rbind (CloseConn sys (server_methods sys app) n fd) (\<lambda>(n1, _). ret n1)"

end
