(* ===== verification/Server_Spec.thy ===== *)
theory Server_Spec
  imports Server Net_Message_Spec Rpc_Spec Ini_Spec
begin

text \<open>
  What the server promises: the requests clients send reach the application's handlers, the
  URLs of the configuration are understood, a message sent by a worker goes out as if the
  network thread had sent it.
\<close>

section \<open>Requests through the whole server\<close>

text \<open>
  What is assumed of the application: a handler leaves the connection it is called for as it
  is, registers no handlers, notes the call (\<open>L\<close> reads the notes from its state) and keeps
  what \<open>K\<close> looks at.
\<close>

definition app_keeps ::
  "('os, 'h, 's, 'c, 'a) app_code \<Rightarrow> int \<Rightarrow> (('os, 'h, 's, 'c, 'a) world \<Rightarrow> 'k) \<Rightarrow> ('a \<Rightarrow> 'h rpc_call list) \<Rightarrow> bool" where
  "app_keeps app fd K L \<longleftrightarrow>
     (\<forall>n c h fd' remote data k. conn_ready n fd c \<longrightarrow>
        (\<exists>n1. app_handle app (Call_request h fd' remote data k) n = ret n1 \<and> conn_ready n1 fd c \<and>
           ci_ctype (net_conns n1 fd) = ci_ctype (net_conns n fd) \<and>
           ci_protocol (net_conns n1 fd) = ci_protocol (net_conns n fd) \<and>
           net_maxMsglen n1 = net_maxMsglen n \<and>
           rpc_requestMap (sv_rpc (net_app n1)) = rpc_requestMap (sv_rpc (net_app n)) \<and>
           L (sv_app (net_app n1)) = L (sv_app (net_app n)) @ [Call_request h fd' remote data k] \<and> K n1 = K n))"

text \<open>Nothing beyond that has to be kept.\<close>

definition app_quiet ::
  "('os, 'h, 's, 'c, 'a) app_code \<Rightarrow> int \<Rightarrow> ('a \<Rightarrow> 'h rpc_call list) \<Rightarrow> bool" where
  "app_quiet app fd L \<longleftrightarrow> app_keeps app fd (\<lambda>_. ()) L"

lemma app_keepsD:
  assumes "app_keeps app fd K L" "conn_ready n fd c"
  shows "\<exists>n1. app_handle app (Call_request h fd' remote data k) n = ret n1 \<and> conn_ready n1 fd c \<and>
    ci_ctype (net_conns n1 fd) = ci_ctype (net_conns n fd) \<and>
    ci_protocol (net_conns n1 fd) = ci_protocol (net_conns n fd) \<and>
    net_maxMsglen n1 = net_maxMsglen n \<and>
    rpc_requestMap (sv_rpc (net_app n1)) = rpc_requestMap (sv_rpc (net_app n)) \<and>
    L (sv_app (net_app n1)) = L (sv_app (net_app n)) @ [Call_request h fd' remote data k] \<and> K n1 = K n"
  using assms unfolding app_keeps_def by blast

text \<open>The call a request is to make, and what its bytes are.\<close>

definition request_call :: "(byte list \<rightharpoonup> 'h) \<Rightarrow> int \<Rightarrow> int \<Rightarrow> byte list \<times> byte list \<Rightarrow> 'h rpc_call" where
  "request_call M fd remote req =
     (case req of (name, data) \<Rightarrow>
        Call_request (the (M name)) fd (to_i64 remote) (if data = [] then None else Some data) (int (length data)))"

definition request_bytes :: "byte list \<times> byte list \<Rightarrow> byte list" where
  "request_bytes req = (case req of (name, data) \<Rightarrow> head_bytes 0 name (int (length data)) @ data)"

text \<open>The bytes are what some client's \<open>SendRequest\<close> hands to its server.\<close>

definition request_sent :: "byte list \<times> byte list \<Rightarrow> byte list \<Rightarrow> bool" where
  "request_sent req bytes \<longleftrightarrow>
     (case req of (name, data) \<Rightarrow>
        length name \<le> 244 \<and> length data \<le> 1048320 \<and>
        (\<exists>(c :: (unit, unit) irpc) c1 c2 fd. fill_databuff c data = ret c1 \<and>
           SendRequest c1 fd name (int (length data)) = ret (c2, ([Server_SendMsg fd 0 bytes], Last_call))))"

lemma SendRequest_bytes:
  assumes "length name \<le> 244" "length data \<le> 1048320" "fill_databuff c data = ret c1"
    "SendRequest c1 fd name (int (length data)) = ret (c2, ([Server_SendMsg fd 0 bytes], Last_call))"
  shows "bytes = request_bytes (name, data)"
proof -
  have c1: "c1 = c\<lparr>rpc_databuff := mwrite (rpc_databuff c) 256 data\<rparr>"
    using assms(2,3) fill_databuff_ok [of data c] by simp
  show ?thesis
    using send_encoded_ok [of "c1\<lparr>rpc_rhead := (rpc_rhead c1)\<lparr>rh_Ret := 0, rh_Name := name\<rparr>\<rparr>" "int (length data)" fd 0]
      assms(1,2,4)
    by (auto simp: SendRequest_def request_bytes_def c1 mread_mwrite_same)
qed

lemma request_sent_bytes: "request_sent req bytes \<Longrightarrow> bytes = request_bytes req"
  unfolding request_sent_def by (auto dest: SendRequest_bytes)

lemma SendRequest_request_bytes:
  assumes "length name \<le> 244" "length data \<le> 1048320"
  shows "request_sent (name, data) (request_bytes (name, data))"
proof -
  let ?c = "new_IRpc (\<lambda>_. 0) :: (unit, unit) irpc"
  obtain c1 where c1: "fill_databuff ?c data = ret c1" "c1 = ?c\<lparr>rpc_databuff := mwrite (rpc_databuff ?c) 256 data\<rparr>"
    using fill_databuff_ok [OF assms(2), of ?c] by simp
  have "\<exists>c2. SendRequest c1 0 name (int (length data))
      = ret (c2, ([Server_SendMsg 0 0 (request_bytes (name, data))], Last_call))"
    using send_encoded_ok [of "c1\<lparr>rpc_rhead := (rpc_rhead c1)\<lparr>rh_Ret := 0, rh_Name := name\<rparr>\<rparr>" "int (length data)" 0 0]
      assms
    by (auto simp: SendRequest_def request_bytes_def c1(2) mread_mwrite_same)
  with assms c1(1) show ?thesis unfolding request_sent_def by blast
qed

text \<open>A request's bytes are one frame.\<close>

lemma request_frame:
  assumes "12 + int (length name) + int (length data) \<le> mx" "mx \<le> 2 ^ 30"
  shows "frame_ok mx (request_bytes (name, data))"
proof -
  have "take 4 (request_bytes (name, data)) = be_bytes 4 (12 + int (length name) + int (length data))"
    by (simp add: request_bytes_def head_bytes_def)
  then show ?thesis using assms by (simp add: frame_ok_def) (simp add: request_bytes_def)
qed

text \<open>The handlers of requests, as the network sees them.\<close>

definition known_request :: "(byte list \<rightharpoonup> 'h) \<Rightarrow> byte list \<Rightarrow> bool" where
  "known_request M msg \<longleftrightarrow>
     (\<exists>name data. msg = request_bytes (name, data) \<and> length name \<le> 244 \<and> length data < 2 ^ 30 \<and> M name \<noteq> None)"

definition requests_of :: "(byte list \<rightharpoonup> 'h) \<Rightarrow> int \<Rightarrow> int \<Rightarrow> byte list \<Rightarrow> 'h rpc_call list" where
  "requests_of M fd remote msg =
     (case OnRecvCliMsg ((new_IRpc (\<lambda>_. 0) :: ('h, unit) irpc)\<lparr>rpc_requestMap := M\<rparr>) fd remote (Some msg)
             (int (length msg)) of
        Some (Inr (_, calls, _)) \<Rightarrow> calls
      | _ \<Rightarrow> [])"

lemma OnRecvCliMsg_request:
  assumes "length name \<le> 244" "length data < 2 ^ 30" "rpc_requestMap r name \<noteq> None"
  shows "\<exists>h. OnRecvCliMsg r fd remote (Some (request_bytes (name, data))) (int (length (request_bytes (name, data))))
    = ret (r\<lparr>rpc_rhead := h\<rparr>, ([request_call (rpc_requestMap r) fd remote (name, data)], Last_call))"
proof -
  obtain f where f: "rpc_requestMap r name = Some f" using assms(3) by blast
  have i: "to_i32 (int (length data)) = int (length data)" using assms(2) by (intro to_i32_id) auto
  have D: "Decode (rpc_rhead r) (head_bytes 0 name (int (length data)) @ data @ [])
      (12 + int (length name) + int (length data))
    = ret ((rpc_rhead r)\<lparr>rh_Len := 12 + int (length name) + int (length data), rh_Ret := 0, rh_Name := name,
             rh_Data := (if data = [] then None else Some (12 + int (length name))),
             rh_DataLen := int (length data)\<rparr>, 0)"
    using assms(1,2) by (intro Decode_ok) auto
  have l: "int (length (request_bytes (name, data))) = 12 + int (length name) + int (length data)"
    by (simp add: request_bytes_def)
  show ?thesis
    unfolding l using D f i
    by (auto simp: OnRecvCliMsg_def request_bytes_def request_call_def Let_def payload_def nat_add_distrib)
qed

lemma requests_of_request:
  assumes "length name \<le> 244" "length data < 2 ^ 30" "M name \<noteq> None"
  shows "requests_of M fd remote (request_bytes (name, data)) = [request_call M fd remote (name, data)]"
proof -
  let ?r = "(new_IRpc (\<lambda>_. 0) :: ('a, unit) irpc)\<lparr>rpc_requestMap := M\<rparr>"
  have "rpc_requestMap ?r name \<noteq> None" using assms(3) by simp
  from OnRecvCliMsg_request [OF assms(1,2) this, of fd remote]
  show ?thesis by (auto simp: requests_of_def ret_def)
qed

lemma server_handles_requests:
  fixes app :: "('os, 'h, 's, 'c, 'a) app_code"
  assumes app: "app_keeps app fd K L" and K: "\<And>f n. K (upd_server f n) = K n"
  shows "handler_on (server_methods sys app) fd (\<lambda>n. rpc_requestMap (sv_rpc (net_app n)) = M \<and> K n = v)
    (\<lambda>msg cli. cli \<and> known_request M msg) (\<lambda>remote msg cli. requests_of M fd remote msg)
    (\<lambda>n. L (sv_app (net_app n)))"
  unfolding handler_on_def
proof (intro allI impI)
  fix n :: "('os, 'h, 's, 'c, 'a) world" and remote msg cli c
  assume r: "conn_ready n fd c" and M: "rpc_requestMap (sv_rpc (net_app n)) = M \<and> K n = v" and k: "cli \<and> known_request M msg"
  then obtain name data where m: "cli" "msg = request_bytes (name, data)" "length name \<le> 244" "length data < 2 ^ 30"
    "M name \<noteq> None"
    unfolding known_request_def by blast
  obtain h where h: "OnRecvCliMsg (sv_rpc (net_app n)) fd remote (Some msg) (int (length msg))
      = ret ((sv_rpc (net_app n))\<lparr>rpc_rhead := h\<rparr>, ([request_call M fd remote (name, data)], Last_call))"
    using OnRecvCliMsg_request [of name data "sv_rpc (net_app n)" fd remote] m M by auto
  let ?n = "upd_server (\<lambda>sv. sv\<lparr>sv_rpc := (sv_rpc (net_app n))\<lparr>rpc_rhead := h\<rparr>\<rparr>) n"
  have ready: "conn_ready ?n fd c" using r by (simp add: conn_ready_def upd_server_def GetConn_def split: if_splits)
  obtain n1 where n1: "app_handle app (request_call M fd remote (name, data)) ?n = ret n1" "conn_ready n1 fd c"
    "ci_ctype (net_conns n1 fd) = ci_ctype (net_conns ?n fd)"
    "ci_protocol (net_conns n1 fd) = ci_protocol (net_conns ?n fd)" "net_maxMsglen n1 = net_maxMsglen ?n"
    "rpc_requestMap (sv_rpc (net_app n1)) = rpc_requestMap (sv_rpc (net_app ?n))"
    "L (sv_app (net_app n1)) = L (sv_app (net_app ?n)) @ [request_call M fd remote (name, data)]"
    "K n1 = K ?n"
    using app_keepsD [OF app ready] unfolding request_call_def prod.case by metis
  have "svr_OnRecvMsg (server_methods sys app) n fd remote msg cli = ret n1"
    using m(1) h n1(1) by (simp add: server_methods_def OnRecvMsg_def request_call_def)
  then show "\<exists>n1. svr_OnRecvMsg (server_methods sys app) n fd remote msg cli = ret n1 \<and> conn_ready n1 fd c \<and>
      ci_ctype (net_conns n1 fd) = ci_ctype (net_conns n fd) \<and>
      ci_protocol (net_conns n1 fd) = ci_protocol (net_conns n fd) \<and>
      net_maxMsglen n1 = net_maxMsglen n \<and> (rpc_requestMap (sv_rpc (net_app n1)) = M \<and> K n1 = v) \<and>
      L (sv_app (net_app n1)) = L (sv_app (net_app n)) @ requests_of M fd remote msg"
    using n1 M m requests_of_request [of name data M fd remote]
    by (intro exI [of _ n1]) (simp add: K, simp add: upd_server_def)
qed

lemma request_calls:
  assumes "\<forall>(name, data) \<in> set reqs. M name \<noteq> None \<and> length name \<le> 244 \<and> length data < 2 ^ 30"
  shows "concat (map (\<lambda>f. requests_of M fd remote f) (map request_bytes reqs)) = map (request_call M fd remote) reqs"
proof -
  have "requests_of M fd remote (request_bytes req) = [request_call M fd remote req]" if "req \<in> set reqs" for req
  proof -
    obtain name data where req: "req = (name, data)" by (cases req)
    then have "M name \<noteq> None \<and> length name \<le> 244 \<and> length data < 2 ^ 30" using that assms by fastforce
    then show ?thesis using requests_of_request [of name data M fd remote] unfolding req by blast
  qed
  then have "map (\<lambda>f. requests_of M fd remote f) (map request_bytes reqs) = map (\<lambda>req. [request_call M fd remote req]) reqs"
    by simp
  then show ?thesis by (simp only: concat_map_singleton)
qed

lemma RecvMsg_requests:
  assumes app: "app_keeps app fd K L" and K: "\<And>f n. K (upd_server f n) = K n" "off_buffer K"
    and r: "conn_ready n fd (concat (map request_bytes reqs) @ rest)" "incomplete (net_maxMsglen n) rest"
      "ci_ctype (net_conns n fd) = CONN_TYPE_CLI"
    and reqs: "\<forall>(name, data) \<in> set reqs. rpc_requestMap (sv_rpc (net_app n)) name \<noteq> None \<and>
       length name \<le> 244 \<and> 12 + int (length name) + int (length data) \<le> net_maxMsglen n"
  shows "\<exists>n1. RecvMsg (server_methods sys app) n fd remote = ret (n1, 0) \<and> conn_ready n1 fd rest \<and> K n1 = K n \<and>
    rpc_requestMap (sv_rpc (net_app n1)) = rpc_requestMap (sv_rpc (net_app n)) \<and>
    L (sv_app (net_app n1)) = L (sv_app (net_app n)) @
      map (request_call (rpc_requestMap (sv_rpc (net_app n))) fd
             (if ci_protocol (net_conns n fd) = IOEV_TCP_PROTOCOL then 0 else remote)) reqs"
proof -
  let ?M = "rpc_requestMap (sv_rpc (net_app n))" and ?fs = "map request_bytes reqs"
  let ?r = "if ci_protocol (net_conns n fd) = IOEV_TCP_PROTOCOL then 0 else remote"
  have mx: "net_maxMsglen n \<le> 2 ^ 30" "GetConn n fd = Some fd" using r(1) by (auto simp: conn_ready_def)
  have ok: "\<forall>(name, data) \<in> set reqs. ?M name \<noteq> None \<and> length name \<le> 244 \<and> length data < 2 ^ 30"
    using reqs mx(1) by fastforce
  have "\<forall>f \<in> set ?fs. frame_ok (net_maxMsglen n) f" using reqs mx(1) request_frame by fastforce
  moreover have "\<forall>f \<in> set ?fs. ci_ctype (net_conns n fd) \<noteq> CONN_TYPE_SVR \<and> known_request ?M f"
    using ok r(3) unfolding known_request_def by (fastforce simp: CONN_TYPE_CLI_def CONN_TYPE_SVR_def)
  moreover have "on_app (\<lambda>n. L (sv_app (net_app n)))" by (simp add: on_app_def)
  moreover have "off_buffer (\<lambda>n'. rpc_requestMap (sv_rpc (net_app n')) = ?M \<and> K n' = K n)"
    using K(2) by (simp add: off_buffer_def)
  ultimately have "\<exists>n1. recv_all (server_methods sys app) n fd remote = ret n1 \<and> conn_ready n1 fd rest \<and>
      (rpc_requestMap (sv_rpc (net_app n1)) = ?M \<and> K n1 = K n) \<and>
      L (sv_app (net_app n1)) = L (sv_app (net_app n)) @ concat (map (\<lambda>f. requests_of ?M fd ?r f) ?fs)"
    using recv_all_frames [OF server_handles_requests [OF app K(1)] _ _ r(1) _ r(2), of ?M "K n" sys remote]
    by blast
  then show ?thesis using mx(2) unfolding request_calls [OF ok] by (auto simp: RecvMsg_def)
qed

text \<open>The way of requests through a server without workers: clients' \<open>SendRequest\<close> calls make
  messages; when their bytes, and part of another message, have arrived on a client's
  connection (in one block of its receive buffer), the read callback makes the application's
  handlers run, one for each request, in order, each the one registered under the request's
  name, with the descriptor, the sender's address and exactly the payload sent.\<close>

theorem requests_reach_application:
  assumes "app_quiet app fd L" "list_all2 request_sent reqs fs" "conn_ready n fd (concat fs @ rest)"
    "\<forall>(name, data) \<in> set reqs. rpc_requestMap (sv_rpc (net_app n)) name \<noteq> None \<and>
       12 + int (length name) + int (length data) \<le> net_maxMsglen n"
    "incomplete (net_maxMsglen n) rest" "ci_ctype (net_conns n fd) = CONN_TYPE_CLI"
  shows "\<exists>n1. RecvMsg (server_methods sys app) n fd remote = ret (n1, 0) \<and> conn_ready n1 fd rest \<and>
    L (sv_app (net_app n1)) = L (sv_app (net_app n)) @
      map (request_call (rpc_requestMap (sv_rpc (net_app n))) fd
             (if ci_protocol (net_conns n fd) = IOEV_TCP_PROTOCOL then 0 else remote)) reqs"
proof -
  have fs: "fs = map request_bytes reqs"
    using assms(2) by (induction reqs fs rule: list_all2_induct) (auto dest: request_sent_bytes)
  have "length name \<le> 244" if "(name, data) \<in> set reqs" for name data
  proof -
    have "\<exists>b. request_sent (name, data) b"
      using that assms(2) by (fastforce simp: list_all2_conv_all_nth in_set_conv_nth)
    then show ?thesis by (auto simp: request_sent_def)
  qed
  then have "\<forall>(name, data) \<in> set reqs. rpc_requestMap (sv_rpc (net_app n)) name \<noteq> None \<and>
      length name \<le> 244 \<and> 12 + int (length name) + int (length data) \<le> net_maxMsglen n"
    using assms(4) by fastforce
  from RecvMsg_requests [OF assms(1) [unfolded app_quiet_def] _ _ assms(3) [unfolded fs] assms(5,6) this, of sys remote]
  show ?thesis by (simp only: off_buffer_def) blast
qed

text \<open>An application that notes the calls, and a server with one connection, on descriptor 5.\<close>

definition noting_app :: "('os, nat, unit, unit, nat rpc_call list) app_code" where
  "noting_app =
     \<lparr>app_handle = (\<lambda>call n. ret (upd_server (\<lambda>sv. sv\<lparr>sv_app := sv_app sv @ [call]\<rparr>) n)),
      app_closed = (\<lambda>_ _ n. ret n)\<rparr>"

lemma noting_app_quiet: "app_quiet noting_app fd id"
  unfolding app_quiet_def app_keeps_def noting_app_def upd_server_def
  by (auto simp: conn_ready_def GetConn_def split: if_splits)

definition server5 :: "bool \<Rightarrow> (nat, unit, unit, nat rpc_call list) server" where
  "server5 single =
     \<lparr>sv_single = single, sv_rpc = (new_IRpc (\<lambda>_. 0))\<lparr>rpc_requestMap := [[76] \<mapsto> 7]\<rparr>, sv_connectors = Map.empty,
      sv_sendQue = queue60, sv_notified = 0, sv_app = []\<rparr>"

lemma requests_reach_application_witness:
  "\<exists>n1. RecvMsg (server_methods udp_sys noting_app)
      (net_at5 (server5 True) IOEV_TCP_PROTOCOL (request_bytes ([76], [1, 2]) @ request_bytes ([76], []) @ [0])) 5 0
      = ret (n1, 0) \<and>
    sv_app (net_app n1) = [Call_request 7 5 0 (Some [1, 2]) 2, Call_request 7 5 0 None 0]"
proof -
  let ?n = "net_at5 (server5 True) IOEV_TCP_PROTOCOL (request_bytes ([76], [1, 2]) @ request_bytes ([76], []) @ [0])"
  let ?reqs = "[([76], [1, 2]), ([76], [])] :: (byte list \<times> byte list) list"
  have s: "list_all2 request_sent ?reqs (map request_bytes ?reqs)"
    by (simp add: SendRequest_request_bytes)
  have r: "conn_ready ?n 5 (concat (map request_bytes ?reqs) @ [0])"
    using net_at5_ready [of "request_bytes ([76], [1, 2]) @ request_bytes ([76], []) @ [0]" "server5 True"
        IOEV_TCP_PROTOCOL]
    by (simp add: request_bytes_def)
  have n: "net_maxMsglen ?n = 64" "rpc_requestMap (sv_rpc (net_app ?n)) [76] = Some 7" "sv_app (net_app ?n) = []"
    "ci_ctype (net_conns ?n 5) = CONN_TYPE_CLI" "ci_protocol (net_conns ?n 5) = IOEV_TCP_PROTOCOL"
    by (simp_all add: net_at5_def new_NetMessage_def server5_def Let_def to_u32_id)
  have "\<forall>(name, data) \<in> set ?reqs. rpc_requestMap (sv_rpc (net_app ?n)) name \<noteq> None \<and>
      12 + int (length name) + int (length data) \<le> net_maxMsglen ?n"
    using n by simp
  from requests_reach_application [OF noting_app_quiet s r this _ n(4), of udp_sys 0] n
  show ?thesis by (auto simp: incomplete_def request_call_def)
qed

section \<open>URLs\<close>

lemma find_str_skip: "c \<notin> set a \<Longrightarrow> find_str (c # p) (a @ c # p @ b) = Some (length a)"
  by (induction a) (auto split: if_splits)

lemma find_str_absent: "c \<notin> set s \<Longrightarrow> find_str (c # p) s = None"
  by (induction s) auto

definition make_url :: "string \<Rightarrow> string \<Rightarrow> int \<Rightarrow> string" where
  "make_url proto ip port = proto @ ''://'' @ ip @ '':'' @ show_int port"

definition protocol_of :: "string \<Rightarrow> int" where
  "protocol_of proto = (if proto = ''udp'' then IOEV_UDP_PROTOCOL else IOEV_TCP_PROTOCOL)"

lemma parse_url_make:
  assumes "CHR '':'' \<notin> set proto" "CHR '':'' \<notin> set ip" "- (2 ^ 31) \<le> port" "port < 2 ^ 31"
  shows "parse_url (make_url proto ip port) = Some (protocol_of proto, ip, port)"
proof -
  let ?u = "make_url proto ip port"
  have f1: "find_from ''://'' ?u 0 = Some (length proto)"
    using find_str_skip [OF assms(1), of "''//''" "ip @ '':'' @ show_int port"]
    by (simp add: find_from_def make_url_def)
  have d: "drop (length proto + 3) ?u = ip @ '':'' @ show_int port"
    by (simp add: make_url_def numeral_eq_Suc)
  have f2: "find_from '':'' ?u (length proto + 3) = Some (length proto + 3 + length ip)"
    using find_str_skip [OF assms(2), of "[]" "show_int port"] unfolding find_from_def d
    by (simp add: make_url_def)
  have p: "drop (length proto + 3 + length ip + 1) ?u = show_int port"
    unfolding drop_drop [symmetric, of 1] drop_drop [symmetric, of "length ip"] by (simp add: make_url_def numeral_eq_Suc)
  have t: "take (length proto) ?u = proto" by (simp add: make_url_def)
  show ?thesis
    using atoi_show [OF assms(3,4)]
    unfolding parse_url_def f1 option.case Let_def f2 t p
    by (simp add: d protocol_of_def)
qed

text \<open>C17. The configured URL is understood: when the configuration file assigns the URL of a
  protocol, an address and a port to \<open>bindurl\<close>, binding what \<open>GetStr\<close> yields binds exactly that
  address and port, datagrams for \<open>udp\<close> and a stream for anything else; text without \<open>:\<close> is refused.\<close>

theorem configured_url_bound:
  assumes "\<forall>it \<in> set items. item_ok it"
    "map_of (rev (concat (map assignment items))) ''bindurl'' = Some (make_url proto ip port)"
    "CHR '':'' \<notin> set proto" "CHR '':'' \<notin> set ip" "- (2 ^ 31) \<le> port" "port < 2 ^ 31" "CHR '':'' \<notin> set junk"
  shows "Server_Bind sys app bind n (GetStr (fst (LoadCfg cfg (Some (render_file items)))) ''bindurl'') =
      Net_Message.Bind sys (server_methods sys app) n (protocol_of proto) (bind (protocol_of proto) ip port) \<and>
    Server_Bind sys app bind n junk = ret (n, None, -1)"
proof -
  have "GetStr (fst (LoadCfg cfg (Some (render_file items)))) ''bindurl'' = make_url proto ip port"
    using parse_loop_file [OF assms(1), of Map.empty] assms(2)
    by (simp add: LoadCfg_def Parse_def GetStr_def getVal_def)
  moreover have "parse_url junk = None"
    using find_str_absent [OF assms(7)] by (simp add: parse_url_def find_from_def)
  ultimately show ?thesis
    using parse_url_make [OF assms(3-6)] by (simp add: Server_Bind_def)
qed

lemma configured_url_bound_witness:
  "Server_Bind udp_sys noting_app (\<lambda>protocol ip port. if port = 8812 then 9 else -1) (net_at5 (server5 True) 1 [1])
      (GetStr (fst (LoadCfg new_IniConfig (Some (render_file sample_file)))) ''bindurl'') =
    ret (net_at5 (server5 True) 1 [1], Some 9, 0)"
proof -
  have u: "make_url ''tcp'' ''172.27.0.7'' 8812 = ''tcp://172.27.0.7:8812''"
  proof -
    have d: "decimal 8812 = ''8812''"
      by (simp add: decimal.simps [of 8812] decimal.simps [of 881] decimal.simps [of 88] decimal.simps [of 8] char_of_def bit_0)
    then show ?thesis by (simp add: make_url_def show_int_def)
  qed
  have p: "protocol_of ''tcp'' = IOEV_TCP_PROTOCOL" by (simp add: protocol_of_def)
  have m: "map_of (rev (concat (map assignment sample_file))) ''bindurl'' = Some (make_url ''tcp'' ''172.27.0.7'' 8812)"
    unfolding u by (simp add: sample_file_def)
  let ?b = "\<lambda>(protocol :: int) (ip :: string) (port :: int). if port = 8812 then 9 else -1 :: int"
  have "Server_Bind udp_sys noting_app ?b (net_at5 (server5 True) 1 [1])
      (GetStr (fst (LoadCfg new_IniConfig (Some (render_file sample_file)))) ''bindurl'') =
    Net_Message.Bind udp_sys (server_methods udp_sys noting_app) (net_at5 (server5 True) 1 [1]) (protocol_of ''tcp'')
      (?b (protocol_of ''tcp'') ''172.27.0.7'' 8812)"
    by (rule conjunct1 [OF configured_url_bound [where junk = "[]" and bind = ?b, OF sample_file_ok m]]) simp_all
  then show ?thesis by (simp add: p Net_Message.Bind_def)
qed

section \<open>Sending from a worker\<close>


lemma upd_server_net_at5: "upd_server f (net_at5 sv proto xs) = net_at5 (f sv) proto xs"
  by (simp add: upd_server_def net_at5_def new_NetMessage_def Let_def)

lemma net_app_at5: "net_app (net_at5 sv proto xs) = sv"
  by (simp add: net_at5_def new_NetMessage_def Let_def)


section \<open>Servers connected to\<close>



end
