(* ===== verification/Worker.thy ===== *)
theory Worker
  imports Server "HOL-Library.Signed_Division"
begin

text \<open>
  \<open>Worker\<close> (framework/Worker.h, Worker.cc) and what it uses of \<open>MutexLocker\<close>
  (common/Locker.h, Locker.cc): threads that take messages from the receive queue and deal with
  them.

  A round of \<open>dealRecvQue\<close> has two parts: one that holds the lock (\<open>take_block\<close>) and one that does
  not (\<open>dealMessage\<close>), which reads the message out of the queue's buffer.  The relation \<open>step\<close>
  interleaves the rounds of several workers with the network thread's pushes, which do not take
  the lock.  \<open>server_\<close> of a worker is the world of theory \<open>Server\<close>; the receive queue is the
  network's.
\<close>

section \<open>Waiting\<close>

text \<open>The absolute time \<open>WaitTimeout\<close> gives to \<open>pthread_cond_timedwait\<close>: seconds and nanoseconds.\<close>

definition wait_deadline :: "int \<Rightarrow> int \<Rightarrow> int \<Rightarrow> int \<times> int" where
  "wait_deadline tv_sec tv_usec ms =
     (let nsec = tv_usec * 1000 + ms * 1000000
      in (tv_sec + nsec sdiv 1000000000, nsec smod 1000000000))"

section \<open>One worker\<close>

record worker =
  wk_recvBuffer :: "byte list"
  wk_maxMsglen :: int
  wk_statCnt :: int

definition new_Worker :: worker where
  "new_Worker = \<lparr>wk_recvBuffer = [], wk_maxMsglen = 0, wk_statCnt = 0\<rparr>"

definition Worker_Init :: "worker \<Rightarrow> ini_config \<Rightarrow> worker" where
  "Worker_Init w cfg =
     (let ml = GetInt cfg ''max_msglen'' 81920
      in w\<lparr>wk_maxMsglen := ml, wk_recvBuffer := replicate (nat ml) 0\<rparr>)"

text \<open>
  The part under the lock.  While \<open>WaitTimeout\<close> waits others run: \<open>wake\<close> tells the queue the
  worker finds when it is woken, or that the time was up.  The block is left in the queue's
  buffer, and \<open>block\<close> still points to it afterwards.
\<close>

definition take_block ::
  "worker \<Rightarrow> (loop_queue \<Rightarrow> loop_queue option) \<Rightarrow> loop_queue \<Rightarrow> (loop_queue \<times> worker \<times> int option) run" where
  "take_block w wake q =
     rbind (FrontBlock q) (\<lambda>(q1, found).
     rbind (case found of
              Some off \<Rightarrow> ret (q1, Some off)
            | None \<Rightarrow> (case wake q1 of None \<Rightarrow> ret (q1, None) | Some q' \<Rightarrow> FrontBlock q')) (\<lambda>(q2, block).
       case block of
         None \<Rightarrow> ret (q2, w, None)
       | Some off \<Rightarrow>
           (let len = bt_len (lq_buff q2) off
            in rbind (assert_that (len \<le> wk_maxMsglen w)) (\<lambda>_.
               rbind (buff_check q2 off len) (\<lambda>_.
                 ret (PopBlock q2 len,
                      w\<lparr>wk_recvBuffer := mread (lq_buff q2) off len @ drop (nat len) (wk_recvBuffer w)\<rparr>,
                      Some off))))))"

definition dealMessage ::
  "'os sys \<Rightarrow> ('os, 'h, 's, 'c, 'a) app_code \<Rightarrow> ('os, 'h, 's, 'c, 'a) world \<Rightarrow> int \<Rightarrow>
     ('os, 'h, 's, 'c, 'a) world run" where
  "dealMessage sys app n off =
     (let q = net_recvQue n
      in if bt_type (lq_buff q) off = MT_CLI_MESSAGE
         then rbind (read_block q off) (\<lambda>m.
                OnRecvMsg sys app False n (msg_fd m) (msg_remote m) (msg_data m) True)
         else if bt_type (lq_buff q) off = MT_SVR_MESSAGE
         then rbind (read_block q off) (\<lambda>m.
                OnRecvMsg sys app False n (msg_fd m) 0 (msg_data m) False)
         else ret n)"

text \<open>One round of the endless loop of \<open>dealRecvQue\<close>, without interference after the taking.\<close>

definition deal_round ::
  "'os sys \<Rightarrow> ('os, 'h, 's, 'c, 'a) app_code \<Rightarrow> (loop_queue \<Rightarrow> loop_queue option) \<Rightarrow>
     ('os, 'h, 's, 'c, 'a) world \<times> worker \<Rightarrow> (('os, 'h, 's, 'c, 'a) world \<times> worker) run" where
  "deal_round sys app wake nw =
     (case nw of (n, w) \<Rightarrow>
        rbind (take_block w wake (net_recvQue n)) (\<lambda>(q1, w1, block).
          let n1 = n\<lparr>net_recvQue := q1\<rparr>
          in case block of
               None \<Rightarrow> ret (n1, w1)
             | Some off \<Rightarrow> rbind (dealMessage sys app n1 off) (\<lambda>n2. ret (n2, w1))))"

fun deal_rounds ::
  "'os sys \<Rightarrow> ('os, 'h, 's, 'c, 'a) app_code \<Rightarrow> (loop_queue \<Rightarrow> loop_queue option) \<Rightarrow> nat \<Rightarrow>
     ('os, 'h, 's, 'c, 'a) world \<times> worker \<Rightarrow> (('os, 'h, 's, 'c, 'a) world \<times> worker) run" where
  "deal_rounds sys app wake 0 nw = ret nw"
| "deal_rounds sys app wake (Suc k) nw = rbind (deal_round sys app wake nw) (deal_rounds sys app wake k)"

section \<open>Several threads\<close>

text \<open>
  The workers by number, each with the block it has taken and not yet dealt with.
\<close>

record ('os, 'h, 's, 'c, 'a) threads =
  th_world :: "('os, 'h, 's, 'c, 'a) world"
  th_workers :: "nat \<Rightarrow> worker"
  th_block :: "nat \<Rightarrow> int option"

inductive step ::
  "'os sys \<Rightarrow> ('os, 'h, 's, 'c, 'a) app_code \<Rightarrow> ('os, 'h, 's, 'c, 'a) threads \<Rightarrow>
     ('os, 'h, 's, 'c, 'a) threads \<Rightarrow> bool"
  for sys app where
  push: "PushMsg (net_recvQue (th_world t)) m = ret (q1, ok) \<Longrightarrow>
     step sys app t (t\<lparr>th_world := (th_world t)\<lparr>net_recvQue := q1\<rparr>\<rparr>)"
| take: "th_block t i = None \<Longrightarrow> take_block (th_workers t i) Map.empty (net_recvQue (th_world t)) = ret (q1, w1, b) \<Longrightarrow>
     step sys app t (t\<lparr>th_world := (th_world t)\<lparr>net_recvQue := q1\<rparr>, th_workers := (th_workers t)(i := w1),
                       th_block := (th_block t)(i := b)\<rparr>)"
| deal: "th_block t i = Some off \<Longrightarrow> dealMessage sys app (th_world t) off = ret n1 \<Longrightarrow>
     step sys app t (t\<lparr>th_world := n1, th_block := (th_block t)(i := None)\<rparr>)"

end
