(* ===== verification/Worker_Spec.thy ===== *)
theory Worker_Spec
  imports Worker Server_Spec Net_Queue
begin

text \<open>
  What the workers promise: the messages of the receive queue are dealt with in order; and where
  they do not keep it: a message that is taken is read after the lock is given back.
\<close>

section \<open>Waiting\<close>

text \<open>The time up to which a worker waits lies exactly \<open>ms\<close> milliseconds ahead and is a valid
  \<open>timespec\<close>: the nanoseconds are those of less than a second.\<close>

theorem wait_deadline_exact:
  assumes "0 \<le> tv_usec" "tv_usec < 1000000" "0 \<le> ms"
  shows "case wait_deadline tv_sec tv_usec ms of (sec, nsec) \<Rightarrow>
    0 \<le> nsec \<and> nsec < 1000000000 \<and>
    sec * 1000000000 + nsec = tv_sec * 1000000000 + tv_usec * 1000 + ms * 1000000"
proof -
  let ?n = "tv_usec * 1000 + ms * 1000000"
  have "0 \<le> ?n" using assms by simp
  then have "sgn ?n = 1 \<or> ?n = 0" by (auto simp: sgn_if)
  then have "?n sdiv 1000000000 = ?n div 1000000000" "?n smod 1000000000 = ?n mod 1000000000"
    using \<open>0 \<le> ?n\<close> by (auto simp: signed_divide_int_def signed_modulo_int_def abs_of_nonneg)
  then show ?thesis by (simp add: wait_deadline_def Let_def)
qed

lemma wait_deadline_exact_witness: "wait_deadline 100 995000 10 = (101, 5000000)"
  using wait_deadline_exact [of 995000 10 100]
  by (simp add: wait_deadline_def signed_divide_int_def signed_modulo_int_def)

section \<open>Taking and dealing\<close>

lemma take_block_Cons:
  assumes rep: "lq_rep q (m # ms)" and mx: "bsize m \<le> wk_maxMsglen w"
  shows "\<exists>q1 w1 off. take_block w wake q = ret (q1, w1, Some off) \<and> lq_rep q1 ms \<and>
    holds (lq_buff q1) off (enc m) \<and> msg_ok m \<and> 0 \<le> off \<and> off + bsize m \<le> lq_bufflen q1 \<and>
    wk_maxMsglen w1 = wk_maxMsglen w"
proof -
  obtain q1 where q1: "FrontBlock q = ret (q1, Some (lq_head q1))" "holds (lq_buff q1) (lq_head q1) (enc m)"
    "msg_ok m" "0 \<le> lq_head q1" "lq_head q1 + bsize m \<le> lq_bufflen q1" "lq_rep (PopBlock q1 (bsize m)) ms"
    using FrontBlock_Cons [OF rep] by blast
  have len: "bt_len (lq_buff q1) (lq_head q1) = bsize m" using read_block_enc [OF q1(2-5)] by simp
  show ?thesis
    using q1 mx bsize_ge [of m]
    by (intro exI [of _ "PopBlock q1 (bsize m)"]
        exI [of _ "w\<lparr>wk_recvBuffer := mread (lq_buff q1) (lq_head q1) (bsize m) @ drop (nat (bsize m)) (wk_recvBuffer w)\<rparr>"]
        exI [of _ "lq_head q1"])
      (simp add: take_block_def len buff_check_def assert_that_def PopBlock_def Let_def)
qed

text \<open>A message in the buffer is dealt with by its kind.\<close>

lemma dealMessage_read:
  assumes h: "holds (lq_buff (net_recvQue n)) off (enc m)" "msg_ok m" "0 \<le> off" "off + bsize m \<le> lq_bufflen (net_recvQue n)"
  shows "dealMessage sys app n off =
    (if msg_type m = MT_CLI_MESSAGE then OnRecvMsg sys app False n (msg_fd m) (msg_remote m) (msg_data m) True
     else if msg_type m = MT_SVR_MESSAGE then OnRecvMsg sys app False n (msg_fd m) 0 (msg_data m) False
     else ret n)"
proof -
  note r = read_block_enc [OF h]
  have "bt_type (lq_buff (net_recvQue n)) off = msg_type m"
    using r(1) by (auto simp: read_block_def rbind_eq_ret Let_def)
  then show ?thesis using r(1) by (simp add: dealMessage_def)
qed

section \<open>Requests through the workers\<close>

text \<open>
  What is assumed of the application here: a handler leaves the receive queue alone, registers no
  handlers, and notes the call.
\<close>

definition app_deals :: "('os, 'h, 's, 'c, 'a) app_code \<Rightarrow> ('a \<Rightarrow> 'h rpc_call list) \<Rightarrow> bool" where
  "app_deals app L \<longleftrightarrow>
     (\<forall>n h fd remote data k.
        \<exists>n1. app_handle app (Call_request h fd remote data k) n = ret n1 \<and> net_recvQue n1 = net_recvQue n \<and>
           rpc_requestMap (sv_rpc (net_app n1)) = rpc_requestMap (sv_rpc (net_app n)) \<and>
           L (sv_app (net_app n1)) = L (sv_app (net_app n)) @ [Call_request h fd remote data k])"

lemma app_dealsD:
  assumes "app_deals app L"
  shows "\<exists>n1. app_handle app (Call_request h fd remote data k) n = ret n1 \<and> net_recvQue n1 = net_recvQue n \<and>
    rpc_requestMap (sv_rpc (net_app n1)) = rpc_requestMap (sv_rpc (net_app n)) \<and>
    L (sv_app (net_app n1)) = L (sv_app (net_app n)) @ [Call_request h fd remote data k]"
  using assms unfolding app_deals_def by blast

definition request_msg :: "int \<Rightarrow> int \<Rightarrow> byte list \<times> byte list \<Rightarrow> message" where
  "request_msg fd remote req =
     \<lparr>msg_fd = fd, msg_remote = remote, msg_type = MT_CLI_MESSAGE, msg_data = request_bytes req\<rparr>"

lemma OnRecvMsg_request:
  fixes app :: "('os, 'h, 's, 'c, 'a) app_code" and n :: "('os, 'h, 's, 'c, 'a) world"
  assumes app: "app_deals app L" and req: "length name \<le> 244" "length data < 2 ^ 30"
    "rpc_requestMap (sv_rpc (net_app n)) name \<noteq> None"
  shows "\<exists>n1. OnRecvMsg sys app main n fd remote (request_bytes (name, data)) True = ret n1 \<and>
    net_recvQue n1 = net_recvQue n \<and>
    rpc_requestMap (sv_rpc (net_app n1)) = rpc_requestMap (sv_rpc (net_app n)) \<and>
    L (sv_app (net_app n1)) = L (sv_app (net_app n)) @
      [request_call (rpc_requestMap (sv_rpc (net_app n))) fd remote (name, data)]"
proof -
  let ?M = "rpc_requestMap (sv_rpc (net_app n))"
  obtain h where h: "OnRecvCliMsg (sv_rpc (net_app n)) fd remote (Some (request_bytes (name, data)))
        (int (length (request_bytes (name, data))))
      = ret ((sv_rpc (net_app n))\<lparr>rpc_rhead := h\<rparr>, ([request_call ?M fd remote (name, data)], Last_call))"
    using OnRecvCliMsg_request [OF req] by blast
  let ?n = "upd_server (\<lambda>sv. sv\<lparr>sv_rpc := (sv_rpc (net_app n))\<lparr>rpc_rhead := h\<rparr>\<rparr>) n"
  obtain n1 where n1: "app_handle app (request_call ?M fd remote (name, data)) ?n = ret n1"
    "net_recvQue n1 = net_recvQue ?n"
    "rpc_requestMap (sv_rpc (net_app n1)) = rpc_requestMap (sv_rpc (net_app ?n))"
    "L (sv_app (net_app n1)) = L (sv_app (net_app ?n)) @ [request_call ?M fd remote (name, data)]"
    using app_dealsD [OF app, of _ _ _ _ _ ?n] unfolding request_call_def prod.case by metis
  have "OnRecvMsg sys app main n fd remote (request_bytes (name, data)) True = ret n1"
    using h n1(1) by (simp add: OnRecvMsg_def request_call_def)
  then show ?thesis using n1(2-4) by (intro exI [of _ n1]) (simp add: upd_server_def)
qed

lemma deal_round_request:
  fixes app :: "('os, 'h, 's, 'c, 'a) app_code" and n :: "('os, 'h, 's, 'c, 'a) world"
  assumes app: "app_deals app L" and req: "length name \<le> 244" "length data < 2 ^ 30"
    "rpc_requestMap (sv_rpc (net_app n)) name \<noteq> None"
    and q: "lq_rep (net_recvQue n) (request_msg fd remote (name, data) # ms)"
    and mx: "bsize (request_msg fd remote (name, data)) \<le> wk_maxMsglen w"
  shows "\<exists>n1 w1. deal_round sys app wake (n, w) = ret (n1, w1) \<and> lq_rep (net_recvQue n1) ms \<and>
    wk_maxMsglen w1 = wk_maxMsglen w \<and>
    rpc_requestMap (sv_rpc (net_app n1)) = rpc_requestMap (sv_rpc (net_app n)) \<and>
    L (sv_app (net_app n1)) = L (sv_app (net_app n)) @
      [request_call (rpc_requestMap (sv_rpc (net_app n))) fd remote (name, data)]"
proof -
  let ?m = "request_msg fd remote (name, data)"
  obtain q1 w1 off where T: "take_block w wake (net_recvQue n) = ret (q1, w1, Some off)" "lq_rep q1 ms"
    "holds (lq_buff q1) off (enc ?m)" "msg_ok ?m" "0 \<le> off" "off + bsize ?m \<le> lq_bufflen q1"
    "wk_maxMsglen w1 = wk_maxMsglen w"
    using take_block_Cons [OF q mx] by blast
  let ?n = "n\<lparr>net_recvQue := q1\<rparr>"
  have D: "dealMessage sys app ?n off = OnRecvMsg sys app False ?n fd remote (request_bytes (name, data)) True"
    using dealMessage_read [of ?n off ?m sys app] T(3-6) by (simp add: request_msg_def)
  have "\<exists>n1. OnRecvMsg sys app False ?n fd remote (request_bytes (name, data)) True = ret n1 \<and>
    net_recvQue n1 = net_recvQue ?n \<and>
    rpc_requestMap (sv_rpc (net_app n1)) = rpc_requestMap (sv_rpc (net_app ?n)) \<and>
    L (sv_app (net_app n1)) = L (sv_app (net_app ?n)) @
      [request_call (rpc_requestMap (sv_rpc (net_app ?n))) fd remote (name, data)]"
    using req by (intro OnRecvMsg_request [OF app]) simp_all
  then show ?thesis using T(1,2,7) D by (auto simp: deal_round_def)
qed

lemma deal_rounds_requests:
  fixes app :: "('os, 'h, 's, 'c, 'a) app_code"
  assumes app: "app_deals app L"
  shows "lq_rep (net_recvQue n) (map (request_msg fd remote) reqs) \<Longrightarrow>
    \<forall>(name, data) \<in> set reqs. length name \<le> 244 \<and> length data < 2 ^ 30 \<and>
       rpc_requestMap (sv_rpc (net_app n)) name \<noteq> None \<and>
       34 + int (length name) + int (length data) \<le> wk_maxMsglen w \<Longrightarrow>
    \<exists>n1 w1. deal_rounds sys app wake (length reqs) (n :: ('os, 'h, 's, 'c, 'a) world, w) = ret (n1, w1) \<and>
      lq_rep (net_recvQue n1) [] \<and>
      L (sv_app (net_app n1)) = L (sv_app (net_app n)) @
        map (request_call (rpc_requestMap (sv_rpc (net_app n))) fd remote) reqs"
proof (induction reqs arbitrary: n w)
  case (Cons r reqs)
  obtain name data where r: "r = (name, data)" by (cases r)
  have b: "bsize (request_msg fd remote (name, data)) = 34 + int (length name) + int (length data)"
    by (simp add: bsize_def request_msg_def request_bytes_def sizeof_block_def)
  have q: "lq_rep (net_recvQue n) (request_msg fd remote (name, data) # map (request_msg fd remote) reqs)"
    and c: "length name \<le> 244" "length data < 2 ^ 30" "rpc_requestMap (sv_rpc (net_app n)) name \<noteq> None"
      "bsize (request_msg fd remote (name, data)) \<le> wk_maxMsglen w"
    using Cons.prems r b by simp_all
  obtain n1 w1 where n1: "deal_round sys app wake (n, w) = ret (n1, w1)"
    "lq_rep (net_recvQue n1) (map (request_msg fd remote) reqs)" "wk_maxMsglen w1 = wk_maxMsglen w"
    "rpc_requestMap (sv_rpc (net_app n1)) = rpc_requestMap (sv_rpc (net_app n))"
    "L (sv_app (net_app n1)) = L (sv_app (net_app n)) @
      [request_call (rpc_requestMap (sv_rpc (net_app n))) fd remote (name, data)]"
    using deal_round_request [OF app c(1-3) q c(4), of sys wake] by blast
  have "\<exists>n2 w2. deal_rounds sys app wake (length reqs) (n1, w1) = ret (n2, w2) \<and> lq_rep (net_recvQue n2) [] \<and>
      L (sv_app (net_app n2)) = L (sv_app (net_app n1)) @
        map (request_call (rpc_requestMap (sv_rpc (net_app n1))) fd remote) reqs"
    using Cons.prems(2) n1(3,4) by (intro Cons.IH [OF n1(2)]) auto
  then show ?case using n1 r by auto
qed simp

text \<open>The way of requests through a server with workers: clients' \<open>SendRequest\<close> calls make
  messages; when their bytes, and part of another message, have arrived on a client's connection,
  the read callback puts them into the receive queue, and a worker's next rounds make the
  application's handlers run, one for each request, in order, each the one registered under the
  request's name, with the descriptor, the sender's address and exactly the payload sent.\<close>

theorem requests_reach_workers:
  fixes app :: "('os, 'h, 's, 'c, 'a) app_code" and n :: "('os, 'h, 's, 'c, 'a) world"
  assumes app: "app_deals app L" and s: "list_all2 request_sent reqs fs" and c: "conn_queued n fd (concat fs @ rest)"
    and known: "\<forall>(name, data) \<in> set reqs. rpc_requestMap (sv_rpc (net_app n)) name \<noteq> None \<and>
       12 + int (length name) + int (length data) \<le> net_maxMsglen n \<and>
       34 + int (length name) + int (length data) \<le> wk_maxMsglen w"
    and part: "incomplete (net_maxMsglen n) rest" and cli: "ci_ctype (net_conns n fd) = CONN_TYPE_CLI"
    and r: "r = (if ci_protocol (net_conns n fd) = IOEV_TCP_PROTOCOL then 0 else remote)"
    and q: "lq_rep (net_recvQue n) []" "accepts (net_recvQue n) (map (frame_msg n fd r) fs) q'"
  shows "\<exists>n1 n2 w1. RecvMsg (server_methods sys app) n fd remote = ret (n1, 0) \<and>
    deal_rounds sys app wake (length reqs) (n1, w) = ret (n2, w1) \<and> lq_rep (net_recvQue n2) [] \<and>
    L (sv_app (net_app n2)) = L (sv_app (net_app n)) @
      map (request_call (rpc_requestMap (sv_rpc (net_app n))) fd r) reqs"
proof -
  have fs: "fs = map request_bytes reqs"
    using s by (induction reqs fs rule: list_all2_induct) (auto dest: request_sent_bytes)
  have len: "length name \<le> 244 \<and> length data < 2 ^ 30" if "(name, data) \<in> set reqs" for name data
  proof -
    have "\<exists>b. request_sent (name, data) b"
      using that s by (fastforce simp: list_all2_conv_all_nth in_set_conv_nth)
    then show ?thesis by (auto simp: request_sent_def)
  qed
  have mx: "net_maxMsglen n \<le> 2 ^ 30" "GetConn n fd = Some fd" using c by (auto simp: conn_queued_def)
  have f: "\<forall>f \<in> set fs. frame_ok (net_maxMsglen n) f"
    using known mx(1) request_frame unfolding fs by fastforce
  have st: "stops_at n fd r q' rest" using part by (simp add: stops_at_def)
  have m: "map (frame_msg n fd r) fs = map (request_msg fd r) reqs"
    unfolding fs using cli by (simp add: frame_msg_def request_msg_def CONN_TYPE_CLI_def CONN_TYPE_SVR_def)
  obtain n1 where n1: "RecvMsg (server_methods sys app) n fd remote = ret (n1, 0)" "net_recvQue n1 = q'"
    "net_app n1 = net_app n"
    using recv_all_queue [OF c f r q(2) st, of "server_methods sys app"] mx(2) by (auto simp: RecvMsg_def kept_def)
  have rep: "lq_rep (net_recvQue n1) (map (request_msg fd r) reqs)"
    using accepts_rep [OF q] m n1(2) by simp
  have "\<exists>n2 w1. deal_rounds sys app wake (length reqs) (n1, w) = ret (n2, w1) \<and> lq_rep (net_recvQue n2) [] \<and>
      L (sv_app (net_app n2)) = L (sv_app (net_app n1)) @
        map (request_call (rpc_requestMap (sv_rpc (net_app n1))) fd r) reqs"
    using known len n1(3) by (intro deal_rounds_requests [OF app rep]) fastforce
  then show ?thesis using n1(1,3) by auto
qed

text \<open>A configuration in which the 14 bytes of a request without payload fit.\<close>

definition worker64 :: worker where
  "worker64 = \<lparr>wk_recvBuffer = replicate 64 0, wk_maxMsglen = 64, wk_statCnt = 0\<rparr>"

lemma noting_app_deals: "app_deals noting_app id"
  unfolding app_deals_def noting_app_def upd_server_def by simp

lemma requests_reach_workers_witness:
  "\<exists>n1 n2 w1. RecvMsg (server_methods udp_sys noting_app)
      (queued5 (server5 False) IOEV_UDP_PROTOCOL (request_bytes ([76], [1, 2]) @ [0])) 5 77 = ret (n1, 0) \<and>
    deal_rounds udp_sys noting_app Map.empty 1 (n1, worker64) = ret (n2, w1) \<and>
    sv_app (net_app n2) = [Call_request 7 5 77 (Some [1, 2]) 2]"
proof -
  let ?n = "queued5 (server5 False) IOEV_UDP_PROTOCOL (request_bytes ([76], [1, 2]) @ [0])"
  let ?reqs = "[([76], [1, 2])] :: (byte list \<times> byte list) list"
  let ?m = "request_msg 5 77 ([76], [1, 2])"
  have s: "list_all2 request_sent ?reqs (map request_bytes ?reqs)"
    by (simp add: SendRequest_request_bytes)
  have c: "conn_queued ?n 5 (concat (map request_bytes ?reqs) @ [0])"
    using queued5_ready [of "request_bytes ([76], [1, 2]) @ [0]" "server5 False" IOEV_UDP_PROTOCOL]
    by (simp add: request_bytes_def)
  have k: "\<forall>(name, data) \<in> set ?reqs. rpc_requestMap (sv_rpc (net_app ?n)) name \<noteq> None \<and>
       12 + int (length name) + int (length data) \<le> net_maxMsglen ?n \<and>
       34 + int (length name) + int (length data) \<le> wk_maxMsglen worker64"
    by (simp add: queued5_simps server5_def worker64_def)
  have i: "incomplete (net_maxMsglen ?n) [0]" by (simp add: incomplete_def)
  have p: "77 = (if ci_protocol (net_conns ?n 5) = IOEV_TCP_PROTOCOL then 0 else 77)"
    by (simp add: queued5_simps IOEV_UDP_PROTOCOL_def IOEV_TCP_PROTOCOL_def)
  have q: "lq_rep (net_recvQue ?n) []" using lq_rep_queue60 by (simp add: queued5_simps)
  have "msg_ok ?m" "bsize ?m \<le> 60"
    by (simp_all add: msg_ok_def bsize_def sizeof_block_def request_msg_def request_bytes_def MT_CLI_MESSAGE_def)
  then have a: "accepts (net_recvQue ?n) (map (frame_msg ?n 5 77) (map request_bytes ?reqs)) (stored queue60 ?m)"
    using accepts_queue60 [of ?m] unfolding request_msg_def by (simp add: queued5_simps(1) frame_msg_queued5)
  have "to_i64 77 = 77" "rpc_requestMap (sv_rpc (net_app ?n)) [76] = Some 7" "sv_app (net_app ?n) = []"
    by (simp_all add: to_i64_id queued5_simps server5_def)
  with requests_reach_workers [OF noting_app_deals s c k i queued5_simps(5) p q a, of udp_sys Map.empty]
  show ?thesis by (auto simp: request_call_def)
qed

section \<open>A taken message is not safe\<close>

definition deal_of ::
  "'os sys \<Rightarrow> ('os, 'h, 's, 'c, 'a) app_code \<Rightarrow> ('os, 'h, 's, 'c, 'a) world \<Rightarrow> message \<Rightarrow>
     ('os, 'h, 's, 'c, 'a) world run" where
  "deal_of sys app n m =
     (if msg_type m = MT_CLI_MESSAGE then OnRecvMsg sys app False n (msg_fd m) (msg_remote m) (msg_data m) True
      else if msg_type m = MT_SVR_MESSAGE then OnRecvMsg sys app False n (msg_fd m) 0 (msg_data m) False
      else ret n)"

text \<open>C34. A worker takes a message that lies at the start of the queue's buffer and gives the lock
  back; before it deals with the message, the network thread pushes a shorter one that has no room
  behind it.  The push is accepted and put over the taken message: the worker deals with the new
  message instead, the taken one is lost, and the new one is still in the queue and will be dealt
  with again.\<close>

theorem taken_message_overwritten:
  fixes t :: "('os, 'h, 's, 'c, 'a) threads"
  assumes q: "lq_rep (net_recvQue (th_world t)) [m1]" "lq_head (net_recvQue (th_world t)) = 0"
    and m2: "msg_ok m2" "bsize m2 < bsize m1" "lq_bufflen (net_recvQue (th_world t)) < bsize m1 + bsize m2"
    and w: "th_block t i = None" "bsize m1 \<le> wk_maxMsglen (th_workers t i)"
  shows "\<exists>t1 t2. step sys app t t1 \<and> th_block t1 i = Some 0 \<and>
    dealMessage sys app (th_world t1) 0 = deal_of sys app (th_world t1) m1 \<and>
    step sys app t1 t2 \<and> th_block t2 i = Some 0 \<and>
    dealMessage sys app (th_world t2) 0 = deal_of sys app (th_world t2) m2 \<and>
    lq_rep (net_recvQue (th_world t2)) [m2]"
proof -
  let ?q = "net_recvQue (th_world t)" and ?w = "th_workers t i"
  have lin: "linear ?q [m1]" and ok: "msg_ok m1" and b: "22 \<le> lq_bufflen ?q"
    using q bsizes_nonneg by (auto simp: lq_rep_def wrapped_def dest: bsizes_pos)
  have h: "holds (lq_buff ?q) 0 (enc m1)" "lq_tail ?q = bsize m1" "bsize m1 \<le> lq_bufflen ?q"
    using lin q(2) by (auto simp: linear_def)
  have len: "bt_len (lq_buff ?q) 0 = bsize m1"
    using read_block_enc(2) [OF h(1) ok] h(3) by simp
  obtain w1 where T: "take_block ?w Map.empty ?q = ret (PopBlock ?q (bsize m1), w1, Some 0)"
    using FrontBlock_linear [OF lin ok] len q(2) w(2) h(3) bsize_ge [of m1]
    by (auto simp: take_block_def assert_that_def buff_check_def Let_def)
  let ?q1 = "PopBlock ?q (bsize m1)"
  let ?n1 = "(th_world t)\<lparr>net_recvQue := ?q1\<rparr>"
  let ?t1 = "t\<lparr>th_world := ?n1, th_workers := (th_workers t)(i := w1), th_block := (th_block t)(i := Some 0)\<rparr>"
  have q1: "lq_head ?q1 = bsize m1" "lq_tail ?q1 = bsize m1" "lq_bufflen ?q1 = lq_bufflen ?q" "lq_buff ?q1 = lq_buff ?q"
    using q(2) h(2) by (simp_all add: PopBlock_def)
  let ?q2 = "stored (wrap_tail ?q1) m2"
  have P: "PushMsg ?q1 m2 = ret (?q2, True)"
    using q1 b h(3) m2 bsize_ge [of m2] Push_wraps [of ?q1 m2] Push_store [of "wrap_tail ?q1" m2] by simp
  have "lq_rep ?q1 []"
    using q1 b h(3) bsize_ge [of m1] q(1) by (auto simp: lq_rep_def linear_def)
  moreover have "push_safe ?q1 m2" using m2 q1 by (simp add: push_safe_def)
  ultimately have R: "lq_rep ?q2 [m2]" using PushMsg_rep [of ?q1 "[]" m2] P by auto
  let ?n2 = "?n1\<lparr>net_recvQue := ?q2\<rparr>"
  let ?t2 = "?t1\<lparr>th_world := ?n2\<rparr>"
  have s1: "step sys app t ?t1" by (rule step.take [OF w(1) T])
  have s2: "step sys app ?t1 ?t2"
    using step.push [of ?t1 m2 ?q2 True sys app] P by simp
  have "dealMessage sys app ?n1 0 = deal_of sys app ?n1 m1"
    unfolding deal_of_def using h ok q1 by (intro dealMessage_read) simp_all
  moreover have "holds (lq_buff ?q2) 0 (enc m2)" "lq_bufflen ?q2 = lq_bufflen ?q"
    using holds_mwrite_same q1 by (simp_all add: stored_def)
  then have "dealMessage sys app ?n2 0 = deal_of sys app ?n2 m2"
    unfolding deal_of_def using m2 h(3) by (intro dealMessage_read) simp_all
  ultimately show ?thesis using s1 s2 R by (intro exI [of _ ?t1] exI [of _ ?t2]) simp
qed

definition threads5 :: "(unit, nat, unit, unit, nat rpc_call list) threads" where
  "threads5 =
     \<lparr>th_world = (queued5 (server5 False) IOEV_TCP_PROTOCOL [])\<lparr>net_recvQue := stored queue60 (sample_msg 5 10)\<rparr>,
      th_workers = (\<lambda>_. worker64), th_block = Map.empty\<rparr>"

lemma taken_message_overwritten_witness:
  "\<exists>t1 t2. step udp_sys noting_app threads5 t1 \<and> th_block t1 1 = Some 0 \<and>
    dealMessage udp_sys noting_app (th_world t1) 0 = deal_of udp_sys noting_app (th_world t1) (sample_msg 5 10) \<and>
    step udp_sys noting_app t1 t2 \<and> th_block t2 1 = Some 0 \<and>
    dealMessage udp_sys noting_app (th_world t2) 0 = deal_of udp_sys noting_app (th_world t2) (sample_msg 6 8) \<and>
    lq_rep (net_recvQue (th_world t2)) [sample_msg 6 8]"
  using lq_rep_stored5
  by (intro taken_message_overwritten)
    (simp_all add: threads5_def stored_simps queue60_simps bsize_msg msg_ok_msg worker64_def)

section \<open>The longest messages\<close>

text \<open>C35. A frame of at most \<open>max_msglen\<close> bytes but more than \<open>max_msglen - 22\<close> is accepted by the
  network thread and put into the queue, but makes the worker that takes it abort: the worker
  compares the length of the whole block, header included, with \<open>max_msglen\<close>.\<close>

theorem longest_frame_aborts_worker:
  fixes n :: "('os, 'h, 's, 'c, 'a) world"
  assumes "conn_queued n fd (f @ rest)" "frame_ok (net_maxMsglen n) f" "incomplete (net_maxMsglen n) rest"
    "wk_maxMsglen w = net_maxMsglen n" "net_maxMsglen n - 22 < int (length f)"
    "r = (if ci_protocol (net_conns n fd) = IOEV_TCP_PROTOCOL then 0 else remote)"
    "lq_rep (net_recvQue n) []" "accepts (net_recvQue n) [frame_msg n fd r f] q'"
  shows "\<exists>n1. RecvMsg (server_methods sys app) n fd remote = ret (n1, 0) \<and>
    deal_round sys app wake (n1, w) = fail Assert_failed"
proof -
  let ?m = "frame_msg n fd r f"
  have "GetConn n fd = Some fd" using assms(1) by (simp add: conn_queued_def)
  moreover have "\<exists>n1. recv_all (server_methods sys app) n fd remote = ret n1 \<and> conn_queued n1 fd rest \<and>
      net_recvQue n1 = q' \<and> kept n n1 fd"
    using assms by (intro recv_all_queue [where fs = "[f]" and r = r]) (simp_all add: stops_at_def)
  ultimately obtain n1 where n1: "RecvMsg (server_methods sys app) n fd remote = ret (n1, 0)" "net_recvQue n1 = q'"
    by (auto simp: RecvMsg_def)
  have "lq_rep q' [?m]" using accepts_rep [OF assms(7,8)] by simp
  then obtain q1 where q1: "FrontBlock q' = ret (q1, Some (lq_head q1))" "holds (lq_buff q1) (lq_head q1) (enc ?m)"
    "msg_ok ?m" "0 \<le> lq_head q1" "lq_head q1 + bsize ?m \<le> lq_bufflen q1"
    using FrontBlock_Cons by blast
  have "bt_len (lq_buff q1) (lq_head q1) = 22 + int (length f)"
    using read_block_enc [OF q1(2-5)] by (simp add: bsize_def sizeof_block_def frame_msg_def)
  then have "take_block w wake q' = fail Assert_failed"
    using q1(1) assms(4,5) by (simp add: take_block_def assert_that_def Let_def)
  then show ?thesis using n1 by (auto simp: deal_round_def)
qed

lemma longest_frame_aborts_worker_witness:
  "\<exists>n1. RecvMsg (server_methods udp_sys noting_app)
      ((queued5 (server5 False) IOEV_TCP_PROTOCOL [0, 0, 0, 5, 9])\<lparr>net_maxMsglen := 26\<rparr>) 5 0 = ret (n1, 0) \<and>
    deal_round udp_sys noting_app Map.empty (n1, worker64\<lparr>wk_maxMsglen := 26\<rparr>) = fail Assert_failed"
proof -
  let ?n = "(queued5 (server5 False) IOEV_TCP_PROTOCOL [0, 0, 0, 5, 9])\<lparr>net_maxMsglen := 26\<rparr>"
  let ?m = "\<lparr>msg_fd = 5, msg_remote = 0, msg_type = MT_CLI_MESSAGE, msg_data = [0, 0, 0, 5, 9]\<rparr>"
  have c: "conn_queued ?n 5 ([0, 0, 0, 5, 9] @ [])"
    using queued5_ready [of "[0, 0, 0, 5, 9]" "server5 False" IOEV_TCP_PROTOCOL]
    by (auto simp: conn_queued_def GetConn_def split: if_splits)
  have m: "frame_msg ?n 5 0 [0, 0, 0, 5, 9] = ?m"
    using frame_msg_queued5 [of "server5 False" IOEV_TCP_PROTOCOL "[0, 0, 0, 5, 9]" 0 "[0, 0, 0, 5, 9]"]
    by (simp add: frame_msg_def)
  have "msg_ok ?m" "bsize ?m \<le> 60"
    by (simp_all add: msg_ok_def bsize_def sizeof_block_def MT_CLI_MESSAGE_def)
  then have a: "accepts (net_recvQue ?n) [frame_msg ?n 5 0 [0, 0, 0, 5, 9]] (stored queue60 ?m)"
    using accepts_queue60 [of ?m] unfolding m by (simp add: queued5_simps)
  show ?thesis
    by (rule longest_frame_aborts_worker [OF c _ _ _ _ _ _ a])
      (use lq_rep_queue60 in \<open>simp_all add: frame_ok_def be_val_def incomplete_def queued5_simps worker64_def\<close>)
qed

end
