(* ===== verification/Net_Stream.thy ===== *)
theory Net_Stream
  imports Server_Spec
begin

text \<open>
  Requests on a stream (framework/IOEventEv.cc \<open>recvTcpData\<close>, BlockBuffer.cc, NetMessage.cc \<open>RecvMsg\<close>, Server.cc
  \<open>OnRecvMsg\<close>, IRpc.cc \<open>OnRecvCliMsg\<close>, one after the other, once for each time the socket is readable).

  A stream has no bounds of messages: \<open>recv\<close> yields pieces cut anywhere.  As long as what is left of a message is less
  than \<open>COPY_BLOCK_SIZE\<close> bytes, the receive buffer stays one block, and reading it is right; a longer message
  that comes in pieces is spoilt.
\<close>

section \<open>The pieces\<close>

text \<open>
  What is assumed of the system, as \<open>ioctl\<close> and \<open>recv\<close> are documented for a stream socket: \<open>pending\<close> reads from the
  system's state what is still to come on the socket, piece by piece; \<open>FIONREAD\<close> announces at least the next piece,
  and \<open>recv\<close> yields it.
\<close>

definition delivers :: "'os sys \<Rightarrow> int \<Rightarrow> ('os \<Rightarrow> byte list list) \<Rightarrow> bool" where
  "delivers sys fd pending \<longleftrightarrow>
     (\<forall>os xs segs. pending os = xs # segs \<longrightarrow>
        xs \<noteq> [] \<and>
        (\<exists>os1 k os2. sys_ioctl sys os fd = (os1, Some k) \<and> int (length xs) \<le> k \<and> k \<le> 2 ^ 29 \<and>
           sys_recv sys os1 fd k = (os2, Inr xs) \<and> pending os2 = segs))"

lemma deliversD:
  assumes "delivers sys fd pending" "pending os = xs # segs"
  obtains os1 k os2 where "xs \<noteq> []" "sys_ioctl sys os fd = (os1, Some k)" "int (length xs) \<le> k" "k \<le> 2 ^ 29"
    "sys_recv sys os1 fd k = (os2, Inr xs)" "pending os2 = segs"
  using assms unfolding delivers_def by blast

text \<open>The event loop, for as long as nothing but this socket is ready: one call of the read watcher's callback after another.\<close>

fun on_readables ::
  "'os sys \<Rightarrow> ('os, 'app) net server_calls \<Rightarrow> nat \<Rightarrow> ('os, 'app) net \<Rightarrow> nat \<Rightarrow> ('os, 'app) net run" where
  "on_readables sys srv 0 n h = ret n"
| "on_readables sys srv (Suc k) n h = rbind (on_readable sys srv n h) (\<lambda>n1. on_readables sys srv k n1 h)"

text \<open>What neither arriving bytes nor the application's handlers may change: the connection's entry and how its event
  is set up.\<close>

definition socket_of :: "('os, 'app) net \<Rightarrow> int \<Rightarrow> nat \<Rightarrow> conn_info \<times> (int \<times> int \<times> bool \<times> bool) option" where
  "socket_of n fd h =
     (net_conns n fd, map_option (\<lambda>e. (be_fd e, be_protocol e, be_rdcb e, be_evcb e)) (net_bevs n h))"

definition stream_socket :: "('os, 'app) net \<Rightarrow> int \<Rightarrow> nat \<Rightarrow> bool" where
  "stream_socket n fd h \<longleftrightarrow>
     ci_bev (net_conns n fd) = Some h \<and> ci_protocol (net_conns n fd) = IOEV_TCP_PROTOCOL \<and>
     ci_ctype (net_conns n fd) = CONN_TYPE_CLI \<and>
     snd (socket_of n fd h) = Some (fd, IOEV_TCP_PROTOCOL, True, True)"

lemma stream_socket_same: "socket_of n1 fd h = socket_of n fd h \<Longrightarrow> stream_socket n1 fd h = stream_socket n fd h"
  by (simp add: stream_socket_def socket_of_def)

section \<open>Cutting a stream\<close>

text \<open>However a stream of frames is cut in two: before the cut there are whole frames and the beginning of one.\<close>

lemma incomplete_prefix: "incomplete mx (p @ q) \<Longrightarrow> incomplete mx p"
  by (cases "length p < 4") (auto simp: incomplete_def)

lemma frame_prefix:
  assumes "frame_ok mx (p @ q)" "q \<noteq> []"
  shows "incomplete mx p"
  using assms by (cases "length p < 4") (auto simp: incomplete_def frame_ok_def)

lemma frames_cut:
  assumes "p @ q = concat fs @ rest" "\<forall>f \<in> set fs. frame_ok mx f \<and> length f \<le> l" "incomplete mx rest" "length rest < l"
  shows "\<exists>fs1 fs2 r. fs = fs1 @ fs2 \<and> p = concat fs1 @ r \<and> r @ q = concat fs2 @ rest \<and> incomplete mx r \<and> length r < l"
  using assms(1,2)
proof (induction fs arbitrary: p)
  case Nil
  then have "incomplete mx p" "length p < l" using assms(3,4) incomplete_prefix [of mx p q] by auto
  then show ?case using Nil by (intro exI [of _ "[]"] exI [of _ p]) simp
next
  case (Cons f fs)
  show ?case
  proof (cases "length f \<le> length p")
    case True
    let ?p = "drop (length f) p"
    have "take (length f) (p @ q) = f" using Cons.prems(1) by simp
    then have p1: "p = f @ ?p" using True append_take_drop_id [of "length f" p] by simp
    then have p1: "p = f @ ?p" "?p @ q = concat fs @ rest" using Cons.prems(1) by (simp, metis append.assoc concat.simps(2) same_append_eq)
    from Cons.IH [OF p1(2)] Cons.prems(2) obtain fs1 fs2 r where
      "fs = fs1 @ fs2" "?p = concat fs1 @ r" "r @ q = concat fs2 @ rest" "incomplete mx r" "length r < l" by auto
    then show ?thesis using p1(1) by (intro exI [of _ "f # fs1"] exI [of _ fs2] exI [of _ r]) simp
  next
    case False
    have "take (length p) (f @ concat fs @ rest) = p" using Cons.prems(1) by (metis append.assoc append_eq_conv_conj concat.simps(2))
    then have p1: "f = p @ drop (length p) f" "drop (length p) f \<noteq> []"
      using False append_take_drop_id [of "length p" f] by simp_all
    have "frame_ok mx (p @ drop (length p) f)" using p1(1) Cons.prems(2) by simp
    then have "incomplete mx p" "length p < l" using frame_prefix p1(2) Cons.prems(2) False by auto
    then show ?thesis using Cons.prems(1) by (intro exI [of _ "[]"] exI [of _ "f # fs"] exI [of _ p]) simp
  qed
qed

section \<open>One piece\<close>

lemma lives_one: "length ps \<le> 1 \<Longrightarrow> lives ps = (if ps = [] then [] else [content ps])"
  by (cases ps) auto

lemma used_one:
  assumes "bb_rep s q ps" "length ps \<le> 1" "ps \<noteq> []"
  shows "used (snd (last ps)) = int (length (content ps))"
proof -
  obtain p where ps: "ps = [p]" using assms(2,3) by (cases ps) auto
  then have "block_ok (snd p)" using assms(1) by (simp add: bb_rep_def last_ok_def)
  then show ?thesis using length_live ps by simp
qed

lemma read_piece:
  assumes r: "conn_ready n fd c" "length c < 4096" and s: "stream_socket n fd h"
    and d: "delivers sys fd pending" "pending (net_os n) = xs # segs"
  obtains n0 where "on_readable sys srv n h = rbind (RecvMsg srv n0 fd 0) (\<lambda>(n1, _). ret n1)"
    "conn_ready n0 fd (c @ xs)" "socket_of n0 fd h = socket_of n fd h" "pending (net_os n0) = segs"
    "net_app n0 = net_app n" "net_maxMsglen n0 = net_maxMsglen n"
proof -
  obtain e ps where e: "ci_bev (net_conns n fd) = Some h" "net_bevs n h = Some e"
    "bb_rep (net_store n) (be_recvBuffer e) ps" "length ps \<le> 1" "content ps = c"
    "be_fd e = fd" "be_protocol e = IOEV_TCP_PROTOCOL" "be_rdcb e" "be_evcb e"
    using r(1) s by (auto simp: conn_ready_def stream_socket_def socket_of_def)
  obtain os1 k os2 where o: "xs \<noteq> []" "sys_ioctl sys (net_os n) (be_fd e) = (os1, Some k)" "int (length xs) \<le> k" "k \<le> 2 ^ 29"
    "sys_recv sys os1 (be_fd e) k = (os2, Inr xs)" "pending os2 = segs"
    using deliversD [OF d] unfolding e(6) .
  have "length xs \<le> 2 ^ 29" "0 \<le> k" using o(3,4) by simp_all
  then have "0 \<le> k" "length (content ps) + length xs \<le> 2 ^ 30" using e(5) r(2) by simp_all
  then obtain s1 q1 ps1 where R: "recvTcpData sys (net_os n) (net_store n) e = ret (os2, s1, e\<lparr>be_recvBuffer := q1\<rparr>, [Rdcb fd 0], 0)"
    "bb_rep s1 q1 ps1" "content ps1 = c @ xs" and L: "lives ps1 =
       (if ps \<noteq> [] \<and> (k \<le> bk_len (snd (last ps)) - bk_wrpos (snd (last ps)) \<or> used (snd (last ps)) < COPY_BLOCK_SIZE)
        then butlast (lives ps) @ [last (lives ps) @ xs] else lives ps @ [xs])"
    using recvTcpData_commits [OF e(3) o(2,5) _ o(4,3) _ _ e(8,9)] e(4-6) o(1) by auto
  have "ps \<noteq> [] \<longrightarrow> used (snd (last ps)) < COPY_BLOCK_SIZE"
    using used_one [OF e(3,4)] e(5) r(2) by (simp add: COPY_BLOCK_SIZE_def)
  then have "length (lives ps1) \<le> 1" unfolding L lives_one [OF e(4)] by simp
  then have R4: "length ps1 \<le> 1" by simp
  let ?n = "(set_bev n (Some h) (e\<lparr>be_recvBuffer := q1\<rparr>))\<lparr>net_os := os2, net_store := s1\<rparr>"
  have "length (c @ xs) < 2 ^ 31" using r(2) o(3,4) by simp
  then have "conn_ready ?n fd (c @ xs)"
    using r(1) R(2,3) R4 e(1) by (auto simp: conn_ready_def set_bev_def GetConn_def split: if_splits)
  moreover have "on_readable sys srv n h = rbind (RecvMsg srv ?n fd 0) (\<lambda>(n1, _). ret n1)"
    using R(1) e(2,7) by (simp add: on_readable_def get_bev_def RecvData_def event_callback_def rbind_ret_right)
  ultimately show ?thesis using that [of ?n] o(6) e(2) by (simp add: set_bev_def socket_of_def)
qed

section \<open>All pieces\<close>

text \<open>What the handlers must not change, with what is still to come.\<close>

definition stream_kept :: "int \<Rightarrow> nat \<Rightarrow> ('os \<Rightarrow> byte list list) \<Rightarrow> ('os, 'app) net \<Rightarrow>
    (conn_info \<times> (int \<times> int \<times> bool \<times> bool) option) \<times> byte list list \<times> int" where
  "stream_kept fd h pending n = (socket_of n fd h, pending (net_os n), net_maxMsglen n)"

lemma stream_kept_invariant:
  "stream_kept fd h pending (upd_server f n) = stream_kept fd h pending n" "off_buffer (stream_kept fd h pending)"
  by (auto simp: stream_kept_def socket_of_def upd_server_def off_buffer_def)

lemma stream_requests:
  assumes app: "app_keeps app fd (stream_kept fd h pending) L" and d: "delivers sys fd pending"
    and r: "conn_ready n fd c" "length c < 4096" "incomplete (net_maxMsglen n) c" and s: "stream_socket n fd h"
    and stream: "c @ concat (pending (net_os n)) = concat (map request_bytes reqs) @ rest"
      "incomplete (net_maxMsglen n) rest" "length rest < 4096"
    and reqs: "\<forall>(name, data) \<in> set reqs. rpc_requestMap (sv_rpc (net_app n)) name \<noteq> None \<and> length name \<le> 244 \<and>
       12 + int (length name) + int (length data) \<le> min 4096 (net_maxMsglen n)"
  shows "\<exists>n1. on_readables sys (server_methods sys app) (length (pending (net_os n))) n h = ret n1 \<and>
    conn_ready n1 fd rest \<and> stream_socket n1 fd h \<and> pending (net_os n1) = [] \<and>
    L (sv_app (net_app n1)) = L (sv_app (net_app n)) @ map (request_call (rpc_requestMap (sv_rpc (net_app n))) fd 0) reqs"
  using assms(3-)
proof (induction "pending (net_os n)" arbitrary: n c reqs)
  case Nil
  have c: "c = concat (map request_bytes reqs) @ rest" using Nil.prems(5) Nil.hyps by simp
  have "reqs = []"
  proof (rule ccontr)
    assume "reqs \<noteq> []"
    then obtain name data reqs1 where q: "reqs = (name, data) # reqs1" by (cases reqs) auto
    have mx: "net_maxMsglen n \<le> 2 ^ 30" using Nil.prems(1) by (simp add: conn_ready_def)
    have "frame_ok (net_maxMsglen n) (request_bytes (name, data))"
      using Nil.prems(8) request_frame [OF _ mx, of name data] unfolding q by simp
    then have "\<not> incomplete (net_maxMsglen n) c" unfolding c q by (auto simp: frame_ok_def incomplete_def)
    then show False using Nil.prems(3) by simp
  qed
  then show ?case using Nil c by simp
next
  case (Cons xs segs)
  let ?M = "rpc_requestMap (sv_rpc (net_app n))" and ?srv = "server_methods sys app"
  have mx: "net_maxMsglen n \<le> 2 ^ 30" using Cons.prems(1) by (simp add: conn_ready_def)
  obtain n0 where n0: "on_readable sys ?srv n h = rbind (RecvMsg ?srv n0 fd 0) (\<lambda>(n1, _). ret n1)"
    "conn_ready n0 fd (c @ xs)" "socket_of n0 fd h = socket_of n fd h" "pending (net_os n0) = segs"
    "net_app n0 = net_app n" "net_maxMsglen n0 = net_maxMsglen n"
    using read_piece [OF Cons.prems(1,2,4) d Cons.hyps(2) [symmetric]] by blast
  have all: "(c @ xs) @ concat segs = concat (map request_bytes reqs) @ rest"
    using Cons.prems(5) unfolding Cons.hyps(2) [symmetric] by simp
  have "length f \<le> 4096 \<and> frame_ok (net_maxMsglen n) f" if f: "f \<in> set (map request_bytes reqs)" for f
  proof -
    obtain name data where "(name, data) \<in> set reqs" "f = request_bytes (name, data)" using f by auto
    then show ?thesis using Cons.prems(8) request_frame [OF _ mx, of name data]
      by (fastforce simp: request_bytes_def)
  qed
  then obtain fs1 fs2 r where cut: "map request_bytes reqs = fs1 @ fs2" "c @ xs = concat fs1 @ r"
    "r @ concat segs = concat fs2 @ rest" "incomplete (net_maxMsglen n) r" "length r < 4096"
    using frames_cut [OF all _ Cons.prems(6,7)] by blast
  then obtain reqs1 reqs2 where q: "reqs = reqs1 @ reqs2" "fs1 = map request_bytes reqs1" "fs2 = map request_bytes reqs2"
    by (auto simp: map_eq_append_conv)
  have sock: "ci_ctype (net_conns n0 fd) = CONN_TYPE_CLI" "ci_protocol (net_conns n0 fd) = IOEV_TCP_PROTOCOL"
    using n0(3) Cons.prems(4) by (simp_all add: socket_of_def stream_socket_def)
  have "\<forall>(name, data) \<in> set reqs1. rpc_requestMap (sv_rpc (net_app n0)) name \<noteq> None \<and> length name \<le> 244 \<and>
      12 + int (length name) + int (length data) \<le> net_maxMsglen n0"
    using Cons.prems(8) unfolding q(1) n0(5,6) by fastforce
  from RecvMsg_requests [OF app stream_kept_invariant n0(2) [unfolded cut(2) q(2)] _ sock(1) this, of sys 0]
  obtain n1 where n1: "RecvMsg ?srv n0 fd 0 = ret (n1, 0)" "conn_ready n1 fd r"
    "stream_kept fd h pending n1 = stream_kept fd h pending n0" "rpc_requestMap (sv_rpc (net_app n1)) = ?M"
    "L (sv_app (net_app n1)) = L (sv_app (net_app n)) @ map (request_call ?M fd 0) reqs1"
    using cut(4) sock(2) unfolding n0(5,6) by auto
  have k: "segs = pending (net_os n1)" "net_maxMsglen n1 = net_maxMsglen n" "stream_socket n1 fd h"
    using n1(3) n0(3,4,6) Cons.prems(4) stream_socket_same by (auto simp: stream_kept_def)
  have "r @ concat (pending (net_os n1)) = concat (map request_bytes reqs2) @ rest" using cut(3) q(3) k(1) by simp
  moreover have "\<forall>(name, data) \<in> set reqs2. rpc_requestMap (sv_rpc (net_app n1)) name \<noteq> None \<and> length name \<le> 244 \<and>
      12 + int (length name) + int (length data) \<le> min 4096 (net_maxMsglen n1)"
    using Cons.prems(8) unfolding q(1) n1(4) k(2) by fastforce
  ultimately obtain n2 where n2: "on_readables sys ?srv (length segs) n1 h = ret n2" "conn_ready n2 fd rest" "stream_socket n2 fd h"
    "pending (net_os n2) = []" "L (sv_app (net_app n2)) = L (sv_app (net_app n1)) @ map (request_call ?M fd 0) reqs2"
    using Cons.hyps(1) [OF k(1) n1(2) cut(5) _ k(3) _ _ Cons.prems(7)] cut(4) Cons.prems(6) unfolding k(1) n1(4) k(2) by blast
  have "on_readables sys ?srv (length (pending (net_os n))) n h = ret n2"
    unfolding Cons.hyps(2) [symmetric] using n0(1) n1(1) n2(1) by simp
  then show ?case using n2 n1(5) q(1) by simp
qed

text \<open>Requests on a stream: clients' \<open>SendRequest\<close> calls make messages of at most 4096 bytes; in whatever pieces their
  bytes, and those of the beginning of another one, arrive on a client's TCP connection, one piece each time the socket
  is readable, the application's handlers run once for each request, in order, each the one registered under the
  request's name, with exactly the payload sent; what is left in the receive buffer is the beginning of the last one.\<close>

theorem stream_reaches_application:
  assumes "app_keeps app fd (stream_kept fd h pending) L" "delivers sys fd pending"
    "conn_ready n fd []" "stream_socket n fd h" "list_all2 request_sent reqs fs"
    "concat (pending (net_os n)) = concat fs @ rest" "incomplete (net_maxMsglen n) rest" "length rest < 4096"
    "\<forall>(name, data) \<in> set reqs. rpc_requestMap (sv_rpc (net_app n)) name \<noteq> None \<and>
       12 + int (length name) + int (length data) \<le> min 4096 (net_maxMsglen n)"
  shows "\<exists>n1. on_readables sys (server_methods sys app) (length (pending (net_os n))) n h = ret n1 \<and>
    conn_ready n1 fd rest \<and> stream_socket n1 fd h \<and> pending (net_os n1) = [] \<and>
    L (sv_app (net_app n1)) = L (sv_app (net_app n)) @ map (request_call (rpc_requestMap (sv_rpc (net_app n))) fd 0) reqs"
proof -
  have fs: "fs = map request_bytes reqs"
    using assms(5) by (induction reqs fs rule: list_all2_induct) (auto dest: request_sent_bytes)
  have "\<forall>(name, data) \<in> set reqs. length name \<le> 244"
    using assms(5) by (induction reqs fs rule: list_all2_induct) (auto simp: request_sent_def)
  then have "\<forall>(name, data) \<in> set reqs. rpc_requestMap (sv_rpc (net_app n)) name \<noteq> None \<and> length name \<le> 244 \<and>
      12 + int (length name) + int (length data) \<le> min 4096 (net_maxMsglen n)"
    using assms(9) by fastforce
  moreover have "incomplete (net_maxMsglen n) []" by (simp add: incomplete_def)
  ultimately show ?thesis
    using stream_requests [OF assms(1-3) _ _ assms(4) _ assms(7,8), of reqs] assms(6) unfolding fs by simp
qed

text \<open>A system whose state is the list of the pieces to come, and a server with a new connection on descriptor 5.\<close>

definition piece_sys :: "byte list list sys" where
  "piece_sys =
     \<lparr>sys_ioctl = (\<lambda>os fd. (os, Some (int (length (hd os))))), sys_recv = (\<lambda>os fd n. (tl os, Inr (hd os))),
      sys_recvfrom = (\<lambda>os fd n. (os, Inl EAGAIN, 0, 0)), sys_send = (\<lambda>os fd xs. (os, -1, EAGAIN)),
      sys_sendto = (\<lambda>os fd xs a p. (os, int (length xs))), sys_close = (\<lambda>os fd. os)\<rparr>"

definition to_come :: "byte list list \<Rightarrow> byte list list" where
  "to_come os = takeWhile (\<lambda>xs. xs \<noteq> [] \<and> length xs \<le> 2 ^ 29) os"

lemma piece_sys_delivers: "delivers piece_sys fd to_come"
proof -
  have "xs \<noteq> [] \<and> length xs \<le> 2 ^ 29 \<and> hd os = xs \<and> to_come (tl os) = segs" if "to_come os = xs # segs" for os xs segs
    using that by (cases os) (auto simp: to_come_def split: if_splits)
  then show ?thesis unfolding delivers_def by (fastforce simp: piece_sys_def)
qed

definition piece_net :: "'os \<Rightarrow> block_store \<Rightarrow> block_buffer \<Rightarrow> 'app \<Rightarrow> ('os, 'app) net" where
  "piece_net os s q app =
     (new_NetMessage os s 8192 16 True (replicate 8192 0) new_LoopQueue app)
       \<lparr>net_bevs := [0 \<mapsto> (SetCb (new_BufferEventEv IOEV_TCP_PROTOCOL 5) True True True)\<lparr>be_recvBuffer := q\<rparr>],
        net_brk := 1,
        net_conns := (\<lambda>_. \<lparr>ci_fd = -1, ci_ctype = 0, ci_protocol = 0, ci_bev = None\<rparr>)
          (5 := \<lparr>ci_fd = 5, ci_ctype = CONN_TYPE_CLI, ci_protocol = IOEV_TCP_PROTOCOL, ci_bev = Some 0\<rparr>)\<rparr>"

lemma piece_net_simps [simp]:
  "net_os (piece_net os s q app) = os" "net_app (piece_net os s q app) = app" "net_maxMsglen (piece_net os s q app) = 8192"
  "net_recvBuffer (piece_net os s q app) = replicate 8192 0" "net_store (piece_net os s q app) = s"
  by (simp_all add: piece_net_def new_NetMessage_def to_u32_id)

lemma piece_net_ready:
  assumes "bb_rep s q ps" "length ps \<le> 1"
  shows "conn_ready (piece_net os s q app) 5 (content ps)" "stream_socket (piece_net os s q app) 5 0"
proof -
  have "length (content ps) < 2 ^ 31" using assms(1) by (simp add: bb_rep_def)
  then show "conn_ready (piece_net os s q app) 5 (content ps)"
    using assms unfolding conn_ready_def by (auto simp: piece_net_def new_NetMessage_def GetConn_def to_u32_id)
  show "stream_socket (piece_net os s q app) 5 0"
    by (simp add: piece_net_def stream_socket_def socket_of_def new_NetMessage_def SetCb_def new_BufferEventEv_def)
qed

lemma noting_app_keeps:
  assumes "\<And>f n. K (upd_server f n) = K n"
  shows "app_keeps noting_app fd K id"
  using assms unfolding app_keeps_def noting_app_def
  by (auto simp: conn_ready_def GetConn_def upd_server_def split: if_splits)

lemma stream_reaches_application_witness:
  "\<exists>n1. on_readables piece_sys (server_methods piece_sys noting_app) 3
      (piece_net [[0, 0, 0, 15, 0, 0], [0, 0, 0, 0, 0, 1, 76, 1, 2, 0, 0, 0, 13, 0, 0, 0], [0, 0, 0, 0, 1, 76, 0, 0]]
         (empty_store (\<lambda>_ _. 0)) new_BlockBuffer (server5 True)) 0 = ret n1 \<and>
    conn_ready n1 5 [0, 0] \<and> sv_app (net_app n1) = [Call_request 7 5 0 (Some [1, 2]) 2, Call_request 7 5 0 None 0]"
proof -
  let ?os = "[[0, 0, 0, 15, 0, 0], [0, 0, 0, 0, 0, 1, 76, 1, 2, 0, 0, 0, 13, 0, 0, 0], [0, 0, 0, 0, 1, 76, 0, 0]] :: byte list list"
  let ?n = "piece_net ?os (empty_store (\<lambda>_ _. 0)) new_BlockBuffer (server5 True)"
  let ?reqs = "[([76], [1, 2]), ([76], [])] :: (byte list \<times> byte list) list"
  have s: "list_all2 request_sent ?reqs (map request_bytes ?reqs)"
    by (simp add: SendRequest_request_bytes)
  have b: "bb_rep (empty_store (\<lambda>_ _. 0)) new_BlockBuffer []" by (rule bb_rep_new [OF store_ok_empty])
  have r: "conn_ready ?n 5 []" using piece_net_ready(1) [OF b, of ?os "server5 True"] by simp
  have k: "stream_socket ?n 5 0" by (rule piece_net_ready(2) [OF b]) simp
  have p: "to_come (net_os ?n) = ?os" by (simp add: to_come_def)
  have c: "concat (to_come (net_os ?n)) = concat (map request_bytes ?reqs) @ [0, 0]"
    unfolding p by (simp add: request_bytes_def head_bytes_def be_bytes_def numeral_eq_Suc)
  have a: "app_keeps noting_app 5 (stream_kept 5 0 to_come) id" by (rule noting_app_keeps) (rule stream_kept_invariant)
  have m: "rpc_requestMap (sv_rpc (server5 True)) [76] = Some 7" "sv_app (server5 True) = []"
    by (simp_all add: server5_def)
  have three: "length ?os = 3" by simp
  from stream_reaches_application [OF a piece_sys_delivers r k s c] show ?thesis unfolding p three
    using m by (auto simp: incomplete_def request_call_def to_i64_def simp del: on_readables.simps)
qed

section \<open>Long messages\<close>

text \<open>A message in two blocks of the receive buffer: each block's bytes are written to the start of the array.\<close>

lemma read_across:
  assumes rep: "bb_rep s (be_recvBuffer e) ps" "lives ps = [c, xs]"
    and f: "frame_ok mx (c @ xs)" "4 \<le> length c" "length xs \<le> length c" "length (c @ xs) \<le> length d" "mx \<le> 2 ^ 30"
  shows "CopyReadBuff s e [0, 0, 0, 0] 4 = ret (take 4 c, 4) \<and>
    GetReadBuffLen s e = ret (int (length (c @ xs))) \<and>
    (\<exists>s1 q1 ps1. Read s e d (int (length (c @ xs))) =
        ret (s1, e\<lparr>be_recvBuffer := q1\<rparr>, xs @ drop (length xs) c @ drop (length c) d, int (length (c @ xs))) \<and>
       bb_rep s1 q1 ps1 \<and> length ps1 \<le> 1 \<and> content ps1 = [])"
proof -
  let ?q = "be_recvBuffer e" and ?L = "int (length (c @ xs))"
  have cont: "content ps = c @ xs" using rep(2) by (simp add: content_def lives_def)
  have t: "bb_totallen ?q = ?L" using rep(1) cont by (simp add: bb_rep_def)
  have "Copy s ?q [0, 0, 0, 0] 4 = ret (delivered [c, xs] 4 [0, 0, 0, 0], 4)"
    using Copy_rep [OF rep(1), of 4 "[0, 0, 0, 0]"] rep(2) t f(2) by simp
  then have C: "CopyReadBuff s e [0, 0, 0, 0] 4 = ret (take 4 c, 4)"
    using f(2) delivered_head [of 4 c "[xs]" "[0, 0, 0, 0]"] by (simp add: CopyReadBuff_def to_i32_id del: delivered.simps)
  have "?L < 2 ^ 31" using f(1,5) by (simp add: frame_ok_def)
  then have G: "GetReadBuffLen s e = ret ?L"
    using GetTotalLen_rep [OF rep(1)] cont by (simp add: GetReadBuffLen_def to_u64_id)
  have D: "delivered [c, xs] (length (c @ xs)) d = xs @ drop (length xs) c @ drop (length c) d" using f(3) by simp
  have "nat ?L = length (c @ xs)" by simp
  then obtain s1 q1 ps1 where M: "Move s ?q (Some d) ?L = ret (s1, q1, Some (xs @ drop (length xs) c @ drop (length c) d), ?L)"
    "bb_rep s1 q1 ps1" "content ps1 = []"
    using Move_rep [OF rep(1), of ?L "Some d"] f(4) D t rep(2) cont by (auto simp del: delivered.simps)
  have "0 < ?L" using f(2) by auto
  then have "Read s e d ?L = ret (s1, e\<lparr>be_recvBuffer := q1\<rparr>, xs @ drop (length xs) c @ drop (length c) d, ?L)"
    using M(1) by (simp add: Read_def assert_that_def)
  then show ?thesis using C G M(2,3) content_Nil_short [OF M(2,3)] by blast
qed

lemma RecvMsg_across:
  assumes h: "handler_ok srv fd notes" "on_app notes"
    and x: "ci_bev (net_conns n fd) = Some h" "net_bevs n h = Some e" "GetConn n fd = Some fd" "net_single n"
      "net_maxMsglen n \<le> 2 ^ 30" "int (length (net_recvBuffer n)) = net_maxMsglen n"
      "ci_protocol (net_conns n fd) = IOEV_TCP_PROTOCOL" "ci_ctype (net_conns n fd) = CONN_TYPE_CLI"
    and rep: "bb_rep (net_store n) (be_recvBuffer e) ps" "lives ps = [c, xs]"
    and f: "frame_ok (net_maxMsglen n) (c @ xs)" "4 \<le> length c" "length xs \<le> length c"
  shows "\<exists>n1. RecvMsg srv n fd 0 = ret (n1, 0) \<and> conn_ready n1 fd [] \<and>
    notes n1 = notes n @ [(0, xs @ drop (length xs) c @ take (length xs) (drop (length c) (net_recvBuffer n)), True)]"
proof -
  let ?l = "int (length (c @ xs))" and ?d = "net_recvBuffer n"
  let ?buf = "xs @ drop (length xs) c @ drop (length c) ?d"
  have d: "length (c @ xs) \<le> length ?d" using f(1) x(6) by (simp add: frame_ok_def)
  obtain s2 q2 ps2 where A: "CopyReadBuff (net_store n) e [0, 0, 0, 0] 4 = ret (take 4 c, 4)"
    "GetReadBuffLen (net_store n) e = ret ?l"
    "Read (net_store n) e ?d ?l = ret (s2, e\<lparr>be_recvBuffer := q2\<rparr>, ?buf, ?l)"
    "bb_rep s2 q2 ps2" "length ps2 \<le> 1" "content ps2 = []"
    using read_across [OF rep f d x(5)] by auto
  let ?m = "(set_bev n (Some h) (e\<lparr>be_recvBuffer := q2\<rparr>))\<lparr>net_store := s2, net_recvBuffer := ?buf\<rparr>"
  have v: "be_val (take 4 c) = ?l" "?l \<le> net_maxMsglen n" using f(1,2) by (simp_all add: frame_ok_def)
  have msg: "take (nat ?l) ?buf = xs @ drop (length xs) c @ take (length xs) (drop (length c) ?d)"
    using f(3) by (simp add: nat_add_distrib)
  have ct: "(ci_ctype (net_conns n fd) \<noteq> CONN_TYPE_SVR) = True"
    using x(8) by (simp add: CONN_TYPE_CLI_def CONN_TYPE_SVR_def)
  have step: "recv_msg srv n fd 0 = rbind (svr_OnRecvMsg srv ?m fd 0 (take (nat ?l) ?buf) True) (\<lambda>n1. ret (n1, ?l))"
    using recv_msg_with [OF x(1-5) A(1) v(1) _ v(2) A(2) _ A(3), of srv 0] unfolding ct by simp
  have "conn_ready ?m fd []"
    unfolding conn_ready_def
  proof (intro conjI exI)
    show "int (length (net_recvBuffer ?m)) = net_maxMsglen ?m" using f(3) d x(6) by (simp add: set_bev_def)
  qed (use x(1-6) A(4-6) in \<open>auto simp: set_bev_def GetConn_def split: if_splits\<close>)
  then obtain n1 where o: "svr_OnRecvMsg srv ?m fd 0 (take (nat ?l) ?buf) True = ret n1" "conn_ready n1 fd []"
    "ci_protocol (net_conns n1 fd) = ci_protocol (net_conns ?m fd)" "notes n1 = notes ?m @ [(0, take (nat ?l) ?buf, True)]"
    using h(1) unfolding handler_ok_def by blast
  have n1: "recv_msg srv n fd 0 = ret (n1, ?l)" unfolding step o(1) by simp
  have pr: "ci_protocol (net_conns n1 fd) = IOEV_TCP_PROTOCOL" using o(3) x(7) by (simp add: set_bev_def)
  have "notes ?m = notes n" by (rule h(2) [unfolded on_app_def, rule_format]) (simp add: set_bev_def)
  then have nt: "notes n1 = notes n @ [(0, xs @ drop (length xs) c @ take (length xs) (drop (length c) ?d), True)]"
    using o(4) unfolding msg by simp
  obtain j where "recv_msg srv n1 fd 0 = ret (n1, j)" "j \<le> 0"
    using recv_msg_incomplete [OF o(2)] by (auto simp: incomplete_def)
  then have "recv_all srv n1 fd 0 = ret n1" using pr by (subst recv_all.simps) (simp add: recvTcpMsg_def)
  moreover have "recv_all srv n fd 0 = recv_all srv n1 fd 0"
    using n1 f(2) x(7) by (subst recv_all.simps) (auto simp: recvTcpMsg_def)
  ultimately have "RecvMsg srv n fd 0 = ret (n1, 0)" using x(3) by (simp add: RecvMsg_def)
  with o(2) nt show ?thesis by blast
qed

text \<open>C30. A long message on a stream is spoilt when it comes in pieces: with 4096 bytes or more of it in the receive buffer
  and no room for the rest behind them, the rest goes to a block of its own, and what the server is then handed, as one
  whole message, begins with the rest, written over the beginning, and ends with what the receive buffer held before.\<close>

theorem long_message_spoilt:
  assumes h: "handler_ok srv fd notes" "on_app notes"
    and r: "conn_ready n fd c" "stream_socket n fd h"
    and f: "frame_ok (net_maxMsglen n) (c @ xs)" "4096 \<le> length c" "xs \<noteq> []" "length xs \<le> length c"
    and sys: "sys_ioctl sys (net_os n) fd = (os1, Some k)" "sys_recv sys os1 fd k = (os2, Inr xs)"
      "int (length xs) \<le> k" "k \<le> 2 ^ 29"
    and full: "\<forall>e a b. net_bevs n h = Some e \<longrightarrow> bb_tail (be_recvBuffer e) = Some a \<longrightarrow>
      st_mem (net_store n) a = Some b \<longrightarrow> bk_len b - bk_wrpos b < k"
  shows "\<exists>n1. on_readable sys srv n h = ret n1 \<and> conn_ready n1 fd [] \<and>
    notes n1 = notes n @ [(0, xs @ drop (length xs) c @ take (length xs) (drop (length c) (net_recvBuffer n)), True)]"
proof -
  obtain e ps where e: "ci_bev (net_conns n fd) = Some h" "net_bevs n h = Some e"
    "bb_rep (net_store n) (be_recvBuffer e) ps" "length ps \<le> 1" "content ps = c"
    "be_fd e = fd" "be_protocol e = IOEV_TCP_PROTOCOL" "be_rdcb e" "be_evcb e"
    using r by (auto simp: conn_ready_def stream_socket_def socket_of_def)
  have g: "GetConn n fd = Some fd" "net_single n" "net_maxMsglen n \<le> 2 ^ 30" "int (length (net_recvBuffer n)) = net_maxMsglen n"
    using r(1) by (auto simp: conn_ready_def)
  have "ps \<noteq> []" using e(5) f(2) by auto
  then obtain a b where ps: "ps = [(a, b)]" using e(4) by (cases ps) auto
  then have "bb_tail (be_recvBuffer e) = Some a" "st_mem (net_store n) a = Some b"
    using e(3) by (auto simp: bb_rep_def links_def)
  then have room: "\<not> k \<le> bk_len b - bk_wrpos b" using full e(2) by fastforce
  have big: "\<not> used b < COPY_BLOCK_SIZE" using used_one [OF e(3,4)] e(5) f(2) ps by (simp add: COPY_BLOCK_SIZE_def)
  have L: "length (c @ xs) \<le> 2 ^ 30" using f(1) g(3) by (simp add: frame_ok_def)
  have "0 \<le> k" "length (content ps) + length xs \<le> 2 ^ 30" using sys(3) L e(5) by simp_all
  then obtain s1 q1 ps1 where R: "recvTcpData sys (net_os n) (net_store n) e = ret (os2, s1, e\<lparr>be_recvBuffer := q1\<rparr>, [Rdcb fd 0], 0)"
    "bb_rep s1 q1 ps1" "lives ps1 = [c, xs]"
    using recvTcpData_commits [OF e(3) sys(1,2) [folded e(6)] _ sys(4,3) _ _ e(8,9)] e(4,6) f(3) room big
      lives_one [OF e(4)] ps e(5) by auto
  let ?n = "(set_bev n (Some h) (e\<lparr>be_recvBuffer := q1\<rparr>))\<lparr>net_os := os2, net_store := s1\<rparr>"
  have x: "ci_bev (net_conns ?n fd) = Some h" "net_bevs ?n h = Some (e\<lparr>be_recvBuffer := q1\<rparr>)" "GetConn ?n fd = Some fd"
    "net_single ?n" "net_maxMsglen ?n \<le> 2 ^ 30" "int (length (net_recvBuffer ?n)) = net_maxMsglen ?n"
    "ci_protocol (net_conns ?n fd) = IOEV_TCP_PROTOCOL" "ci_ctype (net_conns ?n fd) = CONN_TYPE_CLI"
    using e(1) g r(2) by (auto simp: set_bev_def GetConn_def stream_socket_def split: if_splits)
  have fr: "frame_ok (net_maxMsglen ?n) (c @ xs)" "4 \<le> length c" using f(1,2) by (simp_all add: set_bev_def)
  have rep: "bb_rep (net_store ?n) (be_recvBuffer (e\<lparr>be_recvBuffer := q1\<rparr>)) ps1" using R(2) by simp
  have rb: "net_recvBuffer ?n = net_recvBuffer n" by (simp add: set_bev_def)
  obtain n1 where n1: "RecvMsg srv ?n fd 0 = ret (n1, 0)" "conn_ready n1 fd []"
    "notes n1 = notes ?n @ [(0, xs @ drop (length xs) c @ take (length xs) (drop (length c) (net_recvBuffer n)), True)]"
    using RecvMsg_across [OF h x rep R(3) fr f(4), unfolded rb] by blast
  moreover have "notes ?n = notes n" by (rule h(2) [unfolded on_app_def, rule_format]) (simp add: set_bev_def)
  moreover have "on_readable sys srv n h = ret n1"
    using R(1) e(2,7) n1(1) by (simp add: on_readable_def get_bev_def RecvData_def event_callback_def)
  ultimately show ?thesis by auto
qed

text \<open>A message of 4100 bytes, of which 4096 fill a block.\<close>

definition long_head :: "byte list" where
  "long_head = [0, 0, 16, 4] @ replicate 4092 7"

definition full_block :: buffer_block where
  "full_block = \<lparr>bk_buf = mwrite (\<lambda>_. 0) 0 long_head, bk_len = 4096, bk_rlen = 4096, bk_rdpos = 0, bk_wrpos = 4096, bk_next = None\<rparr>"

lemma length_long_head: "length long_head = 4096"
  by (simp add: long_head_def)

lemma live_full_block: "live full_block = long_head"
  using length_long_head by (simp add: live_def used_def full_block_def mread_mwrite_same)

lemma bb_rep_full_block:
  "bb_rep (store_of [(0, full_block)]) \<lparr>bb_head = Some 0, bb_tail = Some 0, bb_totallen = 4096\<rparr> [(0, full_block)]"
proof -
  have "last_ok full_block" "bk_next full_block = None"
    by (auto simp: full_block_def last_ok_def block_ok_def sized_def)
  then show ?thesis
    unfolding bb_rep_def links_def
    by (simp add: store_of_def store_ok_def pooled_def live_full_block length_long_head)
qed

lemma long_message_spoilt_witness:
  "\<exists>n1. on_readable piece_sys noting
      (piece_net [[1, 2, 3, 4]] (store_of [(0, full_block)]) \<lparr>bb_head = Some 0, bb_tail = Some 0, bb_totallen = 4096\<rparr> []) 0 = ret n1 \<and>
    net_app n1 = [(0, [1, 2, 3, 4] @ replicate 4092 7 @ [0, 0, 0, 0], True)]"
proof -
  let ?n = "piece_net [[1, 2, 3, 4]] (store_of [(0, full_block)])
    \<lparr>bb_head = Some 0, bb_tail = Some 0, bb_totallen = 4096\<rparr> ([] :: (int \<times> byte list \<times> bool) list)"
  have c: "content [(0, full_block)] = long_head" by (simp add: live_full_block)
  have r: "conn_ready ?n 5 long_head" "stream_socket ?n 5 0"
    using piece_net_ready [OF bb_rep_full_block] unfolding c by simp_all
  have "be_val [0, 0, 16, 4] = 4100" by (simp add: be_val_def)
  then have f: "frame_ok (net_maxMsglen ?n) (long_head @ [1, 2, 3, 4])"
    by (simp add: frame_ok_def length_long_head) (simp add: long_head_def)
  have b: "net_bevs ?n 0 = Some ((SetCb (new_BufferEventEv IOEV_TCP_PROTOCOL 5) True True True)
      \<lparr>be_recvBuffer := \<lparr>bb_head = Some 0, bb_tail = Some 0, bb_totallen = 4096\<rparr>\<rparr>)"
    by (simp add: piece_net_def)
  have full: "\<forall>e a b. net_bevs ?n 0 = Some e \<longrightarrow> bb_tail (be_recvBuffer e) = Some a \<longrightarrow>
      st_mem (net_store ?n) a = Some b \<longrightarrow> bk_len b - bk_wrpos b < 4"
    unfolding b by (simp add: store_of_def full_block_def)
  have "drop (Suc (Suc (Suc (Suc 0)))) long_head = replicate 4092 7" "replicate 4 0 = [0, 0, 0, 0 :: byte]"
    by (simp add: long_head_def) (simp add: numeral_eq_Suc)
  with long_message_spoilt [OF noting_ok r f _ _ _ _ _ _ _ full, of piece_sys "[[1, 2, 3, 4]]" "[]"]
  show ?thesis by (auto simp: length_long_head piece_sys_def)
qed

end
