(* ===== verification/Event_Handler.thy ===== *)
theory Event_Handler
  imports Server
begin

text \<open>
  \<open>IOEventEvHandler\<close> (framework/IOEventEv.h, IOEventEv.cc): how descriptors come into being, by
  binding, connecting and accepting, and the callback of a listening descriptor.

  The system calls are a record of functions on a system state; those that fail yield a negative
  number.  \<open>inet_pton\<close> yields its result and the address it stores, which is only stored when the
  result is 1.
\<close>

section \<open>The system\<close>

record 'os socket_sys =
  so_socket :: "'os \<Rightarrow> int \<Rightarrow> 'os \<times> int"
  so_setsockopt :: "'os \<Rightarrow> int \<Rightarrow> 'os \<times> int"
  so_bind :: "'os \<Rightarrow> int \<Rightarrow> int \<Rightarrow> int \<Rightarrow> 'os \<times> int"
  so_listen :: "'os \<Rightarrow> int \<Rightarrow> int \<Rightarrow> 'os \<times> int"
  so_connect :: "'os \<Rightarrow> int \<Rightarrow> int \<Rightarrow> int \<Rightarrow> 'os \<times> int"
  so_accept :: "'os \<Rightarrow> int \<Rightarrow> 'os \<times> int \<times> int"
  so_getfl :: "'os \<Rightarrow> int \<Rightarrow> int"
  so_setfl :: "'os \<Rightarrow> int \<Rightarrow> int \<Rightarrow> 'os \<times> int"
  so_close :: "'os \<Rightarrow> int \<Rightarrow> 'os"

definition SOCK_STREAM :: int where "SOCK_STREAM = 1"
definition SOCK_DGRAM :: int where "SOCK_DGRAM = 2"
definition O_NONBLOCK :: int where "O_NONBLOCK = 2048"

text \<open>A \<open>sockaddr_in\<close>: the address and the port as they are stored.\<close>

type_synonym sockaddr = "int \<times> int"

section \<open>Operations\<close>

definition setIOBlock :: "'os socket_sys \<Rightarrow> 'os \<Rightarrow> int \<Rightarrow> bool \<Rightarrow> 'os \<times> int" where
  "setIOBlock sys os fd nonblock =
     (let flags = so_getfl sys os fd;
          val = (if nonblock then O_NONBLOCK OR flags else (NOT O_NONBLOCK) AND flags)
      in so_setfl sys os fd val)"

definition socket_type :: "int \<Rightarrow> int" where
  "socket_type protocol = (if protocol = IOEV_TCP_PROTOCOL then SOCK_STREAM else SOCK_DGRAM)"

text \<open>The result of \<open>doConnect\<close> is the descriptor of the new event, or none for a null pointer.\<close>

definition doConnect :: "'os socket_sys \<Rightarrow> 'os \<Rightarrow> int \<Rightarrow> sockaddr \<Rightarrow> 'os \<times> int option" where
  "doConnect sys os protocol sa =
     (case so_socket sys os (socket_type protocol) of (os1, fd) \<Rightarrow>
        if fd < 0 then (os1, None)
        else if protocol = IOEV_TCP_PROTOCOL
        then (case so_connect sys os1 fd (fst sa) (snd sa) of (os2, r) \<Rightarrow>
                if r = -1 then (so_close sys os2 fd, None)
                else (fst (setIOBlock sys os2 fd True), Some fd))
        else (fst (setIOBlock sys os1 fd True), Some fd))"

definition doBind :: "'os socket_sys \<Rightarrow> 'os \<Rightarrow> int \<Rightarrow> sockaddr \<Rightarrow> 'os \<times> int" where
  "doBind sys os protocol sa =
     (case so_socket sys os (socket_type protocol) of (os1, lfd) \<Rightarrow>
        if lfd < 0 then (os1, -1)
        else
          (case so_setsockopt sys os1 lfd of (os2, err) \<Rightarrow>
             if err = -1 then (so_close sys os2 lfd, -1)
             else
               (case so_bind sys os2 lfd (fst sa) (snd sa) of (os3, r) \<Rightarrow>
                  (case (if r = 0 \<and> protocol = IOEV_TCP_PROTOCOL then so_listen sys os3 lfd 1024 else (os3, r)) of
                     (os4, r1) \<Rightarrow> if r1 < 0 then (so_close sys os4 lfd, -1) else (os4, lfd)))))"

definition sock_address :: "(string \<Rightarrow> int \<times> int) \<Rightarrow> string \<Rightarrow> int \<Rightarrow> sockaddr option" where
  "sock_address inet_pton ip port =
     (case inet_pton ip of (r, a) \<Rightarrow>
        if r < 0 then None else Some (if r = 1 then a else 0, htons port))"

definition Handler_Bind ::
  "'os socket_sys \<Rightarrow> (string \<Rightarrow> int \<times> int) \<Rightarrow> 'os \<Rightarrow> int \<Rightarrow> string \<Rightarrow> int \<Rightarrow> 'os \<times> int" where
  "Handler_Bind sys inet_pton os protocol ip port =
     (case sock_address inet_pton ip port of None \<Rightarrow> (os, -1) | Some sa \<Rightarrow> doBind sys os protocol sa)"

definition Handler_Connect ::
  "'os socket_sys \<Rightarrow> (string \<Rightarrow> int \<times> int) \<Rightarrow> 'os \<Rightarrow> int \<Rightarrow> string \<Rightarrow> int \<Rightarrow> 'os \<times> int option" where
  "Handler_Connect sys inet_pton os protocol ip port =
     (case sock_address inet_pton ip port of None \<Rightarrow> (os, None) | Some sa \<Rightarrow> doConnect sys os protocol sa)"

text \<open>
  The callback of a listening descriptor: accept one connection, trying again when interrupted, make
  it non-blocking and hand it on.  The result is the descriptor handed to \<open>DoCallback\<close>, if any.
\<close>

partial_function (option) accept_loop :: "'os socket_sys \<Rightarrow> 'os \<Rightarrow> int \<Rightarrow> ('os \<times> int option) option" where
  "accept_loop sys os lfd =
     (case so_accept sys os lfd of (os1, newfd, errno) \<Rightarrow>
        if newfd > 0 then Some (os1, Some newfd)
        else if errno \<noteq> EINTR then Some (os1, None)
        else accept_loop sys os1 lfd)"

definition listenCb :: "'os socket_sys \<Rightarrow> 'os \<Rightarrow> int \<Rightarrow> ('os \<times> int option) option" where
  "listenCb sys os lfd =
     (case accept_loop sys os lfd of
        None \<Rightarrow> None
      | Some (os1, None) \<Rightarrow> Some (os1, None)
      | Some (os1, Some newfd) \<Rightarrow> Some (fst (setIOBlock sys os1 newfd True), Some newfd))"

section \<open>Which descriptors are open\<close>

text \<open>
  What is assumed of the system, in terms of the set of open descriptors and the flags of each:
  \<open>socket\<close> and \<open>accept\<close> open a new one or fail, \<open>close\<close> closes, and nothing else opens or closes.
\<close>

definition sockets_ok :: "'os socket_sys \<Rightarrow> ('os \<Rightarrow> int set) \<Rightarrow> ('os \<Rightarrow> int \<Rightarrow> int) \<Rightarrow> bool" where
  "sockets_ok sys fds flags \<longleftrightarrow>
     (\<forall>os ty os1 fd. so_socket sys os ty = (os1, fd) \<longrightarrow>
        (if fd < 0 then fds os1 = fds os else fd \<notin> fds os \<and> fds os1 = insert fd (fds os))) \<and>
     (\<forall>os lfd os1 fd e. so_accept sys os lfd = (os1, fd, e) \<longrightarrow>
        (if fd < 0 then fds os1 = fds os else fd \<noteq> 0 \<and> fd \<notin> fds os \<and> fds os1 = insert fd (fds os))) \<and>
     (\<forall>os fd. fds (fst (so_setsockopt sys os fd)) = fds os) \<and>
     (\<forall>os fd a p. fds (fst (so_bind sys os fd a p)) = fds os) \<and>
     (\<forall>os fd k. fds (fst (so_listen sys os fd k)) = fds os) \<and>
     (\<forall>os fd a p. fds (fst (so_connect sys os fd a p)) = fds os) \<and>
     (\<forall>os fd v. fds (fst (so_setfl sys os fd v)) = fds os) \<and>
     (\<forall>os fd v. fd \<in> fds os \<longrightarrow> flags (fst (so_setfl sys os fd v)) fd = v) \<and>
     (\<forall>os fd. so_getfl sys os fd = flags os fd) \<and>
     (\<forall>os fd. fds (so_close sys os fd) = fds os - {fd})"

lemma sockets_okD:
  assumes "sockets_ok sys fds flags"
  shows "so_socket sys os ty = (os1, fd) \<Longrightarrow>
      (if fd < 0 then fds os1 = fds os else fd \<notin> fds os \<and> fds os1 = insert fd (fds os))"
    "so_accept sys os lfd = (os1, fd, e) \<Longrightarrow>
      (if fd < 0 then fds os1 = fds os else fd \<noteq> 0 \<and> fd \<notin> fds os \<and> fds os1 = insert fd (fds os))"
    "so_setsockopt sys os fd = (os1, r) \<Longrightarrow> fds os1 = fds os"
    "so_bind sys os fd a p = (os1, r) \<Longrightarrow> fds os1 = fds os"
    "so_listen sys os fd k = (os1, r) \<Longrightarrow> fds os1 = fds os"
    "so_connect sys os fd a p = (os1, r) \<Longrightarrow> fds os1 = fds os"
    "fds (so_close sys os fd) = fds os - {fd}"
  using assms unfolding sockets_ok_def by (metis fst_conv)+

lemma setIOBlock_ok:
  assumes "sockets_ok sys fds flags"
  shows "fds (fst (setIOBlock sys os fd b)) = fds os"
    "fd \<in> fds os \<Longrightarrow> flags (fst (setIOBlock sys os fd True)) fd = O_NONBLOCK OR flags os fd"
  using assms unfolding sockets_ok_def setIOBlock_def Let_def by simp_all

lemma doBind_fds:
  assumes ok: "sockets_ok sys fds flags" and r: "doBind sys os protocol sa = (os1, r)"
  shows "if r < 0 then r = -1 \<and> fds os1 = fds os else r \<notin> fds os \<and> fds os1 = insert r (fds os)"
proof -
  note D = sockets_okD [OF ok]
  obtain o1 lfd where S: "so_socket sys os (socket_type protocol) = (o1, lfd)" by (cases "so_socket sys os (socket_type protocol)")
  obtain o2 e where O: "so_setsockopt sys o1 lfd = (o2, e)" by (cases "so_setsockopt sys o1 lfd")
  obtain o3 b where B: "so_bind sys o2 lfd (fst sa) (snd sa) = (o3, b)" by (cases "so_bind sys o2 lfd (fst sa) (snd sa)")
  obtain o4 l where L: "(if b = 0 \<and> protocol = IOEV_TCP_PROTOCOL then so_listen sys o3 lfd 1024 else (o3, b)) = (o4, l)"
    by (cases "if b = 0 \<and> protocol = IOEV_TCP_PROTOCOL then so_listen sys o3 lfd 1024 else (o3, b)")
  have f: "fds o2 = fds o1" "fds o3 = fds o1" using D(3) [OF O] D(4) [OF B] by simp_all
  have f4: "fds o4 = fds o1" using L f D(5) by (auto split: if_splits)
  show ?thesis
    using r D(1) [OF S] f f4 unfolding doBind_def S prod.case O B L
    by (auto simp: D(7) split: if_splits)
qed

lemma doConnect_fds:
  assumes ok: "sockets_ok sys fds flags" and r: "doConnect sys os protocol sa = (os1, r)"
  shows "case r of None \<Rightarrow> fds os1 = fds os
    | Some fd \<Rightarrow> 0 \<le> fd \<and> fd \<notin> fds os \<and> fds os1 = insert fd (fds os) \<and>
        (\<exists>v. flags os1 fd = O_NONBLOCK OR v)"
proof -
  note D = sockets_okD [OF ok]
  obtain o1 fd where S: "so_socket sys os (socket_type protocol) = (o1, fd)" by (cases "so_socket sys os (socket_type protocol)")
  obtain o2 c where C: "so_connect sys o1 fd (fst sa) (snd sa) = (o2, c)" by (cases "so_connect sys o1 fd (fst sa) (snd sa)")
  have f: "fds o2 = fds o1" using D(6) [OF C] .
  show ?thesis
    using r D(1) [OF S] f setIOBlock_ok [OF ok, where os = o1 and fd = fd] setIOBlock_ok [OF ok, where os = o2 and fd = fd]
    unfolding doConnect_def S prod.case C
    by (auto simp: D(7) split: if_splits)
qed

text \<open>A system that interrupts \<open>accept\<close> only boundedly often.\<close>

definition accept_patient :: "'os socket_sys \<Rightarrow> ('os \<Rightarrow> nat) \<Rightarrow> bool" where
  "accept_patient sys budget \<longleftrightarrow>
     (\<forall>os lfd os1 fd. so_accept sys os lfd = (os1, fd, EINTR) \<longrightarrow> fd \<le> 0 \<longrightarrow> budget os1 < budget os)"

lemma accept_loop_fds:
  assumes ok: "sockets_ok sys fds flags" and p: "accept_patient sys budget"
  shows "\<exists>os1 r. accept_loop sys os lfd = Some (os1, r) \<and>
    (case r of None \<Rightarrow> fds os1 = fds os | Some fd \<Rightarrow> 0 < fd \<and> fd \<notin> fds os \<and> fds os1 = insert fd (fds os))"
proof (induction "budget os" arbitrary: os rule: less_induct)
  case less
  obtain o1 fd e where A: "so_accept sys os lfd = (o1, fd, e)" by (cases "so_accept sys os lfd")
  note f = sockets_okD(2) [OF ok A]
  show ?case
  proof (cases "0 < fd \<or> e \<noteq> EINTR")
    case True
    then show ?thesis using A f by (subst accept_loop.simps) (auto split: if_splits)
  next
    case False
    then have fds: "fds o1 = fds os" using f by (auto split: if_splits)
    have "budget o1 < budget os" using p A False by (auto simp: accept_patient_def)
    from less [OF this] have "\<exists>os1 r. accept_loop sys o1 lfd = Some (os1, r) \<and>
      (case r of None \<Rightarrow> fds os1 = fds os | Some fd \<Rightarrow> 0 < fd \<and> fd \<notin> fds os \<and> fds os1 = insert fd (fds os))"
      unfolding fds .
    moreover have "accept_loop sys os lfd = accept_loop sys o1 lfd"
      using A False by (subst accept_loop.simps) simp
    ultimately show ?thesis by simp
  qed
qed

section \<open>Properties\<close>


text \<open>A system that keeps a table of descriptors and flags and whose port 80 is taken.\<close>

definition fresh_fd :: "(int \<times> int) list \<Rightarrow> int" where
  "fresh_fd os = foldr (\<lambda>e m. max (fst e + 1) m) os 3"

definition flags_of :: "(int \<times> int) list \<Rightarrow> int \<Rightarrow> int" where
  "flags_of os fd = (case map_of os fd of None \<Rightarrow> -1 | Some v \<Rightarrow> v)"

definition table_sys :: "(int \<times> int) list socket_sys" where
  "table_sys =
     \<lparr>so_socket = (\<lambda>os ty. ((fresh_fd os, 2) # os, fresh_fd os)),
      so_setsockopt = (\<lambda>os fd. (os, 0)),
      so_bind = (\<lambda>os fd a p. (os, if p = htons 80 then -1 else 0)),
      so_listen = (\<lambda>os fd k. (os, 0)),
      so_connect = (\<lambda>os fd a p. (os, if p = htons 80 then 0 else -1)),
      so_accept = (\<lambda>os fd. ((fresh_fd os, 2) # os, fresh_fd os, 0)),
      so_getfl = flags_of,
      so_setfl = (\<lambda>os fd v. (map (\<lambda>e. if fst e = fd then (fd, v) else e) os, 0)),
      so_close = (\<lambda>os fd. filter (\<lambda>e. fst e \<noteq> fd) os)\<rparr>"

lemma fresh_fd_above: "e \<in> set os \<Longrightarrow> fst e < fresh_fd os"
  by (induction os) (auto simp: fresh_fd_def)

lemma fresh_fd_pos: "3 \<le> fresh_fd os"
  by (induction os) (auto simp: fresh_fd_def)

lemma flags_of_set:
  "fd \<in> fst ` set os \<Longrightarrow> flags_of (map (\<lambda>e. if fst e = fd then (fd, v) else e) os) fd = v"
proof (induction os)
  case (Cons e os)
  then show ?case by (cases "fst e = fd") (auto simp: flags_of_def)
qed simp

lemma table_sys_ok: "sockets_ok table_sys (\<lambda>os. fst ` set os) flags_of" "accept_patient table_sys (\<lambda>_. 0)"
proof -
  have f: "fresh_fd os \<notin> fst ` set os" "\<not> fresh_fd os < 0" "fresh_fd os \<noteq> 0" for os
    using fresh_fd_above [of _ os] fresh_fd_pos [of os] by force+
  have m: "fst ` set (map (\<lambda>e. if fst e = fd then (fd, v) else e) os) = fst ` set os" for fd v and os :: "(int \<times> int) list"
    by (induction os) auto
  show "sockets_ok table_sys (\<lambda>os. fst ` set os) flags_of"
    unfolding sockets_ok_def table_sys_def using f m by (simp add: flags_of_set) auto
  show "accept_patient table_sys (\<lambda>_. 0)"
    by (simp add: accept_patient_def table_sys_def EINTR_def)
qed


section \<open>Text that is no address\<close>

text \<open>\<open>inet_pton\<close> yields 0, not a negative number, for text that is no address: the zero address is used.\<close>

lemma no_address_accepted:
  assumes "inet_pton ip = (0, a)"
  shows "Handler_Bind sys inet_pton os protocol ip port = doBind sys os protocol (0, htons port)"
  using assms by (simp add: Handler_Bind_def sock_address_def)

end
