(* ===== verification/Log.thy ===== *)
theory Log
  imports Ini_Config
begin

text \<open>
  \<open>Log\<close> (common/Log.h, Log.cc): the log files, one \<open>FILE*\<close> for each priority, and their rotation.

  The file system is part of the state: directory entries, each a path with its \<open>d_type\<close> and its
  file, and the contents of the files.  A stream refers to the file, not to the path, so it follows
  a renamed file.  What the C library formats (the time, the head of the line, the message) is an
  argument.
\<close>

section \<open>Files\<close>

record file_system =
  fs_entries :: "(string \<times> int \<times> nat) list"
  fs_data :: "nat \<Rightarrow> string"
  fs_next :: nat
  fs_can_open :: "string \<Rightarrow> bool"
  fs_can_list :: "string \<Rightarrow> bool"

definition DT_REG :: int where "DT_REG = 8"

text \<open>A stream: its file, its position, whether it appends.\<close>

record stream =
  st_file :: nat
  st_pos :: int
  st_append :: bool

definition lookup_path :: "file_system \<Rightarrow> string \<Rightarrow> nat option" where
  "lookup_path fs path = map_option snd (map_of (fs_entries fs) path)"

definition fopen :: "file_system \<Rightarrow> string \<Rightarrow> bool \<Rightarrow> file_system \<times> stream option" where
  "fopen fs path app =
     (if \<not> fs_can_open fs path then (fs, None)
      else
        (case lookup_path fs path of
           Some k \<Rightarrow>
             ((if app then fs else fs\<lparr>fs_data := (fs_data fs)(k := [])\<rparr>),
              Some \<lparr>st_file = k, st_pos = 0, st_append = app\<rparr>)
         | None \<Rightarrow>
             (fs\<lparr>fs_entries := (path, DT_REG, fs_next fs) # fs_entries fs,
                 fs_data := (fs_data fs)(fs_next fs := []), fs_next := Suc (fs_next fs)\<rparr>,
              Some \<lparr>st_file = fs_next fs, st_pos = 0, st_append = app\<rparr>)))"

text \<open>A write goes to the end of the file in append mode, else over what is at the position.\<close>

definition fwrite :: "file_system \<Rightarrow> stream \<Rightarrow> string \<Rightarrow> file_system \<times> stream" where
  "fwrite fs f s =
     (let old = fs_data fs (st_file f);
          pos = (if st_append f then length old else nat (st_pos f));
          new = take pos old @ s @ drop (pos + length s) old
      in (fs\<lparr>fs_data := (fs_data fs)(st_file f := new)\<rparr>, f\<lparr>st_pos := int (pos + length s)\<rparr>))"

text \<open>\<open>rename\<close> replaces the new path; without an old one it fails and changes nothing.\<close>

definition rename_path :: "file_system \<Rightarrow> string \<Rightarrow> string \<Rightarrow> file_system" where
  "rename_path fs old new =
     (case map_of (fs_entries fs) old of
        None \<Rightarrow> fs
      | Some e \<Rightarrow> fs\<lparr>fs_entries := (new, e) # filter (\<lambda>x. fst x \<noteq> old \<and> fst x \<noteq> new) (fs_entries fs)\<rparr>)"

text \<open>The names \<open>readdir\<close> yields, with their types.\<close>

definition dir_names :: "file_system \<Rightarrow> string \<Rightarrow> (string \<times> int) list" where
  "dir_names fs dir =
     map (\<lambda>e. (drop (length dir + 1) (fst e), fst (snd e)))
       (filter (\<lambda>e. take (length dir + 1) (fst e) = dir @ ''/'' \<and> CHR ''/'' \<notin> set (drop (length dir + 1) (fst e)))
          (fs_entries fs))"

section \<open>State\<close>

definition LOG_PRIORITY_ERROR :: nat where "LOG_PRIORITY_ERROR = 0"
definition LOG_PRIORITY_INFO :: nat where "LOG_PRIORITY_INFO = 1"
definition LOG_PRIORITY_DEBUG :: nat where "LOG_PRIORITY_DEBUG = 2"
definition LOG_PRIORITY_TRACE :: nat where "LOG_PRIORITY_TRACE = 3"
definition LOG_PRIORITY_MAX :: nat where "LOG_PRIORITY_MAX = 4"
definition LOG_BUFF_LEN :: nat where "LOG_BUFF_LEN = 4096"

definition filePrefix :: "nat \<Rightarrow> string" where
  "filePrefix pri = [''error'', ''debug'', ''debug'', ''debug''] ! pri"

definition priorityStr :: "nat \<Rightarrow> string" where
  "priorityStr pri = [''ERROR'', ''INFO'', ''DEBUG'', ''TRACE''] ! pri"

record logger =
  lg_pri :: int
  lg_dir :: string
  lg_maxSize :: int
  lg_files :: "nat \<Rightarrow> stream option"
  lg_buff :: string

definition new_Log :: logger where
  "new_Log =
     \<lparr>lg_pri = int LOG_PRIORITY_TRACE, lg_dir = [], lg_maxSize = 1024 * 1024 * 1024,
      lg_files = Map.empty, lg_buff = replicate LOG_BUFF_LEN CHR 0x00\<rparr>"

definition SetLogPriority :: "logger \<Rightarrow> int \<Rightarrow> logger" where
  "SetLogPriority lg pri = lg\<lparr>lg_pri := pri\<rparr>"

definition SetLogDir :: "logger \<Rightarrow> string \<Rightarrow> logger" where
  "SetLogDir lg dir = lg\<lparr>lg_dir := dir\<rparr>"

definition SetLogSize :: "logger \<Rightarrow> int \<Rightarrow> logger" where
  "SetLogSize lg sz = (if sz > 0 then lg\<lparr>lg_maxSize := sz\<rparr> else lg)"

text \<open>What \<open>Server::Init\<close> sets: the product is computed in \<open>int\<close>.\<close>

definition configure_log :: "logger \<Rightarrow> ini_config \<Rightarrow> logger" where
  "configure_log lg cfg =
     SetLogPriority
       (SetLogSize (SetLogDir lg (GetStr cfg ''log_dir''))
          (to_i32 (to_i32 (GetInt cfg ''log_size'' 0 * 1024) * 1024)))
       (GetInt cfg ''log_level'' 2)"

section \<open>Rotation\<close>

definition log_name :: "logger \<Rightarrow> nat \<Rightarrow> string" where
  "log_name lg pri = lg_dir lg @ ''/'' @ filePrefix pri @ ''.log''"

definition numbered :: "string \<Rightarrow> int \<Rightarrow> string" where
  "numbered name idx = name @ ''.'' @ show_int idx"

text \<open>The number a directory entry ends with: what follows its last dot, when that is positive.\<close>

definition file_index :: "string \<times> int \<Rightarrow> int option" where
  "file_index e =
     (if fst e = ''.'' \<or> fst e = ''..'' \<or> snd e \<noteq> DT_REG then None
      else if CHR ''.'' \<notin> set (fst e) then None
      else (let idx = atoi (rev (takeWhile (\<lambda>c. c \<noteq> CHR ''.'') (rev (fst e))))
            in if idx > 0 then Some idx else None))"

definition shift_files :: "string \<Rightarrow> file_system \<Rightarrow> int list \<Rightarrow> file_system" where
  "shift_files logName fs idxs =
     foldl (\<lambda>fs idx. rename_path fs (numbered logName idx) (numbered logName (to_i32 (idx + 1)))) fs idxs"

definition FileRoll :: "logger \<Rightarrow> file_system \<Rightarrow> nat \<Rightarrow> logger \<times> file_system" where
  "FileRoll lg fs pri =
     (let lg1 = lg\<lparr>lg_files := (lg_files lg)(pri := None)\<rparr>;
          logName = log_name lg pri
      in if \<not> fs_can_list fs (lg_dir lg) then (lg1, fs)
         else
           (let fileIdx = rev (sort (List.map_filter file_index (dir_names fs (lg_dir lg))));
                fs1 = shift_files logName fs fileIdx;
                fs2 = rename_path fs1 logName (logName @ ''.1'')
            in case fopen fs2 logName False of
                 (fs3, f) \<Rightarrow> (lg1\<lparr>lg_files := (lg_files lg1)(pri := f)\<rparr>, fs3)))"

text \<open>The name is cut to the 126 characters that fit \<open>filename\<close>.\<close>

definition GetFile :: "logger \<Rightarrow> file_system \<Rightarrow> nat \<Rightarrow> logger \<times> file_system \<times> stream option" where
  "GetFile lg fs pri =
     (case lg_files lg pri of
        None \<Rightarrow>
          (case fopen fs (take 126 (log_name lg pri)) True of
             (fs1, f) \<Rightarrow> (lg\<lparr>lg_files := (lg_files lg)(pri := f)\<rparr>, fs1, f))
      | Some f \<Rightarrow>
          if st_pos f < 0 \<or> st_pos f > lg_maxSize lg
          then (case FileRoll lg fs pri of (lg1, fs1) \<Rightarrow> (lg1, fs1, lg_files lg1 pri))
          else (lg, fs, Some f))"

section \<open>Writing\<close>

text \<open>\<open>snprintf\<close> of the text \<open>s\<close> at an offset, with room for \<open>n\<close> characters.\<close>

definition snprintf_at :: "string \<Rightarrow> nat \<Rightarrow> nat \<Rightarrow> string \<Rightarrow> string" where
  "snprintf_at buff off n s =
     (if n = 0 then buff
      else (let t = take (n - 1) s in take off buff @ t @ [CHR 0x00] @ drop (off + length t + 1) buff))"

text \<open>
  The line in the buffer and its length: \<open>stamp\<close> is what \<open>strftime\<close> formats (nothing when it does
  not fit), \<open>head\<close> and \<open>msg\<close> what the other two calls format.  When the head has gone beyond the
  buffer, the room left is negative and taken for a huge number.
\<close>

definition format_line :: "string \<Rightarrow> string \<Rightarrow> string \<Rightarrow> string \<Rightarrow> (string \<times> nat) run" where
  "format_line buff stamp head msg =
     (let len1 = (if length stamp < LOG_BUFF_LEN then length stamp else 0);
          b1 = (if length stamp < LOG_BUFF_LEN then snprintf_at buff 0 LOG_BUFF_LEN stamp else buff);
          b2 = snprintf_at b1 len1 (LOG_BUFF_LEN - len1) head;
          len2 = len1 + length head
      in if len2 > LOG_BUFF_LEN then fail Out_of_bounds
         else
           (let b3 = snprintf_at b2 len2 (LOG_BUFF_LEN - len2) msg;
                len3 = len2 + length msg;
                len = (if len3 \<ge> LOG_BUFF_LEN - 2 then LOG_BUFF_LEN - 2 else len3);
                b4 = b3[len := newline, len + 1 := CHR 0x00]
            in ret (b4, len + 1)))"

definition Log_Write ::
  "logger \<Rightarrow> file_system \<Rightarrow> nat \<Rightarrow> string \<Rightarrow> string \<Rightarrow> string \<Rightarrow> (logger \<times> file_system) run" where
  "Log_Write lg fs pri stamp head msg =
     (if int pri > lg_pri lg then ret (lg, fs)
      else rbind (format_line (lg_buff lg) stamp head msg) (\<lambda>(buff, len).
        case GetFile (lg\<lparr>lg_buff := buff\<rparr>) fs pri of
          (lg1, fs1, None) \<Rightarrow> ret (lg1, fs1)
        | (lg1, fs1, Some f) \<Rightarrow>
            (case fwrite fs1 f (take len buff) of
               (fs2, f1) \<Rightarrow> ret (lg1\<lparr>lg_files := (lg_files lg1)(pri \<mapsto> f1)\<rparr>, fs2))))"

text \<open>The macros \<open>PLOG_ERROR\<close> to \<open>PLOG_TRACE\<close>.\<close>

definition PLOG ::
  "logger \<Rightarrow> file_system \<Rightarrow> nat \<Rightarrow> string \<Rightarrow> string \<Rightarrow> string \<Rightarrow> (logger \<times> file_system) run" where
  "PLOG lg fs pri stamp head msg =
     (if lg_pri lg \<ge> int pri then Log_Write lg fs pri stamp head msg else ret (lg, fs))"

text \<open>\<open>Close\<close>; \<open>Flush\<close> changes nothing here, as every write is flushed at once.\<close>

definition Log_Close :: "logger \<Rightarrow> logger" where
  "Log_Close lg = lg\<lparr>lg_files := (\<lambda>pri. if pri < LOG_PRIORITY_MAX then None else lg_files lg pri)\<rparr>"

end
