(* ===== verification/Log_Spec.thy ===== *)
theory Log_Spec
  imports Log
begin

text \<open>
  What the log promises: a line of an enabled priority is appended to its file, cut to the buffer; a
  file that has grown too large is kept under the next free number and a new one begun.
\<close>

section \<open>The line\<close>

lemma snprintf_at_ok:
  assumes "off + n = length buff" "0 < n"
  shows "length (snprintf_at buff off n s) = length buff"
    "take (off + min (length s) (n - 1)) (snprintf_at buff off n s) = take off buff @ take (n - 1) s"
  using assms by (auto simp: snprintf_at_def Let_def min_def)

definition log_line :: "string \<Rightarrow> string" where
  "log_line text = take 4094 text @ [newline]"

lemma format_line_ok:
  assumes buff: "length buff = 4096" and room: "length stamp + length head \<le> 4096" "length stamp < 4096"
  shows "\<exists>b k. format_line buff stamp head msg = ret (b, k) \<and> length b = 4096 \<and>
    take k b = log_line (stamp @ head @ msg)"
proof -
  let ?b1 = "snprintf_at buff 0 4096 stamp"
  let ?l1 = "length stamp" and ?l2 = "length stamp + length head"
  let ?b2 = "snprintf_at ?b1 ?l1 (4096 - ?l1) head"
  let ?b3 = "snprintf_at ?b2 ?l2 (4096 - ?l2) msg"
  let ?l3 = "?l2 + length msg"
  let ?len = "min ?l3 4094"
  have b1: "length ?b1 = 4096" "take ?l1 ?b1 = stamp"
    using snprintf_at_ok [of 0 4096 buff stamp] buff room(2) by simp_all
  have b2: "length ?b2 = 4096" "take (?l1 + min (length head) (4095 - ?l1)) ?b2 = stamp @ take (4095 - ?l1) head"
    using snprintf_at_ok [of ?l1 "4096 - ?l1" ?b1 head] b1 room(2) by simp_all
  have b3: "length ?b3 = 4096 \<and> take ?len ?b3 = take 4094 (stamp @ head @ msg)"
  proof (cases "?l2 = 4096")
    case True
    then have "?b3 = ?b2" by (simp add: snprintf_at_def)
    moreover have "?l1 + min (length head) (4095 - ?l1) = 4095" using True room(2) by auto
    then have "take 4095 ?b2 = stamp @ take (4095 - ?l1) head" using b2(2) by simp
    then have "take 4094 (take 4095 ?b2) = take 4094 (stamp @ take (4095 - ?l1) head)" by simp
    then have "take 4094 ?b2 = take 4094 (stamp @ head)" by (simp add: min_def)
    ultimately show ?thesis using True b2(1) by (simp add: min_def)
  next
    case False
    then have l2: "?l2 < 4096" using room(1) by simp
    have h: "take ?l2 ?b2 = stamp @ head"
    proof -
      have "min (length head) (4095 - ?l1) = length head" using l2 by simp
      then show ?thesis using b2(2) by simp
    qed
    have r: "length ?b3 = 4096" "take (?l2 + min (length msg) (4095 - ?l2)) ?b3 = stamp @ head @ take (4095 - ?l2) msg"
      using snprintf_at_ok [of ?l2 "4096 - ?l2" ?b2 msg] b2(1) h l2 by simp_all
    have "?len \<le> ?l2 + min (length msg) (4095 - ?l2)" by (auto simp: min_def)
    then have "take ?len ?b3 = take ?len (take (?l2 + min (length msg) (4095 - ?l2)) ?b3)"
      by (simp add: min_absorb1)
    also have "\<dots> = take ?len (stamp @ head @ take (4095 - ?l2) msg)" unfolding r(2) ..
    also have "\<dots> = take 4094 (stamp @ head @ msg)" by (auto simp: min_def)
    finally show ?thesis using r(1) by simp
  qed
  have t: "take (Suc k) (b[k := x, k + 1 := y]) = take k b @ [x]" if "k + 1 < length b" for k b and x y :: char
    using that by (simp add: take_Suc_conv_app_nth)
  have "format_line buff stamp head msg = ret (?b3[?len := newline, ?len + 1 := CHR 0x00], ?len + 1)"
    using room by (simp add: format_line_def LOG_BUFF_LEN_def Let_def min_def)
  moreover have "take (?len + 1) (?b3[?len := newline, ?len + 1 := CHR 0x00]) = log_line (stamp @ head @ msg)"
    using t [of ?len ?b3 newline "CHR 0x00"] b3 by (simp add: log_line_def)
  ultimately show ?thesis using b3 by auto
qed

section \<open>Paths and contents\<close>

definition content_of :: "file_system \<Rightarrow> string \<Rightarrow> string option" where
  "content_of fs path = map_option (fs_data fs) (lookup_path fs path)"

lemma lookup_rename:
  assumes "old \<noteq> new"
  shows "map_of (fs_entries (rename_path fs old new)) p =
    (if map_of (fs_entries fs) old = None then map_of (fs_entries fs) p
     else if p = new then map_of (fs_entries fs) old else if p = old then None else map_of (fs_entries fs) p)"
proof (cases "map_of (fs_entries fs) old")
  case (Some e)
  have "map_of (filter (\<lambda>x. fst x \<noteq> old \<and> fst x \<noteq> new) xs) p = (if p = old \<or> p = new then None else map_of xs p)"
    for xs :: "(string \<times> int \<times> nat) list"
    by (induction xs) auto
  then show ?thesis using Some assms by (simp add: rename_path_def)
qed (simp add: rename_path_def)

lemma rename_absent: "map_of (fs_entries fs) old = None \<Longrightarrow> rename_path fs old new = fs"
  by (simp add: rename_path_def)

lemma rename_fields [simp]:
  "fs_data (rename_path fs old new) = fs_data fs" "fs_next (rename_path fs old new) = fs_next fs"
  "fs_can_open (rename_path fs old new) = fs_can_open fs" "fs_can_list (rename_path fs old new) = fs_can_list fs"
  by (simp_all add: rename_path_def split: option.split)

lemma numbered_inj:
  assumes "numbered name i = numbered name j" "0 \<le> i" "i < 2 ^ 31" "0 \<le> j" "j < 2 ^ 31"
  shows "i = j"
proof -
  have "show_int i = show_int j" using assms(1) unfolding numbered_def by simp
  then have "atoi (show_int i) = atoi (show_int j)" by (rule arg_cong)
  then show ?thesis using assms(2-5) by (simp only: atoi_show)
qed

lemma numbered_ne: "numbered name i \<noteq> name"
  by (simp add: numbered_def)

section \<open>Shifting the numbered files\<close>

definition at :: "string \<Rightarrow> file_system \<Rightarrow> int \<Rightarrow> (int \<times> nat) option" where
  "at name fs k = map_of (fs_entries fs) (numbered name k)"

text \<open>
  The renames, from the largest number down, move each existing file up by one: nothing is in the way,
  as what was there has moved before.
\<close>

lemma shift_files_at:
  assumes "sorted (rev idxs)" "\<forall>i \<in> set idxs. 1 \<le> i \<and> i < 2 ^ 31"
    "\<forall>j. 1 \<le> j \<longrightarrow> j \<le> b \<longrightarrow> at name fs j \<noteq> None \<longrightarrow> j \<in> set idxs"
    "\<forall>j \<in> set idxs. b < j \<longrightarrow> at name fs j = None" "at name fs (b + 1) = None" "0 \<le> b" "b + 1 < 2 ^ 31"
  shows "\<forall>k. 1 \<le> k \<longrightarrow> k < 2 ^ 31 \<longrightarrow> at name (shift_files name fs idxs) k =
      (if b + 1 < k then at name fs k else if 2 \<le> k then at name fs (k - 1) else None)"
  using assms
proof (induction idxs arbitrary: fs b)
  case Nil
  have none: "at name fs k = None" if "1 \<le> k" "k \<le> b + 1" for k
    using Nil(3,5) that by (cases "k = b + 1"; cases "at name fs k") auto
  have "at name fs k = (if b + 1 < k then at name fs k else if 2 \<le> k then at name fs (k - 1) else None)"
    if "1 \<le> k" for k
  proof (cases "b + 1 < k")
    case False
    moreover have "at name fs k = None" using none [of k] that False by linarith
    moreover have "2 \<le> k \<longrightarrow> at name fs (k - 1) = None" using none [of "k - 1"] False by auto
    ultimately show ?thesis by (simp only: if_False if_cancel split: if_splits) simp
  qed simp
  then show ?case by (simp only: shift_files_def foldl.simps) blast
next
  case (Cons x xs)
  have srt: "sorted (rev xs)" "\<forall>y \<in> set xs. y \<le> x" using Cons.prems(1) by (auto simp: sorted_append)
  have x: "1 \<le> x" "x < 2 ^ 31" using Cons.prems(2) by auto
  have S: "shift_files name fs (x # xs)
      = shift_files name (rename_path fs (numbered name x) (numbered name (to_i32 (x + 1)))) xs"
    by (simp add: shift_files_def)
  show ?case
  proof (cases "at name fs x = None")
    case True
    then have "shift_files name fs (x # xs) = shift_files name fs xs"
      unfolding S by (simp add: at_def rename_absent)
    moreover have "\<forall>j. 1 \<le> j \<longrightarrow> j \<le> b \<longrightarrow> at name fs j \<noteq> None \<longrightarrow> j \<in> set xs"
      using Cons.prems(3) True by (metis set_ConsD)
    moreover have "\<forall>i \<in> set xs. 1 \<le> i \<and> i < 2 ^ 31" "\<forall>j \<in> set xs. b < j \<longrightarrow> at name fs j = None"
      using Cons.prems(2,4) by simp_all
    ultimately show ?thesis using Cons.IH [OF srt(1) _ _ _ Cons.prems(5-7)] by (simp only:) blast
  next
    case False
    then have xb: "x \<le> b" using Cons.prems(4) by force
    then have i: "to_i32 (x + 1) = x + 1" using x Cons.prems(7) by (intro to_i32_id) auto
    let ?fs = "rename_path fs (numbered name x) (numbered name (x + 1))"
    have above: "at name fs j = None" if "x < j" "j \<le> b + 1" for j
    proof (cases "j = b + 1")
      case False
      then have "j \<notin> set (x # xs)" using that(1) srt(2) by force
      moreover have "1 \<le> j" "j \<le> b" using that False x(1) by auto
      ultimately show ?thesis using Cons.prems(3) by blast
    qed (use Cons.prems(5) in simp)
    have at1: "at name ?fs k = (if k = x + 1 then at name fs x else if k = x then None else at name fs k)"
      if "1 \<le> k" "k < 2 ^ 31" for k
    proof -
      have "numbered name x \<noteq> numbered name (x + 1)" using numbered_inj [of name x "x + 1"] x xb Cons.prems(7) by auto
      moreover have "(numbered name k = numbered name (x + 1)) = (k = x + 1)" "(numbered name k = numbered name x) = (k = x)"
        using numbered_inj [of name k "x + 1"] numbered_inj [of name k x] x xb that Cons.prems(7) by auto
      ultimately show ?thesis using False lookup_rename [of "numbered name x" "numbered name (x + 1)" fs "numbered name k"]
        by (auto simp: at_def)
    qed
    have IH: "\<forall>k. 1 \<le> k \<longrightarrow> k < 2 ^ 31 \<longrightarrow> at name (shift_files name ?fs xs) k =
        (if (x - 1) + 1 < k then at name ?fs k else if 2 \<le> k then at name ?fs (k - 1) else None)"
    proof (rule Cons.IH [OF srt(1)])
      show "\<forall>j. 1 \<le> j \<longrightarrow> j \<le> x - 1 \<longrightarrow> at name ?fs j \<noteq> None \<longrightarrow> j \<in> set xs"
      proof (intro allI impI)
        fix j assume j: "1 \<le> j" "j \<le> x - 1" "at name ?fs j \<noteq> None"
        then have "at name fs j \<noteq> None" using at1 [of j] x by auto
        then have "j \<in> set (x # xs)" using Cons.prems(3) j(1,2) xb by force
        then show "j \<in> set xs" using j(2) by auto
      qed
      show "\<forall>j \<in> set xs. x - 1 < j \<longrightarrow> at name ?fs j = None"
      proof (intro ballI impI)
        fix j assume "j \<in> set xs" "x - 1 < j"
        then have "j = x" using srt(2) by force
        then show "at name ?fs j = None" using at1 [of x] x by simp
      qed
      show "at name ?fs (x - 1 + 1) = None" using at1 [of x] x by simp
    qed (use Cons.prems(2,7) x xb in auto)
    show ?thesis
    proof (intro allI impI)
      fix k :: int assume k: "1 \<le> k" "k < 2 ^ 31"
      have fin: "at name (shift_files name fs (x # xs)) k =
          (if x < k then at name ?fs k else if 2 \<le> k then at name ?fs (k - 1) else None)"
        using IH k unfolding S i by simp
      consider "k = x + 1" | "b + 1 < k" "k \<noteq> x + 1" | "x + 1 < k" "k \<le> b + 1" | "k \<le> x" by linarith
      then show "at name (shift_files name fs (x # xs)) k =
          (if b + 1 < k then at name fs k else if 2 \<le> k then at name fs (k - 1) else None)"
      proof cases
        case 1
        then show ?thesis using fin at1 [OF k] x xb by simp
      next
        case 2
        then show ?thesis using fin at1 [OF k] xb by simp
      next
        case 3
        then show ?thesis using fin at1 [OF k] above [of k] above [of "k - 1"] x by simp
      next
        case 4
        then show ?thesis using fin at1 [of "k - 1"] k xb by simp
      qed
    qed
  qed
qed

text \<open>No other path is touched, when no file has the largest number.\<close>

lemma shift_files_other:
  assumes "\<forall>i. 1 \<le> i \<longrightarrow> i < 2 ^ 31 \<longrightarrow> p \<noteq> numbered name i" "\<forall>i \<in> set idxs. 1 \<le> i \<and> i < 2 ^ 31 - 1"
  shows "map_of (fs_entries (shift_files name fs idxs)) p = map_of (fs_entries fs) p"
  using assms(2)
proof (induction idxs arbitrary: fs)
  case (Cons x xs)
  have x: "1 \<le> x" "x < 2 ^ 31 - 1" using Cons.prems by auto
  then have "to_i32 (x + 1) = x + 1" by (intro to_i32_id) auto
  moreover have "numbered name x \<noteq> numbered name (x + 1)" using numbered_inj [of name x "x + 1"] x by auto
  moreover have "p \<noteq> numbered name x" "p \<noteq> numbered name (x + 1)" using assms(1) x by auto
  ultimately show ?case
    using Cons lookup_rename [of "numbered name x" "numbered name (x + 1)" fs p]
    by (simp add: shift_files_def split: if_splits)
qed (simp add: shift_files_def)

lemma shift_files_top:
  assumes "sorted (rev idxs)" "\<forall>i \<in> set idxs. i < 2 ^ 31" "at name fs (2 ^ 31 - 1) = None"
  shows "\<exists>ys. shift_files name fs idxs = shift_files name fs ys \<and> set ys \<subseteq> set idxs \<and> (\<forall>i \<in> set ys. i < 2 ^ 31 - 1)"
  using assms
proof (induction idxs)
  case (Cons x xs)
  show ?case
  proof (cases "x = 2 ^ 31 - 1")
    case True
    then have "shift_files name fs (x # xs) = shift_files name fs xs"
      using Cons.prems(3) by (simp add: shift_files_def at_def rename_absent)
    moreover obtain ys where "shift_files name fs xs = shift_files name fs ys" "set ys \<subseteq> set xs"
      "\<forall>i \<in> set ys. i < 2 ^ 31 - 1"
      using Cons by (auto simp: sorted_append)
    ultimately show ?thesis by (intro exI [of _ ys]) auto
  next
    case False
    then have "\<forall>i \<in> set (x # xs). i < 2 ^ 31 - 1" using Cons.prems(1,2) by (force simp: sorted_append)
    then show ?thesis by blast
  qed
qed auto

lemma shift_files_fields [simp]:
  "fs_data (shift_files name fs idxs) = fs_data fs" "fs_next (shift_files name fs idxs) = fs_next fs"
  "fs_can_open (shift_files name fs idxs) = fs_can_open fs"
proof -
  have "fs_data (shift_files name fs idxs) = fs_data fs \<and> fs_next (shift_files name fs idxs) = fs_next fs
      \<and> fs_can_open (shift_files name fs idxs) = fs_can_open fs"
    by (induction idxs arbitrary: fs) (simp_all add: shift_files_def)
  then show "fs_data (shift_files name fs idxs) = fs_data fs" "fs_next (shift_files name fs idxs) = fs_next fs"
    "fs_can_open (shift_files name fs idxs) = fs_can_open fs" by auto
qed

section \<open>The numbers found\<close>

lemma decimal_no_sep: "CHR ''.'' \<notin> set (decimal n)" "CHR ''/'' \<notin> set (decimal n)"
  using decimal_digits [of "CHR ''.''" n] decimal_digits [of "CHR ''/''" n] by (auto simp: digit_val_def)

lemma atoi_bound: "atoi s < 2 ^ 31"
proof -
  have b: "to_i32 x < 2147483648" for x using to_i32_bounds(2) [of x] by simp
  show ?thesis by (auto simp: atoi_def Let_def b simp del: digits.simps split: list.split)
qed

lemma file_index_range: "file_index e = Some i \<Longrightarrow> 1 \<le> i \<and> i < 2 ^ 31"
  using atoi_bound by (auto simp: file_index_def Let_def split: if_splits)

lemma file_index_numbered:
  assumes "1 \<le> i" "i < 2 ^ 31"
  shows "file_index (numbered f i, DT_REG) = Some i"
proof -
  have d: "show_int i = decimal (nat i)" using assms by (simp add: show_int_def)
  have "takeWhile (\<lambda>c. c \<noteq> CHR ''.'') (rev (numbered f i)) = rev (decimal (nat i))"
  proof -
    have "rev (numbered f i) = rev (decimal (nat i)) @ CHR ''.'' # rev f" by (simp add: numbered_def d)
    moreover have "takeWhile (\<lambda>c. c \<noteq> CHR ''.'') (rev (decimal (nat i)) @ CHR ''.'' # rev f)
        = rev (decimal (nat i)) @ takeWhile (\<lambda>c. c \<noteq> CHR ''.'') (CHR ''.'' # rev f)"
      using decimal_no_sep(1) [of "nat i"] by (intro takeWhile_append2) auto
    ultimately show ?thesis by simp
  qed
  moreover have "numbered f i \<noteq> ''.''" "numbered f i \<noteq> ''..''" "CHR ''.'' \<in> set (numbered f i)"
  proof -
    obtain c t where c: "decimal (nat i) = c # t" "digit_val c \<noteq> None" using decimal_hd by blast
    have ne: "c \<noteq> CHR ''.''" using c decimal_no_sep(1) [of "nat i"] by auto
    have l: "last (numbered f i) \<noteq> CHR ''.''"
      using decimal_no_sep(1) [of "nat i"] last_in_set [of "decimal (nat i)"] c(1) by (auto simp: numbered_def d)
    show "numbered f i \<noteq> ''.''" "numbered f i \<noteq> ''..''" using l by auto
    show "CHR ''.'' \<in> set (numbered f i)" by (simp add: numbered_def)
  qed
  ultimately show ?thesis using assms atoi_show [of i] d by (simp add: file_index_def Let_def)
qed

section \<open>Rotation\<close>

text \<open>
  The directory can be listed and the log file opened; of its numbered files each is a regular one, and
  none has the largest number; files not yet created are in no directory entry.
\<close>

definition log_dir_ok :: "logger \<Rightarrow> file_system \<Rightarrow> nat \<Rightarrow> bool" where
  "log_dir_ok lg fs pri \<longleftrightarrow>
     pri < LOG_PRIORITY_MAX \<and> fs_can_list fs (lg_dir lg) \<and> fs_can_open fs (log_name lg pri) \<and>
     (\<forall>(p, t, k) \<in> set (fs_entries fs). k < fs_next fs \<and> p \<noteq> numbered (log_name lg pri) (2 ^ 31 - 1) \<and>
        (take (length (log_name lg pri) + 1) p = log_name lg pri @ ''.'' \<longrightarrow> t = DT_REG))"

lemma index_found:
  assumes ok: "log_dir_ok lg fs pri" and i: "1 \<le> i" "i < 2 ^ 31" and e: "at (log_name lg pri) fs i \<noteq> None"
  shows "i \<in> set (List.map_filter file_index (dir_names fs (lg_dir lg)))"
proof -
  let ?f = "filePrefix pri @ ''.log''"
  have n: "numbered (log_name lg pri) i = lg_dir lg @ ''/'' @ numbered ?f i"
    by (simp add: numbered_def log_name_def)
  obtain t k where tk: "map_of (fs_entries fs) (numbered (log_name lg pri) i) = Some (t, k)"
    using e by (auto simp: at_def)
  then have m: "(numbered (log_name lg pri) i, t, k) \<in> set (fs_entries fs)" by (rule map_of_SomeD)
  have "take (length (log_name lg pri) + 1) (numbered (log_name lg pri) i) = log_name lg pri @ ''.''"
    by (simp add: numbered_def)
  then have "t = DT_REG" using ok m by (auto simp: log_dir_ok_def)
  moreover have "CHR ''/'' \<notin> set (numbered ?f i)"
  proof -
    have "pri \<in> {0, 1, 2, 3}" using ok by (auto simp: log_dir_ok_def LOG_PRIORITY_MAX_def)
    then have "CHR ''/'' \<notin> set (filePrefix pri)" by (auto simp: filePrefix_def)
    then show ?thesis using decimal_no_sep(2) [of "nat i"] i(1) by (simp add: numbered_def show_int_def)
  qed
  ultimately have "(numbered ?f i, DT_REG) \<in> set (dir_names fs (lg_dir lg))"
    using m unfolding dir_names_def n by (force intro!: rev_image_eqI)
  moreover have "file_index (numbered ?f i, DT_REG) = Some i" using i by (rule file_index_numbered)
  ultimately show ?thesis by (force simp: List.map_filter_def)
qed

lemma shifted:
  assumes ok: "log_dir_ok lg fs pri"
  defines "name \<equiv> log_name lg pri"
  defines "fs1 \<equiv> shift_files name fs (rev (sort (List.map_filter file_index (dir_names fs (lg_dir lg)))))"
  shows "at name fs1 1 = None"
    "1 \<le> k \<Longrightarrow> k < 2 ^ 31 - 1 \<Longrightarrow> at name fs1 (k + 1) = at name fs k"
    "\<forall>i. 1 \<le> i \<longrightarrow> i < 2 ^ 31 \<longrightarrow> p \<noteq> numbered name i \<Longrightarrow> map_of (fs_entries fs1) p = map_of (fs_entries fs) p"
proof -
  let ?idxs = "rev (sort (List.map_filter file_index (dir_names fs (lg_dir lg))))"
  have range: "\<forall>i \<in> set ?idxs. 1 \<le> i \<and> i < 2 ^ 31"
    using file_index_range by (fastforce simp: List.map_filter_def)
  have top: "at name fs (2 ^ 31 - 1) = None"
  proof (rule ccontr)
    assume "at name fs (2 ^ 31 - 1) \<noteq> None"
    then obtain t k where "map_of (fs_entries fs) (numbered name (2 ^ 31 - 1)) = Some (t, k)" by (auto simp: at_def)
    then have "(numbered name (2 ^ 31 - 1), t, k) \<in> set (fs_entries fs)" by (rule map_of_SomeD)
    then show False using ok by (force simp: log_dir_ok_def name_def)
  qed
  have found: "\<forall>j. 1 \<le> j \<longrightarrow> j \<le> 2 ^ 31 - 2 \<longrightarrow> at name fs j \<noteq> None \<longrightarrow> j \<in> set ?idxs"
    using index_found [OF ok] by (simp add: name_def)
  have above: "\<forall>j \<in> set ?idxs. 2 ^ 31 - 2 < j \<longrightarrow> at name fs j = None"
  proof (intro ballI impI)
    fix j assume "j \<in> set ?idxs" "2 ^ 31 - 2 < j"
    then have "j = 2 ^ 31 - 1" using range by force
    then show "at name fs j = None" using top by simp
  qed
  have srt: "sorted (rev ?idxs)" by simp
  have at: "\<forall>k. 1 \<le> k \<longrightarrow> k < 2 ^ 31 \<longrightarrow> at name fs1 k =
      (if 2 ^ 31 - 2 + 1 < k then at name fs k else if 2 \<le> k then at name fs (k - 1) else None)"
    unfolding fs1_def by (rule shift_files_at [OF srt range found above]) (use top in simp_all)
  show "at name fs1 1 = None" using at [rule_format, of 1] by simp
  show "at name fs1 (k + 1) = at name fs k" if "1 \<le> k" "k < 2 ^ 31 - 1"
    using at [rule_format, of "k + 1"] that by simp
  show "map_of (fs_entries fs1) p = map_of (fs_entries fs) p"
    if "\<forall>i. 1 \<le> i \<longrightarrow> i < 2 ^ 31 \<longrightarrow> p \<noteq> numbered name i"
  proof -
    obtain ys where ys: "shift_files name fs ?idxs = shift_files name fs ys" "set ys \<subseteq> set ?idxs"
      "\<forall>i \<in> set ys. i < 2 ^ 31 - 1"
      using shift_files_top [OF srt _ top] range by blast
    have "\<forall>i \<in> set ys. 1 \<le> i \<and> i < 2 ^ 31 - 1" using ys(2,3) range by blast
    from shift_files_other [OF that this] show ?thesis by (simp add: fs1_def ys(1))
  qed
qed

lemma content_at: "content_of fs (numbered name k) = map_option (\<lambda>e. fs_data fs (snd e)) (at name fs k)"
  by (simp add: content_of_def lookup_path_def at_def option.map_comp comp_def)

lemma FileRoll_ok:
  assumes ok: "log_dir_ok lg fs pri" and cur: "lookup_path fs (log_name lg pri) \<noteq> None"
  defines "name \<equiv> log_name lg pri"
  shows "\<exists>fs1. FileRoll lg fs pri = (lg\<lparr>lg_files := (lg_files lg)(pri \<mapsto> \<lparr>st_file = fs_next fs, st_pos = 0, st_append = False\<rparr>)\<rparr>, fs1)
     \<and> lookup_path fs1 name = Some (fs_next fs) \<and> fs_data fs1 = (fs_data fs)(fs_next fs := [])
     \<and> lookup_path fs1 (numbered name 1) = lookup_path fs name
     \<and> (\<forall>k. 1 \<le> k \<longrightarrow> k < 2 ^ 31 - 1 \<longrightarrow> lookup_path fs1 (numbered name (k + 1)) = lookup_path fs (numbered name k))
     \<and> (\<forall>p. p \<noteq> name \<longrightarrow> (\<forall>i. 1 \<le> i \<longrightarrow> i < 2 ^ 31 \<longrightarrow> p \<noteq> numbered name i) \<longrightarrow> lookup_path fs1 p = lookup_path fs p)"
proof -
  let ?s = "shift_files name fs (rev (sort (List.map_filter file_index (dir_names fs (lg_dir lg)))))"
  let ?r = "rename_path ?s name (numbered name 1)"
  have one: "name @ ''.1'' = numbered name 1" by (simp add: numbered_def show_int_def decimal.simps char_of_def bit_0)
  note sh = shifted [OF ok, folded name_def]
  have nn: "name \<noteq> numbered name i" for i using numbered_ne [of name i] by (rule not_sym)
  have cs: "map_of (fs_entries ?s) name = map_of (fs_entries fs) name" by (rule sh(3)) (use nn in blast)
  obtain e where e: "map_of (fs_entries fs) name = Some e" using cur by (auto simp: lookup_path_def name_def)
  have L: "map_of (fs_entries ?r) p =
      (if p = numbered name 1 then Some e else if p = name then None else map_of (fs_entries ?s) p)" for p
    using lookup_rename [OF nn [of 1], of ?s p] cs e by simp
  let ?f = "\<lparr>st_file = fs_next fs, st_pos = 0, st_append = False\<rparr>"
  let ?fs1 = "?r\<lparr>fs_entries := (name, DT_REG, fs_next fs) # fs_entries ?r,
      fs_data := (fs_data fs)(fs_next fs := []), fs_next := Suc (fs_next fs)\<rparr>"
  have "fopen ?r name False = (?fs1, Some ?f)"
    using ok L [of name] nn [of 1] by (simp add: fopen_def lookup_path_def log_dir_ok_def name_def)
  then have "FileRoll lg fs pri = (lg\<lparr>lg_files := (lg_files lg)(pri \<mapsto> ?f)\<rparr>, ?fs1)"
    using ok by (simp add: FileRoll_def Let_def log_dir_ok_def one flip: name_def)
  moreover have K: "lookup_path ?fs1 p = (if p = name then Some (fs_next fs) else map_option snd (map_of (fs_entries ?r) p))" for p
    by (simp add: lookup_path_def)
  moreover have "lookup_path ?fs1 (numbered name 1) = lookup_path fs name"
    by (simp add: K L nn [symmetric] e lookup_path_def)
  moreover have "lookup_path ?fs1 (numbered name (k + 1)) = lookup_path fs (numbered name k)" if "1 \<le> k" "k < 2 ^ 31 - 1" for k
  proof -
    have "numbered name (k + 1) \<noteq> numbered name 1" using numbered_inj [of name "k + 1" 1] that by auto
    then show ?thesis using sh(2) [OF that] by (simp add: K L nn [symmetric] lookup_path_def at_def)
  qed
  moreover have "lookup_path ?fs1 p = lookup_path fs p"
    if "p \<noteq> name" "\<forall>i. 1 \<le> i \<longrightarrow> i < 2 ^ 31 \<longrightarrow> p \<noteq> numbered name i" for p
    using sh(3) [OF that(2)] that by (simp add: K L lookup_path_def)
  ultimately show ?thesis by (intro exI [of _ ?fs1]) simp
qed

section \<open>Lines in files\<close>

lemma Log_Write_line:
  assumes "int pri \<le> lg_pri lg" "length (lg_buff lg) = 4096" "length stamp + length head \<le> 4096" "length stamp < 4096"
  shows "\<exists>b. length b = 4096 \<and> Log_Write lg fs pri stamp head msg =
    (case GetFile (lg\<lparr>lg_buff := b\<rparr>) fs pri of
       (lg1, fs1, None) \<Rightarrow> ret (lg1, fs1)
     | (lg1, fs1, Some f) \<Rightarrow>
         (case fwrite fs1 f (log_line (stamp @ head @ msg)) of
            (fs2, f1) \<Rightarrow> ret (lg1\<lparr>lg_files := (lg_files lg1)(pri \<mapsto> f1)\<rparr>, fs2)))"
proof -
  obtain b k where "format_line (lg_buff lg) stamp head msg = ret (b, k)" "length b = 4096"
    "take k b = log_line (stamp @ head @ msg)"
    using format_line_ok [OF assms(2-4)] by blast
  with assms(1) show ?thesis by (intro exI [of _ b]) (simp add: Log_Write_def)
qed

lemma PLOG_Write: "PLOG lg fs pri stamp head msg = (if int pri \<le> lg_pri lg then Log_Write lg fs pri stamp head msg else ret (lg, fs))"
  by (simp add: PLOG_def)

lemma fwrite_end:
  assumes "st_append f \<or> st_pos f = int (length (fs_data fs (st_file f)))"
  shows "fwrite fs f s = (fs\<lparr>fs_data := (fs_data fs)(st_file f := fs_data fs (st_file f) @ s)\<rparr>,
    f\<lparr>st_pos := int (length (fs_data fs (st_file f)) + length s)\<rparr>)"
  using assms by (auto simp: fwrite_def Let_def)

lemma log_line_length: "length (log_line t) \<le> 4095"
  by (simp add: log_line_def)

lemma lookup_used: "log_dir_ok lg fs pri \<Longrightarrow> lookup_path fs p = Some k \<Longrightarrow> k < fs_next fs"
proof -
  assume ok: "log_dir_ok lg fs pri" and l: "lookup_path fs p = Some k"
  then obtain t where "map_of (fs_entries fs) p = Some (t, k)" by (auto simp: lookup_path_def)
  then have "(p, t, k) \<in> set (fs_entries fs)" by (rule map_of_SomeD)
  then show ?thesis using ok by (auto simp: log_dir_ok_def)
qed

lemma rotating_write:
  fixes msg :: string
  assumes w: "int pri \<le> lg_pri lg" "length (lg_buff lg) = 4096" "length stamp + length head \<le> 4096" "length stamp < 4096"
    and ok: "log_dir_ok lg fs pri" and cur: "lookup_path fs (log_name lg pri) \<noteq> None"
    and f: "lg_files lg pri = Some f" "lg_maxSize lg < st_pos f"
  defines "name \<equiv> log_name lg pri" and "line \<equiv> log_line (stamp @ head @ msg)"
  shows "\<exists>b fs1. length b = 4096 \<and> Log_Write lg fs pri stamp head msg =
       ret (lg\<lparr>lg_buff := b, lg_files := (lg_files lg)
              (pri \<mapsto> \<lparr>st_file = fs_next fs, st_pos = int (length line), st_append = False\<rparr>)\<rparr>, fs1) \<and>
     fs_data fs1 = (fs_data fs)(fs_next fs := line) \<and> fs_can_open fs1 = fs_can_open fs \<and>
     lookup_path fs1 name = Some (fs_next fs) \<and> lookup_path fs1 (numbered name 1) = lookup_path fs name \<and>
     (\<forall>k. 1 \<le> k \<longrightarrow> k < 2 ^ 31 - 1 \<longrightarrow> lookup_path fs1 (numbered name (k + 1)) = lookup_path fs (numbered name k)) \<and>
     (\<forall>p. p \<noteq> name \<longrightarrow> (\<forall>i. 1 \<le> i \<longrightarrow> i < 2 ^ 31 \<longrightarrow> p \<noteq> numbered name i) \<longrightarrow> lookup_path fs1 p = lookup_path fs p)"
proof -
  obtain b where b: "length b = 4096" "Log_Write lg fs pri stamp head msg =
      (case GetFile (lg\<lparr>lg_buff := b\<rparr>) fs pri of (lg1, fs1, None) \<Rightarrow> ret (lg1, fs1)
       | (lg1, fs1, Some f) \<Rightarrow>
           (case fwrite fs1 f line of (fs2, f1) \<Rightarrow> ret (lg1\<lparr>lg_files := (lg_files lg1)(pri \<mapsto> f1)\<rparr>, fs2)))"
    using Log_Write_line [OF w, of fs msg] unfolding line_def by blast
  let ?f = "\<lparr>st_file = fs_next fs, st_pos = 0, st_append = False\<rparr>"
  let ?lg = "lg\<lparr>lg_buff := b\<rparr>"
  have ok': "log_dir_ok ?lg fs pri" "log_name ?lg pri = name" using ok by (simp_all add: log_dir_ok_def log_name_def name_def)
  obtain fs1 where r: "FileRoll ?lg fs pri = (?lg\<lparr>lg_files := (lg_files ?lg)(pri \<mapsto> ?f)\<rparr>, fs1)"
    "lookup_path fs1 name = Some (fs_next fs)" "fs_data fs1 = (fs_data fs)(fs_next fs := [])"
    "lookup_path fs1 (numbered name 1) = lookup_path fs name"
    "\<forall>k. 1 \<le> k \<longrightarrow> k < 2 ^ 31 - 1 \<longrightarrow> lookup_path fs1 (numbered name (k + 1)) = lookup_path fs (numbered name k)"
    "\<forall>p. p \<noteq> name \<longrightarrow> (\<forall>i. 1 \<le> i \<longrightarrow> i < 2 ^ 31 \<longrightarrow> p \<noteq> numbered name i) \<longrightarrow> lookup_path fs1 p = lookup_path fs p"
    using FileRoll_ok [OF ok'(1)] cur unfolding ok'(2) name_def [symmetric] by blast
  have co: "fs_can_open fs1 = fs_can_open fs"
  proof -
    have "fs_can_open (snd (FileRoll lg fs pri)) = fs_can_open fs" for lg
      by (simp add: FileRoll_def Let_def fopen_def split: option.split)
    from this [of ?lg] show ?thesis by (simp add: r(1))
  qed
  have "Log_Write lg fs pri stamp head msg = ret (?lg\<lparr>lg_files := (lg_files lg)
      (pri \<mapsto> \<lparr>st_file = fs_next fs, st_pos = int (length line), st_append = False\<rparr>)\<rparr>,
      fs1\<lparr>fs_data := (fs_data fs)(fs_next fs := line)\<rparr>)"
    unfolding b(2) using f r(1,3) by (simp add: GetFile_def fwrite_end)
  moreover have "lookup_path (fs1\<lparr>fs_data := d\<rparr>) p = lookup_path fs1 p" for d p by (simp add: lookup_path_def)
  ultimately show ?thesis using b(1) r co
    by (intro exI [of _ b] exI [of _ "fs1\<lparr>fs_data := (fs_data fs)(fs_next fs := line)\<rparr>"]) simp
qed

text \<open>C21. \<open>Log::Write\<close> on a stream that has grown beyond the limit rotates the files: the log file holds
  just the new line, what it held is now under number 1, each numbered file has moved up by one with
  its contents (gaps included), and no other file of the directory is touched, whatever numbers other
  logs have there.\<close>

theorem Log_rotates:
  assumes "int pri \<le> lg_pri lg" "length (lg_buff lg) = 4096" "length stamp + length head \<le> 4096" "length stamp < 4096"
    and "log_dir_ok lg fs pri" "content_of fs (log_name lg pri) = Some old"
    and "lg_files lg pri = Some f" "lg_maxSize lg < st_pos f"
  shows "\<exists>lg1 fs1. Log_Write lg fs pri stamp head msg = ret (lg1, fs1) \<and>
     content_of fs1 (log_name lg pri) = Some (log_line (stamp @ head @ msg)) \<and>
     content_of fs1 (numbered (log_name lg pri) 1) = Some old \<and>
     (\<forall>k. 1 \<le> k \<longrightarrow> k < 2 ^ 31 - 1 \<longrightarrow>
        content_of fs1 (numbered (log_name lg pri) (k + 1)) = content_of fs (numbered (log_name lg pri) k)) \<and>
     (\<forall>p. p \<noteq> log_name lg pri \<longrightarrow> (\<forall>i. 1 \<le> i \<longrightarrow> i < 2 ^ 31 \<longrightarrow> p \<noteq> numbered (log_name lg pri) i) \<longrightarrow>
        content_of fs1 p = content_of fs p)"
proof -
  have cur: "lookup_path fs (log_name lg pri) \<noteq> None" using assms(6) by (auto simp: content_of_def)
  obtain lg1 fs1 where r: "Log_Write lg fs pri stamp head msg = ret (lg1, fs1)"
     "fs_data fs1 = (fs_data fs)(fs_next fs := log_line (stamp @ head @ msg))"
     "lookup_path fs1 (log_name lg pri) = Some (fs_next fs)"
     "lookup_path fs1 (numbered (log_name lg pri) 1) = lookup_path fs (log_name lg pri)"
     "\<forall>k. 1 \<le> k \<longrightarrow> k < 2 ^ 31 - 1 \<longrightarrow> lookup_path fs1 (numbered (log_name lg pri) (k + 1)) = lookup_path fs (numbered (log_name lg pri) k)"
     "\<forall>p. p \<noteq> log_name lg pri \<longrightarrow> (\<forall>i. 1 \<le> i \<longrightarrow> i < 2 ^ 31 \<longrightarrow> p \<noteq> numbered (log_name lg pri) i) \<longrightarrow> lookup_path fs1 p = lookup_path fs p"
    using rotating_write [OF assms(1-5) cur assms(7,8), of msg] by blast
  have same: "content_of fs1 q = content_of fs p" if "lookup_path fs1 q = lookup_path fs p" for p q
    using lookup_used [OF assms(5), of p] that r(2) by (cases "lookup_path fs p") (auto simp: content_of_def)
  have "content_of fs1 (log_name lg pri) = Some (log_line (stamp @ head @ msg))" using r(2,3) by (simp add: content_of_def)
  then show ?thesis using r(1) same r(4-6) assms(6) by (intro exI [of _ lg1] exI [of _ fs1]) simp
qed

text \<open>The macros write a line of an enabled priority at the end of its file, cut to the buffer and
  ended by a newline, and touch nothing else; a line of another priority is dropped.\<close>

theorem PLOG_appends:
  assumes "length (lg_buff lg) = 4096" "length stamp + length head \<le> 4096" "length stamp < 4096"
    and "lg_files lg pri = Some f" "st_append f" "0 \<le> st_pos f" "st_pos f \<le> lg_maxSize lg"
  shows "\<exists>lg1. PLOG lg fs pri stamp head msg =
    ret (lg1, if int pri \<le> lg_pri lg
              then fs\<lparr>fs_data := (fs_data fs)(st_file f := fs_data fs (st_file f) @ log_line (stamp @ head @ msg))\<rparr>
              else fs)"
proof (cases "int pri \<le> lg_pri lg")
  case True
  from Log_Write_line [OF True assms(1-3), of fs msg] show ?thesis
    using True assms(4-7) by (auto simp: PLOG_Write GetFile_def fwrite_end)
qed (simp add: PLOG_Write)


section \<open>A rotation\<close>

definition sample_log :: logger where
  "sample_log =
     new_Log\<lparr>lg_dir := ''logs'', lg_maxSize := 4500,
       lg_files := [LOG_PRIORITY_INFO \<mapsto> \<lparr>st_file = 0, st_pos = 4501, st_append = True\<rparr>]\<rparr>"

definition sample_files :: file_system where
  "sample_files =
     \<lparr>fs_entries = [(''logs/debug.log'', 8, 0), (''logs/debug.log.1'', 8, 1), (''logs/error.log.1'', 8, 2)],
      fs_data = (\<lambda>k. replicate (if k = 0 then 4501 else 0) CHR ''x''), fs_next = 3,
      fs_can_open = (\<lambda>_. True), fs_can_list = (\<lambda>_. True)\<rparr>"

lemma sample_name: "log_name sample_log LOG_PRIORITY_INFO = ''logs/debug.log''"
  by (simp add: log_name_def sample_log_def filePrefix_def LOG_PRIORITY_INFO_def)

lemma sample_ok: "log_dir_ok sample_log sample_files LOG_PRIORITY_INFO"
proof -
  have one: "''logs/debug.log.1'' = numbered ''logs/debug.log'' 1"
    by (simp add: numbered_def show_int_def decimal.simps char_of_def bit_0)
  have "numbered ''logs/debug.log'' 1 \<noteq> numbered ''logs/debug.log'' (2 ^ 31 - 1)"
    using numbered_inj [of "''logs/debug.log''" 1 "2 ^ 31 - 1"] by auto
  then have "''logs/debug.log.1'' \<noteq> numbered ''logs/debug.log'' (2 ^ 31 - 1)" unfolding one .
  moreover have "''logs/debug.log'' \<noteq> numbered ''logs/debug.log'' (2 ^ 31 - 1)"
    using numbered_ne [of "''logs/debug.log''" "2 ^ 31 - 1"] by (rule not_sym)
  moreover have "''logs/error.log.1'' \<noteq> numbered ''logs/debug.log'' (2 ^ 31 - 1)" by (simp add: numbered_def)
  ultimately show ?thesis unfolding log_dir_ok_def sample_name
    by (simp add: sample_files_def LOG_PRIORITY_MAX_def LOG_PRIORITY_INFO_def DT_REG_def)
qed

lemma sample_log_fields:
  "int LOG_PRIORITY_DEBUG \<le> lg_pri sample_log" "int LOG_PRIORITY_INFO \<le> lg_pri sample_log"
  "length (lg_buff sample_log) = 4096" "4095 \<le> lg_maxSize sample_log" "lg_maxSize sample_log < 4501"
  "lg_files sample_log LOG_PRIORITY_INFO = Some \<lparr>st_file = 0, st_pos = 4501, st_append = True\<rparr>"
  "lg_files sample_log LOG_PRIORITY_DEBUG = None"
  "lookup_path sample_files (log_name sample_log LOG_PRIORITY_INFO) = Some 0"
  unfolding sample_name
  by (simp_all add: sample_log_def sample_files_def new_Log_def lookup_path_def LOG_PRIORITY_TRACE_def
      LOG_PRIORITY_DEBUG_def LOG_PRIORITY_INFO_def LOG_BUFF_LEN_def)

lemma Log_rotates_witness:
  "\<exists>lg1 fs1. Log_Write sample_log sample_files LOG_PRIORITY_INFO ''[now]'' ''[1]'' ''up'' = ret (lg1, fs1) \<and>
     content_of fs1 (log_name sample_log LOG_PRIORITY_INFO) = Some (log_line (''[now]'' @ ''[1]'' @ ''up'')) \<and>
     content_of fs1 (numbered (log_name sample_log LOG_PRIORITY_INFO) 1) = Some (replicate 4501 CHR ''x'')"
proof -
  have "content_of sample_files (log_name sample_log LOG_PRIORITY_INFO) = Some (replicate 4501 CHR ''x'')"
    by (simp add: content_of_def sample_log_fields(8)) (simp add: sample_files_def)
  from Log_rotates [OF sample_log_fields(2,3) _ _ sample_ok this sample_log_fields(6), where stamp = "''[now]''" and head = "''[1]''" and msg = "''up''"]
  show ?thesis using sample_log_fields(5) by auto
qed

lemma PLOG_appends_witness:
  "\<exists>lg1. PLOG (sample_log\<lparr>lg_maxSize := 5000\<rparr>) sample_files LOG_PRIORITY_INFO ''[now]'' ''[1]'' ''up'' =
    ret (lg1, sample_files\<lparr>fs_data := (fs_data sample_files)
      (0 := fs_data sample_files 0 @ log_line (''[now]'' @ ''[1]'' @ ''up''))\<rparr>)"
  using PLOG_appends [of "sample_log\<lparr>lg_maxSize := 5000\<rparr>" "''[now]''" "''[1]''" LOG_PRIORITY_INFO
      "\<lparr>st_file = 0, st_pos = 4501, st_append = True\<rparr>" sample_files "''up''"] sample_log_fields(2,3,6)
  by simp


end
