(* ===== verification/Notify.thy ===== *)
theory Notify
  imports Server_Spec
begin

text \<open>
  How the workers' messages get out (framework/Server.cc \<open>SendMsg\<close>, NetMessage.cc \<open>SendQueNoti\<close> and
  \<open>OnSendMsgEvent\<close>, IOEventEv.cc \<open>UserEventEv\<close>), with the threads interleaved.

  A worker puts a message into the send queue and, in a step of its own, triggers the user event.  The
  network thread runs \<open>OnSendMsgEvent\<close> in steps: look at the front block, send it out of the queue's
  buffer, pop it.  It does not take the workers' lock, so the two parts of a push may fall between any two
  of these; only where the tail is wrapped is a push taken for one step, as it is not safe in parts
  (theorem \<open>unfinished_push_taken\<close>).
  What is assumed of libev is what it documents of \<open>ev_async_send\<close>: it sets a flag, several sends
  may count as one, and the loop resets the flag before it calls the watcher's callback.
\<close>

section \<open>Threads\<close>

datatype position = Waiting | Looping | Fronted int | Popping int

text \<open>
  \<open>nt_fill\<close> is the push that has begun: the worker that holds \<open>sendLocker_\<close>, the message and where its data
  goes.  \<open>nt_queued\<close> and \<open>nt_sent\<close> record what the queue accepted and what has been sent.
\<close>

record ('os, 'app) sending =
  nt_world :: "('os, 'app) net"
  nt_queue :: loop_queue
  nt_flag :: bool
  nt_pos :: position
  nt_fill :: "(nat \<times> message \<times> int) option"
  nt_posting :: "nat \<Rightarrow> bool"
  nt_queued :: "message list"
  nt_sent :: "message list"

definition start_sending :: "('os, 'app) net \<Rightarrow> loop_queue \<Rightarrow> ('os, 'app) sending" where
  "start_sending n q =
     \<lparr>nt_world = n, nt_queue = q, nt_flag = False, nt_pos = Waiting, nt_fill = None, nt_posting = (\<lambda>_. False),
      nt_queued = [], nt_sent = []\<rparr>"

text \<open>A worker: the push of a message, under \<open>sendLocker_\<close>, and \<open>SendQueNoti\<close> when it was accepted.\<close>

inductive worker_step :: "('os, 'app) sending \<Rightarrow> nat \<Rightarrow> ('os, 'app) sending \<Rightarrow> bool" where
  begins: "\<not> nt_posting t i \<Longrightarrow> nt_fill t = None \<Longrightarrow> msg_ok m \<Longrightarrow> lq_tail (nt_queue t) + bsize m \<le> lq_bufflen (nt_queue t) \<Longrightarrow>
     BufferForPush (nt_queue t) (msg_fd m) (msg_remote m) (msg_type m) (int (length (msg_data m))) = ret (q1, Some off) \<Longrightarrow>
     worker_step t i (t\<lparr>nt_queue := q1, nt_fill := Some (i, m, off)\<rparr>)"
| finishes: "nt_fill t = Some (i, m, off) \<Longrightarrow> buff_write (nt_queue t) off (msg_data m) = ret q1 \<Longrightarrow>
     worker_step t i
       (t\<lparr>nt_queue := PushFinish q1 (int (length (msg_data m))), nt_fill := None, nt_posting := (nt_posting t)(i := True),
          nt_queued := nt_queued t @ [m]\<rparr>)"
| post: "\<not> nt_posting t i \<Longrightarrow> nt_fill t = None \<Longrightarrow> push_safe (nt_queue t) m \<Longrightarrow>
     lq_bufflen (nt_queue t) < lq_tail (nt_queue t) + bsize m \<Longrightarrow> PushMsg (nt_queue t) m = ret (q1, ok) \<Longrightarrow>
     worker_step t i
       (t\<lparr>nt_queue := q1, nt_posting := (nt_posting t)(i := ok), nt_queued := nt_queued t @ (if ok then [m] else [])\<rparr>)"
| trigger: "nt_posting t i \<Longrightarrow> nt_fill t = None \<or> fst (the (nt_fill t)) \<noteq> i \<Longrightarrow>
     worker_step t i (t\<lparr>nt_flag := True, nt_posting := (nt_posting t)(i := False)\<rparr>)"

definition send_message ::
  "'os sys \<Rightarrow> ('os, 'app) net server_calls \<Rightarrow> ('os, 'app) net \<Rightarrow> message \<Rightarrow> ('os, 'app) net run" where
  "send_message sys srv n m =
     (if msg_type m = MT_SVR_MESSAGE \<or> msg_type m = MT_CLI_MESSAGE
      then rbind (Net_Message.SendMsg sys srv n (msg_fd m) (msg_remote m) (msg_data m)) (\<lambda>(n1, _). ret n1)
      else ret n)"

inductive network_step ::
  "'os sys \<Rightarrow> ('os, 'app) net server_calls \<Rightarrow> ('os, 'app) sending \<Rightarrow> ('os, 'app) sending \<Rightarrow> bool"
  for sys srv where
  wake: "nt_pos t = Waiting \<Longrightarrow> nt_flag t \<Longrightarrow>
     network_step sys srv t (t\<lparr>nt_flag := False, nt_pos := Looping\<rparr>)"
| front: "nt_pos t = Looping \<Longrightarrow> FrontBlock (nt_queue t) = ret (q1, Some off) \<Longrightarrow>
     network_step sys srv t (t\<lparr>nt_queue := q1, nt_pos := Fronted off\<rparr>)"
| finish: "nt_pos t = Looping \<Longrightarrow> FrontBlock (nt_queue t) = ret (q1, None) \<Longrightarrow>
     network_step sys srv t (t\<lparr>nt_queue := q1, nt_pos := Waiting\<rparr>)"
| send: "nt_pos t = Fronted off \<Longrightarrow> read_block (nt_queue t) off = ret m \<Longrightarrow>
     send_message sys srv (nt_world t) m = ret n1 \<Longrightarrow>
     network_step sys srv t (t\<lparr>nt_world := n1, nt_pos := Popping off, nt_sent := nt_sent t @ [m]\<rparr>)"
| pop: "nt_pos t = Popping off \<Longrightarrow>
     network_step sys srv t
       (t\<lparr>nt_queue := PopBlock (nt_queue t) (bt_len (lq_buff (nt_queue t)) off), nt_pos := Looping\<rparr>)"

inductive_cases worker_stepE: "worker_step t i t1"
inductive_cases network_stepE: "network_step sys srv t t1"

text \<open>Any interleaving of the two.\<close>

inductive interleaved ::
  "'os sys \<Rightarrow> ('os, 'app) net server_calls \<Rightarrow> ('os, 'app) sending \<Rightarrow> ('os, 'app) sending \<Rightarrow> bool"
  for sys srv t0 where
  none: "interleaved sys srv t0 t0"
| worker: "interleaved sys srv t0 t \<Longrightarrow> worker_step t i t1 \<Longrightarrow> interleaved sys srv t0 t1"
| network: "interleaved sys srv t0 t \<Longrightarrow> network_step sys srv t t1 \<Longrightarrow> interleaved sys srv t0 t1"

section \<open>Invariant\<close>

text \<open>However the queue represents the messages, it may become one that represents a message more.\<close>

definition queue_at :: "position \<Rightarrow> loop_queue \<Rightarrow> message list \<Rightarrow> bool" where
  "queue_at p q ms \<longleftrightarrow>
     (case p of
        Waiting \<Rightarrow> lq_rep q ms
      | Looping \<Rightarrow> lq_rep q ms
      | Fronted off \<Rightarrow> off = lq_head q \<and> ms \<noteq> [] \<and> fronted q (hd ms) (tl ms)
      | Popping off \<Rightarrow> off = lq_head q \<and> (\<exists>m. fronted q m ms))"

lemma queue_at_more:
  assumes c: "queue_at p q ms" and hd: "lq_head q1 = lq_head q"
    and rep: "\<And>ms. lq_rep q ms \<Longrightarrow> lq_rep q1 (ms @ new)"
    and fr: "\<And>m0 ms. fronted q m0 ms \<Longrightarrow> fronted q1 m0 (ms @ new)"
  shows "queue_at p q1 (ms @ new)"
proof -
  have pop: "\<exists>m0. fronted q m0 ms \<Longrightarrow> \<exists>m0. fronted q1 m0 (ms @ new)" using fr by blast
  show ?thesis
    using c rep fr [of "hd ms" "tl ms"] pop unfolding queue_at_def hd by (cases p) auto
qed

lemma queue_at_push:
  assumes "queue_at p q ms" "push_safe q m" "PushMsg q m = ret (q1, ok)"
  shows "queue_at p q1 (ms @ (if ok then [m] else []))"
proof (rule queue_at_more [OF assms(1)])
  show "lq_head q1 = lq_head q" using PushMsg_head assms(3) by blast
  show "lq_rep q1 (ms @ (if ok then [m] else []))" if "lq_rep q ms" for ms
    using PushMsg_rep [OF that assms(2)] assms(3) by auto
  show "fronted q1 m0 (ms @ (if ok then [m] else []))" if "fronted q m0 ms" for m0 ms
    using PushMsg_fronted [OF that assms(2)] assms(3) by auto
qed

lemma queue_at_tail: "queue_at p q ms \<Longrightarrow> 0 \<le> lq_tail q"
  by (auto simp: queue_at_def fronted_def dest!: lq_rep_bounds(2) split: position.splits)

definition queue_inv :: "('os, 'app) sending \<Rightarrow> message list \<Rightarrow> bool" where
  "queue_inv t ms \<longleftrightarrow>
     nt_queued t = nt_sent t @ ms \<and> queue_at (nt_pos t) (nt_queue t) ms \<and>
     (\<forall>i m off. nt_fill t = Some (i, m, off) \<longrightarrow> filling (nt_queue t) m \<and> off = lq_tail (nt_queue t) + 22)"

text \<open>A message in the queue is seen: the loop runs, its flag is set, or a worker is going to set it.\<close>

definition noticed :: "('os, 'app) sending \<Rightarrow> message list \<Rightarrow> bool" where
  "noticed t ms \<longleftrightarrow> ms = [] \<or> nt_pos t \<noteq> Waiting \<or> nt_flag t \<or> (\<exists>i. nt_posting t i)"

lemma queue_inv_at: "queue_inv t ms \<Longrightarrow> queue_at (nt_pos t) (nt_queue t) ms"
  by (simp add: queue_inv_def)

lemma worker_step_inv:
  assumes "worker_step t i t1" "queue_inv t ms" "noticed t ms"
  shows "\<exists>ms1. queue_inv t1 ms1 \<and> noticed t1 ms1 \<and> nt_sent t1 = nt_sent t \<and> nt_world t1 = nt_world t"
  using assms(1)
proof (cases rule: worker_step.cases)
  case (begins m q1 off)
  note B = BufferForPush_begins [OF begins(4,5) queue_at_tail [OF queue_inv_at [OF assms(2)]] begins(6)]
  have "queue_at (nt_pos t) q1 (ms @ [])"
    by (rule queue_at_more [OF queue_inv_at [OF assms(2)] B(2)]) (use B(4,5) in simp_all)
  then have "queue_inv t1 ms" using assms(2) B(1,3) begins(1) by (simp add: queue_inv_def)
  moreover have "noticed t1 ms" using assms(3) begins(1) by (simp add: noticed_def)
  ultimately show ?thesis using begins(1) by auto
next
  case (finishes m off q1)
  have f: "filling (nt_queue t) m" "off = lq_tail (nt_queue t) + 22" using assms(2) finishes(2) by (auto simp: queue_inv_def)
  note F = filling_finish [OF f(1)]
  have q: "PushFinish q1 (int (length (msg_data m))) = stored (nt_queue t) m" using F(3) finishes(3) f(2) by simp
  have "queue_at (nt_pos t) (stored (nt_queue t) m) (ms @ [m])"
    using queue_at_push [OF queue_inv_at [OF assms(2)] F(1,2)] by simp
  then have "queue_inv t1 (ms @ [m])" using assms(2) finishes(1) q by (simp add: queue_inv_def)
  moreover have "noticed t1 (ms @ [m])" using finishes(1) by (auto simp: noticed_def)
  ultimately show ?thesis using finishes(1) by auto
next
  case (post m q1 ok)
  let ?new = "if ok then [m] else []"
  have "queue_inv t1 (ms @ ?new)"
    using queue_at_push [OF queue_inv_at [OF assms(2)] post(4,6)] assms(2) post(1,3) by (simp add: queue_inv_def)
  moreover have "noticed t1 (ms @ ?new)" using assms(3) post(1,2) by (auto simp: noticed_def)
  ultimately show ?thesis using post(1) by auto
next
  case trigger
  then have "queue_inv t1 ms" "noticed t1 ms" using assms(2) by (simp_all add: queue_inv_def noticed_def)
  then show ?thesis using trigger(1) by auto
qed

lemma PopBlock_fill:
  assumes "queue_inv t ms" "nt_pos t = Popping off" "nt_fill t = Some (i, m, o1)"
  shows "filling (PopBlock (nt_queue t) (bt_len (lq_buff (nt_queue t)) off)) m \<and>
    o1 = lq_tail (PopBlock (nt_queue t) (bt_len (lq_buff (nt_queue t)) off)) + 22"
proof -
  obtain m0 where h: "off = lq_head (nt_queue t)" "fronted (nt_queue t) m0 ms"
    using assms(1,2) by (auto simp: queue_inv_def queue_at_def)
  have "filling (nt_queue t) m" "o1 = lq_tail (nt_queue t) + 22" using assms(1,3) by (auto simp: queue_inv_def)
  then show ?thesis using PopBlock_filling [OF h(2)] frontedD(8) [OF h(2)] h(1) by (simp add: PopBlock_def)
qed

lemma network_step_inv:
  assumes "network_step sys srv t t1" "queue_inv t ms" "noticed t ms"
  shows "\<exists>ms1. queue_inv t1 ms1 \<and> noticed t1 ms1 \<and>
    (nt_sent t1 = nt_sent t \<and> nt_world t1 = nt_world t \<or>
     (\<exists>m. nt_sent t1 = nt_sent t @ [m] \<and> send_message sys srv (nt_world t) m = ret (nt_world t1)))"
  using assms(1)
proof (cases rule: network_step.cases)
  case wake
  then show ?thesis using assms(2) by (intro exI [of _ ms]) (simp add: queue_inv_def noticed_def queue_at_def)
next
  case (front q1 off)
  have "lq_rep (nt_queue t) ms" using assms(2) front(2) by (simp add: queue_inv_def queue_at_def)
  from FrontBlock_result [OF this] have b: "off = lq_head q1 \<and> ms \<noteq> [] \<and> fronted q1 (hd ms) (tl ms)"
    using front(3) by auto
  have "queue_inv t1 ms"
    using assms(2) b front(1) FrontBlock_filling [OF _ front(3)] by (auto simp: queue_inv_def queue_at_def)
  then show ?thesis using front(1) by (intro exI [of _ ms]) (simp add: noticed_def)
next
  case (finish q1)
  have "lq_rep (nt_queue t) ms" using assms(2) finish(2) by (simp add: queue_inv_def queue_at_def)
  from FrontBlock_result [OF this] have "ms = []" "q1 = nt_queue t" using finish(3) by auto
  then show ?thesis using assms(2) finish by (intro exI [of _ "[]"]) (simp add: queue_inv_def queue_at_def noticed_def)
next
  case (send off m n1)
  obtain m0 ms' where ms: "ms = m0 # ms'" "off = lq_head (nt_queue t)" "fronted (nt_queue t) m0 ms'"
    using assms(2) send(2) by (cases ms) (auto simp: queue_inv_def queue_at_def)
  then have "m = m0" using frontedD(7) [OF ms(3)] send(3) by simp
  then have "queue_inv t1 ms'" using assms(2) send(1) ms by (auto simp: queue_inv_def queue_at_def)
  then show ?thesis using send by (intro exI [of _ ms']) (simp add: noticed_def)
next
  case (pop off)
  obtain m where m: "off = lq_head (nt_queue t)" "fronted (nt_queue t) m ms"
    using assms(2) pop(2) by (auto simp: queue_inv_def queue_at_def)
  have "queue_inv t1 ms"
    using assms(2) pop frontedD(6,8) [OF m(2)] m(1) PopBlock_fill [OF assms(2) pop(2)] by (simp add: queue_inv_def queue_at_def)
  then show ?thesis using pop(1) by (intro exI [of _ ms]) (simp add: noticed_def)
qed

lemma send_each_snoc:
  "send_each sys srv n (ms @ [m]) = rbind (send_each sys srv n ms) (\<lambda>n1. send_message sys srv n1 m)"
  by (simp add: send_each_append send_message_def rbind_ret_right)

lemma interleaved_inv:
  assumes "interleaved sys srv (start_sending n q) t" "lq_rep q []"
  shows "\<exists>ms. queue_inv t ms \<and> noticed t ms \<and> send_each sys srv n (nt_sent t) = ret (nt_world t)"
  using assms(1)
proof (induction rule: interleaved.induct)
  case none
  then show ?case using assms(2) by (intro exI [of _ "[]"]) (simp add: queue_inv_def queue_at_def noticed_def start_sending_def)
next
  case (worker t i t1)
  then obtain ms where ms: "queue_inv t ms" "noticed t ms" "send_each sys srv n (nt_sent t) = ret (nt_world t)" by blast
  from worker_step_inv [OF worker.hyps(2) ms(1,2)] ms(3) show ?case by metis
next
  case (network t t1)
  then obtain ms where ms: "queue_inv t ms" "noticed t ms" "send_each sys srv n (nt_sent t) = ret (nt_world t)" by blast
  from network_step_inv [OF network.hyps(2) ms(1,2)] ms(3) show ?case by (metis send_each_snoc rbind_ret)
qed

text \<open>Where the network thread stops: it waits, or the sending of a message does not return.\<close>

lemma network_stuck:
  assumes "queue_inv t ms" "\<not> (\<exists>t1. network_step sys srv t t1)"
  shows "nt_pos t = Waiting \<and> \<not> nt_flag t \<or>
    (\<exists>m ms'. ms = m # ms' \<and> nt_pos t \<noteq> Waiting \<and> \<not> (\<exists>n1. send_message sys srv (nt_world t) m = ret n1))"
proof (cases "nt_pos t")
  case Waiting
  then show ?thesis using assms(2) network_step.wake by blast
next
  case Looping
  then have rep: "lq_rep (nt_queue t) ms" using assms(1) by (simp add: queue_inv_def queue_at_def)
  have "\<exists>q1 b. FrontBlock (nt_queue t) = ret (q1, b)" using FrontBlock_result [OF rep] by blast
  then show ?thesis using assms(2) Looping network_step.front network_step.finish by (metis not_None_eq)
next
  case (Fronted off)
  then obtain m ms' where m: "ms = m # ms'" "off = lq_head (nt_queue t)" "fronted (nt_queue t) m ms'"
    using assms(1) by (cases ms) (auto simp: queue_inv_def queue_at_def)
  have "\<not> (\<exists>n1. send_message sys srv (nt_world t) m = ret n1)"
    using assms(2) network_step.send [OF Fronted, of m sys srv] frontedD(7) [OF m(3)] m(2) by blast
  then show ?thesis using m(1) Fronted by simp
next
  case (Popping off)
  then show ?thesis using assms(2) network_step.pop by blast
qed

section \<open>Each run ends\<close>

text \<open>What the network thread has left to do; each of its steps is one less.\<close>

definition left_to_do :: "('os, 'app) sending \<Rightarrow> message list \<Rightarrow> nat" where
  "left_to_do t ms =
     3 * length ms + (if nt_flag t then 2 else 0) +
     (case nt_pos t of Waiting \<Rightarrow> 0 | Looping \<Rightarrow> 1 | Fronted _ \<Rightarrow> 0 | Popping _ \<Rightarrow> 2)"

lemma network_step_left:
  assumes "network_step sys srv t t1" "queue_inv t ms" "queue_inv t1 ms1"
  shows "left_to_do t1 ms1 < left_to_do t ms"
proof -
  have "length ms1 + (length (nt_sent t1) - length (nt_sent t)) = length ms" "nt_queued t1 = nt_queued t"
    using assms by (cases rule: network_step.cases; force simp: queue_inv_def)+
  with assms(1) show ?thesis by (cases rule: network_step.cases) (auto simp: left_to_do_def)
qed

lemma network_steps_bounded:
  assumes "queue_inv t ms" "noticed t ms" "(network_step sys srv ^^ k) t t1"
  shows "\<exists>ms1. queue_inv t1 ms1 \<and> noticed t1 ms1 \<and> k + left_to_do t1 ms1 \<le> left_to_do t ms"
  using assms(3)
proof (induction k arbitrary: t1)
  case 0
  then show ?case using assms(1,2) by auto
next
  case (Suc k)
  then obtain u where u: "(network_step sys srv ^^ k) t u" "network_step sys srv u t1" by auto
  then obtain ms1 where m1: "queue_inv u ms1" "noticed u ms1" "k + left_to_do u ms1 \<le> left_to_do t ms"
    using Suc.IH by blast
  obtain ms2 where m2: "queue_inv t1 ms2" "noticed t1 ms2" using network_step_inv [OF u(2) m1(1,2)] by blast
  then show ?case using network_step_left [OF u(2) m1(1) m2(1)] m1(3) by (intro exI [of _ ms2]) simp
qed



end
