(* ===== verification/Locker.thy ===== *)
theory Locker
  imports Mkx_Prelude
begin

text \<open>
  \<open>MutexLocker\<close> (common/Locker.h, Locker.cc): a mutex and a condition variable of pthreads.  The class
  only calls pthreads, so what stands here is what POSIX documents of these calls, as the class uses
  them: who owns the mutex, who waits on the condition, and who has been woken, with the value its wait is
  going to return.

  An operation that has to wait has no result yet: \<open>None\<close>.  So has one that the caller may not use,
  as it does not own the mutex.
\<close>

record 't locker =
  mx_owner :: "'t option"
  mx_waiting :: "'t set"
  mx_woken :: "'t \<Rightarrow> int option"

definition new_MutexLocker :: "'t locker" where
  "new_MutexLocker = \<lparr>mx_owner = None, mx_waiting = {}, mx_woken = Map.empty\<rparr>"

definition MutexLocker_Lock :: "'t locker \<Rightarrow> 't \<Rightarrow> 't locker option" where
  "MutexLocker_Lock l t = (if mx_owner l = None then Some (l\<lparr>mx_owner := Some t\<rparr>) else None)"

definition MutexLocker_Unlock :: "'t locker \<Rightarrow> 't \<Rightarrow> 't locker option" where
  "MutexLocker_Unlock l t = (if mx_owner l = Some t then Some (l\<lparr>mx_owner := None\<rparr>) else None)"

text \<open>
  \<open>WaitTimeout\<close> gives the mutex back and waits; when it has been woken it takes the mutex again and
  returns: 0, or an error when the time was up.
\<close>

definition WaitTimeout_begin :: "'t locker \<Rightarrow> 't \<Rightarrow> 't locker option" where
  "WaitTimeout_begin l t =
     (if mx_owner l = Some t then Some (l\<lparr>mx_owner := None, mx_waiting := insert t (mx_waiting l)\<rparr>) else None)"

definition wake_up :: "'t locker \<Rightarrow> 't \<Rightarrow> int \<Rightarrow> 't locker" where
  "wake_up l t rc = l\<lparr>mx_waiting := mx_waiting l - {t}, mx_woken := (mx_woken l)(t \<mapsto> rc)\<rparr>"

definition WaitTimeout_end :: "'t locker \<Rightarrow> 't \<Rightarrow> ('t locker \<times> int) option" where
  "WaitTimeout_end l t =
     (case mx_woken l t of
        None \<Rightarrow> None
      | Some rc \<Rightarrow>
          (if mx_owner l = None then Some (l\<lparr>mx_owner := Some t, mx_woken := (mx_woken l)(t := None)\<rparr>, rc) else None))"

text \<open>\<open>Signal\<close> wakes one of those who wait, if any; \<open>Broadcast\<close> all.\<close>

inductive MutexLocker_Signal :: "'t locker \<Rightarrow> 't locker \<Rightarrow> bool" where
  nobody: "mx_waiting l = {} \<Longrightarrow> MutexLocker_Signal l l"
| one: "t \<in> mx_waiting l \<Longrightarrow> MutexLocker_Signal l (wake_up l t 0)"

definition MutexLocker_Broadcast :: "'t locker \<Rightarrow> 't locker" where
  "MutexLocker_Broadcast l =
     l\<lparr>mx_waiting := {}, mx_woken := (\<lambda>t. if t \<in> mx_waiting l then Some 0 else mx_woken l t)\<rparr>"

inductive_cases SignalE: "MutexLocker_Signal l l1"

lemma Signal_possible: "\<exists>l1. MutexLocker_Signal l l1"
proof (cases "mx_waiting l = {}")
  case True
  then show ?thesis by (intro exI) (rule MutexLocker_Signal.nobody)
next
  case False
  then obtain t where "t \<in> mx_waiting l" by auto
  then show ?thesis by (intro exI) (rule MutexLocker_Signal.one)
qed

lemma locker_results:
  "MutexLocker_Lock l t = Some l1 \<longleftrightarrow> mx_owner l = None \<and> l\<lparr>mx_owner := Some t\<rparr> = l1"
  "MutexLocker_Unlock l t = Some l1 \<longleftrightarrow> mx_owner l = Some t \<and> l\<lparr>mx_owner := None\<rparr> = l1"
  "WaitTimeout_begin l t = Some l1 \<longleftrightarrow>
     mx_owner l = Some t \<and> l\<lparr>mx_owner := None, mx_waiting := insert t (mx_waiting l)\<rparr> = l1"
  "WaitTimeout_end l t = Some (l1, rc) \<longleftrightarrow>
     mx_woken l t = Some rc \<and> mx_owner l = None \<and> l\<lparr>mx_owner := Some t, mx_woken := (mx_woken l)(t := None)\<rparr> = l1"
  by (simp_all add: MutexLocker_Lock_def MutexLocker_Unlock_def WaitTimeout_begin_def WaitTimeout_end_def split: option.split)
    auto

lemma wake_up_simps [simp]:
  "mx_owner (wake_up l t rc) = mx_owner l" "mx_waiting (wake_up l t rc) = mx_waiting l - {t}"
  "mx_woken (wake_up l t rc) = (mx_woken l)(t \<mapsto> rc)"
  by (simp_all add: wake_up_def)

end
