(* ===== verification/Dispatch.thy ===== *)
theory Dispatch
  imports Worker Loop_Queue_Spec Locker
begin

text \<open>
  How the workers get the messages (framework/Worker.cc \<open>dealRecvQue\<close>, NetMessage.cc \<open>recvTcpMsg\<close> and
  \<open>recvUdpMsg\<close>), line by line and with the threads interleaved.

  A worker locks, looks at the front of the queue and, if there is nothing, waits on the condition for
  at most ten milliseconds and looks once more; a block is copied and popped, the lock given back.  The
  network thread pushes a message without the lock, and then signals with it.  The two parts of a push may
  fall between any two steps of a worker; only where the tail is wrapped is a push taken for one step,
  as it is not safe in parts (theorem \<open>unfinished_push_taken\<close>).
\<close>

section \<open>Threads\<close>

datatype party = Network | Worker_thread nat

datatype place =
  At_Lock | At_Front | At_Wait | In_Wait | At_Front_again | At_Block "int option" | At_Pop int |
  At_Unlock "int option" | Dealing int

datatype net_place = Receiving | Filling message int | At_Lock_posted | At_Signal | At_Unlock_posted

text \<open>\<open>dp_accepted\<close> and \<open>dp_copied\<close> record the messages the queue accepted, and the blocks the workers copied.\<close>

record dispatch =
  dp_locker :: "party locker"
  dp_queue :: loop_queue
  dp_workers :: "nat \<Rightarrow> worker"
  dp_place :: "nat \<Rightarrow> place"
  dp_net :: net_place
  dp_accepted :: "message list"
  dp_copied :: "byte list list"

definition start_dispatch :: "loop_queue \<Rightarrow> (nat \<Rightarrow> worker) \<Rightarrow> dispatch" where
  "start_dispatch q ws =
     \<lparr>dp_locker = new_MutexLocker, dp_queue = q, dp_workers = ws, dp_place = (\<lambda>_. At_Lock),
      dp_net = Receiving, dp_accepted = [], dp_copied = []\<rparr>"

definition at_place :: "dispatch \<Rightarrow> nat \<Rightarrow> place \<Rightarrow> dispatch" where
  "at_place s i p = s\<lparr>dp_place := (dp_place s)(i := p)\<rparr>"

text \<open>\<open>dealRecvQue\<close> by the i-th of \<open>N\<close> workers.\<close>

inductive deal_move :: "nat \<Rightarrow> dispatch \<Rightarrow> dispatch \<Rightarrow> bool" for N where
  lock: "i < N \<Longrightarrow> dp_place s i = At_Lock \<Longrightarrow> MutexLocker_Lock (dp_locker s) (Worker_thread i) = Some l1 \<Longrightarrow>
     deal_move N s (at_place (s\<lparr>dp_locker := l1\<rparr>) i At_Front)"
| front: "i < N \<Longrightarrow> dp_place s i = At_Front \<Longrightarrow> FrontBlock (dp_queue s) = ret (q1, b) \<Longrightarrow>
     deal_move N s (at_place (s\<lparr>dp_queue := q1\<rparr>) i (case b of None \<Rightarrow> At_Wait | Some off \<Rightarrow> At_Block (Some off)))"
| wait: "i < N \<Longrightarrow> dp_place s i = At_Wait \<Longrightarrow> WaitTimeout_begin (dp_locker s) (Worker_thread i) = Some l1 \<Longrightarrow>
     deal_move N s (at_place (s\<lparr>dp_locker := l1\<rparr>) i In_Wait)"
| waited: "i < N \<Longrightarrow> dp_place s i = In_Wait \<Longrightarrow> WaitTimeout_end (dp_locker s) (Worker_thread i) = Some (l1, rc) \<Longrightarrow>
     deal_move N s (at_place (s\<lparr>dp_locker := l1\<rparr>) i (if rc = 0 then At_Front_again else At_Block None))"
| front_again: "i < N \<Longrightarrow> dp_place s i = At_Front_again \<Longrightarrow> FrontBlock (dp_queue s) = ret (q1, b) \<Longrightarrow>
     deal_move N s (at_place (s\<lparr>dp_queue := q1\<rparr>) i (At_Block b))"
| no_block: "i < N \<Longrightarrow> dp_place s i = At_Block None \<Longrightarrow> deal_move N s (at_place s i (At_Unlock None))"
| copy: "i < N \<Longrightarrow> dp_place s i = At_Block (Some off) \<Longrightarrow> len = bt_len (lq_buff (dp_queue s)) off \<Longrightarrow>
     w = dp_workers s i \<Longrightarrow> assert_that (len \<le> wk_maxMsglen w) = ret () \<Longrightarrow> buff_check (dp_queue s) off len = ret () \<Longrightarrow>
     xs = mread (lq_buff (dp_queue s)) off len \<Longrightarrow>
     deal_move N s (at_place
       (s\<lparr>dp_workers := (dp_workers s)(i := w\<lparr>wk_recvBuffer := xs @ drop (nat len) (wk_recvBuffer w)\<rparr>),
          dp_copied := dp_copied s @ [xs]\<rparr>) i (At_Pop off))"
| pop: "i < N \<Longrightarrow> dp_place s i = At_Pop off \<Longrightarrow>
     deal_move N s (at_place
       (s\<lparr>dp_queue := PopBlock (dp_queue s) (bt_len (lq_buff (dp_queue s)) off)\<rparr>) i (At_Unlock (Some off)))"
| unlock: "i < N \<Longrightarrow> dp_place s i = At_Unlock b \<Longrightarrow> MutexLocker_Unlock (dp_locker s) (Worker_thread i) = Some l1 \<Longrightarrow>
     deal_move N s (at_place (s\<lparr>dp_locker := l1\<rparr>) i (case b of None \<Rightarrow> At_Lock | Some off \<Rightarrow> Dealing off))"
| deal: "i < N \<Longrightarrow> dp_place s i = Dealing off \<Longrightarrow> deal_move N s (at_place s i At_Lock)"

text \<open>The network thread after a push: lock, signal, unlock.\<close>

inductive notify_move :: "dispatch \<Rightarrow> dispatch \<Rightarrow> bool" where
  lock: "dp_net s = At_Lock_posted \<Longrightarrow> MutexLocker_Lock (dp_locker s) Network = Some l1 \<Longrightarrow>
     notify_move s (s\<lparr>dp_locker := l1, dp_net := At_Signal\<rparr>)"
| signal: "dp_net s = At_Signal \<Longrightarrow> MutexLocker_Signal (dp_locker s) l1 \<Longrightarrow>
     notify_move s (s\<lparr>dp_locker := l1, dp_net := At_Unlock_posted\<rparr>)"
| unlock: "dp_net s = At_Unlock_posted \<Longrightarrow> MutexLocker_Unlock (dp_locker s) Network = Some l1 \<Longrightarrow>
     notify_move s (s\<lparr>dp_locker := l1, dp_net := Receiving\<rparr>)"

text \<open>What comes from outside: a message has been received and is pushed, in two parts, or in one where it
  wraps; a wait ends, as its time is up or for no reason.\<close>

inductive arrival :: "nat \<Rightarrow> dispatch \<Rightarrow> dispatch \<Rightarrow> bool" for N where
  begins: "dp_net s = Receiving \<Longrightarrow> msg_ok m \<Longrightarrow> lq_tail (dp_queue s) + bsize m \<le> lq_bufflen (dp_queue s) \<Longrightarrow>
     BufferForPush (dp_queue s) (msg_fd m) (msg_remote m) (msg_type m) (int (length (msg_data m))) = ret (q1, Some off) \<Longrightarrow>
     arrival N s (s\<lparr>dp_queue := q1, dp_net := Filling m off\<rparr>)"
| finishes: "dp_net s = Filling m off \<Longrightarrow> buff_write (dp_queue s) off (msg_data m) = ret q1 \<Longrightarrow>
     arrival N s (s\<lparr>dp_queue := PushFinish q1 (int (length (msg_data m))), dp_net := At_Lock_posted,
       dp_accepted := dp_accepted s @ [m]\<rparr>)"
| push: "dp_net s = Receiving \<Longrightarrow> PushMsg (dp_queue s) m = ret (q1, ok) \<Longrightarrow> push_safe (dp_queue s) m \<Longrightarrow>
     lq_bufflen (dp_queue s) < lq_tail (dp_queue s) + bsize m \<Longrightarrow>
     arrival N s (s\<lparr>dp_queue := q1, dp_net := (if ok then At_Lock_posted else Receiving),
       dp_accepted := dp_accepted s @ (if ok then [m] else [])\<rparr>)"
| wakeup: "Worker_thread i \<in> mx_waiting (dp_locker s) \<Longrightarrow>
     arrival N s (s\<lparr>dp_locker := wake_up (dp_locker s) (Worker_thread i) rc\<rparr>)"

inductive dispatched :: "nat \<Rightarrow> dispatch \<Rightarrow> dispatch \<Rightarrow> bool" for N s0 where
  none: "dispatched N s0 s0"
| deal: "dispatched N s0 s \<Longrightarrow> deal_move N s s1 \<Longrightarrow> dispatched N s0 s1"
| notify: "dispatched N s0 s \<Longrightarrow> notify_move s s1 \<Longrightarrow> dispatched N s0 s1"
| arrive: "dispatched N s0 s \<Longrightarrow> arrival N s s1 \<Longrightarrow> dispatched N s0 s1"

inductive_cases deal_moveE: "deal_move N s s1"
inductive_cases notify_moveE: "notify_move s s1"
inductive_cases arrivalE: "arrival N s s1"

section \<open>Invariant\<close>

fun locked :: "place \<Rightarrow> bool" where
  "locked At_Lock = False"
| "locked In_Wait = False"
| "locked (Dealing off) = False"
| "locked _ = True"

text \<open>Who holds the lock.\<close>

definition lock_inv :: "nat \<Rightarrow> dispatch \<Rightarrow> bool" where
  "lock_inv N s \<longleftrightarrow>
     (let notifying = (dp_net s = At_Signal \<or> dp_net s = At_Unlock_posted)
      in case mx_owner (dp_locker s) of
           None \<Rightarrow> (\<forall>i < N. \<not> locked (dp_place s i)) \<and> \<not> notifying
         | Some Network \<Rightarrow> (\<forall>i < N. \<not> locked (dp_place s i)) \<and> notifying
         | Some (Worker_thread i) \<Rightarrow>
             i < N \<and> locked (dp_place s i) \<and> (\<forall>j < N. j \<noteq> i \<longrightarrow> \<not> locked (dp_place s j)) \<and> \<not> notifying)"

text \<open>Who waits.\<close>

definition wait_inv :: "nat \<Rightarrow> dispatch \<Rightarrow> bool" where
  "wait_inv N s \<longleftrightarrow>
     Network \<notin> mx_waiting (dp_locker s) \<and>
     (\<forall>i. Worker_thread i \<in> mx_waiting (dp_locker s) \<longrightarrow> i < N \<and> dp_place s i = In_Wait) \<and>
     (\<forall>i. if dp_place s i = In_Wait
           then (Worker_thread i \<in> mx_waiting (dp_locker s)) = (mx_woken (dp_locker s) (Worker_thread i) = None)
           else mx_woken (dp_locker s) (Worker_thread i) = None)"

text \<open>The messages in the queue, as the holder of the lock sees them.\<close>

definition holder_place :: "dispatch \<Rightarrow> place" where
  "holder_place s =
     (case mx_owner (dp_locker s) of Some (Worker_thread i) \<Rightarrow> dp_place s i | _ \<Rightarrow> At_Lock)"

definition content_inv :: "dispatch \<Rightarrow> message list \<Rightarrow> bool" where
  "content_inv s ms \<longleftrightarrow>
     (\<exists>old. dp_accepted s = old @ ms \<and> dp_copied s = map enc old) \<and>
     (case holder_place s of
        At_Block (Some off) \<Rightarrow> off = lq_head (dp_queue s) \<and> ms \<noteq> [] \<and> fronted (dp_queue s) (hd ms) (tl ms)
      | At_Pop off \<Rightarrow> off = lq_head (dp_queue s) \<and> (\<exists>m. fronted (dp_queue s) m ms)
      | _ \<Rightarrow> lq_rep (dp_queue s) ms)"

text \<open>A push that has begun.\<close>

definition fill_inv :: "dispatch \<Rightarrow> bool" where
  "fill_inv s \<longleftrightarrow>
     (\<forall>m off. dp_net s = Filling m off \<longrightarrow> filling (dp_queue s) m \<and> off = lq_tail (dp_queue s) + 22)"

text \<open>A message in the queue is seen: a worker is going to look, or a signal is going to come.\<close>

definition attended :: "nat \<Rightarrow> dispatch \<Rightarrow> message list \<Rightarrow> bool" where
  "attended N s ms \<longleftrightarrow>
     ms = [] \<or> dp_net s = At_Lock_posted \<or> dp_net s = At_Signal \<or>
     (\<exists>i < N. dp_place s i \<noteq> At_Wait \<and> Worker_thread i \<notin> mx_waiting (dp_locker s))"

lemma at_place_simps [simp]:
  "dp_locker (at_place s i p) = dp_locker s" "dp_queue (at_place s i p) = dp_queue s"
  "dp_workers (at_place s i p) = dp_workers s" "dp_place (at_place s i p) = (dp_place s)(i := p)"
  "dp_net (at_place s i p) = dp_net s" "dp_accepted (at_place s i p) = dp_accepted s" "dp_copied (at_place s i p) = dp_copied s"
  by (simp_all add: at_place_def)

lemma inv_start: "lock_inv N (start_dispatch q ws)" "wait_inv N (start_dispatch q ws)"
  by (simp_all add: lock_inv_def wait_inv_def start_dispatch_def new_MutexLocker_def)

lemma lock_inv_owner: "lock_inv N s \<Longrightarrow> i < N \<Longrightarrow> locked (dp_place s i) \<Longrightarrow> mx_owner (dp_locker s) = Some (Worker_thread i)"
  by (auto simp: lock_inv_def Let_def split: option.splits party.splits)

lemma lock_inv_net:
  "lock_inv N s \<Longrightarrow> dp_net s = At_Signal \<or> dp_net s = At_Unlock_posted \<Longrightarrow> mx_owner (dp_locker s) = Some Network"
  by (auto simp: lock_inv_def Let_def split: option.splits party.splits)

lemma lock_inv_deal:
  assumes "deal_move N s s1" "lock_inv N s"
  shows "lock_inv N s1"
  using assms(1)
proof (cases rule: deal_move.cases)
  case (front i q1 b)
  then show ?thesis using assms(2) lock_inv_owner [OF assms(2), of i] by (cases b) (simp_all add: lock_inv_def)
next
  case (unlock i b l1)
  then show ?thesis using assms(2) by (cases b) (auto simp: lock_inv_def locker_results)
next
  case (deal i off)
  then show ?thesis using assms(2)
    by (cases "mx_owner (dp_locker s)") (auto simp: lock_inv_def split: party.splits)
qed (use assms(2) lock_inv_owner [OF assms(2)] in \<open>auto simp: lock_inv_def locker_results\<close>)

lemma lock_inv_notify:
  assumes "notify_move s s1" "lock_inv N s"
  shows "lock_inv N s1"
  using assms(1)
proof (cases rule: notify_move.cases)
  case (signal l1)
  from signal(3) have "mx_owner l1 = mx_owner (dp_locker s)" by cases simp_all
  then show ?thesis using signal assms(2) lock_inv_net [OF assms(2)] by (simp add: lock_inv_def)
qed (use assms(2) in \<open>auto simp: lock_inv_def locker_results\<close>)

lemma lock_inv_arrival:
  assumes "arrival N s s1" "lock_inv N s"
  shows "lock_inv N s1"
  using assms(1)
proof (cases rule: arrival.cases)
  case (begins m q1 off)
  then show ?thesis using assms(2) by (simp add: lock_inv_def split: option.splits party.splits)
next
  case (finishes m off q1)
  then show ?thesis using assms(2) by (simp add: lock_inv_def split: option.splits party.splits)
next
  case (push m q1 ok)
  then show ?thesis using assms(2) by (simp add: lock_inv_def split: option.splits party.splits)
next
  case (wakeup i rc)
  then show ?thesis using assms(2) by (cases "mx_owner (dp_locker s)") (auto simp: lock_inv_def split: party.splits)
qed

lemma wait_inv_deal:
  assumes "deal_move N s s1" "lock_inv N s" "wait_inv N s"
  shows "wait_inv N s1"
  using assms(1)
proof (cases rule: deal_move.cases)
  case (front i q1 b)
  then show ?thesis using assms(3) by (cases b) (auto simp: wait_inv_def)
next
  case (unlock i b l1)
  then show ?thesis using assms(3) by (cases b) (auto simp: wait_inv_def locker_results)
qed (use assms(3) in \<open>auto simp: wait_inv_def locker_results split: if_splits\<close>)

lemma wait_inv_notify:
  assumes "notify_move s s1" "wait_inv N s"
  shows "wait_inv N s1"
  using assms(1)
proof (cases rule: notify_move.cases)
  case (signal l1)
  from signal(3) show ?thesis
  proof cases
    case (one t)
    then show ?thesis using assms(2) unfolding signal(1) by (cases t) (auto simp: wait_inv_def)
  next
    case nobody
    then have "s1 = s\<lparr>dp_net := At_Unlock_posted\<rparr>" using signal(1) by simp
    then show ?thesis using assms(2) by (simp add: wait_inv_def)
  qed
qed (use assms(2) in \<open>auto simp: wait_inv_def locker_results\<close>)

lemma wait_inv_arrival:
  assumes "arrival N s s1" "wait_inv N s"
  shows "wait_inv N s1"
  using assms by (cases rule: arrival.cases) (auto simp: wait_inv_def)

text \<open>A worker that holds the lock is the holder.\<close>

lemma lock_inv_holder: "lock_inv N s \<Longrightarrow> i < N \<Longrightarrow> locked (dp_place s i) \<Longrightarrow> holder_place s = dp_place s i"
  by (simp add: holder_place_def lock_inv_owner)

lemma content_inv_same:
  "holder_place s1 = holder_place s \<Longrightarrow> dp_queue s1 = dp_queue s \<Longrightarrow> dp_accepted s1 = dp_accepted s \<Longrightarrow>
     dp_copied s1 = dp_copied s \<Longrightarrow> content_inv s1 ms = content_inv s ms"
  by (auto simp: content_inv_def split: place.split option.split)

lemma content_inv_tail: "content_inv s ms \<Longrightarrow> 0 \<le> lq_tail (dp_queue s)"
  by (auto simp: content_inv_def fronted_def dest!: lq_rep_bounds(2) split: place.splits option.splits)

lemma content_inv_start: "lq_rep q [] \<Longrightarrow> content_inv (start_dispatch q ws) []"
  by (simp add: content_inv_def start_dispatch_def holder_place_def new_MutexLocker_def)

section \<open>The moves keep it\<close>

lemma content_deal:
  assumes m: "deal_move N s s1" and l: "lock_inv N s" and w: "wait_inv N s" and c: "content_inv s ms" and a: "attended N s ms"
  shows "\<exists>ms1. content_inv s1 ms1 \<and> attended N s1 ms1"
  using m
proof (cases rule: deal_move.cases)
  case (lock i l1)
  then have "content_inv s1 ms" using c by (auto simp: content_inv_def holder_place_def locker_results)
  moreover have "attended N s1 ms" using a lock by (auto simp: attended_def locker_results)
  ultimately show ?thesis by blast
next
  case (front i q1 b)
  have h: "holder_place s = At_Front" "mx_owner (dp_locker s) = Some (Worker_thread i)"
    using lock_inv_holder [OF l] lock_inv_owner [OF l] front by simp_all
  then have "lq_rep (dp_queue s) ms" using c by (simp add: content_inv_def)
  from FrontBlock_result [OF this] front(4)
  have b: "case b of None \<Rightarrow> ms = [] \<and> q1 = dp_queue s
     | Some off \<Rightarrow> off = lq_head q1 \<and> ms \<noteq> [] \<and> fronted q1 (hd ms) (tl ms)" by auto
  then have "content_inv s1 ms" using c h front by (cases b) (auto simp: content_inv_def holder_place_def)
  moreover have "attended N s1 ms" using a b front by (cases b) (auto simp: attended_def)
  ultimately show ?thesis by blast
next
  case (wait i l1)
  then have "content_inv s1 ms" using c by (auto simp: content_inv_def holder_place_def locker_results)
  moreover have "attended N s1 ms" using a wait by (auto simp: attended_def locker_results)
  ultimately show ?thesis by blast
next
  case (waited i l1 rc)
  then have "content_inv s1 ms" using c by (auto simp: content_inv_def holder_place_def locker_results)
  moreover have "Worker_thread i \<notin> mx_waiting (dp_locker s)" using w waited by (auto simp: wait_inv_def locker_results)
  then have "attended N s1 ms" using waited by (auto simp: attended_def locker_results)
  ultimately show ?thesis by blast
next
  case (front_again i q1 b)
  have h: "holder_place s = At_Front_again" "mx_owner (dp_locker s) = Some (Worker_thread i)"
    using lock_inv_holder [OF l] lock_inv_owner [OF l] front_again by simp_all
  then have "lq_rep (dp_queue s) ms" using c by (simp add: content_inv_def)
  from FrontBlock_result [OF this] front_again(4)
  have b: "case b of None \<Rightarrow> ms = [] \<and> q1 = dp_queue s
     | Some off \<Rightarrow> off = lq_head q1 \<and> ms \<noteq> [] \<and> fronted q1 (hd ms) (tl ms)" by auto
  then have "content_inv s1 ms" using c h front_again by (cases b) (auto simp: content_inv_def holder_place_def)
  moreover have "attended N s1 ms" using a b front_again by (auto simp: attended_def)
  ultimately show ?thesis by blast
next
  case (no_block i)
  have h: "holder_place s = At_Block None" "mx_owner (dp_locker s) = Some (Worker_thread i)"
    using lock_inv_holder [OF l] lock_inv_owner [OF l] no_block by simp_all
  then have "content_inv s1 ms" using c no_block by (auto simp: content_inv_def holder_place_def)
  moreover have "attended N s1 ms" using a no_block by (auto simp: attended_def)
  ultimately show ?thesis by blast
next
  case (copy i off len w xs)
  have h: "holder_place s = At_Block (Some off)" "mx_owner (dp_locker s) = Some (Worker_thread i)"
    using lock_inv_holder [OF l] lock_inv_owner [OF l] copy by simp_all
  then have f: "off = lq_head (dp_queue s)" "ms = hd ms # tl ms" "fronted (dp_queue s) (hd ms) (tl ms)"
    using c by (auto simp: content_inv_def)
  have xs: "xs = enc (hd ms)"
    using frontedD(2,8) [OF f(3)] copy f(1) by (simp add: holds_def bsize_def)
  obtain old where old: "dp_accepted s = old @ ms" "dp_copied s = map enc old" using c by (auto simp: content_inv_def)
  have "dp_accepted s1 = (old @ [hd ms]) @ tl ms \<and> dp_copied s1 = map enc (old @ [hd ms])"
    using old xs copy f(2) by simp
  then have "content_inv s1 (tl ms)" using f(1,3) h(2) copy by (auto simp: content_inv_def holder_place_def)
  moreover have "Worker_thread i \<notin> mx_waiting (dp_locker s)" using w copy by (auto simp: wait_inv_def)
  then have "attended N s1 (tl ms)" using copy by (auto simp: attended_def)
  ultimately show ?thesis by blast
next
  case (pop i off)
  have h: "holder_place s = At_Pop off" "mx_owner (dp_locker s) = Some (Worker_thread i)"
    using lock_inv_holder [OF l] lock_inv_owner [OF l] pop by simp_all
  then obtain m where f: "off = lq_head (dp_queue s)" "fronted (dp_queue s) m ms" using c by (auto simp: content_inv_def)
  then have "content_inv s1 ms" using frontedD(6,8) [OF f(2)] c h pop by (auto simp: content_inv_def holder_place_def)
  moreover have "attended N s1 ms" using a pop by (auto simp: attended_def)
  ultimately show ?thesis by blast
next
  case (unlock i b l1)
  have h: "holder_place s = At_Unlock b" using lock_inv_holder [OF l] unlock by simp
  then have "content_inv s1 ms" using c unlock by (auto simp: content_inv_def holder_place_def locker_results)
  moreover have "attended N s1 ms" using a unlock by (cases b) (auto simp: attended_def locker_results)
  ultimately show ?thesis by blast
next
  case (deal i off)
  have "holder_place s1 = holder_place s"
    using l deal by (auto simp: holder_place_def lock_inv_def split: option.splits party.splits)
  then have "content_inv s1 ms" using c deal content_inv_same [of s1 s] by simp
  moreover have "attended N s1 ms" using a deal by (auto simp: attended_def)
  ultimately show ?thesis by blast
qed

lemma content_notify:
  assumes m: "notify_move s s1" and l: "lock_inv N s" and w: "wait_inv N s" and n: "0 < N" and c: "content_inv s ms"
    and a: "attended N s ms"
  shows "content_inv s1 ms \<and> attended N s1 ms"
  using m
proof (cases rule: notify_move.cases)
  case (lock l1)
  then show ?thesis using c a by (auto simp: content_inv_def holder_place_def attended_def locker_results)
next
  case (signal l1)
  have o: "mx_owner (dp_locker s) = Some Network" using lock_inv_net [OF l] signal(2) by simp
  have o1: "mx_owner l1 = Some Network" using signal(3) o by cases simp_all
  have "content_inv s1 ms" using c o o1 signal(1) by (simp add: content_inv_def holder_place_def)
  moreover have "\<exists>i < N. dp_place s i \<noteq> At_Wait \<and> Worker_thread i \<notin> mx_waiting l1"
  proof -
    have p: "\<forall>i < N. dp_place s i \<noteq> At_Wait" using l o by (auto simp: lock_inv_def)
    from signal(3) show ?thesis
    proof cases
      case nobody
      then show ?thesis using p n by auto
    next
      case (one t)
      then obtain i where "t = Worker_thread i" "i < N" using w by (cases t) (auto simp: wait_inv_def)
      then show ?thesis using p one by auto
    qed
  qed
  then have "attended N s1 ms" using signal(1) by (auto simp: attended_def)
  ultimately show ?thesis ..
next
  case (unlock l1)
  then show ?thesis using c a by (auto simp: content_inv_def holder_place_def attended_def locker_results)
qed

text \<open>However the queue represents the messages, it may become one that represents a message more.\<close>

lemma content_more:
  assumes c: "content_inv s ms" and h: "holder_place s1 = holder_place s"
    and acc: "dp_accepted s1 = dp_accepted s @ new" "dp_copied s1 = dp_copied s"
    and hd: "lq_head (dp_queue s1) = lq_head (dp_queue s)"
    and rep: "\<And>ms. lq_rep (dp_queue s) ms \<Longrightarrow> lq_rep (dp_queue s1) (ms @ new)"
    and fr: "\<And>m0 ms. fronted (dp_queue s) m0 ms \<Longrightarrow> fronted (dp_queue s1) m0 (ms @ new)"
  shows "content_inv s1 (ms @ new)"
proof -
  have pop: "\<exists>m0. fronted (dp_queue s) m0 ms \<Longrightarrow> \<exists>m0. fronted (dp_queue s1) m0 (ms @ new)" using fr by blast
  have "\<exists>old. dp_accepted s1 = old @ ms @ new \<and> dp_copied s1 = map enc old" using c acc by (auto simp: content_inv_def)
  then show ?thesis
    using c rep fr [of "hd ms" "tl ms"] pop unfolding content_inv_def h hd
    by (cases "holder_place s") (auto split: option.splits)
qed

lemma content_arrival:
  assumes m: "arrival N s s1" and f: "fill_inv s" and c: "content_inv s ms" and a: "attended N s ms"
  shows "\<exists>ms1. content_inv s1 ms1 \<and> attended N s1 ms1"
  using m
proof (cases rule: arrival.cases)
  case (begins m q1 off)
  have t: "0 \<le> lq_tail (dp_queue s)" using content_inv_tail [OF c] .
  note B = BufferForPush_begins [OF begins(3,4) t begins(5)]
  have h: "holder_place s1 = holder_place s" using begins(1) by (simp add: holder_place_def split: option.split party.split)
  have "content_inv s1 (ms @ [])"
    by (rule content_more [OF c h]) (use begins(1) B(2,4,5) in simp_all)
  moreover have "attended N s1 ms" using a begins by (auto simp: attended_def)
  ultimately show ?thesis by auto
next
  case (finishes m off q1)
  have fl: "filling (dp_queue s) m" "off = lq_tail (dp_queue s) + 22" using f finishes(2) by (auto simp: fill_inv_def)
  note F = filling_finish [OF fl(1)]
  have q: "dp_queue s1 = stored (dp_queue s) m" using F(3) finishes(1,3) fl(2) by simp
  have h: "holder_place s1 = holder_place s" using finishes(1) by (simp add: holder_place_def split: option.split party.split)
  have "content_inv s1 (ms @ [m])"
  proof (rule content_more [OF c h])
    show "lq_rep (dp_queue s1) (ms @ [m])" if "lq_rep (dp_queue s) ms" for ms
      using PushMsg_rep [OF that F(1)] F(2) q by auto
    show "fronted (dp_queue s1) m0 (ms @ [m])" if "fronted (dp_queue s) m0 ms" for m0 ms
      using PushMsg_fronted [OF that F(1)] F(2) q by auto
  qed (use finishes(1) q in \<open>simp_all add: stored_def\<close>)
  moreover have "attended N s1 (ms @ [m])" using finishes by (simp add: attended_def)
  ultimately show ?thesis by blast
next
  case (push m q1 ok)
  let ?new = "if ok then [m] else []"
  have h: "holder_place s1 = holder_place s" using push(1) by (simp add: holder_place_def split: option.split party.split)
  have "content_inv s1 (ms @ ?new)"
  proof (rule content_more [OF c h])
    show "lq_head (dp_queue s1) = lq_head (dp_queue s)" using PushMsg_head push(1,3) by simp
    show "lq_rep (dp_queue s1) (ms @ ?new)" if "lq_rep (dp_queue s) ms" for ms
      using PushMsg_rep [OF that push(4)] push(1,3) by auto
    show "fronted (dp_queue s1) m0 (ms @ ?new)" if "fronted (dp_queue s) m0 ms" for m0 ms
      using PushMsg_fronted [OF that push(4)] push(1,3) by auto
  qed (use push(1) in simp_all)
  moreover have "attended N s1 (ms @ ?new)" using a push by (auto simp: attended_def)
  ultimately show ?thesis by blast
next
  case (wakeup i rc)
  then have "holder_place s1 = holder_place s" by (simp add: holder_place_def split: option.split party.split)
  then have "content_inv s1 ms" using c wakeup content_inv_same [of s1 s] by simp
  moreover have "attended N s1 ms" using a wakeup by (auto simp: attended_def)
  ultimately show ?thesis by blast
qed

lemma fill_inv_deal:
  assumes m: "deal_move N s s1" and l: "lock_inv N s" and f: "fill_inv s" and c: "content_inv s ms"
  shows "fill_inv s1"
  using m
proof (cases rule: deal_move.cases)
  case (front i q1 b)
  then show ?thesis using f FrontBlock_filling [OF _ front(4)] by (auto simp: fill_inv_def)
next
  case (front_again i q1 b)
  then show ?thesis using f FrontBlock_filling [OF _ front_again(4)] by (auto simp: fill_inv_def)
next
  case (pop i off)
  have "holder_place s = At_Pop off" using lock_inv_holder [OF l] pop by simp
  then obtain m0 where h: "off = lq_head (dp_queue s)" "fronted (dp_queue s) m0 ms" using c by (auto simp: content_inv_def)
  then show ?thesis using f pop(1) PopBlock_filling [OF h(2)] frontedD(8) [OF h(2)]
    by (simp add: fill_inv_def) (simp add: PopBlock_def)
qed (use f in \<open>simp_all add: fill_inv_def\<close>)

lemma fill_inv_notify: "notify_move s s1 \<Longrightarrow> fill_inv s1"
  by (auto simp: fill_inv_def elim: notify_moveE)

lemma fill_inv_arrival:
  assumes m: "arrival N s s1" and f: "fill_inv s" and c: "content_inv s ms"
  shows "fill_inv s1"
  using m
proof (cases rule: arrival.cases)
  case (begins m q1 off)
  have t: "0 \<le> lq_tail (dp_queue s)" using content_inv_tail [OF c] .
  show ?thesis using BufferForPush_begins(1,3) [OF begins(3,4) t begins(5)] begins(1) by (simp add: fill_inv_def)
qed (use f in \<open>simp_all add: fill_inv_def\<close>)

lemma dispatched_inv:
  assumes "dispatched N (start_dispatch q ws) s" "lq_rep q []" "0 < N"
  shows "lock_inv N s \<and> wait_inv N s \<and> fill_inv s \<and> (\<exists>ms. content_inv s ms \<and> attended N s ms)"
  using assms(1)
proof induction
  case none
  have "attended N (start_dispatch q ws) []" by (simp add: attended_def)
  moreover have "fill_inv (start_dispatch q ws)" by (simp add: fill_inv_def start_dispatch_def)
  ultimately show ?case using inv_start content_inv_start [OF assms(2)] by blast
next
  case (deal s s1)
  then show ?case using lock_inv_deal wait_inv_deal content_deal fill_inv_deal by blast
next
  case (notify s s1)
  then show ?case using lock_inv_notify wait_inv_notify content_notify fill_inv_notify assms(3) by blast
next
  case (arrive s s1)
  then show ?case using lock_inv_arrival wait_inv_arrival content_arrival fill_inv_arrival by blast
qed

section \<open>Coming to rest\<close>

text \<open>Where all threads stop: the workers wait, or one has found a block that is too long for its buffer.\<close>

lemma deal_stuck:
  assumes l: "lock_inv N s" and w: "wait_inv N s" and c: "content_inv s ms" and a: "attended N s ms" and n: "0 < N"
    and stuck: "\<And>s1. \<not> deal_move N s s1" "\<And>s1. \<not> notify_move s s1"
  shows "ms = [] \<or> (\<exists>i < N. (\<exists>off. dp_place s i = At_Block (Some off)) \<and> wk_maxMsglen (dp_workers s i) < bsize (hd ms))"
proof (cases "mx_owner (dp_locker s)")
  case None
  have net: "dp_net s \<noteq> At_Lock_posted \<and> dp_net s \<noteq> At_Signal"
  proof (cases "dp_net s")
    case At_Lock_posted
    then show ?thesis using stuck(2) notify_move.lock [OF At_Lock_posted, of "(dp_locker s)\<lparr>mx_owner := Some Network\<rparr>"]
      None by (simp add: locker_results)
  qed (use l None in \<open>simp_all add: lock_inv_def\<close>)
  have "dp_place s i = In_Wait \<and> Worker_thread i \<in> mx_waiting (dp_locker s)" if "i < N" for i
  proof (cases "dp_place s i")
    case At_Lock
    then show ?thesis using stuck(1) deal_move.lock [OF that At_Lock, of "(dp_locker s)\<lparr>mx_owner := Some (Worker_thread i)\<rparr>"]
      None by (simp add: locker_results)
  next
    case In_Wait
    have "mx_woken (dp_locker s) (Worker_thread i) = None"
    proof (rule ccontr)
      assume "mx_woken (dp_locker s) (Worker_thread i) \<noteq> None"
      then obtain rc where "mx_woken (dp_locker s) (Worker_thread i) = Some rc" by auto
      then show False using stuck(1) deal_move.waited [OF that In_Wait] None by (auto simp: locker_results)
    qed
    then show ?thesis using w that In_Wait by (auto simp: wait_inv_def)
  next
    case (Dealing off)
    then show ?thesis using stuck(1) deal_move.deal that by blast
  qed (use l that None in \<open>auto simp: lock_inv_def\<close>)
  then show ?thesis using a net by (auto simp: attended_def)
next
  case (Some t)
  show ?thesis
  proof (cases t)
    case Network
    then have "dp_net s = At_Signal \<or> dp_net s = At_Unlock_posted" using l Some by (simp add: lock_inv_def)
    then show ?thesis
    proof
      assume "dp_net s = At_Signal"
      then show ?thesis using stuck(2) notify_move.signal Signal_possible by blast
    next
      assume "dp_net s = At_Unlock_posted"
      then show ?thesis using stuck(2) notify_move.unlock [of s "(dp_locker s)\<lparr>mx_owner := None\<rparr>"] Some Network
        by (simp add: locker_results)
    qed
  next
    case (Worker_thread i)
    then have i: "i < N" "locked (dp_place s i)" "holder_place s = dp_place s i"
      using l Some by (simp_all add: lock_inv_def holder_place_def)
    have front: "\<exists>q1 b. FrontBlock (dp_queue s) = ret (q1, b)" if "lq_rep (dp_queue s) ms"
      using FrontBlock_result [OF that] by blast
    show ?thesis
    proof (cases "dp_place s i")
      case At_Front
      then show ?thesis using c i front stuck(1) deal_move.front by (fastforce simp: content_inv_def)
    next
      case At_Wait
      then show ?thesis using stuck(1) Some Worker_thread
        deal_move.wait [OF i(1) At_Wait, of "(dp_locker s)\<lparr>mx_owner := None, mx_waiting := insert t (mx_waiting (dp_locker s))\<rparr>"]
        by (simp add: locker_results)
    next
      case At_Front_again
      then show ?thesis using c i front stuck(1) deal_move.front_again by (fastforce simp: content_inv_def)
    next
      case (At_Block b)
      show ?thesis
      proof (cases b)
        case None
        then show ?thesis using stuck(1) deal_move.no_block i(1) At_Block by blast
      next
        case (Some off)
        then have f: "off = lq_head (dp_queue s)" "ms \<noteq> []" "fronted (dp_queue s) (hd ms) (tl ms)"
          using c i(3) At_Block by (auto simp: content_inv_def)
        then have "buff_check (dp_queue s) off (bsize (hd ms)) = ret ()" "bt_len (lq_buff (dp_queue s)) off = bsize (hd ms)"
          using frontedD [OF f(3)] bsize_ge [of "hd ms"] by (simp_all add: buff_check_def)
        then have "\<not> bsize (hd ms) \<le> wk_maxMsglen (dp_workers s i)"
          using stuck(1) deal_move.copy [OF i(1) _ refl refl _ _ refl, of s off] At_Block Some by (auto simp: assert_that_def)
        then show ?thesis using i(1) At_Block Some by auto
      qed
    next
      case (At_Pop off)
      then show ?thesis using stuck(1) deal_move.pop i(1) by blast
    next
      case (At_Unlock b)
      then show ?thesis using stuck(1) Some Worker_thread deal_move.unlock [OF i(1) At_Unlock, of "(dp_locker s)\<lparr>mx_owner := None\<rparr>"]
        by (simp add: locker_results)
    qed (use i(2) in simp_all)
  qed
qed

text \<open>How far the threads are from there; each move is one step nearer.\<close>

fun place_left :: "place \<Rightarrow> nat" where
  "place_left At_Lock = 3"
| "place_left At_Front = 2"
| "place_left At_Wait = 1"
| "place_left In_Wait = 7"
| "place_left At_Front_again = 6"
| "place_left (At_Block None) = 5"
| "place_left (At_Block (Some off)) = 1"
| "place_left (At_Pop off) = 6"
| "place_left (At_Unlock None) = 4"
| "place_left (At_Unlock (Some off)) = 5"
| "place_left (Dealing off) = 4"

fun net_left :: "net_place \<Rightarrow> nat" where
  "net_left Receiving = 0"
| "net_left (Filling m off) = 0"
| "net_left At_Lock_posted = 10"
| "net_left At_Signal = 9"
| "net_left At_Unlock_posted = 1"

definition worker_left :: "dispatch \<Rightarrow> nat \<Rightarrow> nat" where
  "worker_left s i =
     (if dp_place s i = In_Wait \<and> mx_woken (dp_locker s) (Worker_thread i) = None then 0 else place_left (dp_place s i))"

definition moves_left :: "nat \<Rightarrow> dispatch \<Rightarrow> nat" where
  "moves_left N s =
     6 * (length (dp_accepted s) - length (dp_copied s)) + (\<Sum>i<N. worker_left s i) + net_left (dp_net s)"

lemma sum_update:
  fixes f g :: "nat \<Rightarrow> nat"
  assumes "i < N" "\<forall>j. j \<noteq> i \<longrightarrow> g j = f j"
  shows "(\<Sum>j<N. g j) + f i = (\<Sum>j<N. f j) + g i"
proof -
  have "(\<Sum>j<N. h j) = h i + (\<Sum>j\<in>{..<N} - {i}. h j)" for h :: "nat \<Rightarrow> nat"
    using assms(1) by (intro sum.remove) auto
  moreover have "(\<Sum>j\<in>{..<N} - {i}. g j) = (\<Sum>j\<in>{..<N} - {i}. f j)" using assms(2) by (intro sum.cong) auto
  ultimately show ?thesis by simp
qed

lemma deal_move_left:
  assumes m: "deal_move N s s1" and l: "lock_inv N s" and w: "wait_inv N s" and c: "content_inv s ms"
  shows "moves_left N s1 < moves_left N s"
proof -
  obtain i where i: "i < N" "\<And>j. j \<noteq> i \<Longrightarrow> worker_left s1 j = worker_left s j" "dp_net s1 = dp_net s"
    "dp_accepted s1 = dp_accepted s"
    "dp_copied s1 = dp_copied s \<and> worker_left s1 i < worker_left s i \<or>
     length (dp_copied s1) = Suc (length (dp_copied s)) \<and> length (dp_copied s) < length (dp_accepted s) \<and>
       worker_left s1 i \<le> worker_left s i + 5"
    using m
  proof (cases rule: deal_move.cases)
    case (copy i off len w xs)
    have "ms \<noteq> []" using lock_inv_holder [OF l copy(2)] copy(3) c by (simp add: content_inv_def)
    then have "length (dp_copied s) < length (dp_accepted s)" using c by (auto simp: content_inv_def)
    then show ?thesis using that [OF copy(2)] copy by (simp add: worker_left_def)
  next
    case (wait i l1)
    have "mx_woken (dp_locker s) (Worker_thread i) = None" using w wait(3) unfolding wait_inv_def by (metis place.distinct)
    then show ?thesis using that [OF wait(2)] wait by (auto simp: worker_left_def locker_results)
  next
    case (front i q1 b)
    then show ?thesis using that [OF front(2)] by (cases b) (simp_all add: worker_left_def)
  next
    case (front_again i q1 b)
    then show ?thesis using that [OF front_again(2)] by (cases b) (simp_all add: worker_left_def)
  next
    case (unlock i b l1)
    then show ?thesis using that [OF unlock(2)] by (cases b) (auto simp: worker_left_def locker_results)
  qed (auto simp: worker_left_def locker_results intro: that)
  have "(\<Sum>j<N. worker_left s1 j) + worker_left s i = (\<Sum>j<N. worker_left s j) + worker_left s1 i"
    by (rule sum_update [OF i(1)]) (use i(2) in blast)
  then show ?thesis using i(3-5) by (auto simp: moves_left_def)
qed

lemma worker_left_same:
  "dp_place s1 = dp_place s \<Longrightarrow> mx_woken (dp_locker s1) = mx_woken (dp_locker s) \<Longrightarrow> worker_left s1 = worker_left s"
  by (simp add: worker_left_def fun_eq_iff)

lemma notify_move_left:
  assumes m: "notify_move s s1" and w: "wait_inv N s"
  shows "moves_left N s1 < moves_left N s"
  using m
proof (cases rule: notify_move.cases)
  case (signal l1)
  from signal(3) show ?thesis
  proof cases
    case nobody
    then have "s1 = s\<lparr>dp_net := At_Unlock_posted\<rparr>" using signal(1) by simp
    then have "worker_left s1 = worker_left s" by (intro worker_left_same) simp_all
    then show ?thesis using signal(1,2) by (simp add: moves_left_def)
  next
    case (one t)
    then obtain i where i: "t = Worker_thread i" "i < N" "dp_place s i = In_Wait"
      using w by (cases t) (auto simp: wait_inv_def)
    have "\<forall>j. j \<noteq> i \<longrightarrow> worker_left s1 j = worker_left s j" using signal(1) one i by (simp add: worker_left_def)
    from sum_update [OF i(2) this] have "(\<Sum>j<N. worker_left s1 j) \<le> (\<Sum>j<N. worker_left s j) + worker_left s1 i"
      by linarith
    moreover have "worker_left s1 i = 7" using signal(1) one i by (simp add: worker_left_def)
    ultimately show ?thesis using signal by (simp add: moves_left_def)
  qed
next
  case (lock l1)
  then have "worker_left s1 = worker_left s" by (intro worker_left_same) (auto simp: locker_results)
  then show ?thesis using lock by (simp add: moves_left_def)
next
  case (unlock l1)
  then have "worker_left s1 = worker_left s" by (intro worker_left_same) (auto simp: locker_results)
  then show ?thesis using unlock by (simp add: moves_left_def)
qed

definition move :: "nat \<Rightarrow> dispatch \<Rightarrow> dispatch \<Rightarrow> bool" where
  "move N s s1 \<longleftrightarrow> deal_move N s s1 \<or> notify_move s s1"

lemma moves_bounded:
  assumes "lock_inv N s" "wait_inv N s" "content_inv s ms" "attended N s ms" "0 < N" "(move N ^^ k) s s1"
  shows "\<exists>ms1. lock_inv N s1 \<and> wait_inv N s1 \<and> content_inv s1 ms1 \<and> attended N s1 ms1 \<and>
    k + moves_left N s1 \<le> moves_left N s"
  using assms(6)
proof (induction k arbitrary: s1)
  case 0
  then show ?case using assms(1-4) by auto
next
  case (Suc k)
  then obtain u where u: "(move N ^^ k) s u" "move N u s1" by auto
  from Suc.IH [OF u(1)] obtain ms1 where m: "lock_inv N u" "wait_inv N u" "content_inv u ms1" "attended N u ms1"
    "k + moves_left N u \<le> moves_left N s" by blast
  from u(2) have "lock_inv N s1 \<and> wait_inv N s1 \<and> (\<exists>ms2. content_inv s1 ms2 \<and> attended N s1 ms2) \<and>
      moves_left N s1 < moves_left N u"
    unfolding move_def
  proof
    assume "deal_move N u s1"
    then show ?thesis
      using lock_inv_deal wait_inv_deal content_deal deal_move_left m(1-4) by meson
  next
    assume "notify_move u s1"
    then show ?thesis
      using lock_inv_notify wait_inv_notify content_notify notify_move_left m(1-4) assms(5) by meson
  qed
  then show ?case using m(5) by fastforce
qed

lemma worker_left_bound: "worker_left s i \<le> 7"
  by (cases "dp_place s i" rule: place_left.cases) (simp_all add: worker_left_def)

lemma moves_left_bound:
  assumes "content_inv s ms"
  shows "moves_left N s \<le> 6 * length ms + 7 * N + 10"
proof -
  have "(\<Sum>i<N. worker_left s i) \<le> (\<Sum>i<N. 7)" by (rule sum_mono) (rule worker_left_bound)
  moreover have "length (dp_accepted s) - length (dp_copied s) = length ms" using assms by (auto simp: content_inv_def)
  moreover have "net_left (dp_net s) \<le> 10" by (cases "dp_net s") simp_all
  ultimately show ?thesis by (simp add: moves_left_def)
qed


text \<open>A worker that waits, and a message that has been pushed and not yet signalled.\<close>

lemma posted_state:
  "\<exists>s. dispatched 1 (start_dispatch queue60 (\<lambda>_. new_Worker\<lparr>wk_maxMsglen := 64\<rparr>)) s \<and>
     dp_place s 0 = In_Wait \<and> dp_accepted s = [sample_msg 5 10] \<and> dp_copied s = []"
proof -
  let ?s0 = "start_dispatch queue60 (\<lambda>_. new_Worker\<lparr>wk_maxMsglen := 64\<rparr>)"
  let ?m = "sample_msg 5 10"
  have empty: "FrontBlock queue60 = ret (queue60, None)" using FrontBlock_result [OF lq_rep_queue60] by (auto split: option.splits)
  let ?l1 = "new_MutexLocker\<lparr>mx_owner := Some (Worker_thread 0)\<rparr>"
  let ?s1 = "at_place (?s0\<lparr>dp_locker := ?l1\<rparr>) 0 At_Front"
  have d1: "dispatched 1 ?s0 ?s1"
    by (rule dispatched.deal [OF dispatched.none deal_move.lock])
      (simp_all add: start_dispatch_def locker_results new_MutexLocker_def)
  let ?s2 = "at_place (?s1\<lparr>dp_queue := queue60\<rparr>) 0 At_Wait"
  have "deal_move 1 ?s1 (at_place (?s1\<lparr>dp_queue := queue60\<rparr>) 0 (case None of None \<Rightarrow> At_Wait | Some off \<Rightarrow> At_Block (Some off)))"
    using empty by (intro deal_move.front) (simp_all add: start_dispatch_def)
  then have d2: "dispatched 1 ?s0 ?s2" using dispatched.deal [OF d1] by simp
  let ?s3 = "at_place (?s2\<lparr>dp_locker := ?l1\<lparr>mx_owner := None, mx_waiting := {Worker_thread 0}\<rparr>\<rparr>) 0 In_Wait"
  have d3: "dispatched 1 ?s0 ?s3"
    by (rule dispatched.deal [OF d2 deal_move.wait]) (simp_all add: locker_results new_MutexLocker_def)
  have "\<exists>q1. BufferForPush queue60 5 0 MT_CLI_MESSAGE 10 = ret (q1, Some 22)"
    by (simp add: BufferForPush_def buff_write_def queue60_simps sizeof_block_def Let_def)
  then obtain q1 where q1: "BufferForPush queue60 5 0 MT_CLI_MESSAGE 10 = ret (q1, Some 22)" by blast
  have ok: "msg_ok ?m" "lq_tail queue60 + bsize ?m \<le> lq_bufflen queue60"
    by (simp_all add: msg_ok_msg queue60_simps bsize_msg)
  let ?s4 = "?s3\<lparr>dp_queue := q1, dp_net := Filling ?m 22\<rparr>"
  have d4: "dispatched 1 ?s0 ?s4"
    by (rule dispatched.arrive [OF d3 arrival.begins]) (use q1 ok in \<open>simp_all add: start_dispatch_def sample_msg_def\<close>)
  have "filling q1 ?m" "22 = lq_tail q1 + 22"
    using BufferForPush_begins(1,3) [OF ok, of q1 22] q1 by (simp_all add: sample_msg_def queue60_simps)
  then obtain q2 where "buff_write q1 22 (msg_data ?m) = ret q2"
    by (auto simp: buff_write_def filling_def bsize_def sizeof_block_def)
  then have "dispatched 1 ?s0 (?s4\<lparr>dp_queue := PushFinish q2 (int (length (msg_data ?m))), dp_net := At_Lock_posted,
      dp_accepted := [?m]\<rparr>)"
    using dispatched.arrive [OF d4 arrival.finishes [of ?s4 ?m 22 q2]] by (simp add: start_dispatch_def)
  then show ?thesis by (intro exI conjI, assumption) (simp_all add: start_dispatch_def)
qed


section \<open>The atomic round\<close>

text \<open>What theory \<open>Worker\<close> takes for one step, a round under the lock, is a run of these moves: there is
  nothing a worker does that the moves do not.\<close>

lemma take_block_moves:
  assumes d: "dispatched N s0 s" and l: "lock_inv N s" and i: "i < N" "dp_place s i = At_Front"
    and t: "take_block (dp_workers s i) Map.empty (dp_queue s) = ret (q1, w1, b)"
  shows "\<exists>s1. dispatched N s0 s1 \<and> dp_place s1 i = At_Unlock b \<and> dp_queue s1 = q1 \<and> dp_workers s1 i = w1"
proof -
  obtain q2 b2 where f: "FrontBlock (dp_queue s) = ret (q2, b2)"
    using t by (auto simp: take_block_def rbind_eq_ret)
  note d1 = dispatched.deal [OF d deal_move.front [OF i f]]
  show ?thesis
  proof (cases b2)
    case None
    let ?s1 = "at_place (s\<lparr>dp_queue := q2\<rparr>) i At_Wait" and ?t = "Worker_thread i"
    let ?l2 = "(dp_locker s)\<lparr>mx_owner := None, mx_waiting := insert ?t (mx_waiting (dp_locker s))\<rparr>"
    have o: "mx_owner (dp_locker s) = Some ?t" using lock_inv_owner [OF l i(1)] i(2) by simp
    have d2: "dispatched N s0 (at_place (?s1\<lparr>dp_locker := ?l2\<rparr>) i In_Wait)"
      using d1 None o by (intro dispatched.deal [OF _ deal_move.wait [OF i(1)]]) (simp_all add: locker_results)
    let ?s3 = "(at_place (?s1\<lparr>dp_locker := ?l2\<rparr>) i In_Wait)\<lparr>dp_locker := wake_up ?l2 ?t 110\<rparr>"
    have d3: "dispatched N s0 ?s3"
      using dispatched.arrive [OF d2 arrival.wakeup [of i _ N 110]] by simp
    let ?l4 = "(wake_up ?l2 ?t 110)\<lparr>mx_owner := Some ?t, mx_woken := (mx_woken (wake_up ?l2 ?t 110))(?t := None)\<rparr>"
    have "deal_move N ?s3 (at_place (?s3\<lparr>dp_locker := ?l4\<rparr>) i (if (110::int) = 0 then At_Front_again else At_Block None))"
      by (rule deal_move.waited [OF i(1)]) (simp_all add: locker_results)
    from dispatched.deal [OF d3 this] have d4: "dispatched N s0 (at_place (?s3\<lparr>dp_locker := ?l4\<rparr>) i (At_Block None))" by simp
    let ?s5 = "at_place (at_place (?s3\<lparr>dp_locker := ?l4\<rparr>) i (At_Block None)) i (At_Unlock None)"
    have "dispatched N s0 ?s5"
      by (rule dispatched.deal [OF d4 deal_move.no_block [OF i(1)]]) simp
    moreover have "q1 = q2" "w1 = dp_workers s i" "b = None" using t f None by (auto simp: take_block_def)
    ultimately show ?thesis by (intro exI [of _ ?s5]) simp
  next
    case (Some off)
    let ?s1 = "at_place (s\<lparr>dp_queue := q2\<rparr>) i (At_Block (Some off))"
    let ?len = "bt_len (lq_buff q2) off"
    have c: "?len \<le> wk_maxMsglen (dp_workers s i)" "buff_check q2 off ?len = ret ()"
      "q1 = PopBlock q2 ?len" "b = Some off"
      "w1 = (dp_workers s i)\<lparr>wk_recvBuffer := mread (lq_buff q2) off ?len @ drop (nat ?len) (wk_recvBuffer (dp_workers s i))\<rparr>"
      using t f Some by (auto simp: take_block_def rbind_eq_ret assert_that_def Let_def split: if_splits)
    have d1': "dispatched N s0 ?s1" using d1 Some by simp
    have "deal_move N ?s1 (at_place
       (?s1\<lparr>dp_workers := (dp_workers ?s1)(i := w1), dp_copied := dp_copied ?s1 @ [mread (lq_buff q2) off ?len]\<rparr>) i (At_Pop off))"
      (is "deal_move N ?s1 ?s2")
      using c deal_move.copy [OF i(1) _ refl refl _ _ refl, of ?s1 off] by simp
    note d2 = dispatched.deal [OF d1' this]
    let ?s3 = "at_place (?s2\<lparr>dp_queue := PopBlock (dp_queue ?s2) (bt_len (lq_buff (dp_queue ?s2)) off)\<rparr>) i (At_Unlock (Some off))"
    have "dispatched N s0 ?s3" by (rule dispatched.deal [OF d2 deal_move.pop [OF i(1)]]) simp
    then show ?thesis using c by (intro exI [of _ ?s3]) simp
  qed
qed

end
