(* ===== verification/Startup.thy ===== *)
theory Startup
  imports Worker Log Timer_Mgr Locker Registry
begin

text \<open>
  How the server starts (framework/Server.cc \<open>Init\<close> and \<open>daemonize\<close>, Common.h): the order of it, and all of what
  \<open>Init\<close> makes.  Theory \<open>Server\<close> has the parts that the other theories need, \<open>Server_Init\<close> and
  \<open>Server_NetMessage\<close>.
\<close>

section \<open>In the background\<close>

text \<open>The system calls of \<open>daemonize\<close>; \<open>open\<close> is that of \<open>/dev/null\<close>.\<close>

record 'os process_sys =
  ps_fork :: "'os \<Rightarrow> 'os \<times> int"
  ps_setsid :: "'os \<Rightarrow> 'os"
  ps_open_null :: "'os \<Rightarrow> 'os \<times> int"
  ps_dup2 :: "'os \<Rightarrow> int \<Rightarrow> int \<Rightarrow> 'os"
  ps_close :: "'os \<Rightarrow> int \<Rightarrow> 'os"

datatype 'os forked = Exits 'os | Goes_on 'os

definition daemonize :: "'os process_sys \<Rightarrow> 'os \<Rightarrow> 'os forked" where
  "daemonize p os =
     (case ps_fork p os of (os1, pid) \<Rightarrow>
        if pid \<noteq> 0 then Exits os1
        else
          (case ps_open_null p (ps_setsid p os1) of (os2, fd) \<Rightarrow>
             if fd \<noteq> -1
             then
               (let os3 = ps_dup2 p (ps_dup2 p (ps_dup2 p os2 fd 0) fd 1) fd 2
                in Goes_on (if fd > 2 then ps_close p os3 fd else os3))
             else Goes_on os2))"

text \<open>
  What POSIX says of the calls, as far as they concern descriptors: \<open>fds\<close> is what the descriptors of the
  process stand for.  \<open>open\<close> takes one that is free, or fails; the child of a fork has those of its
  parent.
\<close>

definition posix_fds :: "'os process_sys \<Rightarrow> ('os \<Rightarrow> int \<rightharpoonup> 'f) \<Rightarrow> 'f \<Rightarrow> bool" where
  "posix_fds p fds null \<longleftrightarrow>
     (\<forall>os. fds (fst (ps_fork p os)) = fds os) \<and> (\<forall>os. fds (ps_setsid p os) = fds os) \<and>
     (\<forall>os. case ps_open_null p os of (os1, fd) \<Rightarrow>
        if fd = -1 then fds os1 = fds os else 0 \<le> fd \<and> fds os fd = None \<and> fds os1 = (fds os)(fd \<mapsto> null)) \<and>
     (\<forall>os a b. fds os a \<noteq> None \<longrightarrow> fds (ps_dup2 p os a b) = (fds os)(b := fds os a)) \<and>
     (\<forall>os a. fds (ps_close p os a) = (fds os)(a := None))"

text \<open>C28. \<open>daemonize\<close> does what it is for: the process that goes on is a child of the first one, its standard
  input and outputs are \<open>/dev/null\<close>, every other descriptor is as it was, and none is left behind,
  whichever of them were open before; when \<open>/dev/null\<close> cannot be opened, the descriptors stay as they
  are.\<close>

theorem daemonize_detaches:
  assumes "posix_fds p fds null"
  shows "(\<exists>os1. daemonize p os = Exits os1 \<and> snd (ps_fork p os) \<noteq> 0) \<or>
    (\<exists>os1. daemonize p os = Goes_on os1 \<and> snd (ps_fork p os) = 0 \<and>
       (if snd (ps_open_null p (ps_setsid p (fst (ps_fork p os)))) = -1 then fds os1 = fds os
        else fds os1 = (fds os)(0 \<mapsto> null, 1 \<mapsto> null, 2 \<mapsto> null)))"
proof -
  obtain os1 pid where f: "ps_fork p os = (os1, pid)" by fastforce
  obtain os2 fd where o2: "ps_open_null p (ps_setsid p os1) = (os2, fd)" by fastforce
  have "fds (fst (ps_fork p os)) = fds os" "fds (ps_setsid p os1) = fds os1" using assms by (simp_all add: posix_fds_def)
  then have "fds (ps_setsid p os1) = fds os" using f by simp
  moreover have "\<forall>os. case ps_open_null p os of (os1, fd) \<Rightarrow>
      if fd = -1 then fds os1 = fds os else 0 \<le> fd \<and> fds os fd = None \<and> fds os1 = (fds os)(fd \<mapsto> null)"
    using assms unfolding posix_fds_def by (elim conjE)
  from spec [OF this, of "ps_setsid p os1"] have "if fd = -1 then fds os2 = fds (ps_setsid p os1)
      else 0 \<le> fd \<and> fds (ps_setsid p os1) fd = None \<and> fds os2 = (fds (ps_setsid p os1))(fd \<mapsto> null)"
    using o2 by simp
  ultimately have opened: "if fd = -1 then fds os2 = fds os else 0 \<le> fd \<and> fds os fd = None \<and> fds os2 = (fds os)(fd \<mapsto> null)"
    by (auto split: if_splits)
  have dup: "fds (ps_dup2 p o' a b) = (fds o')(b := fds o' a)" if "fds o' a \<noteq> None" for o' a b
    using assms that by (simp add: posix_fds_def)
  have close: "fds (ps_close p o' a) = (fds o')(a := None)" for o' a using assms by (simp add: posix_fds_def)
  show ?thesis
  proof (cases "pid = 0 \<and> fd \<noteq> -1")
    case False
    show ?thesis
    proof (cases "pid = 0")
      case True
      then have "fd = -1" using False by simp
      then show ?thesis using f o2 opened True by (simp add: daemonize_def)
    next
      case False
      then show ?thesis using f by (simp add: daemonize_def)
    qed
  next
    case True
    let ?a = "ps_dup2 p os2 fd 0"
    let ?b = "ps_dup2 p ?a fd 1"
    let ?c = "ps_dup2 p ?b fd 2"
    have o: "0 \<le> fd" "fds os fd = None" "fds os2 = (fds os)(fd \<mapsto> null)" using opened True by auto
    have a: "fds ?a = (fds os)(fd \<mapsto> null, 0 \<mapsto> null)" using dup [of os2 fd 0] o by simp
    have b: "fds ?b = (fds os)(fd \<mapsto> null, 0 \<mapsto> null, 1 \<mapsto> null)" using dup [of ?a fd 1] a by simp
    have c: "fds ?c = (fds os)(fd \<mapsto> null, 0 \<mapsto> null, 1 \<mapsto> null, 2 \<mapsto> null)" using dup [of ?b fd 2] b by simp
    have "fds (if fd > 2 then ps_close p ?c fd else ?c) = (fds os)(0 \<mapsto> null, 1 \<mapsto> null, 2 \<mapsto> null)"
    proof (cases "fd > 2")
      case True
      then show ?thesis using c o(2) close [of ?c fd] by (simp add: fun_eq_iff)
    next
      case False
      then have "fd = 0 \<or> fd = 1 \<or> fd = 2" using o(1) by auto
      then show ?thesis using c False by (auto simp: fun_eq_iff)
    qed
    then show ?thesis using f o2 True by (simp add: daemonize_def Let_def)
  qed
qed

text \<open>A process with its descriptors, none open but 0 and a socket.\<close>

definition fd_sys :: "(int \<rightharpoonup> string) process_sys" where
  "fd_sys =
     \<lparr>ps_fork = (\<lambda>os. (os, 0)), ps_setsid = id,
      ps_open_null = (\<lambda>os. if os 1 = None then (os(1 \<mapsto> ''/dev/null''), 1) else (os, -1)),
      ps_dup2 = (\<lambda>os a b. os(b := os a)), ps_close = (\<lambda>os a. os(a := None))\<rparr>"

lemma fd_sys_posix: "posix_fds fd_sys id ''/dev/null''"
  by (simp add: posix_fds_def fd_sys_def)

lemma daemonize_detaches_witness:
  "daemonize fd_sys [0 \<mapsto> ''tty'', 5 \<mapsto> ''socket''] =
     Goes_on [0 \<mapsto> ''/dev/null'', 1 \<mapsto> ''/dev/null'', 2 \<mapsto> ''/dev/null'', 5 \<mapsto> ''socket'']"
proof -
  let ?os = "[0 \<mapsto> ''tty'', 5 \<mapsto> ''socket''] :: int \<rightharpoonup> string"
  have "snd (ps_fork fd_sys ?os) = 0" "snd (ps_open_null fd_sys (ps_setsid fd_sys (fst (ps_fork fd_sys ?os)))) \<noteq> -1"
    by (simp_all add: fd_sys_def)
  then obtain os1 where "daemonize fd_sys ?os = Goes_on os1"
    "os1 = ?os(0 \<mapsto> ''/dev/null'', 1 \<mapsto> ''/dev/null'', 2 \<mapsto> ''/dev/null'')"
    using daemonize_detaches [OF fd_sys_posix, of ?os] by auto
  moreover have "?os(0 \<mapsto> ''/dev/null'', 1 \<mapsto> ''/dev/null'', 2 \<mapsto> ''/dev/null'') =
      [0 \<mapsto> ''/dev/null'', 1 \<mapsto> ''/dev/null'', 2 \<mapsto> ''/dev/null'', 5 \<mapsto> ''socket'']"
    by (simp add: fun_eq_iff)
  ultimately show ?thesis by simp
qed

text \<open>A fork that fails counts as one that makes the parent: the program ends.\<close>

lemma daemonize_fork_failed: "ps_fork p os = (os1, -1) \<Longrightarrow> daemonize p os = Exits os1"
  by (simp add: daemonize_def)

section \<open>All of it\<close>

definition IOEVENT_TYPE_EV :: int where "IOEVENT_TYPE_EV = 1"
definition IOEVENT_TYPE_LEV :: int where "IOEVENT_TYPE_LEV = 2"

definition INSTALL_IOEVENTEV :: "'f factories \<Rightarrow> 'f \<Rightarrow> 'f factories" where
  "INSTALL_IOEVENTEV reg ev_factory =
     (if GetIOEventHandlerFactory reg IOEVENT_TYPE_EV = None
      then fst (SetIOEventHandlerFactory reg IOEVENT_TYPE_EV ev_factory) else reg)"

datatype start_cb = Cb_sigclose | Cb_msgEvent

record ('os, 'ev, 't, 'h, 's, 'c, 'a) started =
  st_world :: "('os, 'h, 's, 'c, 'a) world"
  st_ev :: 'ev
  st_signal :: "start_cb signal_event"
  st_msgEvent :: "start_cb user_event"
  st_log :: logger
  st_timers :: "'c timer_mgr"
  st_lockers :: "('t locker \<times> 't locker) option"
  st_workers :: "worker list"

text \<open>
  \<open>mk_loop\<close>: the loop of a new event handler of a factory.  The watchers of signal and user event lie at the
  addresses 0 and 1.  \<open>Inl\<close>: the process that called \<open>Init\<close> has ended.
\<close>

definition Server_Init_all ::
  "'os process_sys \<Rightarrow> 'ev ev_loop \<Rightarrow> ('f \<Rightarrow> 'ev) \<Rightarrow> 'f factories \<Rightarrow> int \<Rightarrow> ini_config option \<Rightarrow> logger \<Rightarrow> 'os \<Rightarrow>
     block_store \<Rightarrow> region \<Rightarrow> 'a \<Rightarrow> ('os + ('os, 'ev, 't, 'h, 's, 'c, 'a) started) run" where
  "Server_Init_all p lp mk_loop reg evType cfg0 lg os s buf app =
     (case GetIOEventHandlerFactory reg evType of
        None \<Rightarrow> fail Null_pointer
      | Some f \<Rightarrow>
          (case setSignal lp (mk_loop f) 0 Cb_sigclose of (ev1, sg) \<Rightarrow>
             (case daemonize p os of
                Exits os1 \<Rightarrow> ret (Inl os1)
              | Goes_on os1 \<Rightarrow>
                  (let cfg = (case cfg0 of None \<Rightarrow> new_IniConfig | Some c \<Rightarrow> c);
                       lg1 = configure_log lg cfg
                   in case Server_Init cfg (new_IRpc buf) app of (sv, recvq, workCnt) \<Rightarrow>
                        (let lockers = (if workCnt > 0 then Some (new_MutexLocker, new_MutexLocker) else None);
                             ws = replicate (nat workCnt) (Worker_Init new_Worker cfg);
                             ue = UserEvent_SetCb (new_UserEventEv 1) Cb_msgEvent
                         in ret (Inr \<lparr>st_world = Server_NetMessage cfg os1 s sv recvq,
                                      st_ev = UserEventEv_Start lp ev1 ue, st_signal = sg, st_msgEvent = ue,
                                      st_log = lg1, st_timers = new_TimerMgr, st_lockers = lockers,
                                      st_workers = ws\<rparr>))))))"

definition Server_Stop :: "'ev ev_loop \<Rightarrow> ('os, 'ev, 't, 'h, 's, 'c, 'a) started \<Rightarrow> ('os, 'ev, 't, 'h, 's, 'c, 'a) started" where
  "Server_Stop lp st = st\<lparr>st_ev := ev_break lp (st_ev st)\<rparr>"

text \<open>Without \<open>INSTALL_IOEVENTEV\<close> the server cannot start; with it, it can, whatever is registered.\<close>

lemma Init_needs_factory:
  "Server_Init_all p lp make Map.empty IOEVENT_TYPE_EV cfg lg os s buf app = fail Null_pointer"
  "GetIOEventHandlerFactory (INSTALL_IOEVENTEV reg f) IOEVENT_TYPE_EV \<noteq> None"
  by (simp_all add: Server_Init_all_def INSTALL_IOEVENTEV_def GetIOEventHandlerFactory_def SetIOEventHandlerFactory_def)

end
