(* ===== verification/Game_Service.thy ===== *)
theory Game_Service
  imports Rpc
begin

text \<open>
  The service of the sample (sample/server/protocc/game.rpc.pb.h, game.rpc.pb.cc): what the rpc compiler
  makes of \<open>GameService\<close> in game.proto, a client, and for either side a skeleton that registers with the
  RPC layer, parses what is received and serialises what is sent; and the implementation of the sample
  server (sample/server/server.cc).

  Protobuf is a parameter: the size of a message, its bytes (none when it cannot be serialised), and
  the message that bytes parse to.
\<close>

section \<open>Messages\<close>

record player_info =
  pi_id :: int
  pi_nick :: string
  pi_age :: int

record login_request =
  lq_player_id :: int

record login_response =
  lr_pinfo :: "player_info option"

record 'm pb =
  pb_ByteSize :: "'m \<Rightarrow> int"
  pb_Serialize :: "'m \<Rightarrow> byte list option"
  pb_Parse :: "byte list \<Rightarrow> 'm option"

definition str_bytes :: "string \<Rightarrow> byte list" where
  "str_bytes s = map of_char s"

text \<open>The bytes a pointer and a length stand for.\<close>

definition buff_bytes :: "byte list option \<Rightarrow> byte list" where
  "buff_bytes buff = (case buff of None \<Rightarrow> [] | Some xs \<Rightarrow> xs)"

section \<open>The client\<close>

text \<open>The functions bound by the skeletons, and the services themselves.\<close>

datatype gs_function = Process_login | Process_login_cb
datatype gs_service = Server_skeleton | Client_skeleton

definition login_name :: "byte list" where
  "login_name = str_bytes ''GameService::login''"

definition GameServiceClient_login ::
  "login_request pb \<Rightarrow> (gs_function, gs_service) irpc \<Rightarrow> int \<Rightarrow> login_request \<Rightarrow>
     ((gs_function, gs_service) irpc \<times> gs_function outcome) run" where
  "GameServiceClient_login pb r fd req =
     (let sz = pb_ByteSize pb req
      in case GetDataBuff r sz of
           None \<Rightarrow> ret (r, ([], Const (-1)))
         | Some _ \<Rightarrow>
             (case pb_Serialize pb req of
                None \<Rightarrow> ret (r, ([], Const (-2)))
              | Some xs \<Rightarrow> rbind (fill_databuff r xs) (\<lambda>r1. SendRequest r1 fd login_name (to_i32 sz))))"

text \<open>What \<open>process_login_cb\<close> calls of the client's interface: \<open>login_cb\<close> with its arguments.\<close>

definition process_login_cb ::
  "login_response pb \<Rightarrow> login_response \<Rightarrow> int \<Rightarrow> int \<Rightarrow> byte list option \<Rightarrow> (int \<times> int \<times> login_response) list \<times> int"
where
  "process_login_cb pb rsp0 fd rcode buff =
     (if rcode = 0
      then (case pb_Parse pb (buff_bytes buff) of
              None \<Rightarrow> ([], -1)
            | Some rsp \<Rightarrow> ([(fd, rcode, rsp)], 0))
      else ([(fd, rcode, rsp0)], 0))"

definition Client_RegisterServiceFunction ::
  "(gs_function, gs_service) irpc \<Rightarrow> (gs_function, gs_service) irpc \<times> int" where
  "Client_RegisterServiceFunction r = AddRespondFunction r login_name (Some Process_login_cb)"

definition Client_Name :: "byte list" where
  "Client_Name = str_bytes ''GameServiceClient''"

section \<open>The server\<close>

definition Server_Name :: "byte list" where
  "Server_Name = str_bytes ''GameService''"

text \<open>
  \<open>return_login\<close> has two halves: the response is serialised into the RPC layer's data buffer, and what lies
  there is sent.  In between another worker may run.
\<close>

definition serialise_login ::
  "login_response pb \<Rightarrow> (gs_function, gs_service) irpc \<Rightarrow> login_response \<Rightarrow> ((gs_function, gs_service) irpc \<times> (int + int)) run"
where
  "serialise_login pb r rsp =
     (let sz = pb_ByteSize pb rsp
      in case GetDataBuff r sz of
           None \<Rightarrow> ret (r, Inl 1)
         | Some _ \<Rightarrow>
             (case pb_Serialize pb rsp of
                None \<Rightarrow> ret (r, Inl 2)
              | Some xs \<Rightarrow> rbind (fill_databuff r xs) (\<lambda>r1. ret (r1, Inr sz))))"

definition respond_login ::
  "(gs_function, gs_service) irpc \<Rightarrow> int \<Rightarrow> int \<Rightarrow> int + int \<Rightarrow>
     ((gs_function, gs_service) irpc \<times> gs_function outcome) run" where
  "respond_login r fd remote res =
     (case res of
        Inl code \<Rightarrow> SendRespond r fd remote code Server_Name 0
      | Inr sz \<Rightarrow> SendRespond r fd remote 0 Server_Name (to_i32 sz))"

definition return_login ::
  "login_response pb \<Rightarrow> (gs_function, gs_service) irpc \<Rightarrow> int \<Rightarrow> int \<Rightarrow> int \<Rightarrow> login_response \<Rightarrow>
     ((gs_function, gs_service) irpc \<times> gs_function rpc_call list) run" where
  "return_login pb r fd remote rcode rsp =
     rbind
       (if rcode > 0 then SendRespond r fd remote rcode Server_Name 0
        else rbind (serialise_login pb r rsp) (\<lambda>(r1, res). respond_login r1 fd remote res))
       (\<lambda>(r1, calls, _). ret (r1, calls))"

text \<open>The calls of \<open>RspCb\<close> an implementation makes, one after the other.\<close>

fun return_logins ::
  "login_response pb \<Rightarrow> (gs_function, gs_service) irpc \<Rightarrow> (int \<times> int \<times> int \<times> login_response) list \<Rightarrow>
     ((gs_function, gs_service) irpc \<times> gs_function rpc_call list) run" where
  "return_logins pb r [] = ret (r, [])"
| "return_logins pb r ((fd, remote, rcode, rsp) # cbs) =
     rbind (return_login pb r fd remote rcode rsp) (\<lambda>(r1, calls).
       rbind (return_logins pb r1 cbs) (\<lambda>(r2, calls'). ret (r2, calls @ calls')))"

definition process_login ::
  "login_request pb \<Rightarrow> login_response pb \<Rightarrow> (int \<Rightarrow> int \<Rightarrow> login_request \<Rightarrow> (int \<times> int \<times> int \<times> login_response) list) \<Rightarrow>
     (gs_function, gs_service) irpc \<Rightarrow> int \<Rightarrow> int \<Rightarrow> byte list option \<Rightarrow>
     ((gs_function, gs_service) irpc \<times> gs_function rpc_call list \<times> int) run" where
  "process_login qpb rpb login r fd remote buff =
     (case pb_Parse qpb (buff_bytes buff) of
        None \<Rightarrow> rbind (SendRespond r fd remote 1 Server_Name 0) (\<lambda>(r1, calls, _). ret (r1, calls, -1))
      | Some req \<Rightarrow> rbind (return_logins rpb r (login fd remote req)) (\<lambda>(r1, calls). ret (r1, calls, 0)))"

definition Server_RegisterServiceFunction ::
  "(gs_function, gs_service) irpc \<Rightarrow> (gs_function, gs_service) irpc \<times> int" where
  "Server_RegisterServiceFunction r = AddRequestFunction r login_name (Some Process_login)"

text \<open>\<open>AddService\<close> with the skeletons \<open>GenServiceHandler\<close> makes.\<close>

definition add_server_skeleton :: "(gs_function, gs_service) irpc \<Rightarrow> (gs_function, gs_service) irpc \<times> int" where
  "add_server_skeleton r = AddService r Server_skeleton Server_Name Server_RegisterServiceFunction"

definition add_client_skeleton :: "(gs_function, gs_service) irpc \<Rightarrow> (gs_function, gs_service) irpc \<times> int" where
  "add_client_skeleton r = AddService r Client_skeleton Client_Name Client_RegisterServiceFunction"

text \<open>The sample server's implementation: it calls back once.\<close>

definition GameServiceImp_login :: "int \<Rightarrow> int \<Rightarrow> login_request \<Rightarrow> (int \<times> int \<times> int \<times> login_response) list" where
  "GameServiceImp_login fd remote req =
     [(fd, remote, 0, \<lparr>lr_pinfo = Some \<lparr>pi_id = lq_player_id req, pi_nick = ''markmao'', pi_age = 24\<rparr>\<rparr>)]"

section \<open>A call from end to end\<close>

text \<open>A message that serialises, to as many bytes as it says and no more than fit, and parses back.\<close>

definition pb_fits :: "'m pb \<Rightarrow> 'm \<Rightarrow> byte list \<Rightarrow> bool" where
  "pb_fits pb m xs \<longleftrightarrow>
     pb_Serialize pb m = Some xs \<and> pb_ByteSize pb m = int (length xs) \<and> pb_Parse pb xs = Some m \<and>
     length xs \<le> 1048320"

lemma names_short [simp]:
  "length login_name = 18" "length Server_Name = 11" "length Client_Name = 17"
  "login_name \<noteq> []" "Server_Name \<noteq> []" "Client_Name \<noteq> []" "Server_Name \<noteq> login_name"
  by (simp_all add: login_name_def Server_Name_def Client_Name_def str_bytes_def)

lemma skeletons:
  "rpc_requestMap (fst (add_server_skeleton r)) login_name =
     (case rpc_requestMap r login_name of None \<Rightarrow> Some Process_login | Some h \<Rightarrow> Some h)"
  "rpc_respondMap (fst (add_client_skeleton r)) = (rpc_respondMap r)
     (login_name := (case rpc_respondMap r login_name of None \<Rightarrow> Some Process_login_cb | Some h \<Rightarrow> Some h))"
  by (auto simp: add_server_skeleton_def add_client_skeleton_def AddService_def Server_RegisterServiceFunction_def
      Client_RegisterServiceFunction_def AddRequestFunction_def AddRespondFunction_def Let_def split: option.split)

lemma fits_i32: "pb_fits pb m xs \<Longrightarrow> to_i32 (pb_ByteSize pb m) = int (length xs)"
  by (auto simp: pb_fits_def intro!: to_i32_id)

lemma GameServiceClient_login_sends:
  assumes "pb_fits pb req xs"
  shows "\<exists>r1. GameServiceClient_login pb r fd req =
    ret (r1, ([Server_SendMsg fd 0 (head_bytes 0 login_name (int (length xs)) @ xs)], Last_call)) \<and>
    rpc_requestMap r1 = rpc_requestMap r \<and> rpc_respondMap r1 = rpc_respondMap r"
  using assms sent_bytes [of login_name xs r 0 fd 0] fits_i32 [OF assms]
  by (auto simp: GameServiceClient_login_def pb_fits_def GetDataBuff_room SendRequest_def Let_def)

lemma serialise_login_ok:
  "pb_fits pb rsp ys \<Longrightarrow> serialise_login pb r rsp =
     ret (r\<lparr>rpc_databuff := mwrite (rpc_databuff r) 256 ys\<rparr>, Inr (int (length ys)))"
  using fill_databuff_ok [of ys r] by (simp add: serialise_login_def pb_fits_def GetDataBuff_room)

lemma respond_login_ok:
  assumes "pb_fits pb rsp ys"
  shows "\<exists>r1. respond_login (r\<lparr>rpc_databuff := mwrite (rpc_databuff r) 256 ys\<rparr>) fd remote (Inr (int (length ys))) =
    ret (r1, ([Server_SendMsg fd remote (head_bytes 0 Server_Name (int (length ys)) @ ys)], Last_call)) \<and>
    rpc_requestMap r1 = rpc_requestMap r \<and> rpc_respondMap r1 = rpc_respondMap r"
  using sent_bytes [of Server_Name ys r 0 fd remote] fits_i32 [OF assms] assms fill_databuff_ok [of ys r]
  by (simp add: respond_login_def SendRespond_def pb_fits_def)

lemma return_login_sends:
  assumes "pb_fits pb rsp ys"
  shows "\<exists>r1. return_login pb r fd remote 0 rsp =
    ret (r1, [Server_SendMsg fd remote (head_bytes 0 Server_Name (int (length ys)) @ ys)]) \<and>
    rpc_requestMap r1 = rpc_requestMap r \<and> rpc_respondMap r1 = rpc_respondMap r"
  using serialise_login_ok [OF assms, of r] respond_login_ok [OF assms, of r fd remote] by (auto simp: return_login_def)

lemma buff_bytes_received: "buff_bytes (if xs = [] then None else Some xs) = xs"
  by (simp add: buff_bytes_def)

lemma process_login_sends:
  assumes "pb_fits qpb req xs" "pb_fits rpb rsp ys" "impl fd remote req = [(fd, remote, 0, rsp)]"
  shows "\<exists>r1. process_login qpb rpb impl r fd remote (if xs = [] then None else Some xs) =
    ret (r1, [Server_SendMsg fd remote (head_bytes 0 Server_Name (int (length ys)) @ ys)], 0) \<and>
    rpc_requestMap r1 = rpc_requestMap r"
proof -
  obtain r1 where "return_login rpb r fd remote 0 rsp =
      ret (r1, [Server_SendMsg fd remote (head_bytes 0 Server_Name (int (length ys)) @ ys)])"
    "rpc_requestMap r1 = rpc_requestMap r"
    using return_login_sends [OF assms(2)] by blast
  with assms(1,3) show ?thesis unfolding process_login_def buff_bytes_received by (auto simp: pb_fits_def)
qed

text \<open>C29. A login call from end to end: the client's \<open>login\<close> makes a message, the server it is sent to runs
  \<open>process_login\<close> with the request's bytes, and that sends the implementation's response back.  The
  response carries the service's name and not the function's, so the client's RPC layer finds no
  handler and drops it; under the function's name it would have reached \<open>login_cb\<close>.\<close>

theorem login_reply_lost:
  fixes cbuf sbuf
  defines "cli \<equiv> fst (add_client_skeleton (new_IRpc cbuf))" and "svr \<equiv> fst (add_server_skeleton (new_IRpc sbuf))"
  assumes q: "pb_fits qpb req xs"
    and r: "rsp = \<lparr>lr_pinfo = Some \<lparr>pi_id = lq_player_id req, pi_nick = ''markmao'', pi_age = 24\<rparr>\<rparr>" "pb_fits rpb rsp ys"
  shows "\<exists>c1 msg s1 s2 reply c2 c3.
    GameServiceClient_login qpb cli fd req = ret (c1, ([Server_SendMsg fd 0 msg], Last_call)) \<and>
    OnRecvCliMsg svr fd' remote (Some msg) (int (length msg)) =
      ret (s1, ([Call_request Process_login fd' (to_i64 remote) (if xs = [] then None else Some xs) (int (length xs))],
           Last_call)) \<and>
    process_login qpb rpb GameServiceImp_login s1 fd' remote (if xs = [] then None else Some xs) =
      ret (s2, [Server_SendMsg fd' remote reply], 0) \<and>
    OnRecvSvrMsg c1 fd (Some reply) (int (length reply)) = ret (c2, ([], Const (-1))) \<and>
    OnRecvSvrMsg c1 fd (Some (head_bytes 0 login_name (int (length ys)) @ ys)) (30 + int (length ys)) =
      ret (c3, ([Call_respond Process_login_cb fd 0 (if ys = [] then None else Some ys) (int (length ys))], Last_call)) \<and>
    process_login_cb rpb rsp0 fd 0 (if ys = [] then None else Some ys) = ([(fd, 0, rsp)], 0)"
proof -
  have len: "length xs \<le> 1048320" "length ys \<le> 1048320" using q r(2) by (simp_all add: pb_fits_def)
  let ?msg = "head_bytes 0 login_name (int (length xs)) @ xs" and ?reply = "head_bytes 0 Server_Name (int (length ys)) @ ys"
  have maps: "rpc_respondMap cli = [login_name \<mapsto> Process_login_cb]" "rpc_requestMap svr login_name = Some Process_login"
    by (simp_all add: cli_def svr_def skeletons new_IRpc_def)
  obtain c1 where c1: "GameServiceClient_login qpb cli fd req = ret (c1, ([Server_SendMsg fd 0 ?msg], Last_call))"
    "rpc_respondMap c1 = [login_name \<mapsto> Process_login_cb]"
    using GameServiceClient_login_sends [OF q] maps(1) by metis
  obtain s1 where s1: "OnRecvCliMsg svr fd' remote (Some ?msg) (int (length ?msg)) =
      ret (s1, ([Call_request Process_login fd' (to_i64 remote) (if xs = [] then None else Some xs) (int (length xs))],
           Last_call))"
    using OnRecvCliMsg_dispatches [of login_name xs 0 svr Process_login fd' remote "[]"] maps(2) len by auto
  obtain s2 where s2: "process_login qpb rpb GameServiceImp_login s1 fd' remote (if xs = [] then None else Some xs) =
      ret (s2, [Server_SendMsg fd' remote ?reply], 0)"
    using process_login_sends [OF q r(2), of GameServiceImp_login fd' remote s1] r(1) by (auto simp: GameServiceImp_login_def)
  obtain c2 where c2: "OnRecvSvrMsg c1 fd (Some ?reply) (int (length ?reply)) = ret (c2, ([], Const (-1)))"
    using OnRecvSvrMsg_dispatches [of Server_Name ys 0 c1 fd "[]"] len c1(2) by auto
  obtain c3 where c3: "OnRecvSvrMsg c1 fd (Some (head_bytes 0 login_name (int (length ys)) @ ys)) (30 + int (length ys)) =
      ret (c3, ([Call_respond Process_login_cb fd 0 (if ys = [] then None else Some ys) (int (length ys))], Last_call))"
    using OnRecvSvrMsg_dispatches [of login_name ys 0 c1 fd "[]"] len c1(2) by auto
  have cb: "process_login_cb rpb rsp0 fd 0 (if ys = [] then None else Some ys) = ([(fd, 0, rsp)], 0)"
    unfolding process_login_cb_def buff_bytes_received using r(2) by (simp add: pb_fits_def)
  show ?thesis using c1(1) s1 s2 c2 c3 cb by blast
qed

text \<open>C27. All workers use the one data buffer of the RPC layer, and no lock: when a worker has serialised its
  response and another serialises one of the same size before the first is sent, the first
  client is sent the second one's response.\<close>

theorem workers_mix_responses:
  assumes "pb_fits pb rspA xs" "pb_fits pb rspB ys" "length xs = length ys"
  shows "\<exists>r1 r2 r3 resA resB. serialise_login pb r rspA = ret (r1, resA) \<and> serialise_login pb r1 rspB = ret (r2, resB) \<and>
    respond_login r2 fdA remoteA resA =
      ret (r3, ([Server_SendMsg fdA remoteA (head_bytes 0 Server_Name (int (length xs)) @ ys)], Last_call))"
proof -
  let ?r1 = "r\<lparr>rpc_databuff := mwrite (rpc_databuff r) 256 xs\<rparr>"
  show ?thesis
    using serialise_login_ok [OF assms(1), of r] serialise_login_ok [OF assms(2), of ?r1]
      respond_login_ok [OF assms(2), of ?r1 fdA remoteA] assms(3)
    by auto
qed

text \<open>A serialisation for the witness: a request is its player's id in one byte, a response the id and the
  age of its player.\<close>

definition sample_qpb :: "login_request pb" where
  "sample_qpb =
     \<lparr>pb_ByteSize = (\<lambda>_. 1), pb_Serialize = (\<lambda>q. Some [of_int (lq_player_id q)]),
      pb_Parse = (\<lambda>xs. case xs of [x] \<Rightarrow> Some \<lparr>lq_player_id = uint x\<rparr> | _ \<Rightarrow> None)\<rparr>"

definition sample_rpb :: "login_response pb" where
  "sample_rpb =
     \<lparr>pb_ByteSize = (\<lambda>_. 2),
      pb_Serialize = (\<lambda>r. map_option (\<lambda>p. [of_int (pi_id p), of_int (pi_age p)]) (lr_pinfo r)),
      pb_Parse = (\<lambda>xs. case xs of
          [x, y] \<Rightarrow> Some \<lparr>lr_pinfo = Some \<lparr>pi_id = uint x, pi_nick = ''markmao'', pi_age = uint y\<rparr>\<rparr>
        | _ \<Rightarrow> None)\<rparr>"

lemma sample_fits:
  "pb_fits sample_qpb \<lparr>lq_player_id = 7\<rparr> [7]"
  "pb_fits sample_rpb \<lparr>lr_pinfo = Some \<lparr>pi_id = 7, pi_nick = ''markmao'', pi_age = 24\<rparr>\<rparr> [7, 24]"
  by (simp_all add: pb_fits_def sample_qpb_def sample_rpb_def)

lemma login_reply_lost_witness:
  "\<exists>c1 msg s1 s2 reply c2.
    GameServiceClient_login sample_qpb (fst (add_client_skeleton (new_IRpc (\<lambda>_. 0)))) 3 \<lparr>lq_player_id = 7\<rparr> =
      ret (c1, ([Server_SendMsg 3 0 msg], Last_call)) \<and>
    OnRecvCliMsg (fst (add_server_skeleton (new_IRpc (\<lambda>_. 0)))) 5 0 (Some msg) (int (length msg)) =
      ret (s1, ([Call_request Process_login 5 0 (Some [7]) 1], Last_call)) \<and>
    process_login sample_qpb sample_rpb GameServiceImp_login s1 5 0 (Some [7]) = ret (s2, [Server_SendMsg 5 0 reply], 0) \<and>
    OnRecvSvrMsg c1 3 (Some reply) (int (length reply)) = ret (c2, ([], Const (-1)))"
  using login_reply_lost [OF sample_fits(1) _ sample_fits(2), where cbuf = "\<lambda>_. 0" and sbuf = "\<lambda>_. 0" and fd = 3 and
      fd' = 5 and remote = 0 and ?rsp0.0 = "\<lparr>lr_pinfo = None\<rparr>"]
  by simp blast

lemma workers_mix_responses_witness:
  "\<exists>r1 r2 r3 resA resB.
    serialise_login sample_rpb (new_IRpc (\<lambda>_. 0)) \<lparr>lr_pinfo = Some \<lparr>pi_id = 7, pi_nick = ''markmao'', pi_age = 24\<rparr>\<rparr> = ret (r1, resA) \<and>
    serialise_login sample_rpb r1 \<lparr>lr_pinfo = Some \<lparr>pi_id = 8, pi_nick = ''markmao'', pi_age = 24\<rparr>\<rparr> = ret (r2, resB) \<and>
    respond_login r2 5 0 resA = ret (r3, ([Server_SendMsg 5 0 (head_bytes 0 Server_Name 2 @ [8, 24])], Last_call))"
proof -
  have "pb_fits sample_rpb \<lparr>lr_pinfo = Some \<lparr>pi_id = 8, pi_nick = ''markmao'', pi_age = 24\<rparr>\<rparr> [8, 24]"
    by (simp add: pb_fits_def sample_rpb_def)
  from workers_mix_responses [OF sample_fits(2) this, of "new_IRpc (\<lambda>_. 0)" 5 0] show ?thesis by simp
qed

end
