(* ===== verification/Game_Server.thy ===== *)
theory Game_Server
  imports Worker_Spec Game_Service Startup
begin

text \<open>
  The sample server (sample/server/server.cc) on the framework: what \<open>main\<close> sets up from the
  configuration file, and what it does with a datagram that holds a request.
\<close>

section \<open>The program\<close>

definition quiet_app :: "('os, gs_function, gs_service, unit, unit) app_code" where
  "quiet_app = \<lparr>app_handle = (\<lambda>_ n. ret n), app_closed = (\<lambda>_ _ n. ret n)\<rparr>"

text \<open>
  The functions the RPC layer calls: \<open>process_login\<close> of the server's skeleton.  \<open>main\<close>: the thread that
  calls it is the network thread.
\<close>

definition game_app ::
  "login_request pb \<Rightarrow> login_response pb \<Rightarrow> 'os sys \<Rightarrow> bool \<Rightarrow> ('os, gs_function, gs_service, unit, unit) app_code" where
  "game_app qpb rpb sys main =
     quiet_app\<lparr>app_handle := (\<lambda>call n.
       case call of
         Call_request f fd remote buff len \<Rightarrow>
           (if f = Process_login
            then rbind (process_login qpb rpb GameServiceImp_login (sv_rpc (net_app n)) fd (to_u64 remote) buff)
                   (\<lambda>(r1, calls, _). do_rpc_calls sys quiet_app main calls (upd_server (\<lambda>sv. sv\<lparr>sv_rpc := r1\<rparr>) n))
            else ret n)
       | _ \<Rightarrow> ret n)\<rparr>"

text \<open>
  \<open>main\<close> up to the event loop: \<open>file\<close> is what cfg.ini holds, \<open>bind\<close> the event handler's operation, the
  other arguments are the initial state of system, block pool and data buffer.  The result is
  the world, the listening descriptor if one was made, and what \<open>Bind\<close> returned.
\<close>

definition server_main ::
  "'os sys \<Rightarrow> ('os, gs_function, gs_service, unit, unit) app_code \<Rightarrow> (int \<Rightarrow> string \<Rightarrow> int \<Rightarrow> int) \<Rightarrow>
     string option \<Rightarrow> 'os \<Rightarrow> block_store \<Rightarrow> region \<Rightarrow>
     (('os, gs_function, gs_service, unit, unit) world \<times> int option \<times> int \<times> worker list) run" where
  "server_main sys app bind file os s buf =
     (let cfg = fst (LoadCfg new_IniConfig file)
      in case Server_Init cfg (new_IRpc buf) () of (sv, recvq, workers) \<Rightarrow>
           (let n = Server_NetMessage cfg os s sv recvq;
                ws = replicate (nat workers) (Worker_Init new_Worker cfg)
            in rbind (Server_Bind sys app bind n (GetStr cfg ''bindurl'')) (\<lambda>(n1, lfd, r).
                 ret (upd_server (\<lambda>sv. sv\<lparr>sv_rpc := fst (add_server_skeleton (sv_rpc sv))\<rparr>) n1, lfd, r, ws))))"

text \<open>What \<open>main\<close> does is what \<open>Init\<close> has made, in the process that goes on, the binding and the service.\<close>

lemma server_main_Init:
  assumes "GetIOEventHandlerFactory reg IOEVENT_TYPE_EV = Some f" "daemonize p os = Goes_on os1"
  shows "\<exists>st. Server_Init_all p lp mk_loop reg IOEVENT_TYPE_EV (Some (fst (LoadCfg new_IniConfig file))) lg os s buf () = ret (Inr st) \<and>
    server_main sys app bind file os1 s buf =
      rbind (Server_Bind sys app bind (st_world st) (GetStr (fst (LoadCfg new_IniConfig file)) ''bindurl''))
        (\<lambda>(n, lfd, r). ret (upd_server (\<lambda>sv. sv\<lparr>sv_rpc := fst (add_server_skeleton (sv_rpc sv))\<rparr>) n, lfd, r, st_workers st))"
  using assms
  by (simp add: Server_Init_all_def server_main_def Let_def split: prod.split)

section \<open>Ready to serve\<close>

text \<open>A datagram socket \<open>fd\<close> with its event at \<open>h\<close>, and the login function registered.\<close>

definition login_socket :: "('os, gs_function, gs_service, unit, unit) world \<Rightarrow> int \<Rightarrow> nat \<Rightarrow> bool" where
  "login_socket n fd h \<longleftrightarrow>
     (\<exists>e. ci_bev (net_conns n fd) = Some h \<and> net_bevs n h = Some e \<and> be_fd e = fd \<and>
        be_protocol e = IOEV_UDP_PROTOCOL \<and> be_rdcb e \<and> be_wrcb e) \<and>
     ci_protocol (net_conns n fd) = IOEV_UDP_PROTOCOL \<and> ci_ctype (net_conns n fd) = CONN_TYPE_CLI \<and>
     rpc_requestMap (sv_rpc (net_app n)) login_name = Some Process_login"

text \<open>Nothing is unread, and the network thread handles what comes, or puts it into an empty queue.\<close>

definition serving :: "('os, gs_function, gs_service, unit, unit) world \<Rightarrow> int \<Rightarrow> nat \<Rightarrow> bool" where
  "serving n fd h \<longleftrightarrow> login_socket n fd h \<and> conn_ready n fd [] \<and> sv_single (net_app n)"

definition empty_MB :: loop_queue where
  "empty_MB = fst (Loop_Queue.Init new_LoopQueue (1024 * 1024))"

definition queueing :: "('os, gs_function, gs_service, unit, unit) world \<Rightarrow> int \<Rightarrow> nat \<Rightarrow> bool" where
  "queueing n fd h \<longleftrightarrow>
     login_socket n fd h \<and> conn_queued n fd [] \<and> \<not> sv_single (net_app n) \<and>
     net_recvQue n = empty_MB \<and> sv_sendQue (net_app n) = empty_MB"

text \<open>The configuration: a datagram URL, the number of workers, and the defaults for the rest.\<close>

definition udp_config :: "ini_item list \<Rightarrow> string \<Rightarrow> int \<Rightarrow> int \<Rightarrow> bool" where
  "udp_config items ip port workers \<longleftrightarrow>
     (\<forall>it \<in> set items. item_ok it) \<and> CHR '':'' \<notin> set ip \<and> - (2 ^ 31) \<le> port \<and> port < 2 ^ 31 \<and>
     0 \<le> workers \<and> workers < 2 ^ 31 \<and>
     (let m = map_of (rev (concat (map assignment items)))
      in m ''bindurl'' = Some (make_url ''udp'' ip port) \<and>
         m ''work_num'' = (if workers = 0 then None else Some (show_int workers)) \<and>
         m ''max_msglen'' = None \<and> m ''max_fd'' = None)"

lemma server_main_serves:
  assumes cfg: "udp_config items ip port workers" and fd: "bind IOEV_UDP_PROTOCOL ip port = fd" "0 < fd" "fd < 10240"
    and s: "store_ok s"
  shows "\<exists>n ws. server_main sys app bind (Some (render_file items)) os s buf = ret (n, None, 0, ws) \<and>
    (if workers = 0 then serving n fd 0 else queueing n fd 0) \<and> net_os n = os \<and> net_maxMsglen n = 81920 \<and>
    length ws = nat workers \<and> (\<forall>w \<in> set ws. wk_maxMsglen w = 81920)"
proof -
  let ?m = "map_of (rev (concat (map assignment items)))"
  let ?cfg = "fst (LoadCfg new_IniConfig (Some (render_file items)))"
  have c: "\<forall>it \<in> set items. item_ok it" "CHR '':'' \<notin> set ip" "- (2 ^ 31) \<le> port" "port < 2 ^ 31"
    "?m ''bindurl'' = Some (make_url ''udp'' ip port)" "?m ''max_msglen'' = None" "?m ''max_fd'' = None"
    and w: "?m ''work_num'' = (if workers = 0 then None else Some (show_int workers))" "0 \<le> workers" "workers < 2 ^ 31"
    using cfg by (auto simp: udp_config_def Let_def)
  have v: "getVal ?cfg k = ?m k" for k
    using parse_loop_file [OF c(1), of Map.empty] by (simp add: LoadCfg_def Parse_def getVal_def new_IniConfig_def)
  have g: "GetInt ?cfg ''work_num'' 0 = workers" "GetInt ?cfg ''max_msglen'' 81920 = 81920" "GetInt ?cfg ''max_fd'' 10240 = 10240"
    "GetStr ?cfg ''bindurl'' = make_url ''udp'' ip port"
    using c v w atoi_show [of workers] by (simp_all add: GetInt_def GetStr_def)
  have u: "parse_url (make_url ''udp'' ip port) = Some (IOEV_UDP_PROTOCOL, ip, port)"
    using parse_url_make [of "''udp''" ip port] c by (simp add: protocol_of_def)
  let ?e = "Enable (SetCb (new_BufferEventEv IOEV_UDP_PROTOCOL fd) True True True) (IOEV_READ OR IOEV_WRITE)"
  let ?q = "if workers > 0 then empty_MB else new_LoopQueue"
  let ?sv = "\<lparr>sv_single = \<not> workers > 0, sv_rpc = fst (add_server_skeleton (new_IRpc buf)), sv_connectors = Map.empty,
      sv_sendQue = ?q, sv_notified = 0, sv_app = ()\<rparr> :: (gs_function, gs_service, unit, unit) server"
  let ?n = "\<lparr>net_os = os, net_store = s, net_bevs = [0 \<mapsto> ?e], net_brk = 1,
      net_conns = (\<lambda>_. \<lparr>ci_fd = -1, ci_ctype = 0, ci_protocol = 0, ci_bev = None\<rparr>)
        (fd := \<lparr>ci_fd = fd, ci_ctype = CONN_TYPE_CLI, ci_protocol = IOEV_UDP_PROTOCOL, ci_bev = Some 0\<rparr>),
      net_maxfds = 10240, net_maxMsglen = 81920, net_single = (\<not> workers > 0), net_recvBuffer = (if workers > 0 then [] else replicate 81920 0),
      net_recvQue = ?q, net_app = ?sv\<rparr>"
  let ?ws = "replicate (nat workers) (Worker_Init new_Worker ?cfg)"
  have init: "Server_Init ?cfg (new_IRpc buf) () = (?sv\<lparr>sv_rpc := new_IRpc buf\<rparr>, ?q, workers)"
    using g(1) w(2) by (simp add: Server_Init_def Let_def empty_MB_def)
  have u81920: "to_u32 81920 = 81920" by (simp add: to_u32_id)
  have "server_main sys app bind (Some (render_file items)) os s buf = ret (?n, None, 0, ?ws)"
    using fd g u u81920 init
    by (cases "workers > 0") (simp_all add: server_main_def Let_def Server_NetMessage_def Server_Bind_def Net_Message.Bind_def NewBufferEvent_def
        OpenConn_def get_bev_def set_bev_def new_NetMessage_def upd_server_def IOEV_UDP_PROTOCOL_def IOEV_TCP_PROTOCOL_def)
  moreover have "if workers = 0 then serving ?n fd 0 else queueing ?n fd 0"
  proof -
    have e: "be_fd ?e = fd" "be_protocol ?e = IOEV_UDP_PROTOCOL" "be_rdcb ?e" "be_wrcb ?e" "be_recvBuffer ?e = new_BlockBuffer"
      by (simp_all add: Enable_def SetCb_def new_BufferEventEv_def Let_def)
    have sock: "login_socket ?n fd 0" using e by (simp add: login_socket_def skeletons new_IRpc_def)
    show ?thesis
    proof (cases "workers = 0")
      case True
      have "conn_ready ?n fd []" using fd bb_rep_new [OF s] e(5) True by (auto simp: conn_ready_def GetConn_def)
      then show ?thesis using sock True by (simp add: serving_def)
    next
      case False
      then have "workers > 0" using w(2) by simp
      moreover have "conn_queued ?n fd []" using fd bb_rep_new [OF s] e(5) calculation by (auto simp: conn_queued_def GetConn_def)
      ultimately show ?thesis using sock by (simp add: queueing_def)
    qed
  qed
  moreover have "wk_maxMsglen (Worker_Init new_Worker ?cfg) = 81920" using g(2) by (simp add: Worker_Init_def Let_def)
  ultimately show ?thesis by (intro exI [of _ ?n] exI [of _ ?ws]) simp
qed

section \<open>One datagram\<close>

lemma remote_back: "to_u64 (to_i64 (pack_addr a p)) = pack_addr a p"
  using to_u64_bounds unfolding pack_addr_def by (rule to_u64_to_i64)

text \<open>What is answered to a login request: the service's name and the response's bytes.\<close>

definition login_reply :: "byte list \<Rightarrow> byte list" where
  "login_reply ys = head_bytes 0 Server_Name (int (length ys)) @ ys"

definition login_result :: "login_request \<Rightarrow> login_response" where
  "login_result req = \<lparr>lr_pinfo = Some \<lparr>pi_id = lq_player_id req, pi_nick = ''markmao'', pi_age = 24\<rparr>\<rparr>"

text \<open>A login request is handled: the response is given to \<open>SendMsg\<close>.\<close>

lemma login_handled:
  assumes f: "rpc_requestMap (sv_rpc (net_app n)) login_name = Some Process_login"
    and m: "pb_fits qpb req xs" "pb_fits rpb (login_result req) ys"
  shows "\<exists>r2. rpc_requestMap r2 = rpc_requestMap (sv_rpc (net_app n)) \<and>
    OnRecvMsg sys (game_app qpb rpb sys main) main n fd (pack_addr a p) (request_bytes (login_name, xs)) True =
      rbind (Server_Send sys quiet_app main (upd_server (\<lambda>sv. sv\<lparr>sv_rpc := r2\<rparr>) n) fd (pack_addr a p) (login_reply ys))
        (\<lambda>(n1, _). ret n1)"
proof -
  let ?r = "sv_rpc (net_app n)" and ?app = "game_app qpb rpb sys main"
  define d where "d = (if xs = [] then None else Some xs)"
  have len: "length xs < 2 ^ 30" using m by (simp add: pb_fits_def)
  obtain hd where D: "OnRecvCliMsg ?r fd (pack_addr a p) (Some (request_bytes (login_name, xs)))
      (int (length (request_bytes (login_name, xs)))) =
    ret (?r\<lparr>rpc_rhead := hd\<rparr>, ([Call_request Process_login fd (to_i64 (pack_addr a p)) d (int (length xs))], Last_call))"
    using OnRecvCliMsg_request [of login_name xs ?r fd "pack_addr a p"] len f by (auto simp: request_call_def d_def)
  let ?n1 = "upd_server (\<lambda>sv. sv\<lparr>sv_rpc := ?r\<lparr>rpc_rhead := hd\<rparr>\<rparr>) n"
  obtain r2 where P: "process_login qpb rpb GameServiceImp_login (?r\<lparr>rpc_rhead := hd\<rparr>) fd (pack_addr a p) d =
      ret (r2, [Server_SendMsg fd (pack_addr a p) (login_reply ys)], 0)" "rpc_requestMap r2 = rpc_requestMap ?r"
    using process_login_sends [OF m, of GameServiceImp_login fd "pack_addr a p" "?r\<lparr>rpc_rhead := hd\<rparr>"]
    by (auto simp: GameServiceImp_login_def login_result_def login_reply_def d_def)
  let ?n2 = "upd_server (\<lambda>sv. sv\<lparr>sv_rpc := r2\<rparr>) n"
  have n2: "upd_server (\<lambda>sv. sv\<lparr>sv_rpc := r2\<rparr>) ?n1 = ?n2" by (simp add: upd_server_def)
  have "app_handle ?app (Call_request Process_login fd (to_i64 (pack_addr a p)) d (int (length xs))) ?n1 =
      do_rpc_calls sys quiet_app main [Server_SendMsg fd (pack_addr a p) (login_reply ys)] ?n2"
    using P(1) n2 by (simp add: game_app_def remote_back) (simp add: upd_server_def)
  then show ?thesis using D P(2) by (intro exI [of _ r2]) (simp add: OnRecvMsg_def rbind_assoc split_def)
qed

lemma login_reply_bytes: "pb_fits rpb m ys \<Longrightarrow> length (login_reply ys) = 23 + length ys" "login_reply ys \<noteq> []"
  by (simp_all add: login_reply_def head_bytes_def)

text \<open>On the network thread it goes out at once.\<close>

lemma login_sent:
  assumes c: "GetConn n fd = Some fd" "ci_bev (net_conns n fd) = Some h" "net_bevs n h = Some e"
      "be_fd e = fd" "be_protocol e = IOEV_UDP_PROTOCOL" "be_wrcb e"
    and m: "pb_fits rpb rsp ys"
    and send: "sys_sendto sys (net_os n) fd (login_reply ys) a p = (os3, int (length (login_reply ys)))"
    and addr: "0 \<le> a" "a < 2 ^ 32" "0 \<le> p" "p < 2 ^ 16"
  shows "Net_Message.SendMsg sys srv n fd (pack_addr a p) (login_reply ys) = ret (n\<lparr>net_os := os3\<rparr>, 0)"
proof -
  have "length (login_reply ys) < 2 ^ 63" using login_reply_bytes(1) [OF m] m by (simp add: pb_fits_def)
  then have W: "Write sys (net_os n) (net_store n) e (pack_addr a p) (login_reply ys) = ret (os3, net_store n, e, [Wrcb fd], 0)"
    using Write_datagram [of sys "net_os n" e "login_reply ys" a p os3] c(4-6) send addr login_reply_bytes(2) by simp
  have "(net_bevs n)(h \<mapsto> e) = net_bevs n" using c(3) by auto
  then show ?thesis using c W by (simp add: Net_Message.SendMsg_def get_bev_def set_bev_def event_callback_def)
qed

lemma login_answered:
  assumes c: "GetConn n fd = Some fd" "ci_bev (net_conns n fd) = Some h" "net_bevs n h = Some e"
      "be_fd e = fd" "be_protocol e = IOEV_UDP_PROTOCOL" "be_wrcb e"
    and f: "rpc_requestMap (sv_rpc (net_app n)) login_name = Some Process_login"
    and m: "pb_fits qpb req xs" "pb_fits rpb (login_result req) ys"
    and send: "sys_sendto sys (net_os n) fd (login_reply ys) a p = (os3, int (length (login_reply ys)))"
    and addr: "0 \<le> a" "a < 2 ^ 32" "0 \<le> p" "p < 2 ^ 16"
  shows "\<exists>r2. OnRecvMsg sys (game_app qpb rpb sys True) True n fd (pack_addr a p) (request_bytes (login_name, xs)) True =
      ret ((upd_server (\<lambda>sv. sv\<lparr>sv_rpc := r2\<rparr>) n)\<lparr>net_os := os3\<rparr>) \<and>
    rpc_requestMap r2 = rpc_requestMap (sv_rpc (net_app n))"
proof -
  obtain r2 where r2: "rpc_requestMap r2 = rpc_requestMap (sv_rpc (net_app n))"
    "OnRecvMsg sys (game_app qpb rpb sys True) True n fd (pack_addr a p) (request_bytes (login_name, xs)) True =
      rbind (Server_Send sys quiet_app True (upd_server (\<lambda>sv. sv\<lparr>sv_rpc := r2\<rparr>) n) fd (pack_addr a p) (login_reply ys))
        (\<lambda>(n1, _). ret n1)"
    using login_handled [OF f m] by blast
  let ?n = "upd_server (\<lambda>sv. sv\<lparr>sv_rpc := r2\<rparr>) n"
  have "Net_Message.SendMsg sys (close_calls quiet_app) ?n fd (pack_addr a p) (login_reply ys) = ret (?n\<lparr>net_os := os3\<rparr>, 0)"
    using c send addr by (intro login_sent [OF _ _ _ c(4-6) m(2)]) (simp_all add: upd_server_def GetConn_def split: if_splits)
  with r2 show ?thesis by (intro exI [of _ r2]) (simp add: Server_Send_def)
qed

lemma recv_all_step:
  "ci_protocol (net_conns n conn) \<noteq> IOEV_TCP_PROTOCOL \<Longrightarrow> recv_msg srv n conn remote = ret (n1, k) \<Longrightarrow>
     recv_all srv n conn remote = (if k > 0 then recv_all srv n1 conn remote else ret n1)"
  by (subst recv_all.simps) (simp add: recvUdpMsg_def)

text \<open>The datagram has arrived in the receive buffer: it is cut, dispatched and answered.\<close>

lemma RecvMsg_answers:
  assumes n: "conn_ready n fd (request_bytes (login_name, xs))" "ci_bev (net_conns n fd) = Some h" "net_bevs n h = Some e"
      "be_fd e = fd" "be_protocol e = IOEV_UDP_PROTOCOL" "be_rdcb e" "be_wrcb e"
      "ci_protocol (net_conns n fd) = IOEV_UDP_PROTOCOL" "ci_ctype (net_conns n fd) = CONN_TYPE_CLI" "sv_single (net_app n)"
      "rpc_requestMap (sv_rpc (net_app n)) login_name = Some Process_login"
    and m: "pb_fits qpb req xs" "pb_fits rpb (login_result req) ys" "30 + int (length xs) \<le> net_maxMsglen n"
    and send: "sys_sendto sys (net_os n) fd (login_reply ys) a p = (os3, int (length (login_reply ys)))"
    and addr: "0 \<le> a" "a < 2 ^ 32" "0 \<le> p" "p < 2 ^ 16"
  shows "\<exists>n1. RecvMsg (server_methods sys (game_app qpb rpb sys True)) n fd (pack_addr a p) = ret (n1, 0) \<and>
    serving n1 fd h \<and> net_os n1 = os3 \<and> net_maxMsglen n1 = net_maxMsglen n"
proof -
  let ?srv = "server_methods sys (game_app qpb rpb sys True)" and ?f = "request_bytes (login_name, xs)"
  have mx: "net_maxMsglen n \<le> 2 ^ 30" and gc: "GetConn n fd = Some fd" using n(1) by (auto simp: conn_ready_def)
  have fo: "frame_ok (net_maxMsglen n) ?f" using request_frame [of login_name xs "net_maxMsglen n"] m(3) mx by simp
  have "conn_ready n fd (?f @ [])" using n(1) by simp
  from recv_msg_reads [OF this fo, of ?srv "pack_addr a p"] obtain s1 q1 where
    t: "conn_ready (frame_taken n h e s1 q1 ?f) fd []"
    "recv_msg ?srv n fd (pack_addr a p) =
      rbind (svr_OnRecvMsg ?srv (frame_taken n h e s1 q1 ?f) fd (pack_addr a p) ?f (ci_ctype (net_conns n fd) \<noteq> CONN_TYPE_SVR))
        (\<lambda>n1. ret (n1, int (length ?f)))"
    using n(2,3) by auto
  let ?n = "frame_taken n h e s1 q1 ?f"
  have cli: "ci_ctype (net_conns n fd) \<noteq> CONN_TYPE_SVR" using n(9) by (simp add: CONN_TYPE_CLI_def CONN_TYPE_SVR_def)
  obtain r2 where A: "OnRecvMsg sys (game_app qpb rpb sys True) True ?n fd (pack_addr a p) ?f True =
      ret ((upd_server (\<lambda>sv. sv\<lparr>sv_rpc := r2\<rparr>) ?n)\<lparr>net_os := os3\<rparr>)" "rpc_requestMap r2 = rpc_requestMap (sv_rpc (net_app ?n))"
    using login_answered [of ?n fd h "e\<lparr>be_recvBuffer := q1\<rparr>" qpb req xs rpb ys sys a p os3] n gc m(1,2) send addr
    by (auto simp: GetConn_def split: if_splits)
  let ?n1 = "(upd_server (\<lambda>sv. sv\<lparr>sv_rpc := r2\<rparr>) ?n)\<lparr>net_os := os3\<rparr>"
  have r1: "recv_msg ?srv n fd (pack_addr a p) = ret (?n1, int (length ?f))"
    using t(2) A(1) cli by (simp add: server_methods_def)
  have ready: "conn_ready ?n1 fd []"
    using t(1) by (simp add: conn_ready_def upd_server_def GetConn_def split: if_splits)
  obtain k where r2: "recv_msg ?srv ?n1 fd (pack_addr a p) = ret (?n1, k)" "k \<le> 0"
    using recv_msg_incomplete [OF ready] by (auto simp: incomplete_def)
  have udp: "ci_protocol (net_conns n fd) \<noteq> IOEV_TCP_PROTOCOL" "ci_protocol (net_conns ?n1 fd) \<noteq> IOEV_TCP_PROTOCOL"
    using n(8) by (simp_all add: IOEV_UDP_PROTOCOL_def IOEV_TCP_PROTOCOL_def upd_server_def)
  have "recv_all ?srv n fd (pack_addr a p) = ret ?n1"
    using recv_all_step [OF udp(1) r1] recv_all_step [OF udp(2) r2(1)] r2(2) fo by (simp add: frame_ok_def)
  then have "RecvMsg ?srv n fd (pack_addr a p) = ret (?n1, 0)" using gc by (simp add: RecvMsg_def)
  moreover have "serving ?n1 fd h"
    using ready n A(2) by (simp add: serving_def login_socket_def upd_server_def)
  ultimately show ?thesis by (intro exI [of _ ?n1]) (simp add: upd_server_def)
qed

text \<open>C8. The sample server from its configuration file to a player's login: with a datagram URL in
  the file and the defaults for the rest, \<open>main\<close> sets up a server on the socket bound for that URL;
  when a datagram arrives there that a client's \<open>login\<close> has made, the read callback of the event
  library makes the server send exactly one datagram, to the datagram's sender, with the
  response the implementation gives for the request; and the server is ready for the next one.\<close>

theorem login_served:
  assumes cfg: "udp_config items ip port 0" and fd: "bind IOEV_UDP_PROTOCOL ip port = fd" "0 < fd" "fd < 10240"
    and s: "store_ok s"
    and m: "pb_fits qpb req xs" "pb_fits rpb (login_result req) ys" "length xs \<le> 81890"
    and client: "GameServiceClient_login qpb cli fd' req = ret (cli1, ([Server_SendMsg fd' 0 msg], Last_call))"
    and arrives: "sys_ioctl sys os fd = (os1, Some k)" "sys_recvfrom sys os1 fd k = (os2, Inr msg, a, p)"
      "int (length msg) \<le> k" "k \<le> 2 ^ 29" "0 \<le> a" "a < 2 ^ 32" "0 \<le> p" "p < 2 ^ 16"
    and send: "sys_sendto sys os2 fd (login_reply ys) a p = (os3, int (length (login_reply ys)))"
  shows "\<exists>n n1. server_main sys (game_app qpb rpb sys True) bind (Some (render_file items)) os s buf = ret (n, None, 0, []) \<and>
    on_readable sys (server_methods sys (game_app qpb rpb sys True)) n 0 = ret n1 \<and> net_os n1 = os3 \<and> serving n1 fd 0"
proof -
  have msg: "msg = request_bytes (login_name, xs)"
    using GameServiceClient_login_sends [OF m(1), of cli fd'] client by (auto simp: request_bytes_def)
  from server_main_serves [where app = "game_app qpb rpb sys True" and bind = bind and sys = sys and os = os and buf = buf, OF cfg fd s]
  obtain n where n: "server_main sys (game_app qpb rpb sys True) bind (Some (render_file items)) os s buf = ret (n, None, 0, [])"
    "serving n fd 0" "net_os n = os" "net_maxMsglen n = 81920"
    by auto
  obtain e ps where e: "ci_bev (net_conns n fd) = Some 0" "net_bevs n 0 = Some e" "be_fd e = fd"
    "be_protocol e = IOEV_UDP_PROTOCOL" "be_rdcb e" "be_wrcb e" "bb_rep (net_store n) (be_recvBuffer e) ps" "length ps \<le> 1"
    "content ps = []"
    using n(2) by (auto simp: serving_def login_socket_def conn_ready_def)
  have len: "length msg = 30 + length xs" by (simp add: msg request_bytes_def)
  obtain s1 q1 ps1 where R: "RecvData sys os (net_store n) e = ret (os2, s1, e\<lparr>be_recvBuffer := q1\<rparr>, [Rdcb fd (pack_addr a p)], 0)"
    "bb_rep s1 q1 ps1" "content ps1 = msg" "length ps1 \<le> 1"
    using recvUdpData_gets [OF e(7), of sys os os1 k os2 msg a p] arrives e m(3) len by auto
  let ?n = "(set_bev n (Some 0) (e\<lparr>be_recvBuffer := q1\<rparr>))\<lparr>net_os := os2, net_store := s1\<rparr>"
  have "conn_ready ?n fd msg"
    using n(2) R(2-4) e(1) len m(3) by (auto simp: serving_def login_socket_def conn_ready_def set_bev_def GetConn_def split: if_splits)
  then have ready: "conn_ready ?n fd (request_bytes (login_name, xs))" unfolding msg .
  have x: "ci_bev (net_conns ?n fd) = Some 0" "net_bevs ?n 0 = Some (e\<lparr>be_recvBuffer := q1\<rparr>)"
    "be_fd (e\<lparr>be_recvBuffer := q1\<rparr>) = fd" "be_protocol (e\<lparr>be_recvBuffer := q1\<rparr>) = IOEV_UDP_PROTOCOL"
    "be_rdcb (e\<lparr>be_recvBuffer := q1\<rparr>)" "be_wrcb (e\<lparr>be_recvBuffer := q1\<rparr>)"
    "ci_protocol (net_conns ?n fd) = IOEV_UDP_PROTOCOL" "ci_ctype (net_conns ?n fd) = CONN_TYPE_CLI" "sv_single (net_app ?n)"
    "rpc_requestMap (sv_rpc (net_app ?n)) login_name = Some Process_login"
    using e n(2) by (simp_all add: set_bev_def serving_def login_socket_def)
  have "30 + int (length xs) \<le> net_maxMsglen ?n" "net_os ?n = os2" using n(4) m(3) by (simp_all add: set_bev_def)
  from RecvMsg_answers [OF ready x m(1,2) this(1) _ arrives(5-8), where ?os3.0 = os3] send this(2)
  obtain n1 where n1: "RecvMsg (server_methods sys (game_app qpb rpb sys True)) ?n fd (pack_addr a p) = ret (n1, 0)"
    "serving n1 fd 0" "net_os n1 = os3"
    by auto
  have "on_readable sys (server_methods sys (game_app qpb rpb sys True)) n 0 = ret n1"
    using R(1) e(2) n(3) n1(1) by (simp add: on_readable_def get_bev_def event_callback_def)
  with n(1) n1(2,3) show ?thesis by blast
qed

text \<open>A configuration, and a system where that request arrives once and datagrams go out.\<close>

definition game_cfg :: "ini_item list" where
  "game_cfg =
     [Other ''[base]'',
      Assign \<lparr>il_key = ''bindurl'', il_val = ''udp://127.0.0.1:8812'', il_pads = (0, 1, 1, 0), il_comment = None\<rparr>]"

definition game_sys :: "byte list \<Rightarrow> (int \<times> int \<times> byte list) list sys" where
  "game_sys msg =
     \<lparr>sys_ioctl = (\<lambda>os fd. (os, Some (int (length msg)))), sys_recv = (\<lambda>os fd n. (os, Inl EAGAIN)),
      sys_recvfrom = (\<lambda>os fd n. (os, Inr msg, 2130706433, 9000)), sys_send = (\<lambda>os fd xs. (os, -1, EAGAIN)),
      sys_sendto = (\<lambda>os fd xs a p. (os @ [(a, p, xs)], int (length xs))), sys_close = (\<lambda>os fd. os)\<rparr>"

lemma game_cfg_udp: "udp_config game_cfg ''127.0.0.1'' 8812 0"
proof -
  have d: "decimal 8812 = ''8812''"
    by (simp add: decimal.simps [of 8812] decimal.simps [of 881] decimal.simps [of 88] decimal.simps [of 8] char_of_def bit_0)
  then have u: "make_url ''udp'' ''127.0.0.1'' 8812 = ''udp://127.0.0.1:8812''" by (simp add: make_url_def show_int_def)
  show ?thesis
    unfolding udp_config_def Let_def u
    by (simp add: game_cfg_def trimmed_def plain_def newline_def render_comment_def render_body_def INI_BUFF_LEN_def)
qed

lemma login_served_witness:
  "\<exists>n n1. server_main (game_sys (request_bytes (login_name, [7])))
        (game_app sample_qpb sample_rpb (game_sys (request_bytes (login_name, [7]))) True)
        (\<lambda>protocol ip port. if port = 8812 then 9 else -1) (Some (render_file game_cfg)) [] (empty_store (\<lambda>_ _. 0)) (\<lambda>_. 0)
      = ret (n, None, 0, []) \<and>
    on_readable (game_sys (request_bytes (login_name, [7])))
      (server_methods (game_sys (request_bytes (login_name, [7])))
         (game_app sample_qpb sample_rpb (game_sys (request_bytes (login_name, [7]))) True)) n 0 = ret n1 \<and>
    net_os n1 = [(2130706433, 9000, login_reply [7, 24])] \<and> serving n1 9 0"
proof -
  let ?msg = "request_bytes (login_name, [7])"
  let ?b = "\<lambda>(protocol :: int) (ip :: string) (port :: int). if port = 8812 then 9 else -1 :: int"
  obtain c1 where c1: "GameServiceClient_login sample_qpb (new_IRpc (\<lambda>_. 0)) 3 \<lparr>lq_player_id = 7\<rparr> =
      ret (c1, ([Server_SendMsg 3 0 ?msg], Last_call))"
    using GameServiceClient_login_sends [OF sample_fits(1), of "new_IRpc (\<lambda>_. 0)" 3] by (auto simp: request_bytes_def)
  have r: "pb_fits sample_rpb (login_result \<lparr>lq_player_id = 7\<rparr>) [7, 24]" using sample_fits(2) by (simp add: login_result_def)
  show ?thesis
    by (rule login_served [where bind = ?b and cli = "new_IRpc (\<lambda>_. 0)" and a = 2130706433 and p = 9000 and ?os1.0 = "[]" and
          ?os2.0 = "[]" and k = "int (length ?msg)", OF game_cfg_udp _ _ _ store_ok_empty sample_fits(1) r _ c1])
      (simp_all add: game_sys_def request_bytes_def)
qed

section \<open>With workers\<close>

lemma empty_MB_simps:
  "lq_head empty_MB = 0" "lq_tail empty_MB = 0" "lq_bufflen empty_MB = 1048576" "lq_rep empty_MB []"
  using lq_rep_Init [of 1048576 new_LoopQueue] by (simp_all add: empty_MB_def Init_def)

lemma empty_MB_push:
  assumes "msg_ok m" "bsize m \<le> 1048576"
  shows "PushMsg empty_MB m = ret (stored empty_MB m, True)" "push_safe empty_MB m" "lq_rep (stored empty_MB m) [m]"
proof -
  show P: "PushMsg empty_MB m = ret (stored empty_MB m, True)" using assms(2) by (intro Push_store) (simp_all add: empty_MB_simps)
  show s: "push_safe empty_MB m" using assms by (simp add: push_safe_def empty_MB_simps)
  show "lq_rep (stored empty_MB m) [m]" using PushMsg_rep [OF empty_MB_simps(4) s] P by auto
qed

text \<open>The network thread puts the request into the queue.\<close>

lemma RecvMsg_queues_login:
  assumes c: "conn_queued n fd (request_bytes (login_name, xs))" and q: "net_recvQue n = empty_MB"
    and len: "length xs \<le> 81868" "net_maxMsglen n = 81920" and fd: "0 \<le> fd" "fd < 2 ^ 31"
    and p: "ci_protocol (net_conns n fd) = IOEV_UDP_PROTOCOL" "ci_ctype (net_conns n fd) = CONN_TYPE_CLI"
  shows "\<exists>n1. RecvMsg srv n fd (pack_addr a pt) = ret (n1, 0) \<and> kept n n1 fd \<and> conn_queued n1 fd [] \<and>
    lq_rep (net_recvQue n1) [request_msg fd (pack_addr a pt) (login_name, xs)]"
proof -
  let ?f = "request_bytes (login_name, xs)" and ?r = "pack_addr a pt"
  have m: "frame_msg n fd ?r ?f = request_msg fd ?r (login_name, xs)"
    using p(2) by (simp add: frame_msg_def request_msg_def CONN_TYPE_CLI_def CONN_TYPE_SVR_def)
  have ok: "msg_ok (request_msg fd ?r (login_name, xs))"
    using fd len(1) to_u64_bounds
    by (simp add: msg_ok_def request_msg_def request_bytes_def pack_addr_def MT_CLI_MESSAGE_def)
  have "bsize (request_msg fd ?r (login_name, xs)) \<le> 1048576"
    using len(1) by (simp add: bsize_def request_msg_def request_bytes_def sizeof_block_def)
  note push = empty_MB_push [OF ok this]
  have f: "\<forall>f \<in> set [?f]. frame_ok (net_maxMsglen n) f"
    using request_frame [of login_name xs "net_maxMsglen n"] len by simp
  have "\<exists>n1. recv_all srv n fd ?r = ret n1 \<and> conn_queued n1 fd [] \<and>
      net_recvQue n1 = stored empty_MB (request_msg fd ?r (login_name, xs)) \<and> kept n n1 fd"
    using c f q m push p(1)
    by (intro recv_all_queue [where fs = "[?f]" and r = ?r])
      (simp_all add: stops_at_def incomplete_def IOEV_UDP_PROTOCOL_def IOEV_TCP_PROTOCOL_def)
  then obtain n1 where "recv_all srv n fd ?r = ret n1" "conn_queued n1 fd []" "kept n n1 fd"
    "net_recvQue n1 = stored empty_MB (request_msg fd ?r (login_name, xs))" by blast
  then show ?thesis using push(3) c by (intro exI [of _ n1]) (simp add: RecvMsg_def conn_queued_def)
qed

text \<open>A worker takes it, and puts the response into the send queue.\<close>

lemma deal_round_login:
  fixes n :: "('os, gs_function, gs_service, unit, unit) world"
  assumes q: "lq_rep (net_recvQue n) [request_msg fd (pack_addr a pt) (login_name, xs)]"
    and s: "sv_sendQue (net_app n) = empty_MB" "\<not> sv_single (net_app n)"
      "rpc_requestMap (sv_rpc (net_app n)) login_name = Some Process_login"
    and m: "pb_fits qpb req xs" "pb_fits rpb (login_result req) ys" and len: "length xs \<le> 81868" "wk_maxMsglen w = 81920"
    and fd: "0 \<le> fd" "fd < 2 ^ 31"
  shows "\<exists>q1 w1 r2 k m'. deal_round sys (game_app qpb rpb sys False) wake (n, w) =
      ret (upd_server (\<lambda>sv. sv\<lparr>sv_rpc := r2, sv_sendQue := stored empty_MB m', sv_notified := k\<rparr>) (n\<lparr>net_recvQue := q1\<rparr>), w1) \<and>
    lq_rep q1 [] \<and> rpc_requestMap r2 = rpc_requestMap (sv_rpc (net_app n)) \<and>
    m' = \<lparr>msg_fd = fd, msg_remote = pack_addr a pt, msg_type = MT_SVR_MESSAGE, msg_data = login_reply ys\<rparr> \<and>
    lq_rep (stored empty_MB m') [m']"
proof -
  let ?m = "request_msg fd (pack_addr a pt) (login_name, xs)" and ?app = "game_app qpb rpb sys False"
  have mx: "bsize ?m \<le> wk_maxMsglen w"
    using len by (simp add: bsize_def request_msg_def request_bytes_def sizeof_block_def)
  obtain q1 w1 off where T: "take_block w wake (net_recvQue n) = ret (q1, w1, Some off)" "lq_rep q1 []"
    "holds (lq_buff q1) off (enc ?m)" "msg_ok ?m" "0 \<le> off" "off + bsize ?m \<le> lq_bufflen q1"
    using take_block_Cons [OF q mx] by blast
  let ?n = "n\<lparr>net_recvQue := q1\<rparr>"
  have D: "dealMessage sys ?app ?n off = OnRecvMsg sys ?app False ?n fd (pack_addr a pt) (request_bytes (login_name, xs)) True"
    using dealMessage_read [of ?n off ?m sys ?app] T(3-6) by (simp add: request_msg_def)
  obtain r2 where r2: "rpc_requestMap r2 = rpc_requestMap (sv_rpc (net_app ?n))"
    "OnRecvMsg sys ?app False ?n fd (pack_addr a pt) (request_bytes (login_name, xs)) True =
      rbind (Server_Send sys quiet_app False (upd_server (\<lambda>sv. sv\<lparr>sv_rpc := r2\<rparr>) ?n) fd (pack_addr a pt) (login_reply ys))
        (\<lambda>(n1, _). ret n1)"
    using login_handled [of ?n, OF _ m, where main = False and sys = sys and fd = fd and a = a and p = pt] s(3) by auto
  let ?m' = "\<lparr>msg_fd = fd, msg_remote = pack_addr a pt, msg_type = MT_SVR_MESSAGE, msg_data = login_reply ys\<rparr>"
  have l: "length (login_reply ys) \<le> 1048343" using login_reply_bytes(1) [OF m(2)] m(2) by (simp add: pb_fits_def)
  have ok: "msg_ok ?m'"
    using fd l login_reply_bytes(2) to_u64_bounds by (simp add: msg_ok_def pack_addr_def MT_SVR_MESSAGE_def)
  have "bsize ?m' \<le> 1048576" using l by (simp add: bsize_def sizeof_block_def)
  note push = empty_MB_push [OF ok this]
  let ?n1 = "upd_server (\<lambda>sv. sv\<lparr>sv_rpc := r2\<rparr>) ?n"
  have "Server_Send sys quiet_app False ?n1 fd (pack_addr a pt) (login_reply ys) =
      ret (upd_server (\<lambda>sv. sv\<lparr>sv_sendQue := stored empty_MB ?m', sv_notified := Suc (sv_notified sv)\<rparr>) ?n1, 0)"
    using s(1,2) push(1) by (simp add: Server_Send_def PushMsg_def upd_server_def)
  then have "deal_round sys ?app wake (n, w) = ret (upd_server (\<lambda>sv. sv\<lparr>sv_rpc := r2, sv_sendQue := stored empty_MB ?m',
      sv_notified := Suc (sv_notified (net_app n))\<rparr>) ?n, w1)"
    using T(1) D r2(2) by (simp add: deal_round_def upd_server_def)
  then show ?thesis using T(2) r2(1) push(3) by auto
qed

text \<open>C7. The sample server with workers, from its configuration file to a player's login: a datagram that a
  client's \<open>login\<close> has made goes from the network thread's read callback through the receive queue to
  whichever worker takes it, and the response from there through the send queue back to the
  network thread, which sends it as exactly one datagram to where the request came from; then both queues
  are empty and the socket is as before.  A request of more than 81868 bytes would stop the server
  instead (\<open>longest_frame_aborts_worker\<close>).\<close>

theorem login_served_by_worker:
  assumes cfg: "udp_config items ip port workers" "0 < workers"
    and fd: "bind IOEV_UDP_PROTOCOL ip port = fd" "0 < fd" "fd < 10240" and s: "store_ok s"
    and m: "pb_fits qpb req xs" "pb_fits rpb (login_result req) ys" "length xs \<le> 81868"
    and client: "GameServiceClient_login qpb cli fd' req = ret (cli1, ([Server_SendMsg fd' 0 msg], Last_call))"
    and arrives: "sys_ioctl sys os fd = (os1, Some k)" "sys_recvfrom sys os1 fd k = (os2, Inr msg, a, p)"
      "int (length msg) \<le> k" "k \<le> 2 ^ 29" "0 \<le> a" "a < 2 ^ 32" "0 \<le> p" "p < 2 ^ 16"
    and send: "sys_sendto sys os2 fd (login_reply ys) a p = (os3, int (length (login_reply ys)))"
  shows "\<exists>n ws n1. server_main sys (game_app qpb rpb sys True) bind (Some (render_file items)) os s buf = ret (n, None, 0, ws) \<and>
    length ws = nat workers \<and>
    on_readable sys (server_methods sys (game_app qpb rpb sys True)) n 0 = ret n1 \<and>
    (\<forall>w wake. w \<in> set ws \<longrightarrow>
       (\<exists>n2 w1 n3. deal_round sys (game_app qpb rpb sys False) wake (n1, w) = ret (n2, w1) \<and> net_os n2 = os2 \<and>
          msgEventCb sys (game_app qpb rpb sys True) n2 = ret n3 \<and> net_os n3 = os3 \<and> login_socket n3 fd 0 \<and>
          lq_rep (net_recvQue n3) [] \<and> lq_rep (sv_sendQue (net_app n3)) []))"
proof -
  let ?app = "game_app qpb rpb sys True"
  have msg: "msg = request_bytes (login_name, xs)"
    using GameServiceClient_login_sends [OF m(1), of cli fd'] client by (auto simp: request_bytes_def)
  obtain n ws where n: "server_main sys ?app bind (Some (render_file items)) os s buf = ret (n, None, 0, ws)"
    "queueing n fd 0" "net_os n = os" "net_maxMsglen n = 81920" "length ws = nat workers" "\<forall>w \<in> set ws. wk_maxMsglen w = 81920"
    using server_main_serves [where app = ?app and bind = bind and sys = sys and os = os and buf = buf, OF cfg(1) fd s] cfg(2)
    by auto
  obtain e ps where e: "ci_bev (net_conns n fd) = Some 0" "net_bevs n 0 = Some e" "be_fd e = fd"
    "be_protocol e = IOEV_UDP_PROTOCOL" "be_rdcb e" "be_wrcb e" "bb_rep (net_store n) (be_recvBuffer e) ps" "length ps \<le> 1"
    "content ps = []"
    using n(2) by (auto simp: queueing_def login_socket_def conn_queued_def)
  have len: "length msg = 30 + length xs" by (simp add: msg request_bytes_def)
  obtain s1 q1 ps1 where R: "RecvData sys os (net_store n) e = ret (os2, s1, e\<lparr>be_recvBuffer := q1\<rparr>, [Rdcb fd (pack_addr a p)], 0)"
    "bb_rep s1 q1 ps1" "content ps1 = msg" "length ps1 \<le> 1"
    using recvUdpData_gets [OF e(7), of sys os os1 k os2 msg a p] arrives e m(3) len by auto
  let ?n = "(set_bev n (Some 0) (e\<lparr>be_recvBuffer := q1\<rparr>))\<lparr>net_os := os2, net_store := s1\<rparr>"
  have c: "conn_queued ?n fd (request_bytes (login_name, xs))" unfolding msg [symmetric]
    using n(2) R(2-4) e(1) len m(3) by (auto simp: queueing_def conn_queued_def set_bev_def GetConn_def split: if_splits)
  have x: "net_recvQue ?n = empty_MB" "net_maxMsglen ?n = 81920" "ci_protocol (net_conns ?n fd) = IOEV_UDP_PROTOCOL"
    "ci_ctype (net_conns ?n fd) = CONN_TYPE_CLI" "ci_bev (net_conns ?n fd) = Some 0" "net_bevs ?n 0 = Some (e\<lparr>be_recvBuffer := q1\<rparr>)"
    "net_app ?n = net_app n"
    using n(2,4) e(1,2) by (simp_all add: queueing_def login_socket_def set_bev_def)
  obtain n1 where n1: "RecvMsg (server_methods sys ?app) ?n fd (pack_addr a p) = ret (n1, 0)" "kept ?n n1 fd"
    "conn_queued n1 fd []" "lq_rep (net_recvQue n1) [request_msg fd (pack_addr a p) (login_name, xs)]"
    using RecvMsg_queues_login [OF c x(1) m(3) x(2) _ _ x(3,4), where srv = "server_methods sys ?app" and a = a and pt = p] fd
    by auto
  have rd: "on_readable sys (server_methods sys ?app) n 0 = ret n1"
    using R(1) e(2) n(3) n1(1) by (simp add: on_readable_def get_bev_def event_callback_def)
  obtain q2 where k: "net_os n1 = os2" "net_conns n1 = net_conns ?n" "net_app n1 = net_app n"
    "net_bevs n1 0 = Some (e\<lparr>be_recvBuffer := q2\<rparr>)"
    using n1(2) x(5-7) by (auto simp: kept_def)
  have sv: "sv_sendQue (net_app n1) = empty_MB" "\<not> sv_single (net_app n1)"
    "rpc_requestMap (sv_rpc (net_app n1)) login_name = Some Process_login"
    using n(2) k(3) by (simp_all add: queueing_def login_socket_def)
  have "\<exists>n2 w1 n3. deal_round sys (game_app qpb rpb sys False) wake (n1, w) = ret (n2, w1) \<and> net_os n2 = os2 \<and>
      msgEventCb sys ?app n2 = ret n3 \<and> net_os n3 = os3 \<and> login_socket n3 fd 0 \<and>
      lq_rep (net_recvQue n3) [] \<and> lq_rep (sv_sendQue (net_app n3)) []" if w: "w \<in> set ws" for w wake
  proof -
    have fd': "0 \<le> fd" "fd < 2 ^ 31" using fd by simp_all
    from deal_round_login [OF n1(4) sv m(1,2,3) _ fd', of w sys wake] n(6) w
    obtain q3 w1 r2 j m' where D: "deal_round sys (game_app qpb rpb sys False) wake (n1, w) =
        ret (upd_server (\<lambda>sv. sv\<lparr>sv_rpc := r2, sv_sendQue := stored empty_MB m', sv_notified := j\<rparr>) (n1\<lparr>net_recvQue := q3\<rparr>), w1)"
      "lq_rep q3 []" "rpc_requestMap r2 = rpc_requestMap (sv_rpc (net_app n1))"
      "m' = \<lparr>msg_fd = fd, msg_remote = pack_addr a p, msg_type = MT_SVR_MESSAGE, msg_data = login_reply ys\<rparr>"
      "lq_rep (stored empty_MB m') [m']"
      by auto
    let ?n2 = "upd_server (\<lambda>sv. sv\<lparr>sv_rpc := r2, sv_sendQue := stored empty_MB m', sv_notified := j\<rparr>) (n1\<lparr>net_recvQue := q3\<rparr>)"
    have sent: "Net_Message.SendMsg sys (close_calls ?app) ?n2 fd (pack_addr a p) (login_reply ys) = ret (?n2\<lparr>net_os := os3\<rparr>, 0)"
      using n1(3) k x(5) e(3-6) send arrives(5-8)
      by (intro login_sent [where h = 0 and e = "e\<lparr>be_recvBuffer := q2\<rparr>", OF _ _ _ _ _ _ m(2)])
        (simp_all add: upd_server_def conn_queued_def GetConn_def split: if_splits)
    have "send_each sys (close_calls ?app) ?n2 [m'] = ret (?n2\<lparr>net_os := os3\<rparr>)" using sent D(4) by simp
    from OnSendMsgEvent_each [OF D(5) this] obtain q4 where
      o4: "OnSendMsgEvent sys (close_calls ?app) ?n2 (stored empty_MB m') = ret (?n2\<lparr>net_os := os3\<rparr>, q4)" "lq_rep q4 []" by blast
    let ?n3 = "upd_server (\<lambda>sv. sv\<lparr>sv_sendQue := q4\<rparr>) (?n2\<lparr>net_os := os3\<rparr>)"
    have "msgEventCb sys ?app ?n2 = ret ?n3" using o4(1) by (simp add: msgEventCb_def upd_server_def)
    moreover have "login_socket ?n3 fd 0"
      using k x(3-5) e(3-6) D(3) sv(3) by (simp add: login_socket_def upd_server_def)
    ultimately show ?thesis using D(1,2) k(1) o4(2) by (intro exI [of _ ?n2] exI [of _ w1] exI [of _ ?n3]) (simp add: upd_server_def)
  qed
  then show ?thesis using n(1,5) rd by blast
qed

definition game_cfg2 :: "ini_item list" where
  "game_cfg2 = game_cfg @ [Assign \<lparr>il_key = ''work_num'', il_val = ''2'', il_pads = (0, 1, 1, 0), il_comment = None\<rparr>]"

lemma game_cfg2_udp: "udp_config game_cfg2 ''127.0.0.1'' 8812 2"
proof -
  have "show_int 2 = ''2''" by code_simp
  moreover have "item_ok (Assign \<lparr>il_key = ''work_num'', il_val = ''2'', il_pads = (0, 1, 1, 0), il_comment = None\<rparr>)"
    by (simp add: trimmed_def plain_def newline_def render_comment_def render_body_def INI_BUFF_LEN_def)
  ultimately show ?thesis using game_cfg_udp unfolding udp_config_def Let_def game_cfg2_def
    by (auto simp: game_cfg_def)
qed

lemma login_served_by_worker_witness:
  "\<exists>n ws n1 w n2 w1 n3. server_main (game_sys (request_bytes (login_name, [7])))
        (game_app sample_qpb sample_rpb (game_sys (request_bytes (login_name, [7]))) True)
        (\<lambda>protocol ip port. if port = 8812 then 9 else -1) (Some (render_file game_cfg2)) [] (empty_store (\<lambda>_ _. 0)) (\<lambda>_. 0)
      = ret (n, None, 0, ws) \<and> length ws = 2 \<and> w \<in> set ws \<and>
    on_readable (game_sys (request_bytes (login_name, [7])))
      (server_methods (game_sys (request_bytes (login_name, [7])))
         (game_app sample_qpb sample_rpb (game_sys (request_bytes (login_name, [7]))) True)) n 0 = ret n1 \<and>
    deal_round (game_sys (request_bytes (login_name, [7])))
      (game_app sample_qpb sample_rpb (game_sys (request_bytes (login_name, [7]))) False) Map.empty (n1, w) = ret (n2, w1) \<and>
    msgEventCb (game_sys (request_bytes (login_name, [7])))
      (game_app sample_qpb sample_rpb (game_sys (request_bytes (login_name, [7]))) True) n2 = ret n3 \<and>
    net_os n3 = [(2130706433, 9000, login_reply [7, 24])]"
proof -
  let ?msg = "request_bytes (login_name, [7])"
  let ?sys = "game_sys ?msg" and ?b = "\<lambda>(protocol :: int) (ip :: string) (port :: int). if port = 8812 then 9 else -1 :: int"
  obtain c1 where c1: "GameServiceClient_login sample_qpb (new_IRpc (\<lambda>_. 0)) 3 \<lparr>lq_player_id = 7\<rparr> =
      ret (c1, ([Server_SendMsg 3 0 ?msg], Last_call))"
    using GameServiceClient_login_sends [OF sample_fits(1), of "new_IRpc (\<lambda>_. 0)" 3] by (auto simp: request_bytes_def)
  have r: "pb_fits sample_rpb (login_result \<lparr>lq_player_id = 7\<rparr>) [7, 24]" using sample_fits(2) by (simp add: login_result_def)
  have "\<exists>n ws n1. server_main ?sys (game_app sample_qpb sample_rpb ?sys True) ?b (Some (render_file game_cfg2)) []
        (empty_store (\<lambda>_ _. 0)) (\<lambda>_. 0) = ret (n, None, 0, ws) \<and> length ws = nat 2 \<and>
      on_readable ?sys (server_methods ?sys (game_app sample_qpb sample_rpb ?sys True)) n 0 = ret n1 \<and>
      (\<forall>w wake. w \<in> set ws \<longrightarrow>
         (\<exists>n2 w1 n3. deal_round ?sys (game_app sample_qpb sample_rpb ?sys False) wake (n1, w) = ret (n2, w1) \<and> net_os n2 = [] \<and>
            msgEventCb ?sys (game_app sample_qpb sample_rpb ?sys True) n2 = ret n3 \<and>
            net_os n3 = [(2130706433, 9000, login_reply [7, 24])] \<and> login_socket n3 9 0 \<and>
            lq_rep (net_recvQue n3) [] \<and> lq_rep (sv_sendQue (net_app n3)) []))"
    by (rule login_served_by_worker [where bind = ?b and cli = "new_IRpc (\<lambda>_. 0)" and a = 2130706433 and p = 9000 and
          ?os1.0 = "[]" and ?os2.0 = "[]" and k = "int (length ?msg)",
          OF game_cfg2_udp _ _ _ _ store_ok_empty sample_fits(1) r _ c1])
      (simp_all add: game_sys_def request_bytes_def)
  then obtain n ws n1 where n: "server_main ?sys (game_app sample_qpb sample_rpb ?sys True) ?b (Some (render_file game_cfg2)) []
        (empty_store (\<lambda>_ _. 0)) (\<lambda>_. 0) = ret (n, None, 0, ws)" "length ws = 2"
      "on_readable ?sys (server_methods ?sys (game_app sample_qpb sample_rpb ?sys True)) n 0 = ret n1"
      "\<And>w wake. w \<in> set ws \<Longrightarrow>
         \<exists>n2 w1 n3. deal_round ?sys (game_app sample_qpb sample_rpb ?sys False) wake (n1, w) = ret (n2, w1) \<and>
            msgEventCb ?sys (game_app sample_qpb sample_rpb ?sys True) n2 = ret n3 \<and>
            net_os n3 = [(2130706433, 9000, login_reply [7, 24])]"
    by auto metis
  have w: "ws ! 0 \<in> set ws" using n(2) by (intro nth_mem) simp
  from n(4) [OF w, of Map.empty] obtain n2 w1 n3 where
    "deal_round ?sys (game_app sample_qpb sample_rpb ?sys False) Map.empty (n1, ws ! 0) = ret (n2, w1)"
    "msgEventCb ?sys (game_app sample_qpb sample_rpb ?sys True) n2 = ret n3"
    "net_os n3 = [(2130706433, 9000, login_reply [7, 24])]" by blast
  with n(1-3) w show ?thesis by blast
qed

end
