(* ===== verification/Net_Sessions.thy ===== *)
theory Net_Sessions
  imports Net_Stream
begin

text \<open>
  Many clients at once (framework/NetMessage.cc, IOEventEv.cc, BlockBuffer.cc, Server.cc and IRpc.cc together, on the
  network thread of a server without workers).

  Theory \<open>Net_Stream\<close> follows one connection; here any number of them are open, whatever their sockets do is
  interleaved, and answers are written: all receive and send buffers lie in the one pool of blocks.
\<close>

section \<open>Buffers that share the pool\<close>

definition buffers :: "block_store \<Rightarrow> 'i set \<Rightarrow> ('i \<Rightarrow> block_buffer) \<Rightarrow> ('i \<Rightarrow> blocks) \<Rightarrow> bool" where
  "buffers s I B P \<longleftrightarrow>
     (\<forall>i \<in> I. bb_rep s (B i) (P i)) \<and> (\<forall>i \<in> I. \<forall>j \<in> I. i \<noteq> j \<longrightarrow> addrs (P i) \<inter> addrs (P j) = {})"

lemma buffers_change:
  assumes "buffers s I B P" "i \<in> I" "evolves s (P i) t p" "bb_rep t b p"
  shows "buffers t I (B(i := b)) (P(i := p))"
proof -
  have ok: "store_ok t" using assms(4) by (simp add: bb_rep_def links_def)
  have other: "bb_rep t (B j) (P j) \<and> addrs (P j) \<inter> addrs p = {}" if "j \<in> I" "j \<noteq> i" for j
    using bb_rep_frame [OF _ assms(3) ok, of "B j" "P j"] that assms(1,2) by (auto simp: buffers_def)
  show ?thesis unfolding buffers_def
  proof (intro conjI ballI impI)
    fix j assume "j \<in> I"
    then show "bb_rep t ((B(i := b)) j) ((P(i := p)) j)" using other assms(4) by simp
  next
    fix j k assume "j \<in> I" "k \<in> I" "j \<noteq> k"
    then show "addrs ((P(i := p)) j) \<inter> addrs ((P(i := p)) k) = {}"
      using other [of j] other [of k] assms(1) by (auto simp: buffers_def)
  qed
qed

section \<open>The system\<close>

text \<open>
  What is assumed of the system's stream sockets, as documented: each has its own pieces to come, \<open>pending\<close>, and its own
  bytes taken, \<open>wire\<close>; \<open>recv\<close> and \<open>send\<close> on one change nothing of another; no socket fails; \<open>busy\<close>
  bounds how often in a row one may refuse to take a byte.
\<close>

definition streams ::
  "'os sys \<Rightarrow> int set \<Rightarrow> ('os \<Rightarrow> int \<Rightarrow> byte list list) \<Rightarrow> ('os \<Rightarrow> int \<Rightarrow> byte list) \<Rightarrow> ('os \<Rightarrow> nat) \<Rightarrow> bool" where
  "streams sys F pending wire busy \<longleftrightarrow>
     (\<forall>fd \<in> F.
        (\<forall>os xs segs. pending os fd = xs # segs \<longrightarrow>
           xs \<noteq> [] \<and>
           (\<exists>os1 k os2. sys_ioctl sys os fd = (os1, Some k) \<and> int (length xs) \<le> k \<and> k \<le> 2 ^ 29 \<and>
              sys_recv sys os1 fd k = (os2, Inr xs) \<and> pending os2 = (pending os)(fd := segs) \<and> wire os2 = wire os)) \<and>
        (\<forall>os xs os1 len errno. sys_send sys os fd xs = (os1, len, errno) \<longrightarrow>
           len \<le> int (length xs) \<and> (len < 0 \<longrightarrow> errno \<in> {EINTR, EAGAIN}) \<and>
           (xs \<noteq> [] \<longrightarrow> len \<le> 0 \<longrightarrow> busy os1 < busy os) \<and>
           pending os1 = pending os \<and> wire os1 = (wire os)(fd := wire os fd @ take (nat len) xs)))"

lemma streams_recv:
  assumes "streams sys F pending wire busy" "fd \<in> F" "pending os fd = xs # segs"
  obtains os1 k os2 where "xs \<noteq> []" "sys_ioctl sys os fd = (os1, Some k)" "int (length xs) \<le> k" "k \<le> 2 ^ 29"
    "sys_recv sys os1 fd k = (os2, Inr xs)" "pending os2 = (pending os)(fd := segs)" "wire os2 = wire os"
  using assms unfolding streams_def by blast

text \<open>
  On one socket this is what \<open>Write_stream\<close> assumes; that nothing else changes comes out of it too, when the bytes taken
  are observed together with a mark that is 0 as long as all the rest is as it was.
\<close>

definition marked ::
  "('os \<Rightarrow> int \<Rightarrow> byte list list) \<Rightarrow> ('os \<Rightarrow> int \<Rightarrow> byte list) \<Rightarrow> int \<Rightarrow> 'os \<Rightarrow> 'os \<Rightarrow> byte list" where
  "marked pending wire fd os0 os =
     (if pending os = pending os0 \<and> (\<forall>g. g \<noteq> fd \<longrightarrow> wire os g = wire os0 g) then 0 else 1) # wire os fd"

lemma streams_send:
  assumes "streams sys F pending wire busy" "fd \<in> F"
  shows "send_ok sys fd (marked pending wire fd os0)" "send_patient sys fd busy" "\<not> send_fails sys fd"
proof -
  have s: "len \<le> int (length xs) \<and> (len < 0 \<longrightarrow> errno \<in> {EINTR, EAGAIN}) \<and> (xs \<noteq> [] \<longrightarrow> len \<le> 0 \<longrightarrow> busy os1 < busy os) \<and>
      pending os1 = pending os \<and> wire os1 = (wire os)(fd := wire os fd @ take (nat len) xs)"
    if "sys_send sys os fd xs = (os1, len, errno)" for os xs os1 len errno
    using assms that unfolding streams_def by blast
  show "send_ok sys fd (marked pending wire fd os0)" unfolding send_ok_def marked_def by (auto dest!: s)
  show "send_patient sys fd busy" unfolding send_patient_def by (fastforce dest!: s)
  show "\<not> send_fails sys fd" unfolding send_fails_def by (auto dest!: s)
qed

lemma marked_unchanged:
  assumes "marked pending wire fd os os1 @ xs = marked pending wire fd os os @ ys"
  shows "pending os1 = pending os" "wire os1 fd @ xs = wire os fd @ ys" "g \<noteq> fd \<Longrightarrow> wire os1 g = wire os g"
  using assms by (auto simp: marked_def split: if_splits)

section \<open>Open connections\<close>

definition tcp_conn :: "('os, 'app) net \<Rightarrow> int \<Rightarrow> nat \<Rightarrow> buffer_event \<Rightarrow> bool" where
  "tcp_conn n fd h e \<longleftrightarrow>
     GetConn n fd = Some fd \<and> ci_bev (net_conns n fd) = Some h \<and> net_bevs n h = Some e \<and>
     ci_protocol (net_conns n fd) = IOEV_TCP_PROTOCOL \<and> ci_ctype (net_conns n fd) = CONN_TYPE_CLI \<and>
     be_fd e = fd \<and> be_protocol e = IOEV_TCP_PROTOCOL \<and> be_rdcb e \<and> be_evcb e \<and> be_evwr e \<noteq> None"

text \<open>\<open>E fd\<close> is the event of a descriptor in \<open>F\<close>, at the address \<open>H fd\<close>; its two buffers are the chains \<open>P (fd, False)\<close>, which
  receives, and \<open>P (fd, True)\<close>, which sends.\<close>

definition side :: "(int \<Rightarrow> buffer_event) \<Rightarrow> int \<times> bool \<Rightarrow> block_buffer" where
  "side E i = (if snd i then be_sendBuffer (E (fst i)) else be_recvBuffer (E (fst i)))"

definition sess ::
  "('os, 'app) net \<Rightarrow> int set \<Rightarrow> (int \<Rightarrow> nat) \<Rightarrow> (int \<Rightarrow> buffer_event) \<Rightarrow> (int \<times> bool \<Rightarrow> blocks) \<Rightarrow> bool" where
  "sess n F H E P \<longleftrightarrow>
     0 \<le> net_maxMsglen n \<and> net_maxMsglen n \<le> 2 ^ 30 \<and>
     (net_single n \<longrightarrow> int (length (net_recvBuffer n)) = net_maxMsglen n) \<and> inj_on H F \<and>
     (\<forall>fd \<in> F. tcp_conn n fd (H fd) (E fd) \<and> length (P (fd, False)) \<le> 1) \<and>
     buffers (net_store n) (F \<times> UNIV) (side E) P"

text \<open>\<open>C fd\<close> has been received and not yet read; \<open>Q fd\<close> has been sent, or is waiting to be.\<close>

definition sessions ::
  "('os \<Rightarrow> int \<Rightarrow> byte list) \<Rightarrow> ('os, 'app) net \<Rightarrow> int set \<Rightarrow> (int \<Rightarrow> byte list) \<Rightarrow> (int \<Rightarrow> byte list) \<Rightarrow> bool" where
  "sessions wire n F C Q \<longleftrightarrow>
     (\<exists>H E P. sess n F H E P \<and>
        (\<forall>fd \<in> F. content (P (fd, False)) = C fd \<and> wire (net_os n) fd @ content (P (fd, True)) = Q fd))"

text \<open>One buffer changes, and what it is part of.\<close>

lemma sess_change:
  assumes s: "sess n F H E P" "fd \<in> F"
    and b: "evolves (net_store n) (P (fd, out)) s1 p" "bb_rep s1 q p" "\<not> out \<longrightarrow> length p \<le> 1"
    and e: "e1 = (if out then (E fd)\<lparr>be_sendBuffer := q, be_evwr := x\<rparr> else (E fd)\<lparr>be_recvBuffer := q\<rparr>)" "x \<noteq> None"
    and n: "net_store n1 = s1" "net_bevs n1 = (net_bevs n)(H fd \<mapsto> e1)" "net_conns n1 = net_conns n" "net_maxfds n1 = net_maxfds n"
      "net_single n1 = net_single n" "net_maxMsglen n1 = net_maxMsglen n" "length (net_recvBuffer n1) = length (net_recvBuffer n)"
  shows "sess n1 F H (E(fd := e1)) (P((fd, out) := p))"
proof -
  have "side (E(fd := e1)) = (side E)((fd, out) := q)" by (rule ext) (auto simp: side_def e(1))
  then have B: "buffers s1 (F \<times> UNIV) (side (E(fd := e1))) (P((fd, out) := p))"
    using buffers_change [where i = "(fd, out)" and P = P and B = "side E" and I = "F \<times> UNIV", OF _ _ b(1,2)] s by (simp add: sess_def)
  have "tcp_conn n1 g (H g) ((E(fd := e1)) g)" if "g \<in> F" for g
  proof -
    have "H g = H fd \<longleftrightarrow> g = fd" using s that by (auto simp: sess_def inj_on_def)
    then show ?thesis using s(1) that n e unfolding sess_def tcp_conn_def GetConn_def by (auto split: if_splits)
  qed
  moreover have "length ((P((fd, out) := p)) (g, False)) \<le> 1" if "g \<in> F" for g
    using s(1) that b(3) by (simp add: sess_def)
  ultimately show ?thesis using s(1) n B unfolding sess_def by simp
qed

lemma sess_app: "sess (upd_server f n) F H E P = sess n F H E P"
  by (simp add: sess_def tcp_conn_def GetConn_def upd_server_def)

lemma sessions_app [simp]: "sessions wire (upd_server f n) F C Q = sessions wire n F C Q"
  unfolding sessions_def sess_app by (simp add: upd_server_def)

lemma sessD:
  assumes "sess n F H E P" "fd \<in> F"
  shows "tcp_conn n fd (H fd) (E fd)" "bb_rep (net_store n) (be_recvBuffer (E fd)) (P (fd, False))"
    "bb_rep (net_store n) (be_sendBuffer (E fd)) (P (fd, True))" "length (P (fd, False)) \<le> 1"
    "net_single n \<longrightarrow> int (length (net_recvBuffer n)) = net_maxMsglen n" "0 \<le> net_maxMsglen n" "net_maxMsglen n \<le> 2 ^ 30"
  using assms by (auto simp: sess_def buffers_def side_def split: if_splits)

text \<open>The table of connections, and which events there are.\<close>

definition conn_table :: "('os, 'app) net \<Rightarrow> (int \<Rightarrow> conn_info) \<times> nat \<times> int \<times> nat set \<times> bool" where
  "conn_table n = (net_conns n, net_brk n, net_maxfds n, dom (net_bevs n), net_single n)"

lemma conn_table_set [simp]:
  assumes "net_bevs n h = Some e"
  shows "conn_table ((set_bev n (Some h) e1)\<lparr>net_os := os1, net_store := s1\<rparr>) = conn_table n"
    "conn_table (frame_taken n h e2 s1 q1 f) = conn_table n"
  using assms by (auto simp: conn_table_def set_bev_def frame_taken_def)

lemma conn_table_app [simp]: "conn_table (upd_server f n) = conn_table n"
  by (simp add: conn_table_def upd_server_def)

section \<open>Sending\<close>

lemma session_sends:
  assumes sys: "streams sys F pending wire busy" and n: "sessions wire n F C Q" "fd \<in> F" and d: "data \<noteq> []" "length data \<le> 2 ^ 30"
  shows "\<exists>n1. Net_Message.SendMsg sys srv n fd remote data = ret (n1, 0) \<and> sessions wire n1 F C (Q(fd := Q fd @ data)) \<and>
    pending (net_os n1) = pending (net_os n) \<and> net_maxMsglen n1 = net_maxMsglen n \<and> net_app n1 = net_app n \<and> conn_table n1 = conn_table n \<and> net_recvQue n1 = net_recvQue n"
proof -
  obtain H E P where S: "sess n F H E P"
    "\<forall>fd \<in> F. content (P (fd, False)) = C fd \<and> wire (net_os n) fd @ content (P (fd, True)) = Q fd"
    using n(1) unfolding sessions_def by blast
  note s = sessD [OF S(1) n(2)]
  have e: "be_fd (E fd) = fd" "be_protocol (E fd) = IOEV_TCP_PROTOCOL" "be_evwr (E fd) \<noteq> None" "be_evcb (E fd)"
    using s(1) by (simp_all add: tcp_conn_def)
  note so = streams_send [OF sys n(2)]
  obtain os1 s1 q1 x calls ps1 where W:
    "Write sys (net_os n) (net_store n) (E fd) remote data = ret (os1, s1, (E fd)\<lparr>be_sendBuffer := q1, be_evwr := x\<rparr>, calls, 0)"
    "x \<noteq> None" "bb_rep s1 q1 ps1" "evolves (net_store n) (P (fd, True)) s1 ps1" "calls = []"
    "marked pending wire fd (net_os n) os1 @ content ps1 = marked pending wire fd (net_os n) (net_os n) @ content (P (fd, True)) @ data"
    using Write_stream [of sys "E fd" "marked pending wire fd (net_os n)" busy, OF _ _ s(3) e(2,3,4) d, of "net_os n" remote]
      so unfolding e(1) by blast
  note u = marked_unchanged [OF W(6)]
  let ?e1 = "(E fd)\<lparr>be_sendBuffer := q1, be_evwr := x\<rparr>"
  let ?n1 = "(set_bev n (Some (H fd)) ?e1)\<lparr>net_os := os1, net_store := s1\<rparr>"
  have "Net_Message.SendMsg sys srv n fd remote data = ret (?n1, 0)"
    using s(1) W(1,5) by (simp add: Net_Message.SendMsg_def tcp_conn_def get_bev_def assert_that_def)
  moreover have "sess ?n1 F H (E(fd := ?e1)) (P((fd, True) := ps1))"
    by (rule sess_change [OF S(1) n(2) W(4,3) _ _ W(2)]) (simp_all add: set_bev_def)
  then have "sessions wire ?n1 F C (Q(fd := Q fd @ data))"
    unfolding sessions_def using S(2) u(2,3)
    by (intro exI [of _ H] exI [of _ "E(fd := ?e1)"] exI [of _ "P((fd, True) := ps1)"]) (auto simp: set_bev_def)
  moreover have "conn_table ?n1 = conn_table n" using s(1) by (simp add: tcp_conn_def)
  ultimately show ?thesis using u(1) by (intro exI [of _ ?n1]) (simp add: set_bev_def)
qed

text \<open>When the socket is writable, all that waits is sent.\<close>

lemma session_flushes:
  assumes sys: "streams sys F pending wire busy" and n: "sessions wire n F C Q" "fd \<in> F"
  shows "\<exists>n1. on_writable sys srv n (the (ci_bev (net_conns n fd))) = ret n1 \<and> sessions wire n1 F C Q \<and>
    wire (net_os n1) fd = Q fd \<and>
    pending (net_os n1) = pending (net_os n) \<and> net_maxMsglen n1 = net_maxMsglen n \<and> net_app n1 = net_app n \<and> conn_table n1 = conn_table n \<and> net_recvQue n1 = net_recvQue n"
proof -
  obtain H E P where S: "sess n F H E P"
    "\<forall>fd \<in> F. content (P (fd, False)) = C fd \<and> wire (net_os n) fd @ content (P (fd, True)) = Q fd"
    using n(1) unfolding sessions_def by blast
  note s = sessD [OF S(1) n(2)]
  have e: "be_fd (E fd) = fd" "ci_bev (net_conns n fd) = Some (H fd)" "net_bevs n (H fd) = Some (E fd)"
    "be_evwr (E fd) \<noteq> None" using s(1) by (simp_all add: tcp_conn_def)
  note so = streams_send [OF sys n(2)]
  obtain os1 s1 q1 ps1 ok where "flush_loop sys (net_os n) fd (net_store n) (be_sendBuffer (E fd)) = ret (os1, s1, q1, ok)"
    "bb_rep s1 q1 ps1" "evolves (net_store n) (P (fd, True)) s1 ps1" "ok \<longrightarrow> content ps1 = []" ok
    "marked pending wire fd (net_os n) os1 @ content ps1 = marked pending wire fd (net_os n) (net_os n) @ content (P (fd, True))"
    using flush_loop_ok [of sys fd "marked pending wire fd (net_os n)" busy, OF _ _ s(3), of "net_os n"] so by blast
  then have W: "flush_loop sys (net_os n) fd (net_store n) (be_sendBuffer (E fd)) = ret (os1, s1, q1, True)"
    "bb_rep s1 q1 ps1" "evolves (net_store n) (P (fd, True)) s1 ps1" "content ps1 = []"
    "marked pending wire fd (net_os n) os1 @ content ps1 = marked pending wire fd (net_os n) (net_os n) @ content (P (fd, True))"
    by simp_all
  note u = marked_unchanged [OF W(5)]
  let ?e1 = "(E fd)\<lparr>be_sendBuffer := q1\<rparr>"
  let ?n1 = "(set_bev n (Some (H fd)) ?e1)\<lparr>net_os := os1, net_store := s1\<rparr>"
  have "on_writable sys srv n (the (ci_bev (net_conns n fd))) = ret ?n1"
    using W(1) e by (simp add: on_writable_def get_bev_def FlushSendBuffer_def)
  moreover have "sess ?n1 F H (E(fd := ?e1)) (P((fd, True) := ps1))"
    by (rule sess_change [OF S(1) n(2) W(3,2) _ _ e(4)]) (simp_all add: set_bev_def)
  then have "sessions wire ?n1 F C Q"
    unfolding sessions_def using S(2) u(2,3) n(2)
    by (intro exI [of _ H] exI [of _ "E(fd := ?e1)"] exI [of _ "P((fd, True) := ps1)"]) (auto simp: set_bev_def)
  moreover have "wire os1 fd = Q fd" using u(2) W(4) S(2) n(2) by simp
  moreover have "conn_table ?n1 = conn_table n" using s(1) by (simp add: tcp_conn_def)
  ultimately show ?thesis using u(1) by (intro exI [of _ ?n1]) (simp add: set_bev_def)
qed

section \<open>Requests and answers\<close>

text \<open>What neither an arriving message nor its handling may change.\<close>

definition kept :: "('os \<Rightarrow> 'p) \<Rightarrow> ('os, 'h, 's, 'c, 'a) world \<Rightarrow>
    'p \<times> int \<times> ((byte list \<rightharpoonup> 'h) \<times> (byte list \<rightharpoonup> 'h) \<times> (byte list \<rightharpoonup> 's) \<times> 'h option) \<times>
      (int \<Rightarrow> conn_info) \<times> nat \<times> int \<times> nat set \<times> bool" where
  "kept pending n = (pending (net_os n), net_maxMsglen n, rpc_tables (sv_rpc (net_app n)), conn_table n)"

text \<open>
  What is assumed of the application: a function called for a request on one of the connections appends its answer
  (possibly none) to what this connection sends, and nothing else happens to any of them.
\<close>

definition app_replies ::
  "('os, 'h, 's, 'c, 'a) app_code \<Rightarrow> int set \<Rightarrow> ('os \<Rightarrow> int \<Rightarrow> byte list list) \<Rightarrow> ('os \<Rightarrow> int \<Rightarrow> byte list) \<Rightarrow>
     ('h \<Rightarrow> byte list \<Rightarrow> byte list) \<Rightarrow> bool" where
  "app_replies app F pending wire reply \<longleftrightarrow>
     (\<forall>n C Q fd h data. sessions wire n F C Q \<longrightarrow> fd \<in> F \<longrightarrow> length data \<le> 4096 \<longrightarrow>
        (\<exists>n1. app_handle app (Call_request h fd 0 (if data = [] then None else Some data) (int (length data))) n = ret n1 \<and>
           sessions wire n1 F C (Q(fd := Q fd @ reply h data)) \<and> kept pending n1 = kept pending n))"

text \<open>The answer to a request: that of the function registered under its name, or that there is none.\<close>

definition answer :: "(byte list \<rightharpoonup> 'h) \<Rightarrow> ('h \<Rightarrow> byte list \<Rightarrow> byte list) \<Rightarrow> byte list \<times> byte list \<Rightarrow> byte list" where
  "answer M reply req = (case M (fst req) of Some h \<Rightarrow> reply h (snd req) | None \<Rightarrow> head_bytes 101 (fst req) 0)"

definition fits :: "int \<Rightarrow> byte list \<times> byte list \<Rightarrow> bool" where
  "fits mx req \<longleftrightarrow> length (fst req) \<le> 244 \<and> 12 + int (length (fst req)) + int (length (snd req)) \<le> min 4096 mx"

lemma session_request:
  assumes sys: "streams sys F pending wire busy" and app: "app_replies app F pending wire reply"
    and n: "sessions wire n F C Q" "fd \<in> F" "rpc_baseRequest (sv_rpc (net_app n)) = None" and req: "fits mx req"
  shows "\<exists>n1. OnRecvMsg sys app True n fd 0 (request_bytes req) True = ret n1 \<and> kept pending n1 = kept pending n \<and>
    sessions wire n1 F C (Q(fd := Q fd @ answer (rpc_requestMap (sv_rpc (net_app n))) reply req))"
proof -
  let ?r = "sv_rpc (net_app n)" and ?d = "snd req"
  have l: "length (fst req) \<le> 244" "length ?d \<le> 4096" using req by (auto simp: fits_def)
  have i0: "to_i64 0 = 0" by (simp add: to_i64_def)
  show ?thesis
  proof (cases "rpc_requestMap ?r (fst req)")
    case None
    obtain r1 where R: "OnRecvCliMsg ?r fd 0 (Some (head_bytes 0 (fst req) (int (length ?d)) @ ?d @ []))
        (12 + int (length (fst req)) + int (length ?d)) = ret (r1, ([Server_SendMsg fd 0 (head_bytes 101 (fst req) 0)], Const (-1)))"
      using OnRecvCliMsg_unknown [OF l(1), of ?d 0 ?r fd 0 "[]"] None n(3) l by fastforce
    let ?n0 = "upd_server (\<lambda>sv. sv\<lparr>sv_rpc := r1\<rparr>) n"
    have "sessions wire ?n0 F C Q" using n(1) by simp
    moreover have "head_bytes 101 (fst req) 0 \<noteq> []" "length (head_bytes 101 (fst req) 0) \<le> 2 ^ 30"
      using l(1) head_bytes_ne by simp_all
    ultimately obtain n1 where S: "Net_Message.SendMsg sys (close_calls app) ?n0 fd 0 (head_bytes 101 (fst req) 0) = ret (n1, 0)"
      "sessions wire n1 F C (Q(fd := Q fd @ head_bytes 101 (fst req) 0))" "pending (net_os n1) = pending (net_os ?n0)"
      "net_maxMsglen n1 = net_maxMsglen ?n0" "net_app n1 = net_app ?n0" "conn_table n1 = conn_table ?n0"
      using session_sends [OF sys _ n(2)] by metis
    have "OnRecvMsg sys app True n fd 0 (request_bytes req) True = ret n1"
      using R S(1) by (simp add: OnRecvMsg_def request_bytes_def split_def Server_Send_def add.assoc)
    moreover have "kept pending n1 = kept pending n"
      using S(3-5) S(6) [unfolded conn_table_app] OnRecvCliMsg_tables [OF R] by (simp add: kept_def upd_server_def)
    ultimately show ?thesis using S(2) None by (auto simp: answer_def)
  next
    case (Some h)
    obtain hd where R: "OnRecvCliMsg ?r fd 0 (Some (request_bytes req)) (int (length (request_bytes req))) =
        ret (?r\<lparr>rpc_rhead := hd\<rparr>, ([Call_request h fd 0 (if ?d = [] then None else Some ?d) (int (length ?d))], Last_call))"
      using OnRecvCliMsg_request [of "fst req" ?d ?r fd 0] l Some i0 by (auto simp: request_call_def split_def)
    let ?n0 = "upd_server (\<lambda>sv. sv\<lparr>sv_rpc := ?r\<lparr>rpc_rhead := hd\<rparr>\<rparr>) n"
    have "sessions wire ?n0 F C Q" using n(1) by simp
    then obtain n1 where S: "app_handle app (Call_request h fd 0 (if ?d = [] then None else Some ?d) (int (length ?d))) ?n0 = ret n1"
      "sessions wire n1 F C (Q(fd := Q fd @ reply h ?d))" "kept pending n1 = kept pending ?n0"
      using app n(2) l(2) unfolding app_replies_def by blast
    have "OnRecvMsg sys app True n fd 0 (request_bytes req) True = ret n1"
      using R S(1) by (simp add: OnRecvMsg_def)
    moreover have "kept pending n1 = kept pending n" using S(3) by (simp add: kept_def) (simp add: upd_server_def)
    ultimately show ?thesis using S(2) Some by (auto simp: answer_def)
  qed
qed

section \<open>Reading\<close>

text \<open>One request is taken off the buffer and answered.\<close>

lemma session_frame:
  assumes sys: "streams sys F pending wire busy" and app: "app_replies app F pending wire reply"
    and n: "sessions wire n F C Q" "fd \<in> F" "rpc_baseRequest (sv_rpc (net_app n)) = None"
    and c: "C fd = request_bytes req @ rest" "fits (net_maxMsglen n) req" and single: "net_single n"
  shows "\<exists>n1. recv_msg (server_methods sys app) n fd 0 = ret (n1, int (length (request_bytes req))) \<and> kept pending n1 = kept pending n \<and>
    sessions wire n1 F (C(fd := rest)) (Q(fd := Q fd @ answer (rpc_requestMap (sv_rpc (net_app n))) reply req))"
proof -
  let ?f = "request_bytes req" and ?srv = "server_methods sys app"
  obtain H E P where S: "sess n F H E P"
    "\<forall>fd \<in> F. content (P (fd, False)) = C fd \<and> wire (net_os n) fd @ content (P (fd, True)) = Q fd"
    using n(1) unfolding sessions_def by blast
  note s = sessD [OF S(1) n(2)]
  have e: "ci_bev (net_conns n fd) = Some (H fd)" "net_bevs n (H fd) = Some (E fd)" "GetConn n fd = Some fd"
    "be_evwr (E fd) \<noteq> None" "ci_ctype (net_conns n fd) \<noteq> CONN_TYPE_SVR"
    using s(1) by (simp_all add: tcp_conn_def CONN_TYPE_CLI_def CONN_TYPE_SVR_def)
  have f: "frame_ok (net_maxMsglen n) ?f"
    using request_frame [of "fst req" "snd req" "net_maxMsglen n"] c(2) s(7) by (simp add: fits_def)
  then have len: "int (length ?f) \<le> net_maxMsglen n" "be_val (take 4 ?f) = int (length ?f)" by (simp_all add: frame_ok_def)
  have x: "content (P (fd, False)) = ?f @ rest" "length (?f @ rest) < 2 ^ 31" "length ?f \<le> length (net_recvBuffer n)"
    using S(2) n(2) c(1) s(2,5) single len(1) by (auto simp: bb_rep_def)
  obtain s1 q1 ps1 where R: "CopyReadBuff (net_store n) (E fd) [0, 0, 0, 0] 4 = ret (take 4 ?f, 4)"
    "GetReadBuffLen (net_store n) (E fd) = ret (int (length (?f @ rest)))"
    "Read (net_store n) (E fd) (net_recvBuffer n) (int (length ?f)) =
       ret (s1, (E fd)\<lparr>be_recvBuffer := q1\<rparr>, ?f @ drop (length ?f) (net_recvBuffer n), int (length ?f))"
    "bb_rep s1 q1 ps1" "length ps1 \<le> 1" "content ps1 = rest" "evolves (net_store n) (P (fd, False)) s1 ps1"
    using read_frame [OF s(2,4) x(1,2) f x(3)] by blast
  let ?n0 = "frame_taken n (H fd) (E fd) s1 q1 ?f"
  have "sess ?n0 F H (E(fd := (E fd)\<lparr>be_recvBuffer := q1\<rparr>)) (P((fd, False) := ps1))"
    by (rule sess_change [OF S(1) n(2) R(7,4) _ _ e(4)]) (use R(5) x(3) in \<open>simp_all add: frame_taken_def set_bev_def\<close>)
  then have n0: "sessions wire ?n0 F (C(fd := rest)) Q"
    unfolding sessions_def using S(2) R(6)
    by (intro exI [of _ H] exI [of _ "E(fd := (E fd)\<lparr>be_recvBuffer := q1\<rparr>)"] exI [of _ "P((fd, False) := ps1)"]) auto
  have "recv_msg ?srv n fd 0 = rbind (svr_OnRecvMsg ?srv ?n0 fd 0 ?f True) (\<lambda>n1. ret (n1, int (length ?f)))"
    using recv_msg_with [OF e(1,2,3) single s(7) R(1) len(2) _ len(1) R(2) _ R(3), of ?srv 0] e(5) by (simp add: frame_taken_def)
  moreover obtain n1 where "OnRecvMsg sys app True ?n0 fd 0 ?f True = ret n1" "kept pending n1 = kept pending ?n0"
    "sessions wire n1 F (C(fd := rest)) (Q(fd := Q fd @ answer (rpc_requestMap (sv_rpc (net_app ?n0))) reply req))"
    using session_request [OF sys app n0 n(2) _ c(2)] n(3) by auto
  ultimately show ?thesis using e(2)
    by (intro exI [of _ n1]) (simp add: server_methods_def kept_def)
qed

lemma session_stops:
  assumes n: "sessions wire n F C Q" "fd \<in> F" and i: "incomplete (net_maxMsglen n) (C fd)"
  shows "\<exists>k. recv_msg srv n fd 0 = ret (n, k) \<and> k \<le> 0"
proof -
  obtain H E P where S: "sess n F H E P" "content (P (fd, False)) = C fd"
    using n unfolding sessions_def by blast
  note s = sessD [OF S(1) n(2)]
  have "length (C fd) < 2 ^ 31" using s(2) S(2) by (auto simp: bb_rep_def)
  then show ?thesis using recv_msg_stops [OF _ _ s(2,4) S(2) _ i] s(1) by (simp add: tcp_conn_def)
qed

lemma kept_simps:
  assumes "kept pending n1 = kept pending n"
  shows "rpc_requestMap (sv_rpc (net_app n1)) = rpc_requestMap (sv_rpc (net_app n))"
    "rpc_baseRequest (sv_rpc (net_app n1)) = rpc_baseRequest (sv_rpc (net_app n))"
    "net_maxMsglen n1 = net_maxMsglen n" "pending (net_os n1) = pending (net_os n)" "conn_table n1 = conn_table n" "net_single n1 = net_single n"
  using assms by (simp_all add: kept_def rpc_tables_def conn_table_def)

lemma session_frames:
  assumes sys: "streams sys F pending wire busy" and app: "app_replies app F pending wire reply" and fd: "fd \<in> F"
  shows "sessions wire n F C Q \<Longrightarrow> rpc_baseRequest (sv_rpc (net_app n)) = None \<Longrightarrow> net_single n \<Longrightarrow>
    C fd = concat (map request_bytes reqs) @ rest \<Longrightarrow> \<forall>req \<in> set reqs. fits (net_maxMsglen n) req \<Longrightarrow>
    incomplete (net_maxMsglen n) rest \<Longrightarrow>
    \<exists>n1. recv_all (server_methods sys app) n fd 0 = ret n1 \<and> kept pending n1 = kept pending n \<and>
      sessions wire n1 F (C(fd := rest))
        (Q(fd := Q fd @ concat (map (answer (rpc_requestMap (sv_rpc (net_app n))) reply) reqs)))"
proof (induction reqs arbitrary: n C Q)
  case Nil
  obtain k where "recv_msg (server_methods sys app) n fd 0 = ret (n, k)" "k \<le> 0"
    using session_stops [OF Nil(1) fd] Nil(4,6) by auto
  moreover have "ci_protocol (net_conns n fd) = IOEV_TCP_PROTOCOL"
    using Nil(1) fd by (auto simp: sessions_def sess_def tcp_conn_def)
  moreover have "C(fd := rest) = C" "Q(fd := Q fd) = Q" using Nil(4) by auto
  ultimately show ?case using Nil(1) by (subst recv_all.simps) (auto simp: recvTcpMsg_def)
next
  case (Cons req reqs)
  let ?M = "rpc_requestMap (sv_rpc (net_app n))"
  have c: "C fd = request_bytes req @ concat (map request_bytes reqs) @ rest" "fits (net_maxMsglen n) req"
    using Cons.prems(4,5) by simp_all
  obtain n1 where n1: "recv_msg (server_methods sys app) n fd 0 = ret (n1, int (length (request_bytes req)))"
    "kept pending n1 = kept pending n"
    "sessions wire n1 F (C(fd := concat (map request_bytes reqs) @ rest)) (Q(fd := Q fd @ answer ?M reply req))"
    using session_frame [OF sys app Cons.prems(1) fd Cons.prems(2) c Cons.prems(3)] by blast
  note k = kept_simps [OF n1(2)]
  obtain n2 where n2: "recv_all (server_methods sys app) n1 fd 0 = ret n2" "kept pending n2 = kept pending n1"
    "sessions wire n2 F (C(fd := rest)) (Q(fd := Q fd @ answer ?M reply req @ concat (map (answer ?M reply) reqs)))"
    using Cons.IH [OF n1(3)] Cons.prems(2,3,5,6) k(6) unfolding k(1-3) by (auto simp del: fun_upd_apply simp: fun_upd_same)
  have "ci_protocol (net_conns n fd) = IOEV_TCP_PROTOCOL"
    using Cons.prems(1) fd by (auto simp: sessions_def sess_def tcp_conn_def)
  moreover have "request_bytes req \<noteq> []" by (simp add: request_bytes_def head_bytes_ne split_def)
  ultimately have "recv_all (server_methods sys app) n fd 0 = ret n2"
    using n1(1) n2(1) by (subst recv_all.simps) (simp add: recvTcpMsg_def)
  then show ?case using n2(2,3) n1(2) by (auto simp del: fun_upd_apply)
qed

lemma fits_frame: "fits mx req \<Longrightarrow> mx \<le> 2 ^ 30 \<Longrightarrow> frame_ok mx (request_bytes req) \<and> length (request_bytes req) \<le> 4096"
  using request_frame [of "fst req" "snd req" mx] by (simp add: fits_def) (simp add: request_bytes_def split_def)

section \<open>Readable and writable\<close>

text \<open>The next piece arrives.\<close>

lemma session_piece:
  assumes sys: "streams sys F pending wire busy" and n: "sessions wire n F C Q" "fd \<in> F" "length (C fd) < 4096"
    and p: "pending (net_os n) fd = xs # segs"
  shows "\<exists>n0. on_readable sys srv n (the (ci_bev (net_conns n fd))) = rbind (RecvMsg srv n0 fd 0) (\<lambda>(n1, _). ret n1) \<and>
    sessions wire n0 F (C(fd := C fd @ xs)) Q \<and> pending (net_os n0) = (pending (net_os n))(fd := segs) \<and>
    net_maxMsglen n0 = net_maxMsglen n \<and> net_app n0 = net_app n \<and> conn_table n0 = conn_table n \<and> net_recvQue n0 = net_recvQue n"
proof -
  obtain H E P where S: "sess n F H E P"
    "\<forall>fd \<in> F. content (P (fd, False)) = C fd \<and> wire (net_os n) fd @ content (P (fd, True)) = Q fd"
    using n(1) unfolding sessions_def by blast
  note s = sessD [OF S(1) n(2)]
  let ?ps = "P (fd, False)"
  have c: "content ?ps = C fd" using S(2) n(2) by simp
  have e: "ci_bev (net_conns n fd) = Some (H fd)" "net_bevs n (H fd) = Some (E fd)" "be_fd (E fd) = fd"
    "be_protocol (E fd) = IOEV_TCP_PROTOCOL" "be_rdcb (E fd)" "be_evcb (E fd)" "be_evwr (E fd) \<noteq> None"
    using s(1) by (simp_all add: tcp_conn_def)
  obtain os1 k os2 where o: "xs \<noteq> []" "sys_ioctl sys (net_os n) (be_fd (E fd)) = (os1, Some k)" "int (length xs) \<le> k" "k \<le> 2 ^ 29"
    "sys_recv sys os1 (be_fd (E fd)) k = (os2, Inr xs)" "pending os2 = (pending (net_os n))(fd := segs)" "wire os2 = wire (net_os n)"
    using streams_recv [OF sys n(2) p] unfolding e(3) .
  have r: "0 \<le> k" "length (content ?ps) + length xs \<le> 2 ^ 30" "length ?ps \<le> 2" using o(3,4) c n(3) s(4) by simp_all
  then obtain s1 q1 ps1 where R:
    "recvTcpData sys (net_os n) (net_store n) (E fd) = ret (os2, s1, (E fd)\<lparr>be_recvBuffer := q1\<rparr>, [Rdcb fd 0], 0)"
    "bb_rep s1 q1 ps1" "content ps1 = C fd @ xs" "evolves (net_store n) ?ps s1 ps1" and L: "lives ps1 =
       (if ?ps \<noteq> [] \<and> (k \<le> bk_len (snd (last ?ps)) - bk_wrpos (snd (last ?ps)) \<or> used (snd (last ?ps)) < COPY_BLOCK_SIZE)
        then butlast (lives ?ps) @ [last (lives ?ps) @ xs] else lives ?ps @ [xs])"
    using recvTcpData_commits [OF s(2) o(2,5) r(1) o(4,3) _ r(2) e(5,6)] o(1) c e(3) by auto
  have "?ps \<noteq> [] \<longrightarrow> used (snd (last ?ps)) < COPY_BLOCK_SIZE"
    using used_one [OF s(2,4)] c n(3) by (simp add: COPY_BLOCK_SIZE_def)
  then have "length (lives ps1) \<le> 1" unfolding L lives_one [OF s(4)] by simp
  then have one: "length ps1 \<le> 1" by simp
  let ?e1 = "(E fd)\<lparr>be_recvBuffer := q1\<rparr>"
  let ?n0 = "(set_bev n (Some (H fd)) ?e1)\<lparr>net_os := os2, net_store := s1\<rparr>"
  have "sess ?n0 F H (E(fd := ?e1)) (P((fd, False) := ps1))"
    by (rule sess_change [OF S(1) n(2) R(4,2) _ _ e(7)]) (use one in \<open>simp_all add: set_bev_def\<close>)
  then have "sessions wire ?n0 F (C(fd := C fd @ xs)) Q"
    unfolding sessions_def using S(2) R(3) o(7)
    by (intro exI [of _ H] exI [of _ "E(fd := ?e1)"] exI [of _ "P((fd, False) := ps1)"]) (auto simp: set_bev_def)
  moreover have "on_readable sys srv n (the (ci_bev (net_conns n fd))) = rbind (RecvMsg srv ?n0 fd 0) (\<lambda>(n1, _). ret n1)"
    using R(1) e(1,2,4) by (simp add: on_readable_def get_bev_def RecvData_def event_callback_def rbind_ret_right)
  moreover have "conn_table ?n0 = conn_table n" using e(2) by simp
  ultimately show ?thesis using o(6) by (intro exI [of _ ?n0]) (simp add: set_bev_def)
qed

text \<open>With it some requests are whole; they are answered, and what has come of the next one waits.\<close>

lemma session_says:
  assumes sys: "streams sys F pending wire busy" and app: "app_replies app F pending wire reply"
    and n: "sessions wire n F C Q" "fd \<in> F" "length (C fd) < 4096" "rpc_baseRequest (sv_rpc (net_app n)) = None"
    and p: "pending (net_os n) fd = xs # segs"
    and c: "C fd @ xs = concat (map request_bytes reqs) @ c" "\<forall>req \<in> set reqs. fits (net_maxMsglen n) req"
      "incomplete (net_maxMsglen n) c" and single: "net_single n"
  shows "\<exists>n1. on_readable sys (server_methods sys app) n (the (ci_bev (net_conns n fd))) = ret n1 \<and>
    sessions wire n1 F (C(fd := c)) (Q(fd := Q fd @ concat (map (answer (rpc_requestMap (sv_rpc (net_app n))) reply) reqs))) \<and>
    pending (net_os n1) = (pending (net_os n))(fd := segs) \<and> net_maxMsglen n1 = net_maxMsglen n \<and>
    rpc_tables (sv_rpc (net_app n1)) = rpc_tables (sv_rpc (net_app n)) \<and> conn_table n1 = conn_table n"
proof -
  let ?srv = "server_methods sys app"
  obtain n0 where n0: "on_readable sys ?srv n (the (ci_bev (net_conns n fd))) = rbind (RecvMsg ?srv n0 fd 0) (\<lambda>(n1, _). ret n1)"
    "sessions wire n0 F (C(fd := C fd @ xs)) Q" "pending (net_os n0) = (pending (net_os n))(fd := segs)"
    "net_maxMsglen n0 = net_maxMsglen n" "net_app n0 = net_app n" "conn_table n0 = conn_table n"
    using session_piece [OF sys n(1-3) p] by blast
  have "net_single n0" using single n0(6) by (simp add: conn_table_def)
  note f' = this
  have f: "rpc_baseRequest (sv_rpc (net_app n0)) = None" "(C(fd := C fd @ xs)) fd = concat (map request_bytes reqs) @ c"
    "\<forall>req \<in> set reqs. fits (net_maxMsglen n0) req" "incomplete (net_maxMsglen n0) c"
    using n(4) c n0(4,5) by simp_all
  obtain n1 where n1: "recv_all ?srv n0 fd 0 = ret n1" "kept pending n1 = kept pending n0"
    "sessions wire n1 F (C(fd := c)) (Q(fd := Q fd @ concat (map (answer (rpc_requestMap (sv_rpc (net_app n))) reply) reqs)))"
    using session_frames [OF sys app n(2) n0(2) f(1) f' f(2-4)] n0(5) by (auto simp del: fun_upd_apply)
  have "GetConn n0 fd = Some fd" using n0(2) n(2) by (auto simp: sessions_def sess_def tcp_conn_def)
  then have "on_readable sys ?srv n (the (ci_bev (net_conns n fd))) = ret n1" using n0(1) n1(1) by (simp add: RecvMsg_def)
  then show ?thesis using n1(2,3) n0(3-6) by (intro exI [of _ n1]) (simp add: kept_def del: fun_upd_apply)
qed

text \<open>What the clients say: on each connection requests, and the beginning of another message.\<close>

definition speaks :: "int \<Rightarrow> byte list \<Rightarrow> (byte list \<times> byte list) list \<Rightarrow> byte list \<Rightarrow> bool" where
  "speaks mx xs reqs rest \<longleftrightarrow>
     xs = concat (map request_bytes reqs) @ rest \<and> (\<forall>req \<in> set reqs. fits mx req) \<and> incomplete mx rest \<and> length rest < 4096"

definition spoken ::
  "int set \<Rightarrow> int \<Rightarrow> (int \<Rightarrow> byte list) \<Rightarrow> (int \<Rightarrow> (byte list \<times> byte list) list) \<Rightarrow> (int \<Rightarrow> byte list) \<Rightarrow> bool" where
  "spoken F mx S reqs rest \<longleftrightarrow> (\<forall>fd \<in> F. speaks mx (S fd) (reqs fd) (rest fd))"

definition unread :: "int set \<Rightarrow> int \<Rightarrow> (int \<Rightarrow> byte list) \<Rightarrow> bool" where
  "unread F mx C \<longleftrightarrow> (\<forall>fd \<in> F. incomplete mx (C fd) \<and> length (C fd) < 4096)"

lemma session_readable:
  assumes sys: "streams sys F pending wire busy" and app: "app_replies app F pending wire reply"
    and n: "sessions wire n F C Q" "fd \<in> F" "rpc_baseRequest (sv_rpc (net_app n)) = None" "unread F (net_maxMsglen n) C" "net_single n"
    and s: "spoken F (net_maxMsglen n) (\<lambda>g. C g @ concat (pending (net_os n) g)) reqs rest"
    and p: "pending (net_os n) fd = xs # segs"
  shows "\<exists>n1 reqs1 reqs2 c. on_readable sys (server_methods sys app) n (the (ci_bev (net_conns n fd))) = ret n1 \<and>
    reqs fd = reqs1 @ reqs2 \<and>
    sessions wire n1 F (C(fd := c)) (Q(fd := Q fd @ concat (map (answer (rpc_requestMap (sv_rpc (net_app n))) reply) reqs1))) \<and>
    c @ concat segs = concat (map request_bytes reqs2) @ rest fd \<and> incomplete (net_maxMsglen n) c \<and> length c < 4096 \<and>
    pending (net_os n1) = (pending (net_os n))(fd := segs) \<and> net_maxMsglen n1 = net_maxMsglen n \<and>
    rpc_tables (sv_rpc (net_app n1)) = rpc_tables (sv_rpc (net_app n)) \<and> conn_table n1 = conn_table n"
proof -
  let ?mx = "net_maxMsglen n"
  have u: "length (C fd) < 4096" using n(2,4) by (simp add: unread_def)
  have sp: "(C fd @ xs) @ concat segs = concat (map request_bytes (reqs fd)) @ rest fd" "\<forall>req \<in> set (reqs fd). fits ?mx req"
    "incomplete ?mx (rest fd)" "length (rest fd) < 4096"
    using s [unfolded spoken_def speaks_def, rule_format, OF n(2)] p by simp_all
  have mx: "?mx \<le> 2 ^ 30" using n(1,2) by (auto simp: sessions_def sess_def)
  have "\<forall>f \<in> set (map request_bytes (reqs fd)). frame_ok ?mx f \<and> length f \<le> 4096"
    using sp(2) fits_frame [OF _ mx] by auto
  then obtain fs1 fs2 c where cut: "map request_bytes (reqs fd) = fs1 @ fs2" "C fd @ xs = concat fs1 @ c"
    "c @ concat segs = concat fs2 @ rest fd" "incomplete ?mx c" "length c < 4096"
    using frames_cut [OF sp(1) _ sp(3,4)] by blast
  then obtain reqs1 reqs2 where q: "reqs fd = reqs1 @ reqs2" "fs1 = map request_bytes reqs1" "fs2 = map request_bytes reqs2"
    by (auto simp: map_eq_append_conv)
  have "\<forall>req \<in> set reqs1. fits ?mx req" using sp(2) q(1) by simp
  from session_says [OF sys app n(1,2) u n(3) p cut(2) [unfolded q(2)] this cut(4) n(5)] show ?thesis
    using q cut(3-5) by blast
qed

section \<open>The event loop\<close>

text \<open>What libev reports, in whatever order.\<close>

datatype socket_event = Readable int | Writable int

fun socket :: "socket_event \<Rightarrow> int" where
  "socket (Readable fd) = fd"
| "socket (Writable fd) = fd"

fun on_event ::
  "'os sys \<Rightarrow> ('os, 'app) net server_calls \<Rightarrow> socket_event \<Rightarrow> ('os, 'app) net \<Rightarrow> ('os, 'app) net run" where
  "on_event sys srv (Readable fd) n = on_readable sys srv n (the (ci_bev (net_conns n fd)))"
| "on_event sys srv (Writable fd) n = on_writable sys srv n (the (ci_bev (net_conns n fd)))"

fun on_events ::
  "'os sys \<Rightarrow> ('os, 'app) net server_calls \<Rightarrow> socket_event list \<Rightarrow> ('os, 'app) net \<Rightarrow> ('os, 'app) net run" where
  "on_events sys srv [] n = ret n"
| "on_events sys srv (ev # evs) n = rbind (on_event sys srv ev n) (on_events sys srv evs)"

lemma sessions_cong:
  "\<forall>fd \<in> F. C fd = C' fd \<and> Q fd = Q' fd \<Longrightarrow> sessions wire n F C Q = sessions wire n F C' Q'"
  by (simp add: sessions_def)

text \<open>At any time each client has been answered the requests that have come in whole.\<close>

lemma sessions_run:
  assumes sys: "streams sys F pending wire busy" and app: "app_replies app F pending wire reply"
  shows "sessions wire n F C Q \<Longrightarrow> rpc_baseRequest (sv_rpc (net_app n)) = None \<Longrightarrow> net_single n \<Longrightarrow> unread F (net_maxMsglen n) C \<Longrightarrow>
    spoken F (net_maxMsglen n) (\<lambda>g. C g @ concat (pending (net_os n) g)) reqs rest \<Longrightarrow> socket ` set evs \<subseteq> F \<Longrightarrow>
    \<forall>fd \<in> F. count_list evs (Readable fd) \<le> length (pending (net_os n) fd) \<Longrightarrow>
    \<exists>n1 C1 done todo. on_events sys (server_methods sys app) evs n = ret n1 \<and> (\<forall>fd. reqs fd = done fd @ todo fd) \<and>
      sessions wire n1 F C1 (\<lambda>fd. Q fd @ concat (map (answer (rpc_requestMap (sv_rpc (net_app n))) reply) (done fd))) \<and>
      unread F (net_maxMsglen n) C1 \<and> spoken F (net_maxMsglen n) (\<lambda>g. C1 g @ concat (pending (net_os n1) g)) todo rest \<and>
      (\<forall>fd \<in> F. pending (net_os n1) fd = drop (count_list evs (Readable fd)) (pending (net_os n) fd)) \<and>
      net_maxMsglen n1 = net_maxMsglen n \<and> rpc_tables (sv_rpc (net_app n1)) = rpc_tables (sv_rpc (net_app n))"
proof (induction evs arbitrary: n C Q reqs)
  case Nil
  then show ?case
    by (intro exI [of _ n] exI [of _ C] exI [of _ "\<lambda>_. []"] exI [of _ reqs]) simp
next
  case (Cons ev evs)
  let ?M = "rpc_requestMap (sv_rpc (net_app n))" and ?mx = "net_maxMsglen n" and ?srv = "server_methods sys app"
  have fd: "socket ev \<in> F" using Cons.prems(6) by simp
  show ?case
  proof (cases ev)
    case (Writable fd)
    have "fd \<in> F" using fd Writable by simp
    then obtain n1 where n1: "on_writable sys ?srv n (the (ci_bev (net_conns n fd))) = ret n1" "sessions wire n1 F C Q"
      "pending (net_os n1) = pending (net_os n)" "net_maxMsglen n1 = ?mx" "net_app n1 = net_app n" "conn_table n1 = conn_table n"
      using session_flushes [OF sys Cons.prems(1)] by metis
    have sg: "net_single n1" using n1(6) Cons.prems(3) by (simp add: conn_table_def)
    have "count_list evs (Readable g) \<le> length (pending (net_os n1) g)" if "g \<in> F" for g
      using Cons.prems(7) that n1(3) Writable by simp
    then show ?thesis
      using Cons.IH [OF n1(2), of reqs] Cons.prems(2-6) n1 Writable sg by simp
  next
    case (Readable fd)
    have f: "fd \<in> F" using fd Readable by simp
    have "0 < length (pending (net_os n) fd)" using Cons.prems(7) f Readable by fastforce
    then obtain xs segs where p: "pending (net_os n) fd = xs # segs" by (cases "pending (net_os n) fd") auto
    obtain n1 reqs1 reqs2 c where n1: "on_readable sys ?srv n (the (ci_bev (net_conns n fd))) = ret n1" "reqs fd = reqs1 @ reqs2"
      "sessions wire n1 F (C(fd := c)) (Q(fd := Q fd @ concat (map (answer ?M reply) reqs1)))"
      "c @ concat segs = concat (map request_bytes reqs2) @ rest fd" "incomplete ?mx c" "length c < 4096"
      "pending (net_os n1) = (pending (net_os n))(fd := segs)" "net_maxMsglen n1 = ?mx"
      "rpc_tables (sv_rpc (net_app n1)) = rpc_tables (sv_rpc (net_app n))" "conn_table n1 = conn_table n"
      using session_readable [OF sys app Cons.prems(1) f Cons.prems(2,4,3,5) p] by blast
    have M: "rpc_requestMap (sv_rpc (net_app n1)) = ?M" "rpc_baseRequest (sv_rpc (net_app n1)) = None"
      using n1(9) Cons.prems(2) by (simp_all add: rpc_tables_def)
    have sg: "net_single n1" using n1(10) Cons.prems(3) by (simp add: conn_table_def)
    have u: "unread F (net_maxMsglen n1) (C(fd := c))" using Cons.prems(4) n1(5,6,8) by (simp add: unread_def)
    have s: "spoken F (net_maxMsglen n1) (\<lambda>g. (C(fd := c)) g @ concat (pending (net_os n1) g)) (reqs(fd := reqs2)) rest"
      using Cons.prems(5) n1(2,4,7,8) f unfolding spoken_def speaks_def by auto
    have "\<forall>g \<in> F. count_list evs (Readable g) \<le> length (pending (net_os n1) g)"
      using Cons.prems(7) Readable p unfolding n1(7) by (auto split: if_splits)
    then obtain n2 C2 don todo where n2: "on_events sys ?srv evs n1 = ret n2" "\<forall>g. (reqs(fd := reqs2)) g = don g @ todo g"
      "sessions wire n2 F C2 (\<lambda>g. (Q(fd := Q fd @ concat (map (answer ?M reply) reqs1))) g @ concat (map (answer ?M reply) (don g)))"
      "unread F ?mx C2" "spoken F ?mx (\<lambda>g. C2 g @ concat (pending (net_os n2) g)) todo rest"
      "\<forall>g \<in> F. pending (net_os n2) g = drop (count_list evs (Readable g)) (pending (net_os n1) g)"
      "net_maxMsglen n2 = ?mx" "rpc_tables (sv_rpc (net_app n2)) = rpc_tables (sv_rpc (net_app n))"
      using Cons.IH [OF n1(3) M(2) sg u s] Cons.prems(6) M(1) n1(8,9) by auto
    let ?don = "don(fd := reqs1 @ don fd)"
    have "\<forall>g. reqs g = ?don g @ todo g"
    proof
      fix g show "reqs g = ?don g @ todo g" using n2(2) [rule_format, of g] n1(2) by (auto split: if_splits)
    qed
    moreover have "sessions wire n2 F C2 (\<lambda>g. Q g @ concat (map (answer ?M reply) (?don g)))"
      using n2(3) sessions_cong [of F C2 C2 "\<lambda>g. (Q(fd := Q fd @ concat (map (answer ?M reply) reqs1))) g @ concat (map (answer ?M reply) (don g))"
          "\<lambda>g. Q g @ concat (map (answer ?M reply) (?don g))" wire n2] by simp
    moreover have "on_events sys ?srv (ev # evs) n = ret n2" using n1(1) n2(1) Readable by simp
    moreover have "\<forall>g \<in> F. pending (net_os n2) g = drop (count_list (ev # evs) (Readable g)) (pending (net_os n) g)"
      using n2(6) Readable p unfolding n1(7) by auto
    ultimately show ?thesis using n2(4,5,7,8) by (intro exI [of _ n2] exI [of _ C2] exI [of _ ?don] exI [of _ todo]) blast
  qed
qed

lemma clients_run:
  assumes "streams sys F pending wire busy" "app_replies app F pending wire reply"
    and "sessions wire n F (\<lambda>_. []) Q" "rpc_baseRequest (sv_rpc (net_app n)) = None" "net_single n"
    and "spoken F (net_maxMsglen n) (\<lambda>fd. concat (pending (net_os n) fd)) reqs rest"
    and "socket ` set evs \<subseteq> F" "\<forall>fd \<in> F. count_list evs (Readable fd) = length (pending (net_os n) fd)"
  shows "\<exists>n1. on_events sys (server_methods sys app) evs n = ret n1 \<and> sessions wire n1 F rest (\<lambda>fd. Q fd @ concat (map (answer (rpc_requestMap (sv_rpc (net_app n))) reply) (reqs fd))) \<and>
    (\<forall>fd \<in> F. pending (net_os n1) fd = []) \<and>
    (\<forall>fd \<in> F. \<exists>n2. on_event sys (server_methods sys app) (Writable fd) n1 = ret n2 \<and> wire (net_os n2) fd = Q fd @ concat (map (answer (rpc_requestMap (sv_rpc (net_app n))) reply) (reqs fd)))"
proof -
  let ?Q1 = "\<lambda>fd. Q fd @ concat (map (answer (rpc_requestMap (sv_rpc (net_app n))) reply) (reqs fd))"
  have "unread F (net_maxMsglen n) (\<lambda>_. [])" by (simp add: unread_def incomplete_def)
  then obtain n1 C1 don todo where n1: "on_events sys (server_methods sys app) evs n = ret n1" "\<forall>fd. reqs fd = don fd @ todo fd"
    "sessions wire n1 F C1 (\<lambda>fd. Q fd @ concat (map (answer (rpc_requestMap (sv_rpc (net_app n))) reply) (don fd)))"
    "unread F (net_maxMsglen n) C1" "spoken F (net_maxMsglen n) (\<lambda>g. C1 g @ concat (pending (net_os n1) g)) todo rest"
    "\<forall>fd \<in> F. pending (net_os n1) fd = drop (count_list evs (Readable fd)) (pending (net_os n) fd)"
    using sessions_run [OF assms(1-5) _ _ assms(7), of reqs rest] assms(6,8) by auto
  have p: "\<forall>fd \<in> F. pending (net_os n1) fd = []" using n1(6) assms(8) by simp
  have mx: "net_maxMsglen n \<le> 2 ^ 30" using assms(3) by (auto simp: sessions_def sess_def)
  have "todo fd = [] \<and> C1 fd = rest fd" if fd: "fd \<in> F" for fd
  proof -
    have c: "C1 fd = concat (map request_bytes (todo fd)) @ rest fd" "\<forall>req \<in> set (todo fd). fits (net_maxMsglen n) req"
      "incomplete (net_maxMsglen n) (C1 fd)" using n1(4,5) p fd by (simp_all add: spoken_def speaks_def unread_def)
    have "todo fd = []"
    proof (rule ccontr)
      assume "todo fd \<noteq> []"
      then obtain req ts where t: "todo fd = req # ts" by (cases "todo fd") auto
      then have "frame_ok (net_maxMsglen n) (request_bytes req)" using fits_frame [OF _ mx] c(2) by simp
      then show False using c(1,3) t by (auto simp: frame_ok_def incomplete_def)
    qed
    then show ?thesis using c(1) by simp
  qed
  then have n1s: "sessions wire n1 F rest ?Q1"
    using n1(2,3) sessions_cong [of F C1 rest _ ?Q1 wire n1] by simp
  have "\<exists>n2. on_event sys (server_methods sys app) (Writable fd) n1 = ret n2 \<and> wire (net_os n2) fd = ?Q1 fd" if "fd \<in> F" for fd
    using session_flushes [OF assms(1) n1s that] by auto
  then show ?thesis using n1(1) n1s p by blast
qed


section \<open>A new client\<close>

text \<open>Accepting a connection adds it to those that are served.\<close>

definition bevs_below :: "('os, 'app) net \<Rightarrow> bool" where
  "bevs_below n \<longleftrightarrow> (\<forall>h. net_bevs n h \<noteq> None \<longrightarrow> h < net_brk n)"

lemma session_accept:
  assumes n: "sessions wire n F C Q" "bevs_below n" "store_ok (net_store n)"
    and fd: "0 \<le> fd" "fd < net_maxfds n" "ci_fd (net_conns n fd) \<le> 0" "fd \<notin> F" "0 < lfd"
  shows "\<exists>n1. on_accept sys (server_methods sys app) n lfd fd = ret n1 \<and>
    sessions wire n1 (insert fd F) (C(fd := [])) (Q(fd := wire (net_os n) fd)) \<and> bevs_below n1 \<and>
    net_store n1 = net_store n \<and> net_os n1 = net_os n \<and> net_maxMsglen n1 = net_maxMsglen n \<and> net_app n1 = net_app n \<and>
    net_maxfds n1 = net_maxfds n \<and> (\<forall>g. g \<noteq> fd \<longrightarrow> net_conns n1 g = net_conns n g) \<and>
    ci_bev (net_conns n1 fd) = Some (net_brk n) \<and> dom (net_bevs n1) = insert (net_brk n) (dom (net_bevs n)) \<and>
    net_single n1 = net_single n \<and> net_recvQue n1 = net_recvQue n"
proof -
  obtain H E P where S: "sess n F H E P"
    "\<forall>g \<in> F. content (P (g, False)) = C g \<and> wire (net_os n) g @ content (P (g, True)) = Q g"
    using n(1) unfolding sessions_def by blast
  let ?h = "net_brk n"
  define e where "e = Enable (SetCb (new_BufferEventEv IOEV_TCP_PROTOCOL fd) True True True) (IOEV_READ OR IOEV_WRITE)"
  define n1 where "n1 = n\<lparr>net_bevs := (net_bevs n)(?h \<mapsto> e), net_brk := Suc ?h,
    net_conns := (net_conns n)(fd := \<lparr>ci_fd = fd, ci_ctype = CONN_TYPE_CLI, ci_protocol = IOEV_TCP_PROTOCOL, ci_bev = Some ?h\<rparr>)\<rparr>"
  have E: "be_fd e = fd" "be_protocol e = IOEV_TCP_PROTOCOL" "be_rdcb e" "be_evcb e" "be_evwr e \<noteq> None"
    "be_recvBuffer e = new_BlockBuffer" "be_sendBuffer e = new_BlockBuffer"
    by (simp_all add: e_def Enable_def SetCb_def new_BufferEventEv_def Let_def has_flag_def IOEV_READ_def IOEV_WRITE_def)
  have a: "on_accept sys (server_methods sys app) n lfd fd = ret n1"
    using fd by (simp add: on_accept_def NewBufferEvent_def OpenConn_def server_methods_def OnCliConnected_def
        get_bev_def set_bev_def n1_def e_def CONN_TYPE_CLI_def)
  let ?H = "H(fd := ?h)" and ?E = "E(fd := e)" and ?P = "P((fd, False) := [], (fd, True) := [])"
  have H: "H g < ?h" if "g \<in> F" for g
    using S(1) that n(2) by (auto simp: sess_def tcp_conn_def bevs_below_def)
  have "?h \<notin> H ` F" using H by (metis imageE less_irrefl)
  moreover have "?H ` F = H ` F" "inj_on ?H F = inj_on H F" using fd(4) by (auto intro!: image_cong inj_on_cong)
  ultimately have "inj_on ?H (insert fd F)" using S(1) fd(4) by (simp add: sess_def)
  moreover have "tcp_conn n1 g (?H g) (?E g) \<and> length (?P (g, False)) \<le> 1" if "g \<in> insert fd F" for g
  proof (cases "g = fd")
    case True
    then show ?thesis using fd E by (simp add: tcp_conn_def n1_def GetConn_def)
  next
    case False
    then have g: "g \<in> F" using that by simp
    then have "tcp_conn n g (H g) (E g) \<and> length (P (g, False)) \<le> 1" using S(1) by (simp add: sess_def)
    then show ?thesis using H [OF g] False by (simp add: tcp_conn_def n1_def GetConn_def split: if_splits)
  qed
  moreover have "buffers (net_store n1) (insert fd F \<times> UNIV) (side ?E) ?P"
  proof -
    have B: "buffers (net_store n) (F \<times> UNIV) (side E) P" using S(1) by (simp add: sess_def)
    define E1 P1 where "E1 = side ?E" and "P1 = ?P"
    have old: "E1 k = side E k" "P1 k = P k" if "fst k \<noteq> fd" for k using that by (cases k, simp add: side_def E1_def P1_def)+
    have new: "E1 k = new_BlockBuffer" "P1 k = []" if "fst k = fd" for k
      using that E(6,7) by (cases k, simp add: side_def E1_def P1_def)+
    have mem: "k \<in> F \<times> UNIV" if "k \<in> insert fd F \<times> UNIV" "fst k \<noteq> fd" for k :: "int \<times> bool" using that by (cases k) simp
    have "bb_rep (net_store n) (E1 i) (P1 i)" if "i \<in> insert fd F \<times> UNIV" for i
    proof (cases "fst i = fd")
      case True
      then show ?thesis using bb_rep_new [OF n(3)] new by simp
    next
      case False
      then have "bb_rep (net_store n) (side E i) (P i)" using mem [OF that] B unfolding buffers_def by blast
      then show ?thesis using old [OF False] by simp
    qed
    moreover have "addrs (P1 i) \<inter> addrs (P1 j) = {}" if "i \<in> insert fd F \<times> UNIV" "j \<in> insert fd F \<times> UNIV" "i \<noteq> j" for i j
    proof (cases "fst i = fd \<or> fst j = fd")
      case True
      then show ?thesis using new(2) by fastforce
    next
      case False
      then have m: "i \<in> F \<times> UNIV" "j \<in> F \<times> UNIV" using mem [OF that(1)] mem [OF that(2)] by simp_all
      have "addrs (P i) \<inter> addrs (P j) = {}"
        using B [unfolded buffers_def, THEN conjunct2, THEN bspec, OF m(1), THEN bspec, OF m(2)] that(3) by simp
      then show ?thesis using old False by simp
    qed
    ultimately have "buffers (net_store n) (insert fd F \<times> UNIV) E1 P1" unfolding buffers_def by blast
    then show ?thesis by (simp add: n1_def E1_def P1_def)
  qed
  ultimately have "sess n1 (insert fd F) ?H ?E ?P" using S(1) by (simp add: sess_def n1_def)
  then have "sessions wire n1 (insert fd F) (C(fd := [])) (Q(fd := wire (net_os n) fd))"
    unfolding sessions_def using S(2) fd(4) by (intro exI [of _ ?H] exI [of _ ?E] exI [of _ ?P]) (auto simp: n1_def)
  moreover have "bevs_below n1" using n(2) by (auto simp: bevs_below_def n1_def less_Suc_eq)
  ultimately show ?thesis using a by (intro exI [of _ n1]) (simp add: n1_def)
qed

lemma sessions_none:
  assumes "0 \<le> mx" "mx \<le> 2 ^ 30"
  shows "sessions wire (new_NetMessage os s mx k True (replicate (nat mx) 0) q app) {} C Q"
    "bevs_below (new_NetMessage os s mx k True buf q app)"
  using assms by (simp_all add: sessions_def sess_def buffers_def new_NetMessage_def bevs_below_def to_u32_id)

section \<open>An example\<close>

text \<open>A system whose state is what is to come on each socket and what it has taken; it takes at most ten bytes at a time.\<close>

type_synonym example_os = "(int \<Rightarrow> byte list list) \<times> (int \<Rightarrow> byte list)"

definition ten_sys :: "example_os sys" where
  "ten_sys =
     \<lparr>sys_ioctl = (\<lambda>os fd. (os, Some (int (length (hd (fst os fd)))))),
      sys_recv = (\<lambda>os fd n. (((fst os)(fd := tl (fst os fd)), snd os), Inr (hd (fst os fd)))),
      sys_recvfrom = (\<lambda>os fd n. (os, Inl EAGAIN, 0, 0)),
      sys_send = (\<lambda>os fd xs. ((fst os, (snd os)(fd := snd os fd @ take 10 xs)), int (min 10 (length xs)), 0)),
      sys_sendto = (\<lambda>os fd xs a p. (os, int (length xs))), sys_close = (\<lambda>os fd. os)\<rparr>"

lemma ten_sys_streams: "streams ten_sys F (\<lambda>os fd. to_come (fst os fd)) snd (\<lambda>_. 0)"
  unfolding streams_def
proof (intro ballI conjI allI impI)
  fix fd :: int and os :: example_os and xs segs
  assume "to_come (fst os fd) = xs # segs"
  then have h: "xs \<noteq> []" "length xs \<le> 2 ^ 29" "hd (fst os fd) = xs" "to_come (tl (fst os fd)) = segs"
    by (cases "fst os fd"; simp add: to_come_def split: if_splits)+
  show "xs \<noteq> []" by (rule h(1))
  have "(\<lambda>g. to_come (((fst os)(fd := tl (fst os fd))) g)) = (\<lambda>g. to_come (fst os g))(fd := segs)" using h(4) by auto
  then show "\<exists>os1 k os2. sys_ioctl ten_sys os fd = (os1, Some k) \<and> int (length xs) \<le> k \<and> k \<le> 2 ^ 29 \<and>
      sys_recv ten_sys os1 fd k = (os2, Inr xs) \<and> (\<lambda>fd. to_come (fst os2 fd)) = (\<lambda>fd. to_come (fst os fd))(fd := segs) \<and> snd os2 = snd os"
    using h(2,3) by (simp add: ten_sys_def)
qed (auto simp: ten_sys_def min_def split: if_splits)

text \<open>An application that answers with what it is sent.\<close>

definition echo :: "byte list \<Rightarrow> byte list" where
  "echo data = head_bytes 0 [] (int (length data)) @ data"

definition echo_app :: "'os sys \<Rightarrow> ('os, 'h, 's, unit, 'a) app_code" where
  "echo_app sys =
     \<lparr>app_handle = (\<lambda>call n. case call of
        Call_request h fd remote data k \<Rightarrow>
          rbind (Net_Message.SendMsg sys (close_calls \<lparr>app_handle = (\<lambda>_. ret), app_closed = (\<lambda>_ _. ret)\<rparr>) n fd remote
            (echo (case data of None \<Rightarrow> [] | Some xs \<Rightarrow> xs))) (\<lambda>(n1, _). ret n1)
      | _ \<Rightarrow> ret n), app_closed = (\<lambda>_ _. ret)\<rparr>"

lemma echo_app_replies:
  assumes "streams sys F pending wire busy"
  shows "app_replies (echo_app sys :: ('os, 'h, 's, unit, 'a) app_code) F pending wire (\<lambda>_. echo)"
  unfolding app_replies_def
proof (intro allI impI)
  fix n :: "('os, 'h, 's, unit, 'a) world" and C Q fd h and data :: "byte list"
  assume n: "sessions wire n F C Q" "fd \<in> F" and d: "length data \<le> 4096"
  have "echo data \<noteq> []" "length (echo data) \<le> 2 ^ 30" using d by (simp_all add: echo_def head_bytes_ne)
  from session_sends [OF assms n this] obtain n1 where
    "Net_Message.SendMsg sys (close_calls \<lparr>app_handle = (\<lambda>_. ret), app_closed = (\<lambda>_ _. ret)\<rparr>) n fd 0 (echo data) = ret (n1, 0)"
    "sessions wire n1 F C (Q(fd := Q fd @ echo data))" "pending (net_os n1) = pending (net_os n)"
    "net_maxMsglen n1 = net_maxMsglen n" "net_app n1 = net_app n" "conn_table n1 = conn_table n" by blast
  then show "\<exists>n1. app_handle (echo_app sys) (Call_request h fd 0 (if data = [] then None else Some data) (int (length data))) n = ret n1 \<and>
      sessions wire n1 F C (Q(fd := Q fd @ echo data)) \<and> kept pending n1 = kept pending n"
    by (cases "data = []") (simp_all add: echo_app_def kept_def)
qed

text \<open>A new server, and what two clients are going to say: the first one two requests in three pieces, the second of a name
  nobody knows; the second one a request and two bytes more.\<close>

definition example_server :: "example_os \<Rightarrow> (example_os, nat, unit, unit, unit) world" where
  "example_server os = new_NetMessage os (empty_store (\<lambda>_ _. 0)) 8192 16 True (replicate (nat 8192) 0) new_LoopQueue
     \<lparr>sv_single = True, sv_rpc = (new_IRpc (\<lambda>_. 0))\<lparr>rpc_requestMap := [[76] \<mapsto> 7]\<rparr>, sv_connectors = Map.empty,
      sv_sendQue = new_LoopQueue, sv_notified = 0, sv_app = ()\<rparr>"

definition example_says :: "int \<Rightarrow> byte list list" where
  "example_says = (\<lambda>_. [])
     (5 := [[0, 0, 0, 15, 0, 0], [0, 0, 0, 0, 0, 1, 76, 1, 2, 0, 0], [0, 13, 0, 0, 0, 0, 0, 0, 0, 1, 77]],
      6 := [[0, 0, 0, 13, 0, 0, 0, 0, 0, 0, 0, 1, 76, 0, 0]])"

lemma example_spoken:
  "spoken {5, 6} 8192 (\<lambda>fd. concat (to_come (example_says fd)))
     ((\<lambda>_. [])(5 := [([76], [1, 2]), ([77], [])], 6 := [([76], [])])) ((\<lambda>_. [])(6 := [0, 0]))"
proof -
  have r: "request_bytes ([76], [1, 2]) = [0, 0, 0, 15, 0, 0, 0, 0, 0, 0, 0, 1, 76, 1, 2]"
    "request_bytes ([77], []) = [0, 0, 0, 13, 0, 0, 0, 0, 0, 0, 0, 1, 77]"
    "request_bytes ([76], []) = [0, 0, 0, 13, 0, 0, 0, 0, 0, 0, 0, 1, 76]"
    by (simp_all add: request_bytes_def head_bytes_def be_bytes_def eval_nat_numeral)
  show ?thesis by (simp add: spoken_def speaks_def example_says_def to_come_def r fits_def incomplete_def)
qed


end
