(* ===== verification/Net_Lifecycle.thy ===== *)
theory Net_Lifecycle
  imports Net_Sessions
begin

text \<open>
  Connections come and go (framework/NetMessage.cc, IOEventEv.cc, BlockBuffer.cc, Server.cc and IRpc.cc together, on
  the network thread of a server without workers).

  Theory \<open>Net_Sessions\<close> follows connections that stay open.  Here clients connect, say something, hang up and
  others come after them, in any order and without end: a step relation, and what holds in every state it reaches.
\<close>

section \<open>The system\<close>

text \<open>
  An empty piece to come is the end: \<open>recv\<close> finds nothing and the peer will send no more.  What \<open>close\<close> does to a
  descriptor is its own matter.
\<close>

definition pieces :: "('os \<Rightarrow> int \<Rightarrow> byte list list) \<Rightarrow> 'os \<Rightarrow> int \<Rightarrow> byte list list" where
  "pieces pending os fd = takeWhile ((\<noteq>) []) (pending os fd)"

definition stream_system ::
  "'os sys \<Rightarrow> ('os \<Rightarrow> int \<Rightarrow> byte list list) \<Rightarrow> ('os \<Rightarrow> int \<Rightarrow> byte list) \<Rightarrow> ('os \<Rightarrow> nat) \<Rightarrow> bool" where
  "stream_system sys pending wire busy \<longleftrightarrow>
     streams sys UNIV (pieces pending) wire busy \<and>
     (\<forall>os fd segs. pending os fd = [] # segs \<longrightarrow>
        (\<exists>os1 k os2. sys_ioctl sys os fd = (os1, Some k) \<and> 0 \<le> k \<and> k \<le> 2 ^ 29 \<and>
           sys_recv sys os1 fd k = (os2, Inr []) \<and> wire os2 = wire os)) \<and>
     (\<forall>os fd g. g \<noteq> fd \<longrightarrow> wire (sys_close sys os fd) g = wire os g)"

lemma streams_subset: "streams sys F pending wire busy \<Longrightarrow> G \<subseteq> F \<Longrightarrow> streams sys G pending wire busy"
  unfolding streams_def by (rule ballI) (drule (1) subsetD, drule (1) bspec)

section \<open>Closing a connection\<close>

lemma buffers_subset:
  assumes "buffers s I B P" "J \<subseteq> I" "\<And>i. i \<in> J \<Longrightarrow> B' i = B i \<and> P' i = P i"
  shows "buffers s J B' P'"
proof -
  have m: "i \<in> I \<and> B' i = B i \<and> P' i = P i" if "i \<in> J" for i using assms(2,3) that by blast
  show ?thesis unfolding buffers_def
    using assms(1) [unfolded buffers_def, THEN conjunct1, THEN bspec] assms(1) [unfolded buffers_def, THEN conjunct2, THEN bspec, THEN bspec]
      m by simp
qed

text \<open>The blocks of its two buffers go back to the pool; those of the others stay as they are.\<close>

lemma session_delete:
  assumes B: "buffers s I B P" "(fd, False) \<in> I" "(fd, True) \<in> I"
    and e: "be_recvBuffer e = B (fd, False)" "be_sendBuffer e = B (fd, True)"
  shows "\<exists>s1. delete_BufferEventEv sys os s e = ret (sys_close sys os (be_fd e), s1) \<and> store_ok s1 \<and>
    buffers s1 (I - {(fd, False), (fd, True)}) B P"
proof -
  have "bb_rep s (be_recvBuffer e) (P (fd, False))" using B by (simp add: buffers_def e)
  then obtain s1 where 1: "delete_BlockBuffer s (be_recvBuffer e) = ret (s1, new_BlockBuffer)" "store_ok s1"
    "evolves s (P (fd, False)) s1 []"
    using delete_BlockBuffer_rep by blast
  define B1 P1 where "B1 = B((fd, False) := new_BlockBuffer)" and "P1 = P((fd, False) := [])"
  have B1: "buffers s1 I B1 P1"
    unfolding B1_def P1_def by (rule buffers_change [OF B(1,2) 1(3) bb_rep_new [OF 1(2)]])
  have x: "B1 (fd, True) = be_sendBuffer e" "P1 (fd, True) = P (fd, True)" by (simp_all add: B1_def P1_def e)
  have "bb_rep s1 (be_sendBuffer e) (P (fd, True))" using B1 B(3) x unfolding buffers_def by (metis)
  then obtain s2 where 2: "delete_BlockBuffer s1 (be_sendBuffer e) = ret (s2, new_BlockBuffer)" "store_ok s2"
    "evolves s1 (P (fd, True)) s2 []"
    using delete_BlockBuffer_rep by blast
  have "buffers s2 I (B1((fd, True) := new_BlockBuffer)) (P1((fd, True) := []))"
    by (rule buffers_change [OF B1 B(3) _ bb_rep_new [OF 2(2)]]) (simp add: x 2(3))
  then have "buffers s2 (I - {(fd, False), (fd, True)}) B P"
    by (rule buffers_subset) (auto simp: B1_def P1_def)
  then show ?thesis using 1(1) 2(1,2) by (simp add: delete_BufferEventEv_def)
qed

definition closed_table :: "('os, 'app) net \<Rightarrow> int \<Rightarrow> (int \<Rightarrow> conn_info) \<times> nat \<times> int \<times> nat set \<times> bool" where
  "closed_table n fd =
     ((net_conns n)(fd := (net_conns n fd)\<lparr>ci_fd := -1, ci_bev := None\<rparr>), net_brk n, net_maxfds n,
      dom (net_bevs n) - {the (ci_bev (net_conns n fd))}, net_single n)"

lemma session_close:
  assumes sys: "stream_system sys pending wire busy" and n: "sessions wire n F C Q" "fd \<in> F"
  shows "\<exists>n1. CloseConn sys (server_methods sys app) n fd = ret (n1, 0) \<and> sessions wire n1 (F - {fd}) C Q \<and> store_ok (net_store n1) \<and>
    net_maxMsglen n1 = net_maxMsglen n \<and> net_app n1 = net_app n \<and>
    conn_table n1 = closed_table n fd \<and> net_recvQue n1 = net_recvQue n"
proof -
  obtain H E P where S: "sess n F H E P"
    "\<forall>g \<in> F. content (P (g, False)) = C g \<and> wire (net_os n) g @ content (P (g, True)) = Q g"
    using n(1) unfolding sessions_def by blast
  have e: "GetConn n fd = Some fd" "ci_ctype (net_conns n fd) = CONN_TYPE_CLI" "ci_bev (net_conns n fd) = Some (H fd)"
    "net_bevs n (H fd) = Some (E fd)" using sessD(1) [OF S(1) n(2)] by (simp_all add: tcp_conn_def)
  define os1 where "os1 = sys_close sys (sys_close sys (net_os n) fd) fd"
  obtain s1 where s1: "delete_BufferEventEv sys (sys_close sys (net_os n) fd) (net_store n) (E fd) = ret (os1, s1)" "store_ok s1"
    "buffers s1 ((F - {fd}) \<times> UNIV) (side E) P"
  proof -
    have "F \<times> UNIV - {(fd, False), (fd, True)} = (F - {fd}) \<times> (UNIV :: bool set)" by (auto simp: UNIV_bool)
    moreover have "buffers (net_store n) (F \<times> UNIV) (side E) P" using S(1) by (simp add: sess_def)
    moreover have "be_fd (E fd) = fd" using sessD(1) [OF S(1) n(2)] by (simp add: tcp_conn_def)
    ultimately show ?thesis
      using session_delete [of "net_store n" "F \<times> UNIV" "side E" P fd "E fd" sys "sys_close sys (net_os n) fd"] n(2) that
      unfolding os1_def by (auto simp: side_def)
  qed
  define n1 where "n1 = n\<lparr>net_os := os1, net_store := s1, net_bevs := (net_bevs n)(H fd := None),
    net_conns := (net_conns n)(fd := (net_conns n fd)\<lparr>ci_fd := -1, ci_bev := None\<rparr>)\<rparr>"
  have f: "fd < net_maxfds n" "0 \<le> fd" "ci_fd (net_conns n fd) = fd" using e(1) by (auto simp: GetConn_def split: if_splits)
  have "CloseConn sys (server_methods sys app) n fd = ret (n1, 0)"
    using f e(2-4) s1(1) by (simp add: CloseConn_def server_methods_def OnCliClosed_def delete_bev_def get_bev_def n1_def)
  moreover have "sess n1 (F - {fd}) H E P"
  proof -
    have "tcp_conn n1 g (H g) (E g) \<and> length (P (g, False)) \<le> 1" if "g \<in> F - {fd}" for g
    proof -
      have "tcp_conn n g (H g) (E g) \<and> length (P (g, False)) \<le> 1" "H g \<noteq> H fd"
        using S(1) that n(2) by (auto simp: sess_def inj_on_def)
      then show ?thesis using that by (simp add: tcp_conn_def n1_def GetConn_def split: if_splits)
    qed
    moreover have "inj_on H (F - {fd})" using S(1) by (auto simp: sess_def inj_on_def)
    ultimately show ?thesis using S(1) s1(3) by (simp add: sess_def n1_def)
  qed
  moreover have "wire (net_os n1) g = wire (net_os n) g" if "g \<noteq> fd" for g
    using sys that by (simp add: stream_system_def n1_def os1_def)
  ultimately have "CloseConn sys (server_methods sys app) n fd = ret (n1, 0)" "sessions wire n1 (F - {fd}) C Q"
    using S(2) unfolding sessions_def by (blast, metis (no_types, lifting) DiffD1 DiffD2 singletonI)
  moreover have "conn_table n1 = closed_table n fd \<and> net_recvQue n1 = net_recvQue n"
    using e(3) by (auto simp: conn_table_def closed_table_def n1_def)
  ultimately show ?thesis using s1(2) by (intro exI [of _ n1]) (simp add: n1_def)
qed

text \<open>The peer hangs up.\<close>

lemma session_hangup:
  assumes sys: "stream_system sys pending wire busy" and n: "sessions wire n F C Q" "fd \<in> F" "length (C fd) < 4096"
    and p: "pending (net_os n) fd = [] # segs"
  shows "\<exists>n1. on_readable sys (server_methods sys app) n (the (ci_bev (net_conns n fd))) = ret n1 \<and>
    sessions wire n1 (F - {fd}) C Q \<and> store_ok (net_store n1) \<and>
    net_maxMsglen n1 = net_maxMsglen n \<and> net_app n1 = net_app n \<and>
    conn_table n1 = closed_table n fd \<and> net_recvQue n1 = net_recvQue n"
proof -
  obtain H E P where S: "sess n F H E P"
    "\<forall>fd \<in> F. content (P (fd, False)) = C fd \<and> wire (net_os n) fd @ content (P (fd, True)) = Q fd"
    using n(1) unfolding sessions_def by blast
  note s = sessD [OF S(1) n(2)]
  have e: "ci_bev (net_conns n fd) = Some (H fd)" "net_bevs n (H fd) = Some (E fd)" "be_fd (E fd) = fd"
    "be_protocol (E fd) = IOEV_TCP_PROTOCOL" "be_rdcb (E fd)" "be_evcb (E fd)" "be_evwr (E fd) \<noteq> None"
    using s(1) by (simp_all add: tcp_conn_def)
  obtain os1 k os2 where o: "sys_ioctl sys (net_os n) (be_fd (E fd)) = (os1, Some k)" "0 \<le> k" "k \<le> 2 ^ 29"
    "sys_recv sys os1 (be_fd (E fd)) k = (os2, Inr [])" "wire os2 = wire (net_os n)"
    using sys p unfolding stream_system_def e(3) by blast
  let ?ps = "P (fd, False)" and ?srv = "server_methods sys app"
  have c: "content ?ps = C fd" using S(2) n(2) by simp
  have r: "length ?ps \<le> 2" "length (content ?ps) + length ([] :: byte list) \<le> 2 ^ 30" using s(4) n(3) c by simp_all
  obtain s1 q1 ps1 where R:
    "recvTcpData sys (net_os n) (net_store n) (E fd) = ret (os2, s1, (E fd)\<lparr>be_recvBuffer := q1\<rparr>, [Evcb fd IOEV_EVENT_EOF], -1)"
    "bb_rep s1 q1 ps1" "content ps1 = C fd" "evolves (net_store n) ?ps s1 ps1" and L: "lives ps1 =
       (if ?ps \<noteq> [] \<and> (k \<le> bk_len (snd (last ?ps)) - bk_wrpos (snd (last ?ps)) \<or> used (snd (last ?ps)) < COPY_BLOCK_SIZE)
        then butlast (lives ?ps) @ [last (lives ?ps) @ []] else lives ?ps @ [[]])"
    using recvTcpData_commits [OF s(2) o(1,4,2,3) _ _ r(2) e(5,6)] o(2) r(1) c e(3) by auto
  have "?ps \<noteq> [] \<longrightarrow> used (snd (last ?ps)) < COPY_BLOCK_SIZE"
    using used_one [OF s(2,4)] c n(3) by (simp add: COPY_BLOCK_SIZE_def)
  then have "length (lives ps1) \<le> 1" unfolding L lives_one [OF s(4)] by simp
  then have one: "length ps1 \<le> 1" by simp
  let ?e1 = "(E fd)\<lparr>be_recvBuffer := q1\<rparr>"
  let ?n0 = "(set_bev n (Some (H fd)) ?e1)\<lparr>net_os := os2, net_store := s1\<rparr>"
  have "sess ?n0 F H (E(fd := ?e1)) (P((fd, False) := ps1))"
    by (rule sess_change [OF S(1) n(2) R(4,2) _ _ e(7)]) (use one in \<open>simp_all add: set_bev_def\<close>)
  then have "sessions wire ?n0 F C Q"
    unfolding sessions_def using S(2) R(3) o(5)
    by (intro exI [of _ H] exI [of _ "E(fd := ?e1)"] exI [of _ "P((fd, False) := ps1)"]) (auto simp: set_bev_def)
  from session_close [OF sys this n(2), of app] obtain n1 where n1: "CloseConn sys ?srv ?n0 fd = ret (n1, 0)"
    "sessions wire n1 (F - {fd}) C Q" "store_ok (net_store n1)" "net_maxMsglen n1 = net_maxMsglen n" "net_app n1 = net_app n"
    "conn_table n1 = closed_table n fd \<and> net_recvQue n1 = net_recvQue n"
    using e(1,2) by (auto simp: set_bev_def closed_table_def)
  have "on_readable sys ?srv n (the (ci_bev (net_conns n fd))) = ret n1"
    using R(1) e(1,2,4) n1(1) by (simp add: on_readable_def get_bev_def RecvData_def event_callback_def OnConnClosed_def)
  then show ?thesis using n1(2-6) by blast
qed

section \<open>Refusing one\<close>

text \<open>A descriptor for which the table has no room is closed again, and nothing is left of it.\<close>

lemma session_refuse:
  assumes sys: "stream_system sys pending wire busy" and n: "sessions wire n F C Q" "bevs_below n"
    and fd: "net_maxfds n \<le> fd" "fd \<notin> F"
  shows "\<exists>n1. on_accept sys (server_methods sys app) n lfd fd = ret n1 \<and> sessions wire n1 F C Q \<and> bevs_below n1 \<and>
    net_store n1 = net_store n \<and> net_maxMsglen n1 = net_maxMsglen n \<and> net_app n1 = net_app n \<and>
    net_conns n1 = net_conns n \<and> net_maxfds n1 = net_maxfds n \<and> net_bevs n1 = net_bevs n \<and> net_single n1 = net_single n \<and> net_recvQue n1 = net_recvQue n"
proof -
  define n1 where "n1 = n\<lparr>net_os := sys_close sys (net_os n) fd, net_brk := Suc (net_brk n)\<rparr>"
  have h: "net_bevs n (net_brk n) = None" using n(2) by (auto simp: bevs_below_def)
  have e: "delete_BufferEventEv sys (net_os n) (net_store n) (new_BufferEventEv IOEV_TCP_PROTOCOL fd) =
      ret (sys_close sys (net_os n) fd, net_store n)"
    by (simp add: delete_BufferEventEv_def new_BufferEventEv_def delete_BlockBuffer_def new_BlockBuffer_def destroy_loop.simps Let_def)
  have "on_accept sys (server_methods sys app) n lfd fd = ret n1"
    using fd e h by (simp add: on_accept_def NewBufferEvent_def OpenConn_def delete_bev_def get_bev_def n1_def fun_upd_idem)
  moreover have "sessions wire n1 F C Q"
  proof -
    have w: "wire (net_os n1) g = wire (net_os n) g" if "g \<in> F" for g
    proof -
      have "g \<noteq> fd" using that fd(2) by blast
      then show ?thesis using sys by (simp add: stream_system_def n1_def)
    qed
    have "sess n1 F H E P = sess n F H E P" for H E P by (simp add: sess_def tcp_conn_def GetConn_def n1_def)
    then show ?thesis using n(1) w unfolding sessions_def by auto
  qed
  moreover have "bevs_below n1" using n(2) by (auto simp: bevs_below_def n1_def less_Suc_eq)
  ultimately show ?thesis by (intro exI [of _ n1]) (simp add: n1_def)
qed

section \<open>What a client has said\<close>

text \<open>Whatever follows, the requests that have come in whole stay what they are.\<close>

lemma frames_prefix:
  assumes "\<forall>f \<in> set fs. frame_ok mx f" "\<forall>f \<in> set gs. frame_ok mx f" "concat fs @ x = concat gs @ rest" "incomplete mx rest"
  shows "\<exists>hs. gs = fs @ hs \<and> x = concat hs @ rest"
  using assms(1-3)
proof (induction fs arbitrary: gs)
  case (Cons f fs)
  have f: "4 \<le> length f" "be_val (take 4 f) = int (length f)" using Cons.prems(1) by (simp_all add: frame_ok_def)
  show ?case
  proof (cases gs)
    case Nil
    then have "rest = f @ concat fs @ x" using Cons.prems(3) by simp
    then show ?thesis using f assms(4) by (simp add: incomplete_def)
  next
    case (Cons g gs')
    have g: "4 \<le> length g" "be_val (take 4 g) = int (length g)" using Cons.prems(2) Cons by (simp_all add: frame_ok_def)
    have eq: "f @ concat fs @ x = g @ concat gs' @ rest" using Cons.prems(3) Cons by simp
    then have "take 4 f = take 4 g" using f(1) g(1) by (metis take_append diff_is_0_eq take0 append_Nil2)
    then have "length f = length g" using f(2) g(2) by simp
    then have "f = g" "concat fs @ x = concat gs' @ rest" using eq by simp_all
    moreover from this obtain hs where "gs' = fs @ hs" "x = concat hs @ rest"
      using Cons.IH [of gs'] Cons.prems(1,2) Cons by auto
    ultimately show ?thesis using Cons by auto
  qed
qed simp

text \<open>The bytes tell the request, and all the bytes said tell all the requests.\<close>

lemma request_bytes_inj:
  assumes "request_bytes p = request_bytes q" "fits mx p" "fits mx q"
  shows "p = q"
proof -
  obtain a d b e where pq: "p = (a, d)" "q = (b, e)" by (cases p, cases q)
  have eq: "head_bytes 0 a (int (length d)) @ d = head_bytes 0 b (int (length e)) @ e"
    using assms(1) by (simp add: request_bytes_def pq)
  have n: "length a \<le> 244" "length b \<le> 244" using assms(2,3) by (simp_all add: fits_def pq)
  have name: "be_val (take 4 (drop 8 (head_bytes 0 x k @ y))) = int (length x)" if "length x \<le> 244" for x k and y :: "byte list"
    using that by (simp add: head_bytes_def)
  have "length a = length b" using name [OF n(1), of "int (length d)" d] name [OF n(2), of "int (length e)" e] eq by simp
  then show ?thesis using eq by (simp add: head_bytes_def pq)
qed

lemma speaks_unique:
  assumes "speaks mx xs reqs c" "speaks mx xs reqs' c'" "mx \<le> 2 ^ 30"
  shows "reqs = reqs' \<and> c = c'"
proof -
  have ok: "\<forall>f \<in> set (map request_bytes rs). frame_ok mx f" if "\<forall>req \<in> set rs. fits mx req" for rs
    using that fits_frame [OF _ assms(3)] by auto
  have s: "\<forall>req \<in> set reqs. fits mx req" "\<forall>req \<in> set reqs'. fits mx req" "incomplete mx c" "incomplete mx c'"
    "concat (map request_bytes reqs) @ c = concat (map request_bytes reqs') @ c'" using assms(1,2) by (simp_all add: speaks_def)
  obtain hs where h: "map request_bytes reqs' = map request_bytes reqs @ hs" "c = concat hs @ c'"
    using frames_prefix [OF ok [OF s(1)] ok [OF s(2)] s(5,4)] by blast
  obtain hs' where h': "map request_bytes reqs = map request_bytes reqs' @ hs'"
    using frames_prefix [OF ok [OF s(2)] ok [OF s(1)] s(5) [symmetric] s(3)] by blast
  have "hs = []" using h(1) h' by simp
  then have "map request_bytes reqs' = map request_bytes reqs" "c = c'" using h by simp_all
  moreover have "inj_on request_bytes (set reqs' \<union> set reqs)"
    using request_bytes_inj s(1,2) by (blast intro: inj_onI)
  ultimately show ?thesis using inj_on_map_eq_map by blast
qed

lemma speaks_extend:
  assumes "speaks mx said reqs c" "speaks mx (said @ xs) reqs' c'" "mx \<le> 2 ^ 30"
  shows "\<exists>new. speaks mx (said @ xs) (reqs @ new) c' \<and> c @ xs = concat (map request_bytes new) @ c'"
proof -
  have ok: "\<forall>f \<in> set (map request_bytes rs). frame_ok mx f" if "\<forall>req \<in> set rs. fits mx req" for rs
    using that fits_frame [OF _ assms(3)] by auto
  have "concat (map request_bytes reqs) @ c @ xs = concat (map request_bytes reqs') @ c'"
    using assms(1,2) by (simp add: speaks_def)
  then obtain hs where hs: "map request_bytes reqs' = map request_bytes reqs @ hs" "c @ xs = concat hs @ c'"
    using frames_prefix [OF ok ok, of reqs reqs' "c @ xs" c'] assms(1,2) by (auto simp: speaks_def)
  then obtain new where n: "hs = map request_bytes new" "set new \<subseteq> set reqs'" by (auto simp: map_eq_append_conv)
  then have "speaks mx (said @ xs) (reqs @ new) c'" using assms(1,2) hs(2) by (auto simp: speaks_def)
  then show ?thesis using hs(2) n(1) by blast
qed

section \<open>Connections come and go\<close>

text \<open>
  The steps of the event loop, and the history of the connections that are open: what the socket had taken when the
  connection was accepted (its number may have served before), and all the client has said since.  A client says
  requests.  In between the system goes on: bytes come in, clients hang up, numbers are handed out.
\<close>

type_synonym history = "int \<rightharpoonup> byte list \<times> byte list"

inductive life ::
  "'os sys \<Rightarrow> ('os, 'h, 's, 'c, 'a) app_code \<Rightarrow> ('os \<Rightarrow> int \<Rightarrow> byte list list) \<Rightarrow> ('os \<Rightarrow> int \<Rightarrow> byte list) \<Rightarrow>
     ('os, 'h, 's, 'c, 'a) world \<Rightarrow> ('os, 'h, 's, 'c, 'a) world \<Rightarrow> history \<Rightarrow> bool"
  for sys app pending wire n0 where
  begins: "life sys app pending wire n0 n0 Map.empty"
| accepts: "life sys app pending wire n0 n S \<Longrightarrow> S fd = None \<Longrightarrow> 0 \<le> fd \<Longrightarrow> 0 < lfd \<Longrightarrow>
    on_accept sys (server_methods sys app) n lfd fd = ret n1 \<Longrightarrow>
    life sys app pending wire n0 n1 (if fd < net_maxfds n then S(fd \<mapsto> (wire (net_os n) fd, [])) else S)"
| says: "life sys app pending wire n0 n S \<Longrightarrow> S fd = Some (was, said) \<Longrightarrow> pending (net_os n) fd = xs # segs \<Longrightarrow> xs \<noteq> [] \<Longrightarrow>
    speaks (net_maxMsglen n) (said @ xs) reqs rest \<Longrightarrow> on_event sys (server_methods sys app) (Readable fd) n = ret n1 \<Longrightarrow>
    life sys app pending wire n0 n1 (S(fd \<mapsto> (was, said @ xs)))"
| hangs_up: "life sys app pending wire n0 n S \<Longrightarrow> S fd \<noteq> None \<Longrightarrow> pending (net_os n) fd = [] # segs \<Longrightarrow>
    on_event sys (server_methods sys app) (Readable fd) n = ret n1 \<Longrightarrow> life sys app pending wire n0 n1 (S(fd := None))"
| takes: "life sys app pending wire n0 n S \<Longrightarrow> S fd \<noteq> None \<Longrightarrow>
    on_event sys (server_methods sys app) (Writable fd) n = ret n1 \<Longrightarrow> life sys app pending wire n0 n1 S"
| passes: "life sys app pending wire n0 n S \<Longrightarrow> \<forall>fd \<in> dom S. wire os fd = wire (net_os n) fd \<Longrightarrow>
    life sys app pending wire n0 (n\<lparr>net_os := os\<rparr>) S"

text \<open>The table and the events are in step with the connections, and the settings stay.\<close>

definition steady :: "('os, 'h, 's, 'c, 'a) world \<Rightarrow> ('os, 'h, 's, 'c, 'a) world \<Rightarrow> int set \<Rightarrow> bool" where
  "steady n0 n F \<longleftrightarrow>
     finite F \<and> bevs_below n \<and> store_ok (net_store n) \<and> (\<forall>fd. fd \<notin> F \<longrightarrow> ci_fd (net_conns n fd) = -1) \<and>
     dom (net_bevs n) = (\<lambda>fd. the (ci_bev (net_conns n fd))) ` F \<and> net_maxfds n = net_maxfds n0 \<and>
     net_maxMsglen n = net_maxMsglen n0 \<and> net_single n = net_single n0 \<and> rpc_tables (sv_rpc (net_app n)) = rpc_tables (sv_rpc (net_app n0))"

definition replied ::
  "int \<Rightarrow> (byte list \<rightharpoonup> 'h) \<Rightarrow> ('h \<Rightarrow> byte list \<Rightarrow> byte list) \<Rightarrow> history \<Rightarrow> (int \<Rightarrow> byte list) \<Rightarrow> (int \<Rightarrow> byte list) \<Rightarrow> bool" where
  "replied mx M reply S C Q \<longleftrightarrow>
     (\<forall>fd was said. S fd = Some (was, said) \<longrightarrow>
        (\<exists>reqs. speaks mx said reqs (C fd) \<and> Q fd = was @ concat (map (answer M reply) reqs)))"

definition life_ok ::
  "('os \<Rightarrow> int \<Rightarrow> byte list) \<Rightarrow> ('h \<Rightarrow> byte list \<Rightarrow> byte list) \<Rightarrow> ('os, 'h, 's, 'c, 'a) world \<Rightarrow> ('os, 'h, 's, 'c, 'a) world \<Rightarrow>
     history \<Rightarrow> bool" where
  "life_ok wire reply n0 n S \<longleftrightarrow>
     steady n0 n (dom S) \<and>
     (\<exists>C Q. sessions wire n (dom S) C Q \<and> replied (net_maxMsglen n0) (rpc_requestMap (sv_rpc (net_app n0))) reply S C Q)"

lemma sessions_store_ok: "sessions wire n F C Q \<Longrightarrow> fd \<in> F \<Longrightarrow> store_ok (net_store n)"
  by (auto simp: sessions_def sess_def buffers_def bb_rep_def links_def)

lemma steady_same:
  assumes "steady n0 n F" "conn_table n1 = conn_table n" "store_ok (net_store n1)" "net_maxMsglen n1 = net_maxMsglen n"
    "rpc_tables (sv_rpc (net_app n1)) = rpc_tables (sv_rpc (net_app n))"
  shows "steady n0 n1 F"
proof -
  have "net_conns n1 = net_conns n" "net_brk n1 = net_brk n" "net_maxfds n1 = net_maxfds n" "dom (net_bevs n1) = dom (net_bevs n)" "net_single n1 = net_single n"
    using assms(2) by (simp_all add: conn_table_def)
  moreover from this have "bevs_below n1 = bevs_below n" unfolding bevs_below_def by (metis domIff)
  ultimately show ?thesis using assms unfolding steady_def by simp
qed

lemma session_entry: "sessions wire n F C Q \<Longrightarrow> fd \<in> F \<Longrightarrow> GetConn n fd = Some fd \<and> (\<exists>h. ci_bev (net_conns n fd) = Some h \<and> h \<in> dom (net_bevs n))"
  by (auto simp: sessions_def sess_def tcp_conn_def)

lemma session_handles: "sessions wire n F C Q \<Longrightarrow> inj_on (\<lambda>fd. the (ci_bev (net_conns n fd))) F"
  by (auto simp: sessions_def sess_def tcp_conn_def inj_on_def)

section \<open>The steps\<close>

text \<open>A new connection, or one for which there is no room.\<close>

lemma conn_accepts:
  assumes sys: "stream_system sys pending wire busy" and s: "sessions wire n F C Q" "steady n0 n F"
    and fd: "fd \<notin> F" "0 \<le> fd" "0 < lfd"
  shows "\<exists>n1. on_accept sys (server_methods sys app) n lfd fd = ret n1 \<and>
    sessions wire n1 (if fd < net_maxfds n then insert fd F else F) (C(fd := [])) (Q(fd := wire (net_os n) fd)) \<and>
    steady n0 n1 (if fd < net_maxfds n then insert fd F else F) \<and> net_app n1 = net_app n \<and> net_recvQue n1 = net_recvQue n"
proof -
  have st: "bevs_below n" "store_ok (net_store n)" "ci_fd (net_conns n fd) = -1"
    using s(2) fd(1) by (auto simp: steady_def)
  show ?thesis
  proof (cases "fd < net_maxfds n")
    case False
    then have "net_maxfds n \<le> fd" by simp
    from session_refuse [OF sys s(1) st(1) this fd(1), of app lfd] obtain n1 where
      n1: "on_accept sys (server_methods sys app) n lfd fd = ret n1" "sessions wire n1 F C Q" "bevs_below n1"
      "net_store n1 = net_store n" "net_maxMsglen n1 = net_maxMsglen n" "net_app n1 = net_app n" "net_conns n1 = net_conns n"
      "net_maxfds n1 = net_maxfds n" "net_bevs n1 = net_bevs n" "net_single n1 = net_single n" "net_recvQue n1 = net_recvQue n" by blast
    have "steady n0 n1 F" using s(2) n1(3-10) by (simp add: steady_def)
    moreover have "sessions wire n1 F (C(fd := [])) (Q(fd := wire (net_os n) fd))"
      using n1(2) sessions_cong [of F C "C(fd := [])" Q "Q(fd := wire (net_os n) fd)" wire n1] fd(1) by auto
    ultimately show ?thesis using n1(1,6,11) False by auto
  next
    case True
    have "ci_fd (net_conns n fd) \<le> 0" using st(3) by simp
    from session_accept [OF s(1) st(1,2) fd(2) True this fd(1,3), of sys app] obtain n1 where
      n1: "on_accept sys (server_methods sys app) n lfd fd = ret n1" "bevs_below n1" "net_store n1 = net_store n" "net_maxMsglen n1 = net_maxMsglen n"
      "net_app n1 = net_app n" "net_maxfds n1 = net_maxfds n" "\<forall>g. g \<noteq> fd \<longrightarrow> net_conns n1 g = net_conns n g"
      "ci_bev (net_conns n1 fd) = Some (net_brk n)" "dom (net_bevs n1) = insert (net_brk n) (dom (net_bevs n))"
      "net_single n1 = net_single n" "net_recvQue n1 = net_recvQue n"
      and n1s: "sessions wire n1 (insert fd F) (C(fd := [])) (Q(fd := wire (net_os n) fd))" by blast
    have "(\<lambda>g. the (ci_bev (net_conns n1 g))) ` F = (\<lambda>g. the (ci_bev (net_conns n g))) ` F"
      using fd(1) n1(7) by (intro image_cong) auto
    then have "dom (net_bevs n1) = (\<lambda>g. the (ci_bev (net_conns n1 g))) ` insert fd F"
      using n1(8,9) s(2) by (simp add: steady_def)
    moreover have "\<forall>g. g \<notin> insert fd F \<longrightarrow> ci_fd (net_conns n1 g) = -1" using s(2) n1(7) by (simp add: steady_def)
    ultimately have "steady n0 n1 (insert fd F)" using s(2) n1(2-6,10) unfolding steady_def by simp
    then show ?thesis using n1(1,5,11) n1s True by auto
  qed
qed

lemma conn_hangs_up:
  assumes sys: "stream_system sys pending wire busy" and n: "sessions wire n F C Q" "steady n0 n F"
    and fd: "fd \<in> F" "length (C fd) < 4096" and p: "pending (net_os n) fd = [] # segs"
  shows "\<exists>n1. on_event sys (server_methods sys app) (Readable fd) n = ret n1 \<and> sessions wire n1 (F - {fd}) C Q \<and> steady n0 n1 (F - {fd}) \<and>
    net_app n1 = net_app n \<and> net_recvQue n1 = net_recvQue n"
proof -
  let ?h = "\<lambda>g. the (ci_bev (net_conns n g))"
  from session_hangup [OF sys n(1) fd p, of app] obtain n1 where
    n1: "on_readable sys (server_methods sys app) n (?h fd) = ret n1" "sessions wire n1 (F - {fd}) C Q" "store_ok (net_store n1)"
    "net_maxMsglen n1 = net_maxMsglen n" "net_app n1 = net_app n" and t: "conn_table n1 = closed_table n fd" "net_recvQue n1 = net_recvQue n"
    by blast
  have t1: "net_conns n1 = (net_conns n)(fd := (net_conns n fd)\<lparr>ci_fd := -1, ci_bev := None\<rparr>)" "net_brk n1 = net_brk n"
    "net_maxfds n1 = net_maxfds n" "dom (net_bevs n1) = dom (net_bevs n) - {?h fd}" "net_single n1 = net_single n"
    using t(1) by (simp_all add: conn_table_def closed_table_def)
  have "(\<lambda>g. the (ci_bev (net_conns n1 g))) ` (F - {fd}) = ?h ` (F - {fd})" using t1(1) by (intro image_cong) auto
  also have "\<dots> = ?h ` F - {?h fd}" using inj_on_image_set_diff [OF session_handles [OF n(1)], of F "{fd}"] fd(1) by simp
  finally have "dom (net_bevs n1) = (\<lambda>g. the (ci_bev (net_conns n1 g))) ` (F - {fd})" using t1(4) n(2) by (simp add: steady_def)
  moreover have "bevs_below n1" using n(2) t1(2,4) unfolding steady_def bevs_below_def by (metis DiffD1 domIff)
  ultimately have "steady n0 n1 (F - {fd})" using n(2) n1(3-5) t1(1,3,5) by (simp add: steady_def)
  then show ?thesis using n1(1,2,5) t(2) by simp
qed

lemma conn_takes:
  assumes sys: "stream_system sys pending wire busy" and n: "sessions wire n F C Q" "steady n0 n F" "fd \<in> F"
  shows "\<exists>n1. on_event sys (server_methods sys app) (Writable fd) n = ret n1 \<and> sessions wire n1 F C Q \<and> steady n0 n1 F \<and>
    wire (net_os n1) fd = Q fd \<and> net_app n1 = net_app n \<and> net_recvQue n1 = net_recvQue n"
proof -
  have sys': "streams sys F (pieces pending) wire busy"
    using sys streams_subset [OF _ subset_UNIV] by (auto simp: stream_system_def)
  obtain n1 where n1: "on_writable sys (server_methods sys app) n (the (ci_bev (net_conns n fd))) = ret n1" "sessions wire n1 F C Q"
    "wire (net_os n1) fd = Q fd" "net_maxMsglen n1 = net_maxMsglen n" "net_app n1 = net_app n" "conn_table n1 = conn_table n"
    "net_recvQue n1 = net_recvQue n"
    using session_flushes [OF sys' n(1,3)] by blast
  have "steady n0 n1 F" using steady_same [OF n(2) n1(6) sessions_store_ok [OF n1(2) n(3)] n1(4)] n1(5) by simp
  then show ?thesis using n1 by simp
qed

lemma conn_passes:
  assumes "sessions wire n F C Q" "steady n0 n F" "\<forall>fd \<in> F. wire os fd = wire (net_os n) fd"
  shows "sessions wire (n\<lparr>net_os := os\<rparr>) F C Q \<and> steady n0 (n\<lparr>net_os := os\<rparr>) F"
proof -
  have "sess (n\<lparr>net_os := os\<rparr>) F H E P = sess n F H E P" for H E P by (simp add: sess_def tcp_conn_def GetConn_def)
  then have "sessions wire (n\<lparr>net_os := os\<rparr>) F C Q" using assms(1,3) by (simp add: sessions_def)
  then show ?thesis using assms(2) by (simp add: steady_def bevs_below_def)
qed

lemma speaks_nothing: "speaks mx [] [] []"
  by (simp add: speaks_def incomplete_def)

lemma life_accepts:
  assumes sys: "stream_system sys pending wire busy" and ok: "life_ok wire reply n0 n S"
    and fd: "S fd = None" "0 \<le> fd" "0 < lfd"
  shows "\<exists>n1. on_accept sys (server_methods sys app) n lfd fd = ret n1 \<and>
    life_ok wire reply n0 n1 (if fd < net_maxfds n then S(fd \<mapsto> (wire (net_os n) fd, [])) else S)"
proof -
  let ?S = "if fd < net_maxfds n then S(fd \<mapsto> (wire (net_os n) fd, [])) else S" and ?Q = "\<lambda>Q. Q(fd := wire (net_os n) fd)"
  obtain C Q where s: "sessions wire n (dom S) C Q" "steady n0 n (dom S)"
    "replied (net_maxMsglen n0) (rpc_requestMap (sv_rpc (net_app n0))) reply S C Q" using ok by (auto simp: life_ok_def)
  have "fd \<notin> dom S" using fd(1) by blast
  from conn_accepts [OF sys s(1,2) this fd(2,3), of app] obtain n1 where
    n1: "on_accept sys (server_methods sys app) n lfd fd = ret n1" "sessions wire n1 (dom ?S) (C(fd := [])) (?Q Q)" "steady n0 n1 (dom ?S)"
    by (auto split: if_splits)
  have "replied (net_maxMsglen n0) (rpc_requestMap (sv_rpc (net_app n0))) reply ?S (C(fd := [])) (?Q Q)"
    using s(3) fd(1) speaks_nothing unfolding replied_def by (auto intro!: exI [of _ "[]"])
  then show ?thesis using n1 unfolding life_ok_def by blast
qed

lemma life_says:
  assumes sys: "stream_system sys pending wire busy" and app: "\<And>F. app_replies app F (pieces pending) wire reply"
    and base: "rpc_baseRequest (sv_rpc (net_app n0)) = None" "net_single n0" and ok: "life_ok wire reply n0 n S"
    and fd: "S fd = Some (was, said)" and p: "pending (net_os n) fd = xs # segs" "xs \<noteq> []"
    and s: "speaks (net_maxMsglen n) (said @ xs) reqs rest"
  shows "\<exists>n1. on_event sys (server_methods sys app) (Readable fd) n = ret n1 \<and> life_ok wire reply n0 n1 (S(fd \<mapsto> (was, said @ xs)))"
proof -
  let ?mx = "net_maxMsglen n0" and ?M = "rpc_requestMap (sv_rpc (net_app n0))"
  obtain C Q where n: "sessions wire n (dom S) C Q" "steady n0 n (dom S)" "replied ?mx ?M reply S C Q"
    using ok by (auto simp: life_ok_def)
  have sys': "streams sys (dom S) (pieces pending) wire busy"
    using sys streams_subset [OF _ subset_UNIV] by (auto simp: stream_system_def)
  have m: "net_maxMsglen n = ?mx" "rpc_tables (sv_rpc (net_app n)) = rpc_tables (sv_rpc (net_app n0))"
    using n(2) by (simp_all add: steady_def)
  then have t: "rpc_requestMap (sv_rpc (net_app n)) = ?M" "rpc_baseRequest (sv_rpc (net_app n)) = None" "net_single n"
    using base n(2) by (simp_all add: rpc_tables_def steady_def)
  have f: "fd \<in> dom S" using fd by blast
  then have mx: "?mx \<le> 2 ^ 30" using n(1) m(1) by (auto simp: sessions_def sess_def)
  obtain old where old: "speaks ?mx said old (C fd)" "Q fd = was @ concat (map (answer ?M reply) old)"
    using n(3) fd unfolding replied_def by blast
  obtain new where new: "speaks ?mx (said @ xs) (old @ new) rest" "C fd @ xs = concat (map request_bytes new) @ rest"
    using speaks_extend [OF old(1) s [unfolded m(1)] mx] by blast
  have c: "length (C fd) < 4096" "\<forall>req \<in> set new. fits (net_maxMsglen n) req" "incomplete (net_maxMsglen n) rest"
    using old(1) new(1) m(1) by (simp_all add: speaks_def)
  have "pieces pending (net_os n) fd = xs # takeWhile ((\<noteq>) []) segs" using p by (simp add: pieces_def)
  from session_says [OF sys' app n(1) f c(1) t(2) this new(2) c(2,3) t(3)] obtain n1 where
    n1: "on_readable sys (server_methods sys app) n (the (ci_bev (net_conns n fd))) = ret n1"
    "sessions wire n1 (dom S) (C(fd := rest)) (Q(fd := Q fd @ concat (map (answer ?M reply) new)))"
    "net_maxMsglen n1 = net_maxMsglen n" "rpc_tables (sv_rpc (net_app n1)) = rpc_tables (sv_rpc (net_app n))"
    "conn_table n1 = conn_table n" unfolding t(1) by blast
  let ?S = "S(fd \<mapsto> (was, said @ xs))"
  have "replied ?mx ?M reply ?S (C(fd := rest)) (Q(fd := Q fd @ concat (map (answer ?M reply) new)))"
    using n(3) new(1) old(2) unfolding replied_def by (auto intro!: exI [of _ "old @ new"])
  moreover have "steady n0 n1 (dom S)" using steady_same [OF n(2) n1(5) sessions_store_ok [OF n1(2) f] n1(3,4)] .
  moreover have "dom ?S = dom S" using f by auto
  ultimately have "life_ok wire reply n0 n1 ?S" using n1(2) unfolding life_ok_def by metis
  then show ?thesis using n1(1) by simp
qed

lemma life_hangs_up:
  assumes sys: "stream_system sys pending wire busy" and ok: "life_ok wire reply n0 n S"
    and fd: "S fd \<noteq> None" and p: "pending (net_os n) fd = [] # segs"
  shows "\<exists>n1. on_event sys (server_methods sys app) (Readable fd) n = ret n1 \<and> life_ok wire reply n0 n1 (S(fd := None))"
proof -
  obtain C Q where n: "sessions wire n (dom S) C Q" "steady n0 n (dom S)"
    "replied (net_maxMsglen n0) (rpc_requestMap (sv_rpc (net_app n0))) reply S C Q"
    using ok by (auto simp: life_ok_def)
  have f: "fd \<in> dom S" "length (C fd) < 4096" using fd n(3) by (auto simp: replied_def speaks_def)
  from conn_hangs_up [OF sys n(1,2) f p, of app] show ?thesis
    using n(3) unfolding life_ok_def by (fastforce simp: replied_def)
qed

lemma life_takes:
  assumes sys: "stream_system sys pending wire busy" and ok: "life_ok wire reply n0 n S" and fd: "S fd \<noteq> None"
  shows "\<exists>n1. on_event sys (server_methods sys app) (Writable fd) n = ret n1 \<and> life_ok wire reply n0 n1 S \<and>
    (\<forall>was said reqs rest. S fd = Some (was, said) \<longrightarrow> speaks (net_maxMsglen n0) said reqs rest \<longrightarrow>
       wire (net_os n1) fd = was @ concat (map (answer (rpc_requestMap (sv_rpc (net_app n0))) reply) reqs))"
proof -
  let ?mx = "net_maxMsglen n0" and ?M = "rpc_requestMap (sv_rpc (net_app n0))"
  obtain C Q where n: "sessions wire n (dom S) C Q" "steady n0 n (dom S)" "replied ?mx ?M reply S C Q"
    using ok by (auto simp: life_ok_def)
  have f: "fd \<in> dom S" using fd by blast
  then have mx: "?mx \<le> 2 ^ 30" using n(1,2) by (auto simp: sessions_def sess_def steady_def)
  obtain n1 where n1: "on_event sys (server_methods sys app) (Writable fd) n = ret n1" "sessions wire n1 (dom S) C Q" "steady n0 n1 (dom S)"
    "wire (net_os n1) fd = Q fd"
    using conn_takes [OF sys n(1,2) f] by blast
  have "life_ok wire reply n0 n1 S" using n1(2,3) n(3) unfolding life_ok_def by blast
  moreover have "Q fd = was @ concat (map (answer ?M reply) reqs)" if "S fd = Some (was, said)" "speaks ?mx said reqs rest" for was said reqs rest
    using n(3) that speaks_unique [OF that(2) _ mx] unfolding replied_def by blast
  ultimately show ?thesis using n1(1,4) by (intro exI [of _ n1]) auto
qed

lemma life_new:
  assumes "0 \<le> mx" "mx \<le> 2 ^ 30" "store_ok s"
  shows "life_ok wire reply (new_NetMessage os s mx k True (replicate (nat mx) 0) q srv) (new_NetMessage os s mx k True (replicate (nat mx) 0) q srv)
    Map.empty"
proof -
  let ?n = "new_NetMessage os s mx k True (replicate (nat mx) 0) q srv"
  have "sessions wire ?n (dom Map.empty) C Q" for C Q using sessions_none(1) [OF assms(1,2)] by simp
  moreover have "steady ?n ?n (dom Map.empty)"
    using sessions_none(2) [OF assms(1,2)] assms(3) by (simp add: steady_def new_NetMessage_def)
  ultimately show ?thesis by (simp add: life_ok_def replied_def)
qed

lemma life_invariant:
  assumes sys: "stream_system sys pending wire busy" and app: "\<And>F. app_replies app F (pieces pending) wire reply"
    and n0: "life_ok wire reply n0 n0 Map.empty" "rpc_baseRequest (sv_rpc (net_app n0)) = None" "net_single n0"
    and life: "life sys app pending wire n0 n S"
  shows "life_ok wire reply n0 n S"
  using life
proof (induction rule: life.induct)
  case begins
  show ?case by (rule n0(1))
next
  case (accepts n S fd lfd n1)
  obtain m where "on_accept sys (server_methods sys app) n lfd fd = ret m"
    "life_ok wire reply n0 m (if fd < net_maxfds n then S(fd \<mapsto> (wire (net_os n) fd, [])) else S)"
    using life_accepts [OF sys accepts.IH accepts.hyps(2,3,4)] by blast
  then show ?case using accepts.hyps(5) by simp
next
  case (says n S fd was said xs segs reqs rest n1)
  obtain m where "on_event sys (server_methods sys app) (Readable fd) n = ret m" "life_ok wire reply n0 m (S(fd \<mapsto> (was, said @ xs)))"
    using life_says [OF sys app n0(2,3) says.IH says.hyps(2-5)] by blast
  then show ?case using says.hyps(6) by (simp del: fun_upd_apply)
next
  case (hangs_up n S fd segs n1)
  obtain m where "on_event sys (server_methods sys app) (Readable fd) n = ret m" "life_ok wire reply n0 m (S(fd := None))"
    using life_hangs_up [OF sys hangs_up.IH hangs_up.hyps(2,3)] by blast
  then show ?case using hangs_up.hyps(4) by (simp del: fun_upd_apply)
next
  case (takes n S fd n1)
  obtain m where "on_event sys (server_methods sys app) (Writable fd) n = ret m" "life_ok wire reply n0 m S"
    using life_takes [OF sys takes.IH takes.hyps(2)] by blast
  then show ?case using takes.hyps(3) by simp
next
  case (passes n S os)
  then show ?case using conn_passes [of wire n "dom S" _ _ n0 os] unfolding life_ok_def by blast
qed

section \<open>What always holds\<close>


section \<open>An example\<close>

text \<open>The system of theory \<open>Net_Sessions\<close>, now with ends.\<close>

definition ten_pending :: "example_os \<Rightarrow> int \<Rightarrow> byte list list" where
  "ten_pending os fd = takeWhile (\<lambda>xs. length xs \<le> 2 ^ 29) (fst os fd)"

lemma ten_pieces: "pieces ten_pending = (\<lambda>os fd. to_come (fst os fd))"
proof -
  have "takeWhile ((\<noteq>) []) (takeWhile (\<lambda>xs. length xs \<le> 2 ^ 29) xss) = takeWhile (\<lambda>xs. xs \<noteq> [] \<and> length xs \<le> 2 ^ 29) xss"
    for xss :: "byte list list" by (induction xss) auto
  then show ?thesis by (intro ext) (simp only: pieces_def ten_pending_def to_come_def)
qed

lemma ten_stream_system: "stream_system ten_sys ten_pending snd (\<lambda>_. 0)"
proof -
  have "\<exists>os1 k os2. sys_ioctl ten_sys os fd = (os1, Some k) \<and> 0 \<le> k \<and> k \<le> 2 ^ 29 \<and> sys_recv ten_sys os1 fd k = (os2, Inr []) \<and>
      snd os2 = snd os" if "ten_pending os fd = [] # segs" for os fd segs
  proof -
    have "hd (fst os fd) = []" using that by (cases "fst os fd") (auto simp: ten_pending_def split: if_splits)
    then show ?thesis by (simp add: ten_sys_def)
  qed
  moreover have "snd (sys_close ten_sys os fd) = snd os" for os fd by (simp add: ten_sys_def)
  ultimately show ?thesis using ten_sys_streams unfolding stream_system_def ten_pieces by simp
qed

lemma echo_replies_ten: "app_replies (echo_app ten_sys :: (example_os, 'h, 's, unit, 'a) app_code) F (pieces ten_pending) snd (\<lambda>_. echo)"
  unfolding ten_pieces by (rule echo_app_replies [OF ten_sys_streams])

text \<open>A client connects, says a request, has its answer and hangs up; another one gets its number, and asks for what nobody knows.\<close>

abbreviation ten_life :: "(example_os, nat, unit, unit, unit) world \<Rightarrow> history \<Rightarrow> bool" where
  "ten_life \<equiv> life ten_sys (echo_app ten_sys) ten_pending snd (example_server (\<lambda>_. [], \<lambda>_. []))"

abbreviation ten_methods :: "(example_os, nat, unit, unit, unit) world server_calls" where
  "ten_methods \<equiv> server_methods ten_sys (echo_app ten_sys)"

lemma ten_life_ok:
  assumes "ten_life n S"
  shows "life_ok snd (\<lambda>_. echo) (example_server (\<lambda>_. [], \<lambda>_. [])) n S"
proof (rule life_invariant [OF ten_stream_system echo_replies_ten _ _ _ assms])
  show "life_ok snd (\<lambda>_. echo) (example_server (\<lambda>_. [], \<lambda>_. [])) (example_server (\<lambda>_. [], \<lambda>_. []) :: (example_os, nat, unit, unit, unit) world) Map.empty"
    unfolding example_server_def by (rule life_new) (simp_all add: store_ok_empty)
qed (simp_all add: example_server_def new_NetMessage_def new_IRpc_def)

lemma ten_settings:
  assumes "ten_life n S"
  shows "net_maxMsglen n = 8192" "net_maxfds n = 16"
  using ten_life_ok [OF assms] by (simp_all add: life_ok_def steady_def example_server_def new_NetMessage_def to_u32_id)

lemma ten_accepts:
  assumes "ten_life n S" "S 5 = None"
  obtains n1 where "on_accept ten_sys ten_methods n 3 5 = ret n1" "ten_life n1 (S(5 \<mapsto> (snd (net_os n) 5, [])))"
proof -
  obtain n1 where n1: "on_accept ten_sys ten_methods n 3 5 = ret n1"
    using life_accepts [OF ten_stream_system ten_life_ok [OF assms(1)] assms(2), of 3 "echo_app ten_sys"] by auto
  then have "ten_life n1 (S(5 \<mapsto> (snd (net_os n) 5, [])))"
    using life.accepts [OF assms _ _ n1] ten_settings [OF assms(1)] by simp
  with n1 show ?thesis using that by blast
qed

lemma ten_says:
  assumes n: "ten_life n S" "dom S = {5}" "S 5 = Some (was, said)" and x: "xs \<noteq> []" "length xs \<le> 2 ^ 29" "speaks 8192 (said @ xs) reqs rest"
  obtains n1 where "ten_life n1 (S(5 \<mapsto> (was, said @ xs)))"
proof -
  let ?n = "n\<lparr>net_os := ((\<lambda>_. [xs]), snd (net_os n))\<rparr>"
  have l: "ten_life ?n S" by (rule life.passes [OF n(1)]) simp
  have p: "ten_pending (net_os ?n) 5 = [xs]" using x(2) by (simp add: ten_pending_def)
  have s: "speaks (net_maxMsglen ?n) (said @ xs) reqs rest" using x(3) ten_settings(1) [OF l] by simp
  have "rpc_baseRequest (sv_rpc (net_app (example_server (\<lambda>_. [], \<lambda>_. []) :: (example_os, nat, unit, unit, unit) world))) = None"
    "net_single (example_server (\<lambda>_. [], \<lambda>_. []) :: (example_os, nat, unit, unit, unit) world)"
    by (simp_all add: example_server_def new_NetMessage_def new_IRpc_def)
  from life_says [OF ten_stream_system echo_replies_ten this ten_life_ok [OF l] n(3) p x(1) s]
  obtain n1 where "on_event ten_sys ten_methods (Readable 5) ?n = ret n1" by blast
  from life.says [OF l n(3) p x(1) s this] show ?thesis by (rule that)
qed

lemma ten_hangs_up:
  assumes n: "ten_life n S" "S 5 \<noteq> None"
  obtains n1 where "ten_life n1 (S(5 := None))"
proof -
  let ?n = "n\<lparr>net_os := ((\<lambda>_. [[]]), snd (net_os n))\<rparr>"
  have l: "ten_life ?n S" by (rule life.passes [OF n(1)]) simp
  have p: "ten_pending (net_os ?n) 5 = [[]]" by (simp add: ten_pending_def)
  from life_hangs_up [OF ten_stream_system ten_life_ok [OF l] n(2) p]
  obtain n1 where "on_event ten_sys ten_methods (Readable 5) ?n = ret n1" by blast
  from life.hangs_up [OF l n(2) p this] show ?thesis by (rule that)
qed


end
