(* ===== verification/Net_Workers.thy ===== *)
theory Net_Workers
  imports Net_Lifecycle Worker_Spec
begin

text \<open>
  Connections that come and go in a server with workers (framework/NetMessage.cc, Worker.cc, LoopQueue.cc, Server.cc,
  IRpc.cc and IOEventEv.cc together): what a client says goes through the receive queue to a worker, and the
  worker's answer through the send queue back to the network thread.

  A worker's round is one step here: the block it has taken is not overwritten while it deals with it (see
  \<open>taken_message_overwritten\<close> for what happens else), and the rounds of two workers do not overlap (see \<open>workers_mix_responses\<close>).
\<close>

lemma sessions_other [simp]:
  "sessions wire (n\<lparr>net_app := a\<rparr>) F C Q = sessions wire n F C Q" "sessions wire (n\<lparr>net_recvQue := q\<rparr>) F C Q = sessions wire n F C Q"
  by (simp_all add: sessions_def sess_def tcp_conn_def GetConn_def)

section \<open>The network thread reads\<close>

lemma frame_msg_request:
  "ci_ctype (net_conns n fd) = CONN_TYPE_CLI \<Longrightarrow> frame_msg n fd remote (request_bytes req) = request_msg fd remote req"
  by (simp add: frame_msg_def request_msg_def CONN_TYPE_CLI_def CONN_TYPE_SVR_def)

text \<open>What reading into the queue leaves as it is.\<close>

definition held :: "('os, 'app) net \<Rightarrow> 'os \<times> 'app \<times> int \<times> (int \<Rightarrow> conn_info) \<times> nat \<times> int \<times> nat set \<times> bool" where
  "held n = (net_os n, net_app n, net_maxMsglen n, conn_table n)"

lemma queue_frame:
  assumes n: "sessions wire n F C Q" "fd \<in> F" "\<not> net_single n"
    and c: "C fd = request_bytes req @ rest" "fits (net_maxMsglen n) req"
    and P: "PushMsg (net_recvQue n) (request_msg fd 0 req) = ret (q1, True)"
  shows "\<exists>n1. recv_msg srv n fd 0 = ret (n1, int (length (request_bytes req))) \<and> net_recvQue n1 = q1 \<and> held n1 = held n \<and>
    sessions wire n1 F (C(fd := rest)) Q"
proof -
  let ?f = "request_bytes req"
  obtain H E P where S: "sess n F H E P"
    "\<forall>fd \<in> F. content (P (fd, False)) = C fd \<and> wire (net_os n) fd @ content (P (fd, True)) = Q fd"
    using n(1) unfolding sessions_def by blast
  note s = sessD [OF S(1) n(2)]
  have e: "ci_bev (net_conns n fd) = Some (H fd)" "net_bevs n (H fd) = Some (E fd)" "GetConn n fd = Some fd"
    "be_evwr (E fd) \<noteq> None" "ci_ctype (net_conns n fd) = CONN_TYPE_CLI"
    using s(1) by (simp_all add: tcp_conn_def)
  note m = frame_msg_request [OF e(5), of 0 req]
  have f: "frame_ok (net_maxMsglen n) ?f" using fits_frame [OF c(2) s(7)] by simp
  have x: "content (P (fd, False)) = ?f @ rest" "length (?f @ rest) < 2 ^ 31"
    using S(2) n(2) c(1) s(2) by (auto simp: bb_rep_def)
  have rf: "CopyReadBuff (net_store n) (E fd) [0, 0, 0, 0] 4 = ret (take 4 ?f, 4) \<and>
      GetReadBuffLen (net_store n) (E fd) = ret (int (length (?f @ rest))) \<and>
    (\<exists>s1 q1 ps1. Read (net_store n) (E fd) d (int (length ?f)) =
         ret (s1, (E fd)\<lparr>be_recvBuffer := q1\<rparr>, ?f @ drop (length ?f) d, int (length ?f)) \<and>
       bb_rep s1 q1 ps1 \<and> length ps1 \<le> 1 \<and> content ps1 = rest \<and> evolves (net_store n) (P (fd, False)) s1 ps1)"
    if "length d = length ?f" for d
    using that by (intro read_frame [OF s(2,4) x f]) simp
  have ne: "msg_data (request_msg fd 0 req) \<noteq> []" by (simp add: request_msg_def request_bytes_def head_bytes_ne split_def)
  obtain q0 off q2 where B: "BufferForPush (net_recvQue n) fd 0 (msg_type (frame_msg n fd 0 ?f)) (int (length ?f)) = ret (q0, Some off)"
    "buff_write q0 off ?f = ret q2" "q1 = PushFinish q2 (int (length ?f))"
    using PushMsg_parts [OF P ne] unfolding m by (auto simp: request_msg_def split: option.splits)
  obtain s1 q3 ps1 where R: "Read (net_store n) (E fd) (mread (lq_buff q0) off (int (length ?f))) (int (length ?f)) =
      ret (s1, (E fd)\<lparr>be_recvBuffer := q3\<rparr>, ?f, int (length ?f))"
    "bb_rep s1 q3 ps1" "length ps1 \<le> 1" "content ps1 = rest" "evolves (net_store n) (P (fd, False)) s1 ps1"
    using rf [of "mread (lq_buff q0) off (int (length ?f))"] by auto
  let ?e1 = "(E fd)\<lparr>be_recvBuffer := q3\<rparr>"
  let ?n1 = "(set_bev n (Some (H fd)) ?e1)\<lparr>net_store := s1, net_recvQue := q1\<rparr>"
  have "recv_msg srv n fd 0 = ret (?n1, int (length ?f))"
    using recv_msg_pushing [OF e(1-3) n(3) s(7) f, of rest srv 0] rf [of ?f] B R(1) by simp
  moreover have "sess ?n1 F H (E(fd := ?e1)) (P((fd, False) := ps1))"
    by (rule sess_change [OF S(1) n(2) R(5,2) _ _ e(4)]) (use R(3) in \<open>simp_all add: set_bev_def\<close>)
  then have "sessions wire ?n1 F (C(fd := rest)) Q"
    unfolding sessions_def using S(2) R(4)
    by (intro exI [of _ H] exI [of _ "E(fd := ?e1)"] exI [of _ "P((fd, False) := ps1)"]) (auto simp: set_bev_def)
  moreover have "held ?n1 = held n" using e(2) by (auto simp: held_def conn_table_def set_bev_def)
  ultimately show ?thesis by (intro exI [of _ ?n1]) (simp add: set_bev_def)
qed

lemma queue_frames:
  assumes fd: "fd \<in> F"
  shows "sessions wire n F C Q \<Longrightarrow> \<not> net_single n \<Longrightarrow> C fd = concat (map request_bytes reqs) @ rest \<Longrightarrow>
    \<forall>req \<in> set reqs. fits (net_maxMsglen n) req \<Longrightarrow> incomplete (net_maxMsglen n) rest \<Longrightarrow>
    accepts (net_recvQue n) (map (request_msg fd 0) reqs) q1 \<Longrightarrow>
    \<exists>n1. recv_all srv n fd 0 = ret n1 \<and> net_recvQue n1 = q1 \<and> held n1 = held n \<and> sessions wire n1 F (C(fd := rest)) Q"
proof (induction reqs arbitrary: n C)
  case Nil
  obtain k where "recv_msg srv n fd 0 = ret (n, k)" "k \<le> 0" using session_stops [OF Nil(1) fd] Nil(3,5) by auto
  moreover have "ci_protocol (net_conns n fd) = IOEV_TCP_PROTOCOL"
    using Nil(1) fd by (auto simp: sessions_def sess_def tcp_conn_def)
  moreover have "C(fd := rest) = C" using Nil(3) by auto
  ultimately show ?case using Nil(1,6) by (subst recv_all.simps) (auto simp: recvTcpMsg_def)
next
  case (Cons req reqs)
  obtain q2 where q2: "PushMsg (net_recvQue n) (request_msg fd 0 req) = ret (q2, True)" "accepts q2 (map (request_msg fd 0) reqs) q1"
    using Cons.prems(6) by auto
  have c: "C fd = request_bytes req @ concat (map request_bytes reqs) @ rest" "fits (net_maxMsglen n) req"
    using Cons.prems(3,4) by simp_all
  obtain n1 where n1: "recv_msg srv n fd 0 = ret (n1, int (length (request_bytes req)))" "net_recvQue n1 = q2" "held n1 = held n"
    "sessions wire n1 F (C(fd := concat (map request_bytes reqs) @ rest)) Q"
    using queue_frame [OF Cons.prems(1) fd Cons.prems(2) c q2(1)] by blast
  have k: "net_maxMsglen n1 = net_maxMsglen n" "\<not> net_single n1" using n1(3) Cons.prems(2) by (simp_all add: held_def conn_table_def)
  obtain n2 where n2: "recv_all srv n1 fd 0 = ret n2" "net_recvQue n2 = q1" "held n2 = held n" "sessions wire n2 F (C(fd := rest)) Q"
    using Cons.IH [OF n1(4) k(2)] Cons.prems(4,5) q2(2) n1(2,3) k(1) by (auto simp del: fun_upd_apply simp: fun_upd_same)
  have "ci_protocol (net_conns n fd) = IOEV_TCP_PROTOCOL"
    using Cons.prems(1) fd by (auto simp: sessions_def sess_def tcp_conn_def)
  moreover have "request_bytes req \<noteq> []" by (simp add: request_bytes_def head_bytes_ne split_def)
  ultimately have "recv_all srv n fd 0 = ret n2"
    using n1(1) n2(1) by (subst recv_all.simps) (simp add: recvTcpMsg_def)
  then show ?case using n2(2-4) by (auto simp del: fun_upd_apply)
qed

text \<open>One readable event: what the client says now, as far as it is whole, goes to the queue.\<close>

lemma queue_says:
  assumes sys: "streams sys F pending wire busy" and n: "sessions wire n F C Q" "fd \<in> F" "\<not> net_single n" "length (C fd) < 4096"
    and p: "pending (net_os n) fd = xs # segs"
    and c: "C fd @ xs = concat (map request_bytes reqs) @ c" "\<forall>req \<in> set reqs. fits (net_maxMsglen n) req" "incomplete (net_maxMsglen n) c"
    and q: "accepts (net_recvQue n) (map (request_msg fd 0) reqs) q1"
  shows "\<exists>n1. on_readable sys srv n (the (ci_bev (net_conns n fd))) = ret n1 \<and> net_recvQue n1 = q1 \<and>
    sessions wire n1 F (C(fd := c)) Q \<and> net_app n1 = net_app n \<and> net_maxMsglen n1 = net_maxMsglen n \<and> conn_table n1 = conn_table n"
proof -
  obtain n0 where n0: "on_readable sys srv n (the (ci_bev (net_conns n fd))) = rbind (RecvMsg srv n0 fd 0) (\<lambda>(n1, _). ret n1)"
    "sessions wire n0 F (C(fd := C fd @ xs)) Q" "net_maxMsglen n0 = net_maxMsglen n" "net_app n0 = net_app n"
    "conn_table n0 = conn_table n" "net_recvQue n0 = net_recvQue n"
    using session_piece [OF sys n(1,2,4) p] by blast
  have f: "\<not> net_single n0" "(C(fd := C fd @ xs)) fd = concat (map request_bytes reqs) @ c"
    "\<forall>req \<in> set reqs. fits (net_maxMsglen n0) req" "incomplete (net_maxMsglen n0) c"
    "accepts (net_recvQue n0) (map (request_msg fd 0) reqs) q1"
    using n(3) c q n0(3,5,6) by (simp_all add: conn_table_def)
  obtain n1 where n1: "recv_all srv n0 fd 0 = ret n1" "net_recvQue n1 = q1" "held n1 = held n0" "sessions wire n1 F (C(fd := c)) Q"
    using queue_frames [OF n(2) n0(2) f, of srv] by (auto simp del: fun_upd_apply)
  have "GetConn n0 fd = Some fd" using n0(2) n(2) by (auto simp: sessions_def sess_def tcp_conn_def)
  then have "on_readable sys srv n (the (ci_bev (net_conns n fd))) = ret n1" using n0(1) n1(1) by (simp add: RecvMsg_def)
  then show ?thesis using n1(2-4) n0(3-5) by (intro exI [of _ n1]) (simp add: held_def del: fun_upd_apply)
qed

section \<open>A worker answers\<close>

definition reply_msg :: "int \<times> byte list \<Rightarrow> message" where
  "reply_msg out = \<lparr>msg_fd = fst out, msg_remote = 0, msg_type = MT_SVR_MESSAGE, msg_data = snd out\<rparr>"

lemma reply_msg_simps [simp]:
  "msg_fd (reply_msg out) = fst out" "msg_remote (reply_msg out) = 0" "msg_type (reply_msg out) = MT_SVR_MESSAGE"
  "msg_data (reply_msg out) = snd out"
  by (simp_all add: reply_msg_def)

definition replies :: "int \<Rightarrow> byte list \<Rightarrow> (int \<times> byte list) list" where
  "replies fd data = (if data = [] then [] else [(fd, data)])"

text \<open>
  What is assumed of the application: a function called for a request pushes its answer (possibly none) onto the
  send queue, and changes nothing but the server's own part.
\<close>

definition app_posts :: "('os, 'h, 's, 'c, 'a) app_code \<Rightarrow> ('h \<Rightarrow> byte list \<Rightarrow> byte list) \<Rightarrow> bool" where
  "app_posts app reply \<longleftrightarrow>
     (\<forall>n h fd data q1. \<not> sv_single (net_app n) \<longrightarrow> length data \<le> 4096 \<longrightarrow>
        accepts (sv_sendQue (net_app n)) (map reply_msg (replies fd (reply h data))) q1 \<longrightarrow>
        (\<exists>sv1. app_handle app (Call_request h fd 0 (if data = [] then None else Some data) (int (length data))) n = ret (n\<lparr>net_app := sv1\<rparr>) \<and>
           sv_sendQue sv1 = q1 \<and> \<not> sv_single sv1 \<and> rpc_tables (sv_rpc sv1) = rpc_tables (sv_rpc (net_app n))))"

lemma worker_request:
  assumes app: "app_posts app reply" and req: "fits mx req"
    and n: "\<not> sv_single (net_app n)" "rpc_baseRequest (sv_rpc (net_app n)) = None"
    and q: "accepts (sv_sendQue (net_app n)) (map reply_msg (replies fd (answer (rpc_requestMap (sv_rpc (net_app n))) reply req))) q1"
  shows "\<exists>sv1. OnRecvMsg sys app False n fd 0 (request_bytes req) True = ret (n\<lparr>net_app := sv1\<rparr>) \<and>
    sv_sendQue sv1 = q1 \<and> \<not> sv_single sv1 \<and> rpc_tables (sv_rpc sv1) = rpc_tables (sv_rpc (net_app n))"
proof -
  let ?r = "sv_rpc (net_app n)" and ?d = "snd req"
  have l: "length (fst req) \<le> 244" "length ?d \<le> 4096" using req by (auto simp: fits_def)
  have i0: "to_i64 0 = 0" by (simp add: to_i64_def)
  show ?thesis
  proof (cases "rpc_requestMap ?r (fst req)")
    case None
    let ?m = "head_bytes 101 (fst req) 0"
    obtain r1 where R: "OnRecvCliMsg ?r fd 0 (Some (head_bytes 0 (fst req) (int (length ?d)) @ ?d @ []))
        (12 + int (length (fst req)) + int (length ?d)) = ret (r1, ([Server_SendMsg fd 0 ?m], Const (-1)))"
      using OnRecvCliMsg_unknown [OF l(1), of ?d 0 ?r fd 0 "[]"] None n(2) l by fastforce
    have "PushMsg (sv_sendQue (net_app n)) (reply_msg (fd, ?m)) = ret (q1, True)"
      using q None by (simp add: answer_def replies_def head_bytes_ne)
    then have "OnRecvMsg sys app False n fd 0 (request_bytes req) True =
        ret (n\<lparr>net_app := (net_app n)\<lparr>sv_rpc := r1, sv_sendQue := q1, sv_notified := Suc (sv_notified (net_app n))\<rparr>\<rparr>)"
      using R n(1) by (simp add: OnRecvMsg_def request_bytes_def split_def Server_Send_def PushMsg_def upd_server_def add.assoc)
    then show ?thesis using n(1) OnRecvCliMsg_tables [OF R] by auto
  next
    case (Some h)
    obtain hd where R: "OnRecvCliMsg ?r fd 0 (Some (request_bytes req)) (int (length (request_bytes req))) =
        ret (?r\<lparr>rpc_rhead := hd\<rparr>, ([Call_request h fd 0 (if ?d = [] then None else Some ?d) (int (length ?d))], Last_call))"
      using OnRecvCliMsg_request [of "fst req" ?d ?r fd 0] l Some i0 by (auto simp: request_call_def split_def)
    let ?n0 = "upd_server (\<lambda>sv. sv\<lparr>sv_rpc := ?r\<lparr>rpc_rhead := hd\<rparr>\<rparr>) n"
    have "\<not> sv_single (net_app ?n0)" "accepts (sv_sendQue (net_app ?n0)) (map reply_msg (replies fd (reply h ?d))) q1"
      using n(1) q Some by (simp_all add: upd_server_def answer_def)
    then obtain sv1 where sv1: "app_handle app (Call_request h fd 0 (if ?d = [] then None else Some ?d) (int (length ?d))) ?n0 =
        ret (?n0\<lparr>net_app := sv1\<rparr>)" "sv_sendQue sv1 = q1" "\<not> sv_single sv1" "rpc_tables (sv_rpc sv1) = rpc_tables (sv_rpc (net_app ?n0))"
      using app l(2) unfolding app_posts_def by blast
    then show ?thesis using R by (intro exI [of _ sv1]) (simp add: OnRecvMsg_def upd_server_def rpc_tables_def)
  qed
qed

lemma worker_answers:
  assumes app: "app_posts app reply" and q: "lq_rep (net_recvQue n) (request_msg fd 0 req # ms)"
    and req: "fits mx req" "4118 \<le> wk_maxMsglen w"
    and n: "\<not> sv_single (net_app n)" "rpc_baseRequest (sv_rpc (net_app n)) = None"
    and a: "accepts (sv_sendQue (net_app n)) (map reply_msg (replies fd (answer (rpc_requestMap (sv_rpc (net_app n))) reply req))) q1"
  shows "\<exists>q0 sv1 w1. deal_round sys app wake (n, w) = ret (n\<lparr>net_recvQue := q0, net_app := sv1\<rparr>, w1) \<and> lq_rep q0 ms \<and>
    sv_sendQue sv1 = q1 \<and> \<not> sv_single sv1 \<and> rpc_tables (sv_rpc sv1) = rpc_tables (sv_rpc (net_app n)) \<and>
    wk_maxMsglen w1 = wk_maxMsglen w"
proof -
  let ?m = "request_msg fd 0 req"
  have "bsize ?m \<le> wk_maxMsglen w"
    using req by (simp add: bsize_def sizeof_block_def request_msg_def request_bytes_def split_def fits_def)
  then obtain q0 w1 off where T: "take_block w wake (net_recvQue n) = ret (q0, w1, Some off)" "lq_rep q0 ms"
    "holds (lq_buff q0) off (enc ?m)" "msg_ok ?m" "0 \<le> off" "off + bsize ?m \<le> lq_bufflen q0" "wk_maxMsglen w1 = wk_maxMsglen w"
    using take_block_Cons [OF q] by blast
  let ?n = "n\<lparr>net_recvQue := q0\<rparr>"
  obtain sv1 where sv1: "OnRecvMsg sys app False ?n fd 0 (request_bytes req) True = ret (?n\<lparr>net_app := sv1\<rparr>)"
    "sv_sendQue sv1 = q1" "\<not> sv_single sv1" "rpc_tables (sv_rpc sv1) = rpc_tables (sv_rpc (net_app n))"
    using worker_request [OF app req(1), of ?n fd q1 sys] n a by auto
  have "dealMessage sys app ?n off = ret (?n\<lparr>net_app := sv1\<rparr>)"
    using dealMessage_read [of ?n off ?m sys app] T(3-6) sv1(1) by (simp add: request_msg_def)
  then show ?thesis using T(1,2,7) sv1(2-4)
    by (intro exI [of _ q0] exI [of _ sv1] exI [of _ w1]) (simp add: deal_round_def)
qed

section \<open>The network thread sends\<close>

definition due :: "int \<Rightarrow> (int \<times> byte list) list \<Rightarrow> byte list" where
  "due fd outs = concat (map snd (filter (\<lambda>out. fst out = fd) outs))"

lemma due_simps [simp]: "due fd [] = []" "due fd (out # outs) = (if fst out = fd then snd out else []) @ due fd outs"
  "due fd (outs @ outs') = due fd outs @ due fd outs'" "due fd (replies g data) = (if g = fd then data else [])"
  by (simp_all add: due_def replies_def)

text \<open>An answer goes to the connection that has its number now, if any.\<close>

lemma answers_sent:
  assumes sys: "streams sys F pending wire busy"
  shows "sessions wire n F C Q \<Longrightarrow> \<forall>fd. fd \<notin> F \<longrightarrow> ci_fd (net_conns n fd) = -1 \<Longrightarrow>
    \<forall>out \<in> set outs. snd out \<noteq> [] \<and> length (snd out) \<le> 2 ^ 30 \<Longrightarrow>
    \<exists>n1. send_each sys srv n (map reply_msg outs) = ret n1 \<and> sessions wire n1 F C (\<lambda>fd. Q fd @ due fd outs) \<and>
      net_app n1 = net_app n \<and> net_maxMsglen n1 = net_maxMsglen n \<and> conn_table n1 = conn_table n \<and> net_recvQue n1 = net_recvQue n \<and>
      (store_ok (net_store n) \<longrightarrow> store_ok (net_store n1))"
proof (induction outs arbitrary: n Q)
  case (Cons out outs)
  let ?fd = "fst out" and ?d = "snd out"
  have d: "?d \<noteq> []" "length ?d \<le> 2 ^ 30" using Cons.prems(3) by simp_all
  obtain n1 r where n1: "Net_Message.SendMsg sys srv n ?fd 0 ?d = ret (n1, r)" "sessions wire n1 F C (\<lambda>fd. Q fd @ due fd [out])"
    "net_app n1 = net_app n" "net_maxMsglen n1 = net_maxMsglen n" "conn_table n1 = conn_table n" "net_recvQue n1 = net_recvQue n"
    "store_ok (net_store n) \<longrightarrow> store_ok (net_store n1)"
  proof (cases "?fd \<in> F")
    case True
    have "(\<lambda>fd. Q fd @ due fd [out]) = Q(?fd := Q ?fd @ ?d)" by auto
    then show ?thesis using session_sends [OF sys Cons.prems(1) True d, of srv 0] sessions_store_ok [OF _ True] that by metis
  next
    case False
    then have "ci_fd (net_conns n ?fd) = -1" using Cons.prems(2) by blast
    then have "GetConn n ?fd = None" by (auto simp: GetConn_def)
    then have "Net_Message.SendMsg sys srv n ?fd 0 ?d = ret (n, -1)" by (simp add: Net_Message.SendMsg_def)
    moreover have "sessions wire n F C (\<lambda>fd. Q fd @ due fd [out])"
      using Cons.prems(1) sessions_cong [of F C C Q "\<lambda>fd. Q fd @ due fd [out]" wire n] False by auto
    ultimately show ?thesis using that by blast
  qed
  have t: "net_conns n1 = net_conns n" using n1(5) by (simp add: conn_table_def)
  obtain n2 where "send_each sys srv n1 (map reply_msg outs) = ret n2" "sessions wire n2 F C (\<lambda>fd. (Q fd @ due fd [out]) @ due fd outs)"
    "net_app n2 = net_app n1" "net_maxMsglen n2 = net_maxMsglen n1" "conn_table n2 = conn_table n1" "net_recvQue n2 = net_recvQue n1"
    "store_ok (net_store n1) \<longrightarrow> store_ok (net_store n2)"
    using Cons.IH [OF n1(2)] Cons.prems(2,3) unfolding t by auto
  then show ?case using n1 by (intro exI [of _ n2]) simp
qed simp

lemma event_sends:
  assumes sys: "streams sys F pending wire busy" and n: "sessions wire n F C Q" "\<forall>fd. fd \<notin> F \<longrightarrow> ci_fd (net_conns n fd) = -1"
    and q: "lq_rep (sv_sendQue (net_app n)) (map reply_msg outs)" "\<forall>out \<in> set outs. snd out \<noteq> []"
  shows "\<exists>n1 q1. msgEventCb sys app n = ret n1 \<and> sessions wire n1 F C (\<lambda>fd. Q fd @ due fd outs) \<and> lq_rep q1 [] \<and>
    net_app n1 = (net_app n)\<lparr>sv_sendQue := q1\<rparr> \<and> net_maxMsglen n1 = net_maxMsglen n \<and> conn_table n1 = conn_table n \<and>
    net_recvQue n1 = net_recvQue n \<and> (store_ok (net_store n) \<longrightarrow> store_ok (net_store n1))"
proof -
  have "\<forall>m \<in> set (map reply_msg outs). msg_ok m" using q(1) by (simp add: lq_rep_def)
  then have "\<forall>out \<in> set outs. snd out \<noteq> [] \<and> length (snd out) \<le> 2 ^ 30" using q(2) by (auto simp: msg_ok_def)
  from answers_sent [OF sys n this, of "close_calls app"] obtain n1 where
    n1: "send_each sys (close_calls app) n (map reply_msg outs) = ret n1" "sessions wire n1 F C (\<lambda>fd. Q fd @ due fd outs)"
    "net_app n1 = net_app n" "net_maxMsglen n1 = net_maxMsglen n" "conn_table n1 = conn_table n" "net_recvQue n1 = net_recvQue n"
    "store_ok (net_store n) \<longrightarrow> store_ok (net_store n1)" by blast
  obtain q1 where q1: "OnSendMsgEvent sys (close_calls app) n (sv_sendQue (net_app n)) = ret (n1, q1)" "lq_rep q1 []"
    using OnSendMsgEvent_each [OF q(1) n1(1)] by blast
  then have "msgEventCb sys app n = ret (upd_server (\<lambda>sv. sv\<lparr>sv_sendQue := q1\<rparr>) n1)" by (simp add: msgEventCb_def)
  then show ?thesis using n1(2-7) q1(2)
    by (intro exI [of _ "upd_server (\<lambda>sv. sv\<lparr>sv_sendQue := q1\<rparr>) n1"] exI [of _ q1])
      (simp add: upd_server_def conn_table_def)
qed

section \<open>The way of the messages\<close>

text \<open>
  The connections with their history, as in theory \<open>Net_Lifecycle\<close>; the requests on their way to a worker; the answers on
  their way back.
\<close>

record traffic =
  tr_open :: history
  tr_todo :: "(int \<times> (byte list \<times> byte list)) list"
  tr_outs :: "(int \<times> byte list) list"

definition no_traffic :: traffic where
  "no_traffic = \<lparr>tr_open = Map.empty, tr_todo = [], tr_outs = []\<rparr>"

definition answers :: "(byte list \<rightharpoonup> 'h) \<Rightarrow> ('h \<Rightarrow> byte list \<Rightarrow> byte list) \<Rightarrow> (int \<times> (byte list \<times> byte list)) list \<Rightarrow> (int \<times> byte list) list" where
  "answers M reply todo = map (\<lambda>(fd, req). (fd, answer M reply req)) todo"

definition request_of :: "int \<times> (byte list \<times> byte list) \<Rightarrow> message" where
  "request_of x = request_msg (fst x) 0 (snd x)"

text \<open>What the two queues, the connections and the workers are like.\<close>

definition traffic_ok ::
  "('os \<Rightarrow> int \<Rightarrow> byte list) \<Rightarrow> ('os, 'h, 's, 'c, 'a) world \<Rightarrow> ('os, 'h, 's, 'c, 'a) world \<Rightarrow> (nat \<Rightarrow> worker) \<Rightarrow> traffic \<Rightarrow>
     (int \<Rightarrow> byte list) \<Rightarrow> (int \<Rightarrow> byte list) \<Rightarrow> bool" where
  "traffic_ok wire n0 n ws T C Q \<longleftrightarrow>
     sessions wire n (dom (tr_open T)) C Q \<and> steady n0 n (dom (tr_open T)) \<and>
     lq_rep (net_recvQue n) (map request_of (tr_todo T)) \<and> (\<forall>x \<in> set (tr_todo T). fits (net_maxMsglen n0) (snd x)) \<and>
     lq_rep (sv_sendQue (net_app n)) (map reply_msg (tr_outs T)) \<and> (\<forall>out \<in> set (tr_outs T). snd out \<noteq> []) \<and>
     \<not> sv_single (net_app n) \<and> (\<forall>i. wk_maxMsglen (ws i) = net_maxMsglen n0) \<and>
     (\<forall>fd \<in> dom (tr_open T). length (C fd) < 4096)"

text \<open>The answers to what a client has said have been taken, or wait in its buffer or in the send queue, or are still to be given.\<close>

definition accounted ::
  "int \<Rightarrow> (byte list \<rightharpoonup> 'h) \<Rightarrow> ('h \<Rightarrow> byte list \<Rightarrow> byte list) \<Rightarrow> traffic \<Rightarrow> (int \<Rightarrow> byte list) \<Rightarrow> (int \<Rightarrow> byte list) \<Rightarrow> bool" where
  "accounted mx M reply T C Q \<longleftrightarrow>
     (\<forall>fd was said. tr_open T fd = Some (was, said) \<longrightarrow>
        (\<exists>reqs. speaks mx said reqs (C fd) \<and>
           Q fd @ due fd (tr_outs T @ answers M reply (tr_todo T)) = was @ concat (map (answer M reply) reqs)))"

section \<open>The steps\<close>

definition opened :: "('os \<Rightarrow> int \<Rightarrow> byte list) \<Rightarrow> ('os, 'app) net \<Rightarrow> int \<Rightarrow> history \<Rightarrow> history" where
  "opened wire n fd S = (if fd < net_maxfds n then S(fd \<mapsto> (wire (net_os n) fd, [])) else S)"

lemma traffic_accepts:
  assumes sys: "stream_system sys pending wire busy" and ok: "traffic_ok wire n0 n ws T C Q"
    and fd: "tr_open T fd = None" "0 \<le> fd" "0 < lfd"
  shows "\<exists>n1. on_accept sys (server_methods sys app) n lfd fd = ret n1 \<and>
    traffic_ok wire n0 n1 ws (T\<lparr>tr_open := opened wire n fd (tr_open T)\<rparr>) (C(fd := [])) (Q(fd := wire (net_os n) fd)) \<and>
    net_app n1 = net_app n \<and> net_recvQue n1 = net_recvQue n"
proof -
  let ?F = "dom (tr_open T)"
  have s: "sessions wire n ?F C Q" "steady n0 n ?F" "fd \<notin> ?F" using ok fd(1) by (auto simp: traffic_ok_def)
  have F: "dom (opened wire n fd (tr_open T)) = (if fd < net_maxfds n then insert fd ?F else ?F)" by (simp add: opened_def)
  from conn_accepts [OF sys s fd(2,3), of app] obtain n1 where
    "on_accept sys (server_methods sys app) n lfd fd = ret n1"
    "sessions wire n1 (dom (opened wire n fd (tr_open T))) (C(fd := [])) (Q(fd := wire (net_os n) fd))"
    "steady n0 n1 (dom (opened wire n fd (tr_open T)))" "net_app n1 = net_app n" "net_recvQue n1 = net_recvQue n"
    unfolding F by blast
  then show ?thesis using ok F by (intro exI [of _ n1]) (auto simp: traffic_ok_def)
qed

lemma traffic_says:
  assumes sys: "stream_system sys pending wire busy" and ok: "traffic_ok wire n0 n ws T C Q" "\<not> net_single n0"
    and fd: "tr_open T fd \<noteq> None" and p: "pending (net_os n) fd = xs # segs" "xs \<noteq> []"
    and c: "C fd @ xs = concat (map request_bytes reqs) @ c" "\<forall>req \<in> set reqs. fits (net_maxMsglen n0) req" "incomplete (net_maxMsglen n0) c"
      "length c < 4096"
    and q: "accepts (net_recvQue n) (map (request_msg fd 0) reqs) q1"
  shows "\<exists>n1. on_event sys (server_methods sys app) (Readable fd) n = ret n1 \<and>
    traffic_ok wire n0 n1 ws (T\<lparr>tr_open := (tr_open T)(fd \<mapsto> x), tr_todo := tr_todo T @ map (Pair fd) reqs\<rparr>) (C(fd := c)) Q \<and>
    net_app n1 = net_app n"
proof -
  let ?F = "dom (tr_open T)"
  have s: "sessions wire n ?F C Q" "steady n0 n ?F" "fd \<in> ?F" "length (C fd) < 4096" using ok(1) fd by (auto simp: traffic_ok_def)
  have m: "net_maxMsglen n = net_maxMsglen n0" "\<not> net_single n" using s(2) ok(2) by (simp_all add: steady_def)
  have sys': "streams sys ?F (pieces pending) wire busy"
    using sys streams_subset [OF _ subset_UNIV] by (auto simp: stream_system_def)
  have "pieces pending (net_os n) fd = xs # takeWhile ((\<noteq>) []) segs" using p by (simp add: pieces_def)
  from queue_says [OF sys' s(1,3) m(2) s(4) this c(1) c(2,3) [folded m(1)] q, of "server_methods sys app"] obtain n1 where
    n1: "on_readable sys (server_methods sys app) n (the (ci_bev (net_conns n fd))) = ret n1" "net_recvQue n1 = q1"
    "sessions wire n1 ?F (C(fd := c)) Q" "net_app n1 = net_app n" "net_maxMsglen n1 = net_maxMsglen n" "conn_table n1 = conn_table n" by blast
  have "steady n0 n1 ?F" using steady_same [OF s(2) n1(6) sessions_store_ok [OF n1(3) s(3)] n1(5)] n1(4) by simp
  moreover have "lq_rep q1 (map request_of (tr_todo T) @ map (request_msg fd 0) reqs)"
    using accepts_rep [OF _ q] ok(1) by (simp add: traffic_ok_def)
  then have "lq_rep q1 (map request_of (tr_todo T @ map (Pair fd) reqs))"
    by (simp add: request_of_def comp_def)
  moreover have "dom ((tr_open T)(fd \<mapsto> x)) = ?F" using s(3) by auto
  ultimately show ?thesis using n1 ok(1) c(2,4) by (intro exI [of _ n1]) (auto simp: traffic_ok_def)
qed

lemma traffic_hangs_up:
  assumes sys: "stream_system sys pending wire busy" and ok: "traffic_ok wire n0 n ws T C Q"
    and fd: "tr_open T fd \<noteq> None" and p: "pending (net_os n) fd = [] # segs"
  shows "\<exists>n1. on_event sys (server_methods sys app) (Readable fd) n = ret n1 \<and>
    traffic_ok wire n0 n1 ws (T\<lparr>tr_open := (tr_open T)(fd := None)\<rparr>) C Q \<and> net_app n1 = net_app n"
proof -
  let ?F = "dom (tr_open T)"
  have s: "sessions wire n ?F C Q" "steady n0 n ?F" "fd \<in> ?F" "length (C fd) < 4096" using ok(1) fd by (auto simp: traffic_ok_def)
  from conn_hangs_up [OF sys s p, of app] show ?thesis using ok by (fastforce simp: traffic_ok_def)
qed

lemma traffic_takes:
  assumes sys: "stream_system sys pending wire busy" and ok: "traffic_ok wire n0 n ws T C Q" and fd: "tr_open T fd \<noteq> None"
  shows "\<exists>n1. on_event sys (server_methods sys app) (Writable fd) n = ret n1 \<and> traffic_ok wire n0 n1 ws T C Q \<and> wire (net_os n1) fd = Q fd"
proof -
  let ?F = "dom (tr_open T)"
  have s: "sessions wire n ?F C Q" "steady n0 n ?F" "fd \<in> ?F" using ok fd by (auto simp: traffic_ok_def)
  from conn_takes [OF sys s, of app] show ?thesis using ok by (fastforce simp: traffic_ok_def)
qed

lemma traffic_deals:
  assumes app: "app_posts app reply" and ok: "traffic_ok wire n0 n ws T C Q"
    and n0: "rpc_baseRequest (sv_rpc (net_app n0)) = None" "4118 \<le> net_maxMsglen n0" and t: "tr_todo T = (fd, req) # todo"
    and a: "a = answer (rpc_requestMap (sv_rpc (net_app n0))) reply req"
    and q: "accepts (sv_sendQue (net_app n)) (map reply_msg (replies fd a)) q1"
  shows "\<exists>n1 w1. deal_round sys app wake (n, ws i) = ret (n1, w1) \<and>
    traffic_ok wire n0 n1 (ws(i := w1)) (T\<lparr>tr_todo := todo, tr_outs := tr_outs T @ replies fd a\<rparr>) C Q"
proof -
  have s: "steady n0 n (dom (tr_open T))" "\<not> sv_single (net_app n)" "wk_maxMsglen (ws i) = net_maxMsglen n0" "fits (net_maxMsglen n0) req"
    "lq_rep (net_recvQue n) (request_msg fd 0 req # map request_of todo)"
    using ok t by (auto simp: traffic_ok_def request_of_def)
  have m: "rpc_requestMap (sv_rpc (net_app n)) = rpc_requestMap (sv_rpc (net_app n0))" "rpc_baseRequest (sv_rpc (net_app n)) = None"
    using s(1) n0(1) by (simp_all add: steady_def rpc_tables_def)
  obtain q0 sv1 w1 where D: "deal_round sys app wake (n, ws i) = ret (n\<lparr>net_recvQue := q0, net_app := sv1\<rparr>, w1)"
    "lq_rep q0 (map request_of todo)" "sv_sendQue sv1 = q1" "\<not> sv_single sv1" "rpc_tables (sv_rpc sv1) = rpc_tables (sv_rpc (net_app n))"
    "wk_maxMsglen w1 = net_maxMsglen n0"
    using worker_answers [OF app s(5,4) _ s(2) m(2), of "ws i" q1 sys wake] n0(2) q s(3) unfolding a m(1) by auto
  let ?n1 = "n\<lparr>net_recvQue := q0, net_app := sv1\<rparr>"
  have "steady n0 ?n1 (dom (tr_open T))" using s(1) D(5) by (simp add: steady_def bevs_below_def)
  moreover have "lq_rep q1 (map reply_msg (tr_outs T @ replies fd a))"
    using accepts_rep [OF _ q] ok by (simp add: traffic_ok_def)
  moreover have "\<forall>out \<in> set (replies fd a). snd out \<noteq> []" by (simp add: replies_def)
  ultimately show ?thesis using ok t D by (intro exI [of _ ?n1] exI [of _ w1]) (auto simp: traffic_ok_def)
qed

lemma traffic_sends:
  assumes sys: "stream_system sys pending wire busy" and ok: "traffic_ok wire n0 n ws T C Q"
  shows "\<exists>n1. msgEventCb sys app n = ret n1 \<and> traffic_ok wire n0 n1 ws (T\<lparr>tr_outs := []\<rparr>) C (\<lambda>fd. Q fd @ due fd (tr_outs T))"
proof -
  let ?F = "dom (tr_open T)"
  have s: "sessions wire n ?F C Q" "\<forall>fd. fd \<notin> ?F \<longrightarrow> ci_fd (net_conns n fd) = -1" "steady n0 n ?F"
    "lq_rep (sv_sendQue (net_app n)) (map reply_msg (tr_outs T))" "\<forall>out \<in> set (tr_outs T). snd out \<noteq> []"
    using ok by (auto simp: traffic_ok_def steady_def)
  have sys': "streams sys ?F (pieces pending) wire busy"
    using sys streams_subset [OF _ subset_UNIV] by (auto simp: stream_system_def)
  from event_sends [OF sys' s(1,2,4,5), of app] obtain n1 q1 where
    n1: "msgEventCb sys app n = ret n1" "sessions wire n1 ?F C (\<lambda>fd. Q fd @ due fd (tr_outs T))" "lq_rep q1 []"
    "net_app n1 = (net_app n)\<lparr>sv_sendQue := q1\<rparr>" "net_maxMsglen n1 = net_maxMsglen n" "conn_table n1 = conn_table n"
    "net_recvQue n1 = net_recvQue n" "store_ok (net_store n) \<longrightarrow> store_ok (net_store n1)" by blast
  have "store_ok (net_store n1)" using n1(8) s(3) by (simp add: steady_def)
  then have "steady n0 n1 ?F" using steady_same [OF s(3) n1(6) _ n1(5)] n1(4) by simp
  then show ?thesis using ok n1 by (intro exI [of _ n1]) (auto simp: traffic_ok_def)
qed

lemma traffic_passes:
  assumes ok: "traffic_ok wire n0 n ws T C Q" and os: "\<forall>fd \<in> dom (tr_open T). wire os fd = wire (net_os n) fd"
  shows "traffic_ok wire n0 (n\<lparr>net_os := os\<rparr>) ws T C Q"
  using conn_passes [of wire n "dom (tr_open T)" C Q n0 os] ok os by (simp add: traffic_ok_def)

text \<open>
  What the network thread and the workers do, one callback or round after another, in whatever order.  A new connection
  is accepted under a number that nothing on its way still carries (see \<open>answer_to_wrong_client\<close> for what happens else); what is
  said and answered finds room in the queues.
\<close>

inductive work ::
  "'os sys \<Rightarrow> ('os, 'h, 's, 'c, 'a) app_code \<Rightarrow> ('h \<Rightarrow> byte list \<Rightarrow> byte list) \<Rightarrow> ('os \<Rightarrow> int \<Rightarrow> byte list list) \<Rightarrow> ('os \<Rightarrow> int \<Rightarrow> byte list) \<Rightarrow>
     ('os, 'h, 's, 'c, 'a) world \<Rightarrow> (nat \<Rightarrow> worker) \<Rightarrow> ('os, 'h, 's, 'c, 'a) world \<Rightarrow> (nat \<Rightarrow> worker) \<Rightarrow> traffic \<Rightarrow> bool"
  for sys app reply pending wire n0 ws0 where
  begins: "work sys app reply pending wire n0 ws0 n0 ws0 no_traffic"
| accepts: "work sys app reply pending wire n0 ws0 n ws T \<Longrightarrow> tr_open T fd = None \<Longrightarrow> 0 \<le> fd \<Longrightarrow> 0 < lfd \<Longrightarrow>
    fd \<notin> fst ` set (tr_todo T) \<Longrightarrow> fd \<notin> fst ` set (tr_outs T) \<Longrightarrow>
    on_accept sys (server_methods sys app) n lfd fd = ret n1 \<Longrightarrow>
    work sys app reply pending wire n0 ws0 n1 ws (T\<lparr>tr_open := opened wire n fd (tr_open T)\<rparr>)"
| says: "work sys app reply pending wire n0 ws0 n ws T \<Longrightarrow> tr_open T fd = Some (was, said) \<Longrightarrow>
    pending (net_os n) fd = xs # segs \<Longrightarrow> xs \<noteq> [] \<Longrightarrow>
    speaks (net_maxMsglen n) said old part \<Longrightarrow> speaks (net_maxMsglen n) (said @ xs) (old @ new) rest \<Longrightarrow>
    accepts (net_recvQue n) (map (request_msg fd 0) new) q1 \<Longrightarrow>
    on_event sys (server_methods sys app) (Readable fd) n = ret n1 \<Longrightarrow>
    work sys app reply pending wire n0 ws0 n1 ws
      (T\<lparr>tr_open := (tr_open T)(fd \<mapsto> (was, said @ xs)), tr_todo := tr_todo T @ map (Pair fd) new\<rparr>)"
| hangs_up: "work sys app reply pending wire n0 ws0 n ws T \<Longrightarrow> tr_open T fd \<noteq> None \<Longrightarrow> pending (net_os n) fd = [] # segs \<Longrightarrow>
    on_event sys (server_methods sys app) (Readable fd) n = ret n1 \<Longrightarrow>
    work sys app reply pending wire n0 ws0 n1 ws (T\<lparr>tr_open := (tr_open T)(fd := None)\<rparr>)"
| takes: "work sys app reply pending wire n0 ws0 n ws T \<Longrightarrow> tr_open T fd \<noteq> None \<Longrightarrow>
    on_event sys (server_methods sys app) (Writable fd) n = ret n1 \<Longrightarrow> work sys app reply pending wire n0 ws0 n1 ws T"
| deals: "work sys app reply pending wire n0 ws0 n ws T \<Longrightarrow> tr_todo T = (fd, req) # todo \<Longrightarrow>
    a = answer (rpc_requestMap (sv_rpc (net_app n))) reply req \<Longrightarrow>
    accepts (sv_sendQue (net_app n)) (map reply_msg (replies fd a)) q1 \<Longrightarrow>
    deal_round sys app wake (n, ws i) = ret (n1, w1) \<Longrightarrow>
    work sys app reply pending wire n0 ws0 n1 (ws(i := w1)) (T\<lparr>tr_todo := todo, tr_outs := tr_outs T @ replies fd a\<rparr>)"
| sends: "work sys app reply pending wire n0 ws0 n ws T \<Longrightarrow> msgEventCb sys app n = ret n1 \<Longrightarrow>
    work sys app reply pending wire n0 ws0 n1 ws (T\<lparr>tr_outs := []\<rparr>)"
| passes: "work sys app reply pending wire n0 ws0 n ws T \<Longrightarrow> \<forall>fd \<in> dom (tr_open T). wire os fd = wire (net_os n) fd \<Longrightarrow>
    work sys app reply pending wire n0 ws0 (n\<lparr>net_os := os\<rparr>) ws T"

section \<open>Every message accounted for\<close>

lemma due_none: "fd \<notin> fst ` set outs \<Longrightarrow> due fd outs = []"
  by (induction outs) auto

lemma due_answers_none: "fd \<notin> fst ` set todo \<Longrightarrow> due fd (answers M reply todo) = []"
  by (rule due_none) (force simp: answers_def)

lemma answers_simps [simp]:
  "answers M reply [] = []" "answers M reply ((fd, req) # todo) = (fd, answer M reply req) # answers M reply todo"
  "answers M reply (todo @ todo') = answers M reply todo @ answers M reply todo'"
  by (simp_all add: answers_def)

lemma due_answers_pair:
  "due g (answers M reply (map (Pair fd) reqs)) = (if g = fd then concat (map (answer M reply) reqs) else [])"
  by (induction reqs) auto

lemma accounted_says:
  assumes ok: "accounted mx M reply T C Q" and fd: "tr_open T fd = Some (was, said)" and mx: "mx \<le> 2 ^ 30"
    and s: "speaks mx said old part" "speaks mx (said @ xs) (old @ new) rest"
  shows "part = C fd" "C fd @ xs = concat (map request_bytes new) @ rest"
    "accounted mx M reply (T\<lparr>tr_open := (tr_open T)(fd \<mapsto> (was, said @ xs)), tr_todo := tr_todo T @ map (Pair fd) new\<rparr>) (C(fd := rest)) Q"
proof -
  obtain reqs where r: "speaks mx said reqs (C fd)"
    "Q fd @ due fd (tr_outs T @ answers M reply (tr_todo T)) = was @ concat (map (answer M reply) reqs)"
    using ok fd unfolding accounted_def by blast
  have e: "old = reqs" "part = C fd" using speaks_unique [OF s(1) r(1) mx] by simp_all
  show "part = C fd" by (rule e(2))
  show "C fd @ xs = concat (map request_bytes new) @ rest"
    using s r(1) e by (simp add: speaks_def)
  show "accounted mx M reply (T\<lparr>tr_open := (tr_open T)(fd \<mapsto> (was, said @ xs)), tr_todo := tr_todo T @ map (Pair fd) new\<rparr>) (C(fd := rest)) Q"
    using ok s(2) r(2) e(1) unfolding accounted_def by (auto simp: due_answers_pair intro!: exI [of _ "old @ new"])
qed

lemma accounted_change:
  assumes "accounted mx M reply T C Q" "\<And>fd. tr_open T' fd \<noteq> None \<Longrightarrow> tr_open T' fd = tr_open T fd \<and> C' fd = C fd \<and>
     Q' fd @ due fd (tr_outs T' @ answers M reply (tr_todo T')) = Q fd @ due fd (tr_outs T @ answers M reply (tr_todo T))"
  shows "accounted mx M reply T' C' Q'"
  unfolding accounted_def
proof (intro allI impI)
  fix fd was said assume o: "tr_open T' fd = Some (was, said)"
  then have "tr_open T fd = Some (was, said)" "C' fd = C fd"
    "Q' fd @ due fd (tr_outs T' @ answers M reply (tr_todo T')) = Q fd @ due fd (tr_outs T @ answers M reply (tr_todo T))"
    using assms(2) [of fd] by simp_all
  then show "\<exists>reqs. speaks mx said reqs (C' fd) \<and>
      Q' fd @ due fd (tr_outs T' @ answers M reply (tr_todo T')) = was @ concat (map (answer M reply) reqs)"
    using assms(1) unfolding accounted_def by metis
qed

definition working ::
  "('os \<Rightarrow> int \<Rightarrow> byte list) \<Rightarrow> ('h \<Rightarrow> byte list \<Rightarrow> byte list) \<Rightarrow> ('os, 'h, 's, 'c, 'a) world \<Rightarrow> ('os, 'h, 's, 'c, 'a) world \<Rightarrow>
     (nat \<Rightarrow> worker) \<Rightarrow> traffic \<Rightarrow> bool" where
  "working wire reply n0 n ws T \<longleftrightarrow>
     (\<exists>C Q. traffic_ok wire n0 n ws T C Q \<and> accounted (net_maxMsglen n0) (rpc_requestMap (sv_rpc (net_app n0))) reply T C Q)"

lemma work_accepts:
  assumes sys: "stream_system sys pending wire busy" and ok: "working wire reply n0 n ws T"
    and fd: "tr_open T fd = None" "0 \<le> fd" "0 < lfd" "fd \<notin> fst ` set (tr_todo T)" "fd \<notin> fst ` set (tr_outs T)"
  shows "\<exists>n1. on_accept sys (server_methods sys app) n lfd fd = ret n1 \<and>
    working wire reply n0 n1 ws (T\<lparr>tr_open := opened wire n fd (tr_open T)\<rparr>) \<and> net_app n1 = net_app n \<and> net_recvQue n1 = net_recvQue n"
proof -
  obtain C Q where s: "traffic_ok wire n0 n ws T C Q" "accounted (net_maxMsglen n0) (rpc_requestMap (sv_rpc (net_app n0))) reply T C Q"
    using ok unfolding working_def by blast
  obtain n1 where n1: "on_accept sys (server_methods sys app) n lfd fd = ret n1"
    "traffic_ok wire n0 n1 ws (T\<lparr>tr_open := opened wire n fd (tr_open T)\<rparr>) (C(fd := [])) (Q(fd := wire (net_os n) fd))"
    "net_app n1 = net_app n" "net_recvQue n1 = net_recvQue n"
    using traffic_accepts [OF sys s(1) fd(1-3)] by blast
  have "accounted (net_maxMsglen n0) (rpc_requestMap (sv_rpc (net_app n0))) reply (T\<lparr>tr_open := opened wire n fd (tr_open T)\<rparr>)
      (C(fd := [])) (Q(fd := wire (net_os n) fd))"
    using s(2) fd(1) speaks_nothing due_none [OF fd(5)] due_answers_none [OF fd(4)]
    unfolding accounted_def opened_def by (auto intro!: exI [of _ "[]"])
  then show ?thesis using n1 unfolding working_def by blast
qed

lemma work_says:
  assumes sys: "stream_system sys pending wire busy" and ok: "working wire reply n0 n ws T" "\<not> net_single n0"
    and fd: "tr_open T fd = Some (was, said)" and p: "pending (net_os n) fd = xs # segs" "xs \<noteq> []"
    and s: "speaks (net_maxMsglen n) said old part" "speaks (net_maxMsglen n) (said @ xs) (old @ new) rest"
    and q: "accepts (net_recvQue n) (map (request_msg fd 0) new) q1"
  shows "\<exists>n1. on_event sys (server_methods sys app) (Readable fd) n = ret n1 \<and>
    working wire reply n0 n1 ws (T\<lparr>tr_open := (tr_open T)(fd \<mapsto> (was, said @ xs)), tr_todo := tr_todo T @ map (Pair fd) new\<rparr>) \<and>
    net_app n1 = net_app n"
proof -
  obtain C Q where t: "traffic_ok wire n0 n ws T C Q" "accounted (net_maxMsglen n0) (rpc_requestMap (sv_rpc (net_app n0))) reply T C Q"
    using ok unfolding working_def by blast
  have m: "net_maxMsglen n = net_maxMsglen n0" using t(1) by (simp add: traffic_ok_def steady_def)
  have f: "fd \<in> dom (tr_open T)" "tr_open T fd \<noteq> None" using fd by auto
  have "net_maxMsglen n0 \<le> 2 ^ 30" using t(1) f(1) m by (auto simp: traffic_ok_def sessions_def sess_def)
  note a = accounted_says [OF t(2) fd this s [unfolded m]]
  have c: "\<forall>req \<in> set new. fits (net_maxMsglen n0) req" "incomplete (net_maxMsglen n0) rest" "length rest < 4096"
    using s(2) m by (simp_all add: speaks_def)
  from traffic_says [OF sys t(1) ok(2) f(2) p a(2) c q] a(3) show ?thesis unfolding working_def by blast
qed

lemma work_hangs_up:
  assumes sys: "stream_system sys pending wire busy" and ok: "working wire reply n0 n ws T"
    and fd: "tr_open T fd \<noteq> None" and p: "pending (net_os n) fd = [] # segs"
  shows "\<exists>n1. on_event sys (server_methods sys app) (Readable fd) n = ret n1 \<and> working wire reply n0 n1 ws (T\<lparr>tr_open := (tr_open T)(fd := None)\<rparr>)"
proof -
  obtain C Q where t: "traffic_ok wire n0 n ws T C Q" "accounted (net_maxMsglen n0) (rpc_requestMap (sv_rpc (net_app n0))) reply T C Q"
    using ok unfolding working_def by blast
  have "accounted (net_maxMsglen n0) (rpc_requestMap (sv_rpc (net_app n0))) reply (T\<lparr>tr_open := (tr_open T)(fd := None)\<rparr>) C Q"
    by (rule accounted_change [OF t(2)]) auto
  then show ?thesis using traffic_hangs_up [OF sys t(1) fd p, of app] unfolding working_def by blast
qed

lemma work_takes:
  assumes sys: "stream_system sys pending wire busy" and ok: "working wire reply n0 n ws T" and fd: "tr_open T fd = Some (was, said)"
  shows "\<exists>n1. on_event sys (server_methods sys app) (Writable fd) n = ret n1 \<and> working wire reply n0 n1 ws T \<and>
    (\<exists>reqs rest. speaks (net_maxMsglen n0) said reqs rest \<and>
       wire (net_os n1) fd @ due fd (tr_outs T @ answers (rpc_requestMap (sv_rpc (net_app n0))) reply (tr_todo T)) =
         was @ concat (map (answer (rpc_requestMap (sv_rpc (net_app n0))) reply) reqs))"
proof -
  obtain C Q where t: "traffic_ok wire n0 n ws T C Q" "accounted (net_maxMsglen n0) (rpc_requestMap (sv_rpc (net_app n0))) reply T C Q"
    using ok unfolding working_def by blast
  have "tr_open T fd \<noteq> None" using fd by simp
  from traffic_takes [OF sys t(1) this, of app] obtain n1 where
    n1: "on_event sys (server_methods sys app) (Writable fd) n = ret n1" "traffic_ok wire n0 n1 ws T C Q" "wire (net_os n1) fd = Q fd" by blast
  then show ?thesis using t(2) fd unfolding working_def accounted_def by metis
qed

lemma work_deals:
  assumes app: "app_posts app reply" and ok: "working wire reply n0 n ws T"
    and n0: "rpc_baseRequest (sv_rpc (net_app n0)) = None" "4118 \<le> net_maxMsglen n0" and t: "tr_todo T = (fd, req) # todo"
    and a: "a = answer (rpc_requestMap (sv_rpc (net_app n))) reply req"
    and q: "accepts (sv_sendQue (net_app n)) (map reply_msg (replies fd a)) q1"
  shows "\<exists>n1 w1. deal_round sys app wake (n, ws i) = ret (n1, w1) \<and>
    working wire reply n0 n1 (ws(i := w1)) (T\<lparr>tr_todo := todo, tr_outs := tr_outs T @ replies fd a\<rparr>)"
proof -
  obtain C Q where s: "traffic_ok wire n0 n ws T C Q" "accounted (net_maxMsglen n0) (rpc_requestMap (sv_rpc (net_app n0))) reply T C Q"
    using ok unfolding working_def by blast
  have m: "a = answer (rpc_requestMap (sv_rpc (net_app n0))) reply req"
    using a s(1) by (simp add: traffic_ok_def steady_def rpc_tables_def)
  have "accounted (net_maxMsglen n0) (rpc_requestMap (sv_rpc (net_app n0))) reply (T\<lparr>tr_todo := todo, tr_outs := tr_outs T @ replies fd a\<rparr>) C Q"
    by (rule accounted_change [OF s(2)]) (simp add: t m)
  then show ?thesis using traffic_deals [OF app s(1) n0 t m q, of sys wake i] unfolding working_def by blast
qed

lemma work_sends:
  assumes sys: "stream_system sys pending wire busy" and ok: "working wire reply n0 n ws T"
  shows "\<exists>n1. msgEventCb sys app n = ret n1 \<and> working wire reply n0 n1 ws (T\<lparr>tr_outs := []\<rparr>)"
proof -
  obtain C Q where t: "traffic_ok wire n0 n ws T C Q" "accounted (net_maxMsglen n0) (rpc_requestMap (sv_rpc (net_app n0))) reply T C Q"
    using ok unfolding working_def by blast
  have "accounted (net_maxMsglen n0) (rpc_requestMap (sv_rpc (net_app n0))) reply (T\<lparr>tr_outs := []\<rparr>) C (\<lambda>fd. Q fd @ due fd (tr_outs T))"
    by (rule accounted_change [OF t(2)]) simp
  then show ?thesis using traffic_sends [OF sys t(1), of app] unfolding working_def by blast
qed

lemma work_invariant:
  assumes sys: "stream_system sys pending wire busy" and app: "app_posts app reply"
    and n0: "working wire reply n0 n0 ws0 no_traffic" "rpc_baseRequest (sv_rpc (net_app n0)) = None" "4118 \<le> net_maxMsglen n0" "\<not> net_single n0"
    and work: "work sys app reply pending wire n0 ws0 n ws T"
  shows "working wire reply n0 n ws T"
  using work
proof (induction rule: work.induct)
  case begins
  show ?case by (rule n0(1))
next
  case (accepts n ws T fd lfd n1)
  then show ?case using work_accepts [OF sys accepts.IH accepts.hyps(2-6), of app] by (simp del: fun_upd_apply)
next
  case (says n ws T fd was said xs segs old part new rest q1 n1)
  then show ?case using work_says [OF sys says.IH n0(4) says.hyps(2-7), of app] by (simp del: fun_upd_apply)
next
  case (hangs_up n ws T fd segs n1)
  then show ?case using work_hangs_up [OF sys hangs_up.IH hangs_up.hyps(2,3), of app] by (simp del: fun_upd_apply)
next
  case (takes n ws T fd n1)
  then obtain was said where "tr_open T fd = Some (was, said)" by fastforce
  then show ?case using work_takes [OF sys takes.IH, of fd was said app] takes.hyps(3) by fastforce
next
  case (deals n ws T fd req todo a q1 wake i n1 w1)
  then show ?case using work_deals [OF app deals.IH n0(2,3) deals.hyps(2-4), of sys wake i] by (simp del: fun_upd_apply)
next
  case (sends n ws T n1)
  then show ?case using work_sends [OF sys sends.IH, of app] by simp
next
  case (passes n ws T os)
  from passes.IH obtain C Q where "traffic_ok wire n0 n ws T C Q"
    "accounted (net_maxMsglen n0) (rpc_requestMap (sv_rpc (net_app n0))) reply T C Q" unfolding working_def by blast
  then show ?case using traffic_passes [OF _ passes.hyps(2)] unfolding working_def by blast
qed

lemma working_new:
  assumes n0: "n0 = new_NetMessage os s mx k False buf q srv" and mx: "0 \<le> mx" "mx \<le> 2 ^ 30" and s: "store_ok s"
    and q: "lq_rep q []" "lq_rep (sv_sendQue srv) []" and w: "\<not> sv_single srv" "\<forall>i. wk_maxMsglen (ws0 i) = mx"
  shows "working wire reply n0 n0 ws0 no_traffic" "net_maxMsglen n0 = mx" "net_app n0 = srv" "\<not> net_single n0"
proof -
  show m: "net_maxMsglen n0 = mx" "net_app n0 = srv" "\<not> net_single n0" using mx by (simp_all add: n0 new_NetMessage_def to_u32_id)
  have "sessions wire n0 {} C Q" for C Q using mx by (simp add: sessions_def sess_def buffers_def n0 new_NetMessage_def to_u32_id)
  moreover have "steady n0 n0 {}" using s by (simp add: steady_def bevs_below_def n0 new_NetMessage_def)
  moreover have "net_recvQue n0 = q" by (simp add: n0 new_NetMessage_def)
  ultimately have "traffic_ok wire n0 n0 ws0 no_traffic C Q" for C Q
    using q w m(1,2) by (simp add: traffic_ok_def no_traffic_def)
  moreover have "accounted mx M reply no_traffic C Q" for M C Q by (simp add: accounted_def no_traffic_def)
  ultimately show "working wire reply n0 n0 ws0 no_traffic" unfolding working_def m(1) by blast
qed

lemma traffic_table:
  assumes "traffic_ok wire n0 n ws T C Q"
  shows "fd \<in> dom (tr_open T) \<Longrightarrow> GetConn n fd = Some fd \<and> 0 \<le> fd \<and> fd < net_maxfds n0"
    "fd \<notin> dom (tr_open T) \<Longrightarrow> GetConn n fd = None" "net_maxfds n = net_maxfds n0"
proof -
  have t: "sessions wire n (dom (tr_open T)) C Q" "\<forall>fd. fd \<notin> dom (tr_open T) \<longrightarrow> ci_fd (net_conns n fd) = -1" "net_maxfds n = net_maxfds n0"
    using assms by (simp_all add: traffic_ok_def steady_def)
  show "net_maxfds n = net_maxfds n0" by (rule t(3))
  show "GetConn n fd = None" if "fd \<notin> dom (tr_open T)" using t(2) that by (auto simp: GetConn_def)
  show "GetConn n fd = Some fd \<and> 0 \<le> fd \<and> fd < net_maxfds n0" if "fd \<in> dom (tr_open T)"
  proof -
    have g: "GetConn n fd = Some fd" using session_entry [OF t(1) that] by blast
    then show ?thesis using t(3) by (simp add: GetConn_def split: if_splits)
  qed
qed


section \<open>A number that is used again\<close>

text \<open>C26. A queued request does not know its connection, only the number: when its client hangs up before a worker has
  taken it, and another client is accepted under the number, the answer goes to the other one, who has said nothing (and so do the
  answers that were waiting in the send queue).\<close>

theorem answer_to_wrong_client:
  assumes sys: "stream_system sys pending wire busy" and app: "app_posts app reply"
    and new: "n0 = new_NetMessage os s mx k False buf q srv" "4118 \<le> mx" "mx \<le> 2 ^ 30" "store_ok s" "lq_rep q []" "lq_rep (sv_sendQue srv) []"
      "\<not> sv_single srv" "rpc_baseRequest (sv_rpc srv) = None" "\<forall>i. wk_maxMsglen (ws0 i) = mx"
    and work: "work sys app reply pending wire n0 ws0 n ws T"
    and old: "tr_open T fd \<noteq> None" "tr_todo T = (fd, req) # todo" "pending (net_os n) fd = [] # segs" and lfd: "0 < lfd"
    and a: "a = answer (rpc_requestMap (sv_rpc srv)) reply req" "accepts (sv_sendQue (net_app n)) (map reply_msg (replies fd a)) q1"
  defines "methods \<equiv> server_methods sys app"
  shows "\<exists>n1 n2 n3 w1 n4 n5. on_event sys methods (Readable fd) n = ret n1 \<and> GetConn n1 fd = None \<and>
    on_accept sys methods n1 lfd fd = ret n2 \<and> GetConn n2 fd = Some fd \<and>
    deal_round sys app wake (n2, ws i) = ret (n3, w1) \<and> msgEventCb sys app n3 = ret n4 \<and>
    on_event sys methods (Writable fd) n4 = ret n5 \<and>
    wire (net_os n5) fd = wire (net_os n1) fd @ due fd (tr_outs T) @ a"
proof -
  have "0 \<le> mx" using new(2) by simp
  note n0 = working_new [OF new(1) this new(3-7,9)]
  have base: "rpc_baseRequest (sv_rpc (net_app n0)) = None" "4118 \<le> net_maxMsglen n0" using n0(2,3) new(2,8) by simp_all
  obtain C Q where t: "traffic_ok wire n0 n ws T C Q"
    using work_invariant [OF sys app n0(1) base n0(4) work] unfolding working_def by blast
  have "fd \<in> dom (tr_open T)" using old(1) by blast
  then have f: "0 \<le> fd" "fd < net_maxfds n0" using traffic_table(1) [OF t] by simp_all
  let ?T1 = "T\<lparr>tr_open := (tr_open T)(fd := None)\<rparr>"
  obtain n1 where n1: "on_event sys methods (Readable fd) n = ret n1" "traffic_ok wire n0 n1 ws ?T1 C Q" "net_app n1 = net_app n"
    using traffic_hangs_up [OF sys t old(1,3), of app] unfolding methods_def by blast
  have "fd \<notin> dom (tr_open ?T1)" by simp
  then have 1: "GetConn n1 fd = None" "fd < net_maxfds n1" using traffic_table(2,3) [OF n1(2)] f(2) by simp_all
  let ?T2 = "?T1\<lparr>tr_open := opened wire n1 fd (tr_open ?T1)\<rparr>" and ?Q = "Q(fd := wire (net_os n1) fd)"
  have "tr_open ?T1 fd = None" by simp
  from traffic_accepts [OF sys n1(2) this f(1) lfd, of app] obtain n2 where
    n2: "on_accept sys methods n1 lfd fd = ret n2" "traffic_ok wire n0 n2 ws ?T2 (C(fd := [])) ?Q" "net_app n2 = net_app n"
    unfolding methods_def n1(3) by blast
  have o: "fd \<in> dom (tr_open ?T2)" using 1(2) by (simp add: opened_def)
  then have 2: "GetConn n2 fd = Some fd" using traffic_table(1) [OF n2(2)] by blast
  let ?T3 = "?T2\<lparr>tr_todo := todo, tr_outs := tr_outs ?T2 @ replies fd a\<rparr>"
  obtain n3 w1 where n3: "deal_round sys app wake (n2, ws i) = ret (n3, w1)" "traffic_ok wire n0 n3 (ws(i := w1)) ?T3 (C(fd := [])) ?Q"
    using traffic_deals [OF app n2(2) base, of fd req todo a q1 sys wake i] old(2) a n2(3) n0(3) by auto
  obtain n4 where n4: "msgEventCb sys app n3 = ret n4"
    "traffic_ok wire n0 n4 (ws(i := w1)) (?T3\<lparr>tr_outs := []\<rparr>) (C(fd := [])) (\<lambda>g. ?Q g @ due g (tr_outs ?T3))"
    using traffic_sends [OF sys n3(2)] by blast
  have "tr_open (?T3\<lparr>tr_outs := []\<rparr>) fd \<noteq> None" using o by auto
  from traffic_takes [OF sys n4(2) this, of app] obtain n5 where
    "on_event sys methods (Writable fd) n4 = ret n5" "wire (net_os n5) fd = ?Q fd @ due fd (tr_outs ?T3)" unfolding methods_def by blast
  then show ?thesis using n1(1) 1(1) n2(1) 2 n3(1) n4(1) by (intro exI [of _ n1] exI [of _ n2] exI [of _ n3] exI [of _ w1] exI [of _ n4] exI [of _ n5]) simp
qed

section \<open>An example\<close>

text \<open>An application that answers with what it is sent, on a worker's thread.\<close>

definition post_app :: "'os sys \<Rightarrow> ('os, 'h, 's, 'c, 'a) app_code" where
  "post_app sys =
     \<lparr>app_handle = (\<lambda>call n. case call of
        Call_request h fd remote data k \<Rightarrow>
          rbind (Server_Send sys \<lparr>app_handle = (\<lambda>_. ret), app_closed = (\<lambda>_ _. ret)\<rparr> False n fd remote
            (echo (case data of None \<Rightarrow> [] | Some xs \<Rightarrow> xs))) (\<lambda>(n1, _). ret n1)
      | _ \<Rightarrow> ret n), app_closed = (\<lambda>_ _. ret)\<rparr>"

lemma post_app_posts: "app_posts (post_app sys :: ('os, 'h, 's, 'c, 'a) app_code) (\<lambda>_. echo)"
  unfolding app_posts_def
proof (intro allI impI)
  fix n :: "('os, 'h, 's, 'c, 'a) world" and h fd q1 and data :: "byte list"
  assume n: "\<not> sv_single (net_app n)" and q: "accepts (sv_sendQue (net_app n)) (map reply_msg (replies fd (echo data))) q1"
  have "PushMsg (sv_sendQue (net_app n)) (reply_msg (fd, echo data)) = ret (q1, True)"
    using q by (simp add: replies_def echo_def head_bytes_ne)
  then have "Push (sv_sendQue (net_app n)) fd 0 MT_SVR_MESSAGE (echo data) = ret (q1, True)" by (simp add: PushMsg_def)
  then show "\<exists>sv1. app_handle (post_app sys) (Call_request h fd 0 (if data = [] then None else Some data) (int (length data))) n =
        ret (n\<lparr>net_app := sv1\<rparr>) \<and>
      sv_sendQue sv1 = q1 \<and> \<not> sv_single sv1 \<and> rpc_tables (sv_rpc sv1) = rpc_tables (sv_rpc (net_app n))"
    using n by (intro exI [of _ "(net_app n)\<lparr>sv_sendQue := q1, sv_notified := Suc (sv_notified (net_app n))\<rparr>"])
      (cases "data = []"; simp add: post_app_def Server_Send_def upd_server_def)
qed

text \<open>A new server with workers; each of its queues has room for 60 bytes.\<close>

definition post_server :: "(nat, unit, unit, unit) server" where
  "post_server = \<lparr>sv_single = False, sv_rpc = (new_IRpc (\<lambda>_. 0))\<lparr>rpc_requestMap := [[76] \<mapsto> 7]\<rparr>, sv_connectors = Map.empty,
     sv_sendQue = queue60, sv_notified = 0, sv_app = ()\<rparr>"

definition post_world :: "(example_os, nat, unit, unit, unit) world" where
  "post_world = new_NetMessage (\<lambda>_. [], \<lambda>_. []) (empty_store (\<lambda>_ _. 0)) 8192 16 False [] queue60 post_server"

definition post_workers :: "nat \<Rightarrow> worker" where
  "post_workers = (\<lambda>_. \<lparr>wk_recvBuffer = [], wk_maxMsglen = 8192, wk_statCnt = 0\<rparr>)"

abbreviation post_work :: "(example_os, nat, unit, unit, unit) world \<Rightarrow> (nat \<Rightarrow> worker) \<Rightarrow> traffic \<Rightarrow> bool" where
  "post_work \<equiv> work ten_sys (post_app ten_sys) (\<lambda>_. echo) ten_pending snd post_world post_workers"

lemma post_new:
  "store_ok (empty_store (\<lambda>_ _. 0))" "lq_rep queue60 []" "lq_rep (sv_sendQue post_server) []" "\<not> sv_single post_server"
  "rpc_baseRequest (sv_rpc post_server) = None" "\<forall>i. wk_maxMsglen (post_workers i) = 8192"
  by (simp_all add: post_server_def post_workers_def store_ok_empty lq_rep_queue60 new_IRpc_def)

lemma post_working: "working snd (\<lambda>_. echo) post_world post_world post_workers no_traffic"
  by (rule working_new(1) [OF post_world_def _ _ post_new(1-4,6)]) simp_all

text \<open>A client connects and says a request, which is in the queue then.\<close>

lemma post_says:
  obtains n T where "post_work n post_workers T" "tr_open T = [5 \<mapsto> ([], request_bytes ([76], [1, 2]))]" "tr_todo T = [(5, ([76], [1, 2]))]"
    "tr_outs T = []" "net_app n = post_server"
proof -
  let ?req = "([76], [1, 2]) :: byte list \<times> byte list" and ?T1 = "no_traffic\<lparr>tr_open := [5 \<mapsto> ([], [])]\<rparr>"
  have set: "net_maxMsglen post_world = 8192" "net_maxfds post_world = 16" "net_app post_world = post_server" "net_recvQue post_world = queue60"
    "snd (net_os post_world) 5 = []" "\<not> net_single post_world"
    by (simp_all add: post_world_def new_NetMessage_def to_u32_id)
  obtain n1 where n1: "on_accept ten_sys (server_methods ten_sys (post_app ten_sys)) post_world 3 5 = ret n1"
    "working snd (\<lambda>_. echo) post_world n1 post_workers ?T1" "net_app n1 = post_server" "net_recvQue n1 = queue60"
    using work_accepts [OF ten_stream_system post_working, of 5 3 "post_app ten_sys"] set by (auto simp: no_traffic_def opened_def)
  have "post_work n1 post_workers (no_traffic\<lparr>tr_open := opened snd post_world 5 (tr_open no_traffic)\<rparr>)"
    by (rule work.accepts [OF work.begins _ _ _ _ _ n1(1)]) (simp_all add: no_traffic_def)
  then have w1: "post_work n1 post_workers ?T1" using set(2,5) by (simp add: no_traffic_def opened_def)
  let ?n = "n1\<lparr>net_os := ((\<lambda>_. [request_bytes ?req]), snd (net_os n1))\<rparr>"
  have w2: "post_work ?n post_workers ?T1" by (rule work.passes [OF w1]) simp
  have b: "rpc_baseRequest (sv_rpc (net_app post_world)) = None" "4118 \<le> net_maxMsglen post_world" using post_new(5) set by simp_all
  have ok: "working snd (\<lambda>_. echo) post_world ?n post_workers ?T1"
    by (rule work_invariant [OF ten_stream_system post_app_posts post_working b set(6) w2])
  have l: "request_bytes ?req \<noteq> []" "length (request_bytes ?req) = 15" by (simp_all add: request_bytes_def head_bytes_ne)
  have p: "ten_pending (net_os ?n) 5 = [request_bytes ?req]" using l by (simp add: ten_pending_def)
  have mx: "net_maxMsglen ?n = 8192" using ok set(1) by (auto simp: working_def traffic_ok_def steady_def)
  have s: "speaks (net_maxMsglen ?n) [] [] []" "speaks (net_maxMsglen ?n) ([] @ request_bytes ?req) ([] @ [?req]) []"
    unfolding mx by (simp_all add: speaks_def incomplete_def fits_def)
  have "msg_ok (request_msg 5 0 ?req)" "bsize (request_msg 5 0 ?req) \<le> 60"
    using l by (simp_all add: msg_ok_def bsize_def sizeof_block_def request_msg_def MT_CLI_MESSAGE_def)
  then have q: "accepts (net_recvQue ?n) (map (request_msg 5 0) [?req]) (stored queue60 (request_msg 5 0 ?req))"
    using accepts_queue60 n1(4) by simp
  have o: "tr_open ?T1 5 = Some ([], [])" by simp
  obtain n2 where n2: "on_event ten_sys (server_methods ten_sys (post_app ten_sys)) (Readable 5) ?n = ret n2" "net_app n2 = post_server"
    using work_says [OF ten_stream_system ok set(6) o p l(1) s q, of "post_app ten_sys"] n1(3) by auto
  from work.says [OF w2 o p l(1) s q n2(1)] show ?thesis
    by (rule that) (simp_all add: no_traffic_def n2(2))
qed

abbreviation post_methods :: "(example_os, nat, unit, unit, unit) world server_calls" where
  "post_methods \<equiv> server_methods ten_sys (post_app ten_sys)"

lemma post_answer: "answer (rpc_requestMap (sv_rpc post_server)) (\<lambda>_. echo) ([76], [1, 2]) = echo [1, 2]"
  by (simp add: answer_def post_server_def)

lemma post_room: "accepts (sv_sendQue post_server) (map reply_msg (replies 5 (echo [1, 2]))) (stored queue60 (reply_msg (5, echo [1, 2])))"
  using accepts_queue60 [of "reply_msg (5, echo [1, 2])"]
  by (simp add: post_server_def replies_def echo_def head_bytes_ne msg_ok_def bsize_def sizeof_block_def reply_msg_def MT_SVR_MESSAGE_def)


lemma answer_to_wrong_client_witness:
  "\<exists>n T n1 n2 n3 w1 n4 n5. post_work n post_workers T \<and> on_event ten_sys post_methods (Readable 5) n = ret n1 \<and> GetConn n1 5 = None \<and>
     on_accept ten_sys post_methods n1 3 5 = ret n2 \<and> GetConn n2 5 = Some 5 \<and>
     deal_round ten_sys (post_app ten_sys) Map.empty (n2, post_workers 0) = ret (n3, w1) \<and> msgEventCb ten_sys (post_app ten_sys) n3 = ret n4 \<and>
     on_event ten_sys post_methods (Writable 5) n4 = ret n5 \<and> snd (net_os n5) 5 = snd (net_os n1) 5 @ echo [1, 2]"
proof -
  let ?req = "([76], [1, 2]) :: byte list \<times> byte list"
  obtain n T where n: "post_work n post_workers T" "tr_open T = [5 \<mapsto> ([], request_bytes ?req)]" "tr_todo T = [(5, ?req)]"
    "tr_outs T = []" "net_app n = post_server" by (rule post_says)
  let ?n = "n\<lparr>net_os := ((\<lambda>_. [[]]), snd (net_os n))\<rparr>"
  have w: "post_work ?n post_workers T" by (rule work.passes [OF n(1)]) simp
  have m: "4118 \<le> (8192 :: int)" "(8192 :: int) \<le> 2 ^ 30" by simp_all
  have o: "tr_open T 5 \<noteq> None" "ten_pending (net_os ?n) 5 = [[]]" "0 < (3 :: int)" using n(2) by (simp_all add: ten_pending_def)
  have q: "accepts (sv_sendQue (net_app ?n)) (map reply_msg (replies 5 (echo [1, 2]))) (stored queue60 (reply_msg (5, echo [1, 2])))"
    using post_room n(5) by simp
  have d: "due 5 (tr_outs T) = []" using n(4) by simp
  from answer_to_wrong_client [OF ten_stream_system post_app_posts post_world_def m post_new w o(1) n(3) o(2,3) post_answer [symmetric] q,
      of Map.empty 0] w
  show ?thesis unfolding d append_Nil by blast
qed

end
