(* ===== verification/Game_Sessions.thy ===== *)
theory Game_Sessions
  imports Game_Server Net_Sessions
begin

text \<open>
  The sample server with players on TCP (sample/server/server.cc on the framework): \<open>main\<close> sets it up from the
  configuration file, players connect, and each is answered whatever the others do.
\<close>

section \<open>What the server answers\<close>

definition login_answer :: "login_request pb \<Rightarrow> (login_request \<Rightarrow> byte list) \<Rightarrow> byte list \<Rightarrow> byte list" where
  "login_answer qpb out data =
     (case pb_Parse qpb data of None \<Rightarrow> head_bytes 1 Server_Name 0 | Some req \<Rightarrow> login_reply (out req))"

definition game_reply :: "login_request pb \<Rightarrow> (login_request \<Rightarrow> byte list) \<Rightarrow> gs_function \<Rightarrow> byte list \<Rightarrow> byte list" where
  "game_reply qpb out f data = (if f = Process_login then login_answer qpb out data else [])"

lemma return_login_tables: "return_login pb r fd remote rcode rsp = ret (r1, calls) \<Longrightarrow> rpc_tables r1 = rpc_tables r"
  by (auto simp: return_login_def serialise_login_def respond_login_def SendRespond_def rbind_eq_ret Let_def
      dest!: send_encoded_tables fill_databuff_tables split: if_splits option.splits sum.splits)

text \<open>Whatever the payload is, \<open>process_login\<close> sends one message back.\<close>

lemma process_login_answers:
  assumes "\<forall>xs req. pb_Parse qpb xs = Some req \<longrightarrow> pb_fits rpb (login_result req) (out req)"
  shows "\<exists>r1 v. process_login qpb rpb GameServiceImp_login r fd 0 (if data = [] then None else Some data) =
      ret (r1, [Server_SendMsg fd 0 (login_answer qpb out data)], v) \<and> rpc_tables r1 = rpc_tables r"
proof (cases "pb_Parse qpb data")
  case None
  have "to_u32 1 = 1" by (simp add: to_u32_def)
  then obtain r1 where "SendRespond r fd 0 1 Server_Name 0 = ret (r1, ([Server_SendMsg fd 0 (head_bytes 1 Server_Name 0)], Last_call))"
    using send_encoded_ok [of "r\<lparr>rpc_rhead := (rpc_rhead r)\<lparr>rh_Ret := 1, rh_Name := Server_Name\<rparr>\<rparr>" 0 fd 0]
    by (auto simp: SendRespond_def)
  moreover from this have "rpc_tables r1 = rpc_tables r" by (auto simp: SendRespond_def dest: send_encoded_tables)
  ultimately show ?thesis unfolding process_login_def buff_bytes_received by (simp add: None login_answer_def)
next
  case (Some req)
  obtain r1 where r1: "return_login rpb r fd 0 0 (login_result req) = ret (r1, [Server_SendMsg fd 0 (login_reply (out req))])"
    using return_login_sends [of rpb "login_result req" "out req" r fd 0] assms Some by (auto simp: login_reply_def)
  then show ?thesis using return_login_tables [OF r1] unfolding process_login_def buff_bytes_received
    by (simp add: Some login_answer_def GameServiceImp_login_def login_result_def)
qed

lemma game_app_replies:
  assumes sys: "streams sys F pending wire busy" and out: "\<forall>xs req. pb_Parse qpb xs = Some req \<longrightarrow> pb_fits rpb (login_result req) (out req)"
  shows "app_replies (game_app qpb rpb sys True) F pending wire (game_reply qpb out)"
  unfolding app_replies_def
proof (intro allI impI)
  fix n :: "('a, gs_function, gs_service, unit, unit) world" and C Q fd f and data :: "byte list"
  assume n: "sessions wire n F C Q" "fd \<in> F"
  let ?buff = "if data = [] then None else Some data"
  show "\<exists>n1. app_handle (game_app qpb rpb sys True) (Call_request f fd 0 ?buff (int (length data))) n = ret n1 \<and>
      sessions wire n1 F C (Q(fd := Q fd @ game_reply qpb out f data)) \<and> kept pending n1 = kept pending n"
  proof (cases "f = Process_login")
    case False
    then show ?thesis using n(1) by (simp add: game_app_def game_reply_def)
  next
    case True
    obtain r1 v where r1: "process_login qpb rpb GameServiceImp_login (sv_rpc (net_app n)) fd 0 ?buff =
        ret (r1, [Server_SendMsg fd 0 (login_answer qpb out data)], v)" "rpc_tables r1 = rpc_tables (sv_rpc (net_app n))"
      using process_login_answers [OF out] by blast
    let ?n0 = "upd_server (\<lambda>sv. sv\<lparr>sv_rpc := r1\<rparr>) n" and ?m = "login_answer qpb out data"
    have "23 + length (out req) \<le> 2 ^ 30" if "pb_Parse qpb data = Some req" for req
    proof -
      have "length (out req) \<le> 1048320" using out that by (auto simp: pb_fits_def)
      then show ?thesis by simp
    qed
    then have m: "?m \<noteq> []" "length ?m \<le> 2 ^ 30"
      by (auto simp: login_answer_def login_reply_def head_bytes_ne split: option.split)
    obtain n1 where n1: "Net_Message.SendMsg sys (close_calls quiet_app) ?n0 fd 0 ?m = ret (n1, 0)"
      "sessions wire n1 F C (Q(fd := Q fd @ ?m))" "pending (net_os n1) = pending (net_os ?n0)"
      "net_maxMsglen n1 = net_maxMsglen ?n0" "net_app n1 = net_app ?n0" "conn_table n1 = conn_table ?n0"
      using session_sends [OF sys _ n(2) m, of ?n0 C Q "close_calls quiet_app" 0] n(1) by auto
    have "app_handle (game_app qpb rpb sys True) (Call_request f fd 0 ?buff (int (length data))) n = ret n1"
      using True r1(1) n1(1) by (simp add: game_app_def Server_Send_def)
    moreover have "kept pending n1 = kept pending n" using n1(3-5) n1(6) [unfolded conn_table_app] r1(2) by (simp add: kept_def upd_server_def)
    ultimately show ?thesis using n1(2) True by (simp add: game_reply_def)
  qed
qed

section \<open>From the configuration file to the answers\<close>

text \<open>The configuration: a stream URL, no workers, and the defaults for the rest.\<close>

definition tcp_config :: "ini_item list \<Rightarrow> string \<Rightarrow> int \<Rightarrow> bool" where
  "tcp_config items ip port \<longleftrightarrow>
     (\<forall>it \<in> set items. item_ok it) \<and> CHR '':'' \<notin> set ip \<and> - (2 ^ 31) \<le> port \<and> port < 2 ^ 31 \<and>
     (let m = map_of (rev (concat (map assignment items)))
      in m ''bindurl'' = Some (make_url ''tcp'' ip port) \<and>
         m ''work_num'' = None \<and> m ''max_msglen'' = None \<and> m ''max_fd'' = None)"

lemma server_main_listens:
  assumes cfg: "tcp_config items ip port" and fd: "bind IOEV_TCP_PROTOCOL ip port = lfd" "0 < lfd"
  shows "\<exists>n. server_main sys app bind (Some (render_file items)) os s buf = ret (n, Some lfd, 0, []) \<and>
    sessions wire n {} C Q \<and> bevs_below n \<and> net_store n = s \<and> net_os n = os \<and> net_maxMsglen n = 81920 \<and> net_maxfds n = 10240 \<and>
    (\<forall>fd. ci_fd (net_conns n fd) = -1) \<and>
    rpc_requestMap (sv_rpc (net_app n)) = [login_name \<mapsto> Process_login] \<and> rpc_baseRequest (sv_rpc (net_app n)) = None \<and> net_single n"
proof -
  let ?m = "map_of (rev (concat (map assignment items)))"
  let ?cfg = "fst (LoadCfg new_IniConfig (Some (render_file items)))"
  have c: "\<forall>it \<in> set items. item_ok it" "CHR '':'' \<notin> set ip" "- (2 ^ 31) \<le> port" "port < 2 ^ 31"
    "?m ''bindurl'' = Some (make_url ''tcp'' ip port)" "?m ''work_num'' = None" "?m ''max_msglen'' = None" "?m ''max_fd'' = None"
    using cfg by (auto simp: tcp_config_def Let_def)
  have v: "getVal ?cfg k = ?m k" for k
    using parse_loop_file [OF c(1), of Map.empty] by (simp add: LoadCfg_def Parse_def getVal_def new_IniConfig_def)
  have g: "GetInt ?cfg ''work_num'' 0 = 0" "GetInt ?cfg ''max_msglen'' 81920 = 81920" "GetInt ?cfg ''max_fd'' 10240 = 10240"
    "GetStr ?cfg ''bindurl'' = make_url ''tcp'' ip port"
    using c v by (simp_all add: GetInt_def GetStr_def)
  have u: "parse_url (make_url ''tcp'' ip port) = Some (IOEV_TCP_PROTOCOL, ip, port)"
    using parse_url_make [of "''tcp''" ip port] c by (simp add: protocol_of_def)
  let ?sv = "\<lparr>sv_single = True, sv_rpc = fst (add_server_skeleton (new_IRpc buf)), sv_connectors = Map.empty,
      sv_sendQue = new_LoopQueue, sv_notified = 0, sv_app = ()\<rparr> :: (gs_function, gs_service, unit, unit) server"
  let ?n = "new_NetMessage os s 81920 10240 True (replicate (nat 81920) 0) new_LoopQueue ?sv"
  have u81920: "to_u32 81920 = 81920" by (simp add: to_u32_id)
  have "server_main sys app bind (Some (render_file items)) os s buf = ret (?n, Some lfd, 0, [])"
    using fd g u u81920
    by (simp add: server_main_def Let_def Server_NetMessage_def Server_Bind_def Net_Message.Bind_def Server_Init_def
        new_NetMessage_def upd_server_def)
  moreover have "rpc_requestMap (fst (add_server_skeleton (new_IRpc buf))) = [login_name \<mapsto> Process_login]"
    "rpc_baseRequest (fst (add_server_skeleton (new_IRpc buf))) = None"
    by (auto simp: add_server_skeleton_def AddService_def Server_RegisterServiceFunction_def AddRequestFunction_def new_IRpc_def Let_def)
  moreover have "sessions wire ?n {} C Q" "bevs_below ?n" by (rule sessions_none; simp)+
  ultimately show ?thesis by (intro exI [of _ ?n]) (simp add: new_NetMessage_def u81920)
qed

text \<open>Players connect one after the other.\<close>

fun accept_clients ::
  "'os sys \<Rightarrow> ('os, 'app) net server_calls \<Rightarrow> int \<Rightarrow> int list \<Rightarrow> ('os, 'app) net \<Rightarrow> ('os, 'app) net run" where
  "accept_clients sys srv lfd [] n = ret n"
| "accept_clients sys srv lfd (fd # fds) n = rbind (on_accept sys srv n lfd fd) (accept_clients sys srv lfd fds)"

lemma clients_accepted:
  assumes "sessions wire n F (\<lambda>_. []) Q" "bevs_below n" "store_ok (net_store n)" "0 < lfd" "distinct fds"
    "\<forall>fd \<in> set fds. 0 \<le> fd \<and> fd < net_maxfds n \<and> ci_fd (net_conns n fd) \<le> 0 \<and> fd \<notin> F \<and> wire (net_os n) fd = Q fd"
  shows "\<exists>n1. accept_clients sys (server_methods sys app) lfd fds n = ret n1 \<and> sessions wire n1 (set fds \<union> F) (\<lambda>_. []) Q \<and>
    net_os n1 = net_os n \<and> net_maxMsglen n1 = net_maxMsglen n \<and> net_app n1 = net_app n \<and> net_single n1 = net_single n"
  using assms
proof (induction fds arbitrary: n F)
  case (Cons fd fds)
  have f: "0 \<le> fd" "fd < net_maxfds n" "ci_fd (net_conns n fd) \<le> 0" "fd \<notin> F" "wire (net_os n) fd = Q fd"
    using Cons.prems(6) by simp_all
  obtain n1 where n1: "on_accept sys (server_methods sys app) n lfd fd = ret n1"
    "sessions wire n1 (insert fd F) ((\<lambda>_. [])(fd := [])) (Q(fd := wire (net_os n) fd))" "bevs_below n1"
    "net_store n1 = net_store n" "net_os n1 = net_os n" "net_maxMsglen n1 = net_maxMsglen n" "net_app n1 = net_app n"
    "net_maxfds n1 = net_maxfds n" "\<forall>g. g \<noteq> fd \<longrightarrow> net_conns n1 g = net_conns n g" "net_single n1 = net_single n"
    using session_accept [OF Cons.prems(1-3) f(1-4) Cons.prems(4), of sys app] by blast
  have "(\<lambda>_. [])(fd := []) = (\<lambda>_ :: int. [] :: byte list)" "Q(fd := wire (net_os n) fd) = Q" using f(5) by auto
  then have s1: "sessions wire n1 (insert fd F) (\<lambda>_. []) Q" using n1(2) by (simp only:)
  have "\<forall>g \<in> set fds. 0 \<le> g \<and> g < net_maxfds n1 \<and> ci_fd (net_conns n1 g) \<le> 0 \<and> g \<notin> insert fd F \<and> wire (net_os n1) g = Q g"
    using Cons.prems(5,6) n1(5,8,9) by (metis distinct.simps(2) insert_iff list.set_intros(2))
  from Cons.IH [OF s1 n1(3) _ Cons.prems(4) _ this] Cons.prems(3,5) n1(1,4-7,10) show ?case by auto
qed simp


text \<open>Two players: the first logs in as 7, in two pieces, and then sends a login without a payload; the second asks for a function
  that does not exist.\<close>

definition tcp_cfg :: "ini_item list" where
  "tcp_cfg = [Assign \<lparr>il_key = ''bindurl'', il_val = ''tcp://127.0.0.1:8812'', il_pads = (0, 1, 1, 0), il_comment = None\<rparr>]"

lemma tcp_cfg_ok: "tcp_config tcp_cfg ''127.0.0.1'' 8812"
proof -
  have d: "decimal 8812 = ''8812''"
    by (simp add: decimal.simps [of 8812] decimal.simps [of 881] decimal.simps [of 88] decimal.simps [of 8] char_of_def bit_0)
  then have u: "make_url ''tcp'' ''127.0.0.1'' 8812 = ''tcp://127.0.0.1:8812''" by (simp add: make_url_def show_int_def)
  show ?thesis
    unfolding tcp_config_def Let_def u
    by (simp add: tcp_cfg_def trimmed_def plain_def newline_def render_comment_def render_body_def INI_BUFF_LEN_def)
qed

definition players_say :: "int \<Rightarrow> byte list list" where
  "players_say = (\<lambda>_. [])
     (5 := [take 9 (request_bytes (login_name, [7])), drop 9 (request_bytes (login_name, [7])) @ request_bytes (login_name, [])],
      6 := [request_bytes ([76], [1]) @ [0]])"

definition sample_out :: "login_request \<Rightarrow> byte list" where
  "sample_out req = [of_int (lq_player_id req), 24]"


end
