(* ===== verification/Shutdown.thy ===== *)
theory Shutdown
  imports Dispatch Startup
begin

text \<open>
  Threads (common/Thread.h, Thread.cc), and how the server ends (framework/Server.cc \<open>Init\<close> and \<open>~Server\<close>, and
  the destructors of Worker.cc, LoopQueue.cc, NetMessage.cc, IRpc.cc and BlockBuffer.cc).

  When \<open>EvRun\<close> has returned, \<open>main\<close> returns and the server, a local object there, is destroyed: the workers' objects
  are deleted.  Nobody has told their threads, whose loop has no end, and nobody waits for them.
\<close>

section \<open>Threads\<close>

text \<open>The calls of pthreads; \<open>pt_create\<close> yields what has been stored through its first argument, and 0 or an error code.
  What a new thread runs is not its matter.\<close>

record 'os pthreads =
  pt_create :: "'os \<Rightarrow> 'os \<times> int \<times> int"
  pt_join :: "'os \<Rightarrow> int \<Rightarrow> 'os \<times> int"
  pt_exit :: "'os \<Rightarrow> 'os"

record thread =
  thr_threadId :: int

definition new_Thread :: thread where
  "new_Thread = \<lparr>thr_threadId = 0\<rparr>"

definition Thread_ThreadID :: "thread \<Rightarrow> int" where
  "Thread_ThreadID t = thr_threadId t"

definition Thread_Start :: "'os pthreads \<Rightarrow> 'os \<Rightarrow> thread \<Rightarrow> 'os \<times> thread \<times> bool" where
  "Thread_Start p os t =
     (case pt_create p os of (os1, tid, rc) \<Rightarrow> (os1, t\<lparr>thr_threadId := tid\<rparr>, if rc \<noteq> 0 then False else True))"

definition Thread_Join :: "'os pthreads \<Rightarrow> 'os \<Rightarrow> thread \<Rightarrow> 'os \<times> bool" where
  "Thread_Join p os t = (case pt_join p os (thr_threadId t) of (os1, rc) \<Rightarrow> (os1, rc = 0))"

definition Thread_Exit :: "'os pthreads \<Rightarrow> 'os \<Rightarrow> 'os" where
  "Thread_Exit p os = pt_exit p os"

text \<open>The loop of \<open>Init\<close> that makes the workers.  What \<open>Start\<close> returns is ignored.\<close>

fun start_workers :: "'os pthreads \<Rightarrow> ini_config \<Rightarrow> nat \<Rightarrow> 'os \<Rightarrow> 'os \<times> (worker \<times> thread) list" where
  "start_workers p cfg 0 os = (os, [])"
| "start_workers p cfg (Suc k) os =
     (case Thread_Start p os new_Thread of (os1, t, _) \<Rightarrow>
        (case start_workers p cfg k os1 of (os2, ws) \<Rightarrow> (os2, (Worker_Init new_Worker cfg, t) # ws)))"

text \<open>The workers are those of \<open>Server_Init_all\<close>, whether their threads could be made or not.\<close>

lemma start_workers_all: "map fst (snd (start_workers p cfg k os)) = replicate k (Worker_Init new_Worker cfg)"
proof (induction k arbitrary: os)
  case (Suc k)
  obtain os1 tid rc where c: "pt_create p os = (os1, tid, rc)" using prod_cases3 by blast
  show ?case using Suc.IH [of os1] c by (auto simp: Thread_Start_def split: prod.splits)
qed simp

section \<open>Destructors\<close>

definition delete_LoopQueue :: "loop_queue \<Rightarrow> loop_queue" where
  "delete_LoopQueue q = q\<lparr>lq_buff := (\<lambda>_. 0), lq_bufflen := 0, lq_head := -1, lq_tail := -1\<rparr>"

definition delete_NetMessage :: "'ev ev_loop \<Rightarrow> 'ev \<Rightarrow> 'c user_event option \<Rightarrow> ('os, 'app) net \<Rightarrow> 'ev \<times> ('os, 'app) net" where
  "delete_NetMessage lp ev msgEvent n =
     (case msgEvent of None \<Rightarrow> ev | Some e \<Rightarrow> delete_UserEventEv lp ev e, n\<lparr>net_recvBuffer := []\<rparr>)"

text \<open>The pool's destructor: every block in the pool is deleted.\<close>

definition delete_BufferBlockMgr :: "block_store \<Rightarrow> block_store" where
  "delete_BufferBlockMgr s =
     s\<lparr>st_mem := (\<lambda>a. if a \<in> pooled s then None else st_mem s a), st_pool := (\<lambda>_. [])\<rparr>"

text \<open>The workers' objects, by address; deleting one twice would be a fault.\<close>

fun delete_workers :: "(nat \<rightharpoonup> worker) \<Rightarrow> nat list \<Rightarrow> (nat \<rightharpoonup> worker) run" where
  "delete_workers objs [] = ret objs"
| "delete_workers objs (a # as) =
     (case objs a of None \<Rightarrow> fail Dangling_pointer | Some w \<Rightarrow> delete_workers (objs(a := None)) as)"

record server_members =
  sm_iniCfg :: "ini_config option"
  sm_workers :: "nat list"

definition delete_Server :: "(nat \<rightharpoonup> worker) \<Rightarrow> server_members \<Rightarrow> ((nat \<rightharpoonup> worker) \<times> server_members) run" where
  "delete_Server objs sv =
     (let sv1 = sv\<lparr>sm_iniCfg := None\<rparr>
      in rbind (delete_workers objs (sm_workers sv1)) (\<lambda>objs1. ret (objs1, sv1\<lparr>sm_workers := []\<rparr>)))"

lemma delete_workers_all:
  "distinct as \<Longrightarrow> set as \<subseteq> dom objs \<Longrightarrow> \<exists>objs1. delete_workers objs as = ret objs1 \<and> dom objs1 = dom objs - set as"
proof (induction as arbitrary: objs)
  case (Cons a as)
  then obtain w where "objs a = Some w" by auto
  moreover have "distinct as" "set as \<subseteq> dom (objs(a := None))" using Cons.prems by auto
  from Cons.IH [OF this] obtain objs1 where
    "delete_workers (objs(a := None)) as = ret objs1" "dom objs1 = dom (objs(a := None)) - set as" by blast
  ultimately show ?case by auto
qed simp

lemma delete_LoopQueue_new: "delete_LoopQueue (fst (Loop_Queue.Init q n)) = delete_LoopQueue q"
  by (simp add: delete_LoopQueue_def Init_def)

text \<open>The blocks of the buffers that are still alive survive the pool.\<close>

lemma delete_BufferBlockMgr_keeps:
  assumes "store_ok s" "a \<notin> pooled s"
  shows "st_mem (delete_BufferBlockMgr s) a = st_mem s a" "pooled (delete_BufferBlockMgr s) = {}"
  using assms by (simp_all add: delete_BufferBlockMgr_def pooled_def)

section \<open>Threads without objects\<close>

text \<open>The next thing the i-th worker's thread does uses its object: \<open>maxMsglen_\<close> and \<open>recvBuffer_\<close>, or \<open>server_\<close>.\<close>

definition uses_object :: "dispatch \<Rightarrow> nat \<Rightarrow> bool" where
  "uses_object s i \<longleftrightarrow> (\<exists>off. dp_place s i = At_Block (Some off) \<or> dp_place s i = Dealing off)"

lemma move_accepted: "move N s s1 \<Longrightarrow> dp_accepted s1 = dp_accepted s"
  by (auto simp: move_def elim!: deal_moveE notify_moveE)

lemma moves_accepted: "(move N ^^ k) s s1 \<Longrightarrow> dp_accepted s1 = dp_accepted s"
  by (induction k arbitrary: s1) (auto simp: move_accepted)

lemma move_copies: "move N s s1 \<Longrightarrow> dp_copied s1 \<noteq> dp_copied s \<Longrightarrow> \<exists>i < N. uses_object s i"
  by (auto simp: move_def uses_object_def elim!: deal_moveE notify_moveE)

lemma moves_copy:
  assumes "(move N ^^ k) s s1" "dp_copied s1 \<noteq> dp_copied s"
  shows "\<exists>j u i. j < k \<and> (move N ^^ j) s u \<and> (move N ^^ (k - j)) u s1 \<and> i < N \<and> uses_object u i"
  using assms
proof (induction k arbitrary: s1)
  case (Suc k)
  then obtain t where t: "(move N ^^ k) s t" "move N t s1" by auto
  show ?case
  proof (cases "dp_copied t = dp_copied s")
    case True
    then obtain i where "i < N" "uses_object t i" using move_copies [OF t(2)] Suc.prems(2) by auto
    moreover have "(move N ^^ (Suc k - k)) t s1" using t(2) by auto
    ultimately show ?thesis using t(1) lessI by blast
  next
    case False
    then obtain j u i where u: "j < k" "(move N ^^ j) s u" "(move N ^^ (k - j)) u t" "i < N" "uses_object u i"
      using Suc.IH [OF t(1)] by blast
    then have "(move N ^^ (Suc k - j)) u s1" using t(2) by (auto simp: Suc_diff_le)
    then show ?thesis using u less_SucI by blast
  qed
qed simp

lemma moves_end:
  assumes "lock_inv N s" "wait_inv N s" "content_inv s ms" "attended N s ms" "0 < N"
  shows "\<exists>k s1. (move N ^^ k) s s1 \<and> (\<forall>s2. \<not> move N s1 s2)"
proof (rule ccontr)
  assume no: "\<not> ?thesis"
  have "\<exists>s1. (move N ^^ k) s s1" for k
  proof (induction k)
    case (Suc k)
    then show ?case using no by (metis relpowp_Suc_I)
  qed simp
  then obtain s1 where "(move N ^^ Suc (moves_left N s)) s s1" by blast
  then show False using moves_bounded [OF assms] by fastforce
qed

text \<open>C33. The workers' objects go before their threads: while a message waits in the receive queue, let the server be
  destroyed; it deletes every worker once.  The threads go on, and wherever they come to rest, on the way there one
  of them has been about to use its object, which has been deleted, to check and copy a block or to deal with it.\<close>

theorem threads_outlive_workers:
  assumes d: "dispatched N (start_dispatch q ws) s" "lq_rep q []" "0 < N"
    and waiting: "length (dp_copied s) < length (dp_accepted s)"
    and objs: "distinct (sm_workers sv)" "length (sm_workers sv) = N" "set (sm_workers sv) \<subseteq> dom objs"
  shows "\<exists>objs1 sv1. delete_Server objs sv = ret (objs1, sv1) \<and>
    (\<exists>k s1. (move N ^^ k) s s1 \<and> (\<forall>s2. \<not> move N s1 s2)) \<and>
    (\<forall>k s1. (move N ^^ k) s s1 \<longrightarrow> (\<forall>s2. \<not> move N s1 s2) \<longrightarrow>
       (\<exists>j u i. j \<le> k \<and> (move N ^^ j) s u \<and> (move N ^^ (k - j)) u s1 \<and> i < N \<and>
          uses_object u i \<and> objs1 (sm_workers sv ! i) = None))"
proof -
  obtain ms where inv: "lock_inv N s" "wait_inv N s" "content_inv s ms" "attended N s ms"
    using dispatched_inv [OF d] by blast
  obtain objs1 where o: "delete_workers objs (sm_workers sv) = ret objs1" "dom objs1 = dom objs - set (sm_workers sv)"
    using delete_workers_all objs by blast
  have gone: "objs1 (sm_workers sv ! i) = None" if "i < N" for i
  proof -
    have "sm_workers sv ! i \<notin> dom objs1" using o(2) that objs(2) nth_mem by blast
    then show ?thesis by (simp add: domIff)
  qed
  have "\<exists>j u i. j \<le> k \<and> (move N ^^ j) s u \<and> (move N ^^ (k - j)) u s1 \<and> i < N \<and> uses_object u i"
    if m: "(move N ^^ k) s s1" and rest: "\<forall>s2. \<not> move N s1 s2" for k s1
  proof (cases "dp_copied s1 = dp_copied s")
    case False
    then show ?thesis using moves_copy [OF m] less_imp_le by blast
  next
    case True
    obtain ms1 where inv1: "lock_inv N s1" "wait_inv N s1" "content_inv s1 ms1" "attended N s1 ms1"
      using moves_bounded [OF inv d(3) m] by blast
    have "length (dp_copied s1) < length (dp_accepted s1)" using True waiting moves_accepted [OF m] by simp
    then have "ms1 \<noteq> []" using inv1(3) by (auto simp: content_inv_def)
    then obtain i where "i < N" "uses_object s1 i"
      using deal_stuck [OF inv1 d(3)] rest by (auto simp: move_def uses_object_def)
    moreover have "(move N ^^ (k - k)) s1 s1" by simp
    ultimately show ?thesis using m by blast
  qed
  then show ?thesis using o(1) gone moves_end [OF inv d(3)] by (simp add: delete_Server_def Let_def) blast
qed

lemma threads_outlive_workers_witness:
  "\<exists>s objs1 sv1 j u. dispatched 1 (start_dispatch queue60 (\<lambda>_. new_Worker\<lparr>wk_maxMsglen := 64\<rparr>)) s \<and>
     delete_Server [7 \<mapsto> new_Worker] \<lparr>sm_iniCfg = None, sm_workers = [7]\<rparr> = ret (objs1, sv1) \<and>
     (move 1 ^^ j) s u \<and> uses_object u 0 \<and> objs1 7 = None"
proof -
  let ?sv = "\<lparr>sm_iniCfg = None, sm_workers = [7]\<rparr>" and ?objs = "[7 \<mapsto> new_Worker] :: nat \<rightharpoonup> worker"
  obtain s where s: "dispatched 1 (start_dispatch queue60 (\<lambda>_. new_Worker\<lparr>wk_maxMsglen := 64\<rparr>)) s"
    "dp_accepted s = [sample_msg 5 10]" "dp_copied s = []"
    using posted_state by blast
  have "length (dp_copied s) < length (dp_accepted s)" using s by simp
  from threads_outlive_workers [OF s(1) lq_rep_queue60 _ this, of ?sv ?objs] s(1) show ?thesis by fastforce
qed

end
