(* ===== verification/Rpc_Types.thy ===== *)
theory Rpc_Types
  imports Rpc
begin

text \<open>
  Types of the RPC layer (framework/IRpc.h, IRpc.cc).  The model's numbers are unbounded and its handlers values of
  any kind; here it is stated what the code's types say of them, and that every operation of \<open>IRpc\<close> on well-typed
  arguments returns and keeps to it: the type of the object is preserved, and the calls it makes are well-typed.
\<close>

section \<open>Types\<close>

definition int32 :: "int \<Rightarrow> bool" where "int32 x \<longleftrightarrow> - (2 ^ 31) \<le> x \<and> x < 2 ^ 31"
definition int64 :: "int \<Rightarrow> bool" where "int64 x \<longleftrightarrow> - (2 ^ 63) \<le> x \<and> x < 2 ^ 63"
definition uint32 :: "int \<Rightarrow> bool" where "uint32 x \<longleftrightarrow> 0 \<le> x \<and> x < 2 ^ 32"
definition uint64 :: "int \<Rightarrow> bool" where "uint64 x \<longleftrightarrow> 0 \<le> x \<and> x < 2 ^ 64"

lemma typed_results [simp]: "int32 (to_i32 x)" "uint32 (to_u32 x)" "int64 (to_i64 x)" "uint32 0" "int32 0"
  using to_i32_bounds [of x] to_u32_bounds [of x] by (simp_all add: int32_def uint32_def int64_def to_i64_def)

definition head_typed :: "rpc_head \<Rightarrow> bool" where
  "head_typed h \<longleftrightarrow> uint32 (rh_Len h) \<and> uint32 (rh_Ret h) \<and> uint32 (rh_DataLen h)"

text \<open>\<open>H\<close>: the application's functions.  No function and no service is registered under the empty name.\<close>

definition irpc_typed :: "'h set \<Rightarrow> ('h, 's) irpc \<Rightarrow> bool" where
  "irpc_typed H r \<longleftrightarrow>
     head_typed (rpc_rhead r) \<and> ran (rpc_requestMap r) \<subseteq> H \<and> ran (rpc_respondMap r) \<subseteq> H \<and>
     set_option (rpc_baseRequest r) \<subseteq> H \<and>
     rpc_requestMap r [] = None \<and> rpc_respondMap r [] = None \<and> rpc_serviceMap r [] = None"

text \<open>A payload and its announced length agree; a null pointer goes with length 0.\<close>

definition data_typed :: "byte list option \<Rightarrow> int \<Rightarrow> bool" where
  "data_typed data n \<longleftrightarrow> int32 n \<and> (case data of None \<Rightarrow> n = 0 | Some xs \<Rightarrow> xs \<noteq> [] \<and> int (length xs) = n)"

fun call_typed :: "'h set \<Rightarrow> 'h rpc_call \<Rightarrow> bool" where
  "call_typed H (Call_request h fd remote data n) \<longleftrightarrow> h \<in> H \<and> int32 fd \<and> int64 remote \<and> data_typed data n"
| "call_typed H (Call_base h fd name data n) \<longleftrightarrow> h \<in> H \<and> int32 fd \<and> length name \<le> 244 \<and> data_typed data n"
| "call_typed H (Call_respond h fd rc data n) \<longleftrightarrow> h \<in> H \<and> int32 fd \<and> int32 rc \<and> data_typed data n"
| "call_typed H (Server_SendMsg fd remote msg) \<longleftrightarrow> int32 fd \<and> uint64 remote \<and>
     12 \<le> length msg \<and> length msg \<le> 1048576 \<and> be_val (take 4 msg) = int (length msg)"

section \<open>Operations\<close>

text \<open>A service registers functions for requests; \<open>Fill\<close> is the application's writing to the data buffer.\<close>

datatype ('h, 's) rpc_op =
    Add_request "byte list" "'h option"
  | Add_respond "byte list" "'h option"
  | Set_request "'h option"
  | Add_service 's "byte list" "(byte list \<times> 'h option) list"
  | Fill "byte list"
  | Respond int int int "byte list" int
  | Request int "byte list" int
  | Client_msg int int "byte list option" int
  | Server_msg int "byte list option" int

definition register_functions :: "(byte list \<times> 'h option) list \<Rightarrow> ('h, 's) irpc \<Rightarrow> ('h, 's) irpc \<times> int" where
  "register_functions fs r = (fold (\<lambda>(name, f) r. fst (AddRequestFunction r name f)) fs r, 0)"

fun run_op :: "('h, 's) irpc \<Rightarrow> ('h, 's) rpc_op \<Rightarrow> (('h, 's) irpc \<times> 'h rpc_call list) run" where
  "run_op r (Add_request name f) = ret (fst (AddRequestFunction r name f), [])"
| "run_op r (Add_respond name f) = ret (fst (AddRespondFunction r name f), [])"
| "run_op r (Set_request f) = ret (fst (SetRequestFunction r f), [])"
| "run_op r (Add_service s name fs) = ret (fst (AddService r s name (register_functions fs)), [])"
| "run_op r (Fill xs) =
     (case GetDataBuff r (int (length xs)) of
        None \<Rightarrow> ret (r, []) | Some _ \<Rightarrow> rbind (fill_databuff r xs) (\<lambda>r1. ret (r1, [])))"
| "run_op r (Respond fd remote rc name n) =
     rbind (SendRespond r fd remote rc name n) (\<lambda>(r1, calls, _). ret (r1, calls))"
| "run_op r (Request fd name n) = rbind (SendRequest r fd name n) (\<lambda>(r1, calls, _). ret (r1, calls))"
| "run_op r (Client_msg fd remote msg n) =
     rbind (OnRecvCliMsg r fd remote msg n) (\<lambda>(r1, calls, _). ret (r1, calls))"
| "run_op r (Server_msg fd msg n) = rbind (OnRecvSvrMsg r fd msg n) (\<lambda>(r1, calls, _). ret (r1, calls))"

fun run_ops :: "('h, 's) irpc \<Rightarrow> ('h, 's) rpc_op list \<Rightarrow> (('h, 's) irpc \<times> 'h rpc_call list) run" where
  "run_ops r [] = ret (r, [])"
| "run_ops r (p # ps) =
     rbind (run_op r p) (\<lambda>(r1, calls). rbind (run_ops r1 ps) (\<lambda>(r2, calls2). ret (r2, calls @ calls2)))"

text \<open>
  A message is the bytes that may be read, at least a header's fixed part, and its length.  Excluded is the one thing
  that \<open>Decode\<close> does not survive, a name length within 12 of \<open>2 ^ 32\<close> (\<open>hostile_name_length\<close>).
\<close>

definition message_typed :: "byte list option \<Rightarrow> int \<Rightarrow> bool" where
  "message_typed msg n \<longleftrightarrow>
     (case msg of None \<Rightarrow> True
      | Some mem \<Rightarrow> 12 \<le> length mem \<and> 0 \<le> n \<and> n \<le> int (length mem) \<and> n < 2 ^ 31 \<and>
          be_val (take 4 (drop 8 mem)) < 2 ^ 32 - 12)"

fun op_typed :: "'h set \<Rightarrow> ('h, 's) rpc_op \<Rightarrow> bool" where
  "op_typed H (Add_request name f) \<longleftrightarrow> set_option f \<subseteq> H"
| "op_typed H (Add_respond name f) \<longleftrightarrow> set_option f \<subseteq> H"
| "op_typed H (Set_request f) \<longleftrightarrow> set_option f \<subseteq> H"
| "op_typed H (Add_service s name fs) \<longleftrightarrow> (\<forall>(n, f) \<in> set fs. set_option f \<subseteq> H)"
| "op_typed H (Fill xs) \<longleftrightarrow> length xs < 2 ^ 63"
| "op_typed H (Respond fd remote rc name n) \<longleftrightarrow>
     int32 fd \<and> uint64 remote \<and> length name < 2 ^ 31 \<and> 0 \<le> n \<and> n \<le> 1048320"
| "op_typed H (Request fd name n) \<longleftrightarrow> int32 fd \<and> length name < 2 ^ 31 \<and> 0 \<le> n \<and> n \<le> 1048320"
| "op_typed H (Client_msg fd remote msg n) \<longleftrightarrow> int32 fd \<and> uint64 remote \<and> message_typed msg n"
| "op_typed H (Server_msg fd msg n) \<longleftrightarrow> int32 fd \<and> message_typed msg n"

section \<open>Preservation and progress\<close>

lemma head_bytes_frame:
  "length name \<le> 244 \<Longrightarrow> 0 \<le> n \<Longrightarrow> n \<le> 1048320 \<Longrightarrow> int (length xs) = n \<Longrightarrow>
     be_val (take 4 (head_bytes c name n @ xs)) = int (length (head_bytes c name n @ xs))"
  by (simp add: head_bytes_def)

text \<open>\<open>Decode\<close> returns, and what it says of the payload is so.\<close>

lemma Decode_typed:
  assumes m: "message_typed (Some mem) n" and h: "head_typed h"
  shows "\<exists>h1 rc. Decode h mem n = ret (h1, rc) \<and> head_typed h1 \<and>
    (rc = 0 \<longrightarrow> length (rh_Name h1) \<le> 244 \<and> data_typed (payload mem h1) (to_i32 (rh_DataLen h1)))"
proof -
  let ?n0 = "be_val (take 4 (drop 8 mem))" and ?len = "be_val (take 4 mem)" and ?r = "be_val (take 4 (drop 4 mem))"
  let ?hl = "12 + ?n0"
  have l: "12 \<le> length mem" "0 \<le> n" "n \<le> int (length mem)" "n < 2 ^ 31" "?n0 < 2 ^ 32 - 12"
    using m by (simp_all add: message_typed_def)
  have R: "read_u32 mem 0 = ret ?len" "read_u32 mem 4 = ret ?r" "read_u32 mem 8 = ret ?n0"
    using l(1) by (simp_all add: read_u32_def)
  have b: "uint32 ?len" "uint32 ?r" "0 \<le> ?n0"
    using be_val_bounds [of "take 4 mem"] be_val_bounds [of "take 4 (drop 4 mem)"] be_val_bounds [of "take 4 (drop 8 mem)"] l(1)
    by (simp_all add: uint32_def)
  have u: "to_u32 ?hl = ?hl" "to_u32 n = n" "MaxHeadLen = 256"
    using l b(3) by (auto simp: MaxHeadLen_def MAX_HEAD_LEN_def intro!: to_u32_id)
  define nl where "nl = (if ?hl > 256 then to_u32 (?n0 - (?hl - 256)) else ?n0)"
  have nl: "nl \<le> 244" "0 \<le> nl" "12 + nl \<le> ?hl" using b(3) by (auto simp: nl_def to_u32_id)
  let ?h1 = "h\<lparr>rh_Len := ?len, rh_Ret := ?r\<rparr>"
  have D: "Decode h mem n = (if ?len \<noteq> n \<or> ?len < ?hl then ret (?h1, -1)
      else if 12 + nl > int (length mem) then fail Out_of_bounds
      else ret (?h1\<lparr>rh_Name := take (nat nl) (drop 12 mem), rh_Data := (if ?len = ?hl then None else Some ?hl),
             rh_DataLen := to_u32 (n - ?hl)\<rparr>, 0))"
    by (simp add: Decode_def R u nl_def Let_def)
  show ?thesis
  proof (cases "?len \<noteq> n \<or> ?len < ?hl")
    case True
    then show ?thesis using D h b by (simp add: head_typed_def)
  next
    case False
    then have e: "?len = n" "?hl \<le> n" "12 + nl \<le> int (length mem)" using nl(3) l(3) by linarith+
    let ?h2 = "?h1\<lparr>rh_Name := take (nat nl) (drop 12 mem), rh_Data := (if ?len = ?hl then None else Some ?hl),
      rh_DataLen := to_u32 (n - ?hl)\<rparr>"
    have d: "to_u32 (n - ?hl) = n - ?hl" "to_i32 (n - ?hl) = n - ?hl" using e(2) l(4) b(3) by (auto intro!: to_u32_id to_i32_id)
    have "int (length (take (nat (n - ?hl)) (drop (nat ?hl) mem))) = n - ?hl" using e(2) l(3) b(3) by simp
    then have p: "data_typed (payload mem ?h2) (to_i32 (rh_DataLen ?h2))"
      using e d l(4) b(3) by (auto simp: payload_def data_typed_def int32_def)
    have "Decode h mem n = ret (?h2, 0)" using D e by simp
    moreover have "head_typed ?h2" using b by (simp add: head_typed_def)
    moreover have "length (rh_Name ?h2) \<le> 244" using nl(1,2) by simp
    ultimately show ?thesis using p by blast
  qed
qed

lemma send_encoded_typed:
  assumes r: "irpc_typed H r" "length (rh_Name (rpc_rhead r)) < 2 ^ 31" and a: "int32 fd" "uint64 remote" "0 \<le> n" "n \<le> 1048320"
  shows "\<exists>r1 calls v. send_encoded r fd remote n = ret (r1, calls, v) \<and> irpc_typed H r1 \<and> (\<forall>c \<in> set calls. call_typed H c)"
proof (cases "length (rh_Name (rpc_rhead r)) \<le> 244")
  case True
  let ?l = "length (rh_Name (rpc_rhead r))"
  have E: "Encode (rpc_rhead r) (rpc_databuff r) n = ret ((rpc_rhead r)\<lparr>rh_DataLen := n, rh_Len := 12 + int ?l + n\<rparr>,
      mwrite (rpc_databuff r) (244 - int ?l) (head_bytes (rh_Ret (rpc_rhead r)) (rh_Name (rpc_rhead r)) n), 244 - int ?l)"
    using True a by (intro Encode_ok) auto
  obtain r1 where s: "send_encoded r fd remote n = ret (r1, ([Server_SendMsg fd remote
      (head_bytes (rh_Ret (rpc_rhead r)) (rh_Name (rpc_rhead r)) n @ mread (rpc_databuff r) 256 n)], Last_call))"
    using send_encoded_ok [OF True a(3,4)] by blast
  then have "r1 = r\<lparr>rpc_rhead := (rpc_rhead r)\<lparr>rh_DataLen := n, rh_Len := 12 + int ?l + n\<rparr>,
      rpc_databuff := mwrite (rpc_databuff r) (244 - int ?l) (head_bytes (rh_Ret (rpc_rhead r)) (rh_Name (rpc_rhead r)) n)\<rparr>"
    unfolding send_encoded_def E by (auto simp: rbind_eq_ret Let_def split: if_splits)
  then have "irpc_typed H r1" using r(1) True a(3,4) by (simp add: irpc_typed_def head_typed_def uint32_def)
  moreover have len: "int (length (mread (rpc_databuff r) 256 n)) = n" using a(3) by simp
  moreover have "length (mread (rpc_databuff r) 256 n) \<le> 1048320" using len a(4) by linarith
  ultimately show ?thesis using s True a head_bytes_frame [OF True a(3,4) len, of "rh_Ret (rpc_rhead r)"] by simp
next
  case False
  then have "HeadLen (rpc_rhead r) = 12 + int (length (rh_Name (rpc_rhead r)))" using r(2) by (simp add: HeadLen_def to_u32_id)
  then have "Encode (rpc_rhead r) (rpc_databuff r) n = ret ((rpc_rhead r)\<lparr>rh_DataLen := to_u32 n,
      rh_Len := to_u32 (HeadLen (rpc_rhead r) + to_u32 n)\<rparr>, rpc_databuff r, -1)"
    using False by (simp add: Encode_def MaxHeadLen_def MAX_HEAD_LEN_def to_u32_id Let_def)
  then show ?thesis using r(1) by (auto simp: send_encoded_def Let_def irpc_typed_def head_typed_def)
qed

lemma irpc_typed_head: "irpc_typed H r \<Longrightarrow> head_typed h \<Longrightarrow> irpc_typed H (r\<lparr>rpc_rhead := h\<rparr>)"
  by (simp add: irpc_typed_def)

lemma SendRespond_typed:
  assumes "irpc_typed H r" "int32 fd" "uint64 remote" "length name < 2 ^ 31" "0 \<le> n" "n \<le> 1048320"
  shows "\<exists>r1 calls v. SendRespond r fd remote rc name n = ret (r1, calls, v) \<and> irpc_typed H r1 \<and> (\<forall>c \<in> set calls. call_typed H c)"
  unfolding SendRespond_def using assms by (intro send_encoded_typed irpc_typed_head) (auto simp: irpc_typed_def head_typed_def)

lemma AddRequestFunction_typed:
  "irpc_typed H r \<Longrightarrow> set_option f \<subseteq> H \<Longrightarrow> irpc_typed H (fst (AddRequestFunction r name f))"
  by (auto simp: AddRequestFunction_def irpc_typed_def ran_def split: option.splits if_splits)

lemma register_functions_typed:
  "irpc_typed H r \<Longrightarrow> \<forall>(n, f) \<in> set fs. set_option f \<subseteq> H \<Longrightarrow> irpc_typed H (fst (register_functions fs r))"
proof (induction fs arbitrary: r)
  case (Cons p fs)
  obtain n f where p: "p = (n, f)" by fastforce
  have "irpc_typed H (fst (AddRequestFunction r n f))" using Cons.prems p by (intro AddRequestFunction_typed) auto
  from Cons.IH [OF this] show ?case using Cons.prems(2) p by (simp add: register_functions_def)
qed (simp add: register_functions_def)

lemma OnRecvCliMsg_typed:
  assumes r: "irpc_typed H r" and a: "int32 fd" "uint64 remote" "message_typed msg n"
  shows "\<exists>r1 calls v. OnRecvCliMsg r fd remote msg n = ret (r1, calls, v) \<and> irpc_typed H r1 \<and> (\<forall>c \<in> set calls. call_typed H c)"
proof (cases msg)
  case (Some mem)
  have "head_typed (rpc_rhead r)" using r by (simp add: irpc_typed_def)
  then obtain h1 rc where D: "Decode (rpc_rhead r) mem n = ret (h1, rc)" "head_typed h1"
    "rc = 0 \<longrightarrow> length (rh_Name h1) \<le> 244 \<and> data_typed (payload mem h1) (to_i32 (rh_DataLen h1))"
    using Decode_typed a(3) unfolding Some by blast
  let ?r1 = "r\<lparr>rpc_rhead := h1\<rparr>"
  have t: "irpc_typed H ?r1" using r D(2) by (rule irpc_typed_head)
  show ?thesis
  proof (cases "rc = 0")
    case False
    then show ?thesis using D(1) t unfolding Some by (simp add: OnRecvCliMsg_def)
  next
    case True
    then have d: "length (rh_Name h1) \<le> 244" "data_typed (payload mem h1) (to_i32 (rh_DataLen h1))" using D(3) by simp_all
    consider (known) f where "rpc_requestMap r (rh_Name h1) = Some f"
      | (base) b where "rpc_requestMap r (rh_Name h1) = None" "rpc_baseRequest r = Some b"
      | (unknown) "rpc_requestMap r (rh_Name h1) = None" "rpc_baseRequest r = None"
      by fastforce
    then show ?thesis
    proof cases
      case (known f)
      then have "f \<in> H" using r by (auto simp: irpc_typed_def ran_def)
      then show ?thesis using D(1) True known t d a(1) unfolding Some by (simp add: OnRecvCliMsg_def)
    next
      case (base b)
      then have "b \<in> H" using r by (auto simp: irpc_typed_def)
      then show ?thesis using D(1) True base t d a(1) unfolding Some by (simp add: OnRecvCliMsg_def)
    next
      case unknown
      have "length (rh_Name h1) < 2 ^ 31" using d(1) by simp
      then obtain r2 calls v where "SendRespond ?r1 fd remote 101 (rh_Name h1) 0 = ret (r2, calls, v)" "irpc_typed H r2"
        "\<forall>c \<in> set calls. call_typed H c"
        using SendRespond_typed [OF t a(1,2), of "rh_Name h1" 0 101] by auto
      then show ?thesis using D(1) True unknown unfolding Some by (simp add: OnRecvCliMsg_def)
    qed
  qed
qed (use r in \<open>simp add: OnRecvCliMsg_def\<close>)

lemma OnRecvSvrMsg_typed:
  assumes r: "irpc_typed H r" and a: "int32 fd" "message_typed msg n"
  shows "\<exists>r1 calls v. OnRecvSvrMsg r fd msg n = ret (r1, calls, v) \<and> irpc_typed H r1 \<and> (\<forall>c \<in> set calls. call_typed H c)"
proof (cases msg)
  case (Some mem)
  have "head_typed (rpc_rhead r)" using r by (simp add: irpc_typed_def)
  then obtain h1 rc where D: "Decode (rpc_rhead r) mem n = ret (h1, rc)" "head_typed h1"
    "rc = 0 \<longrightarrow> length (rh_Name h1) \<le> 244 \<and> data_typed (payload mem h1) (to_i32 (rh_DataLen h1))"
    using Decode_typed a(2) unfolding Some by blast
  have t: "irpc_typed H (r\<lparr>rpc_rhead := h1\<rparr>)" using r D(2) by (rule irpc_typed_head)
  have "f \<in> H" if "rpc_respondMap r name = Some f" for name f using r that by (auto simp: irpc_typed_def ran_def)
  then show ?thesis using D(1,3) t a(1) unfolding Some
    by (cases "rc = 0"; cases "rpc_respondMap r (rh_Name h1)") (simp_all add: OnRecvSvrMsg_def)
qed (use r in \<open>simp add: OnRecvSvrMsg_def\<close>)

lemma run_op_typed:
  assumes r: "irpc_typed H r" and p: "op_typed H p"
  shows "\<exists>r1 calls. run_op r p = ret (r1, calls) \<and> irpc_typed H r1 \<and> (\<forall>c \<in> set calls. call_typed H c)"
proof (cases p)
  case (Add_request name f)
  then show ?thesis using AddRequestFunction_typed [OF r] p by simp
next
  case (Add_respond name f)
  then show ?thesis using r p by (auto simp: AddRespondFunction_def irpc_typed_def ran_def split: option.splits if_splits)
next
  case (Set_request f)
  then show ?thesis using r p by (simp add: SetRequestFunction_def irpc_typed_def)
next
  case (Add_service s name fs)
  then have "irpc_typed H (fst (register_functions fs r))" using register_functions_typed [OF r] p by simp
  then show ?thesis using r unfolding Add_service by (auto simp: AddService_def Let_def irpc_typed_def split: option.splits)
next
  case (Fill xs)
  then show ?thesis using r fill_databuff_ok [of xs r] by (auto simp: GetDataBuff_room irpc_typed_def)
next
  case (Respond fd remote rc name n)
  then show ?thesis using SendRespond_typed [OF r, of fd remote name n rc] p by auto
next
  case (Request fd name n)
  have "uint64 0" by (simp add: uint64_def)
  then show ?thesis using send_encoded_typed [of H "r\<lparr>rpc_rhead := (rpc_rhead r)\<lparr>rh_Ret := 0, rh_Name := name\<rparr>\<rparr>" fd 0 n]
      r p unfolding Request by (auto simp: SendRequest_def irpc_typed_def head_typed_def)
next
  case (Client_msg fd remote msg n)
  then show ?thesis using OnRecvCliMsg_typed [OF r, of fd remote msg n] p by auto
next
  case (Server_msg fd msg n)
  then show ?thesis using OnRecvSvrMsg_typed [OF r, of fd msg n] p by auto
qed

lemma run_ops_typed:
  "irpc_typed H r \<Longrightarrow> \<forall>p \<in> set ps. op_typed H p \<Longrightarrow>
     \<exists>r1 calls. run_ops r ps = ret (r1, calls) \<and> irpc_typed H r1 \<and> (\<forall>c \<in> set calls. call_typed H c)"
proof (induction ps arbitrary: r)
  case (Cons p ps)
  obtain r1 calls where p: "run_op r p = ret (r1, calls)" "irpc_typed H r1" "\<forall>c \<in> set calls. call_typed H c"
    using run_op_typed [OF Cons.prems(1), of p] Cons.prems(2) by (meson list.set_intros(1))
  obtain r2 calls2 where "run_ops r1 ps = ret (r2, calls2)" "irpc_typed H r2" "\<forall>c \<in> set calls2. call_typed H c"
    using Cons.IH [OF p(2)] Cons.prems(2) by auto
  then show ?case using p by auto
qed simp



end
