(* ===== verification/Py_Client.thy ===== *)
theory Py_Client
  imports Rpc
begin

text \<open>
  The Python client (sample/client_py/client.py, Python 2): \<open>Socket\<close> for streams and \<open>UdpSocket\<close> for datagrams.
  The calls of the module \<open>socket\<close> are a parameter: each yields the new state of the system and a result, \<open>None\<close> for
  the exception \<open>socket.error\<close>, which the client catches.  The exceptions that leave its methods are the values of \<open>py_error\<close>.  What is printed is left out.
\<close>

section \<open>Sockets\<close>

record 'os py_net =
  py_sendall :: "'os \<Rightarrow> byte list \<Rightarrow> 'os \<times> unit option"
  py_sendto :: "'os \<Rightarrow> byte list \<Rightarrow> 'os \<times> int option"
  py_recv :: "'os \<Rightarrow> int \<Rightarrow> 'os \<times> byte list option"
  py_recvfrom :: "'os \<Rightarrow> int \<Rightarrow> 'os \<times> byte list option"
  py_close :: "'os \<Rightarrow> 'os"
  py_create :: "'os \<Rightarrow> 'os \<times> unit option"
  py_connect :: "'os \<Rightarrow> 'os \<times> unit option"
  py_fileno :: "'os \<Rightarrow> int"

datatype py_error = Struct_error | Unbound_local | Socket_error

text \<open>\<open>self.s\<close> is a socket or \<open>None\<close>.\<close>

record py_socket =
  py_s :: bool

definition Socket_close :: "'os py_net \<Rightarrow> 'os \<Rightarrow> py_socket \<Rightarrow> 'os \<times> py_socket" where
  "Socket_close P os self = (if py_s self then (py_close P os, self\<lparr>py_s := False\<rparr>) else (os, self))"

text \<open>The constructors: when no socket can be created, the new object has no attribute \<open>s\<close>, which all its methods use.\<close>

definition new_Socket :: "'os py_net \<Rightarrow> 'os \<Rightarrow> 'os \<times> py_socket option" where
  "new_Socket P os = (case py_create P os of (os1, None) \<Rightarrow> (os1, None) | (os1, Some _) \<Rightarrow> (os1, Some \<lparr>py_s = True\<rparr>))"

definition Socket_getfd :: "'os py_net \<Rightarrow> 'os \<Rightarrow> py_socket \<Rightarrow> int" where
  "Socket_getfd P os self = (if \<not> py_s self then -1 else py_fileno P os)"

definition connect_open :: "'os py_net \<Rightarrow> 'os \<Rightarrow> py_socket \<Rightarrow> 'os \<times> py_socket" where
  "connect_open P os self =
     (case py_connect P os of (os1, None) \<Rightarrow> Socket_close P os1 self | (os1, Some _) \<Rightarrow> (os1, self))"

definition Socket_connect :: "'os py_net \<Rightarrow> 'os \<Rightarrow> py_socket \<Rightarrow> py_error + ('os \<times> py_socket)" where
  "Socket_connect P os self =
     (if \<not> py_s self
      then case py_create P os of
          (os1, None) \<Rightarrow> Inl Socket_error
        | (os1, Some _) \<Rightarrow> Inr (connect_open P os1 (self\<lparr>py_s := True\<rparr>))
      else Inr (connect_open P os self))"

section \<open>Sending\<close>

text \<open>\<open>struct.pack(">III...s...s", ...)\<close> raises when a number does not fit.\<close>

definition py_pack :: "int \<Rightarrow> byte list \<Rightarrow> byte list \<Rightarrow> py_error + byte list" where
  "py_pack rc name data =
     (let bufflen = 12 + int (length name) + int (length data)
      in if bufflen < 2 ^ 32 \<and> 0 \<le> rc \<and> rc < 2 ^ 32
         then Inr (be_bytes 4 bufflen @ be_bytes 4 rc @ be_bytes 4 (int (length name)) @ name @ data)
         else Inl Struct_error)"

definition Socket_send ::
  "'os py_net \<Rightarrow> 'os \<Rightarrow> py_socket \<Rightarrow> int \<Rightarrow> byte list \<Rightarrow> byte list \<Rightarrow> py_error + ('os \<times> py_socket \<times> bool)" where
  "Socket_send P os self rc name data =
     (if \<not> py_s self then Inr (os, self, False)
      else case py_pack rc name data of
        Inl e \<Rightarrow> Inl e
      | Inr buff \<Rightarrow>
          (case py_sendall P os buff of
             (os1, None) \<Rightarrow> (case Socket_close P os1 self of (os2, self1) \<Rightarrow> Inr (os2, self1, False))
           | (os1, Some _) \<Rightarrow> Inr (os1, self, True)))"

definition UdpSocket_send ::
  "'os py_net \<Rightarrow> 'os \<Rightarrow> py_socket \<Rightarrow> int \<Rightarrow> byte list \<Rightarrow> byte list \<Rightarrow> py_error + ('os \<times> py_socket \<times> bool)" where
  "UdpSocket_send P os self rc name data =
     (if \<not> py_s self then Inr (os, self, False)
      else case py_pack rc name data of
        Inl e \<Rightarrow> Inl e
      | Inr buff \<Rightarrow>
          (case py_sendto P os buff of
             (os1, None) \<Rightarrow> (case Socket_close P os1 self of (os2, self1) \<Rightarrow> Inr (os2, self1, False))
           | (os1, Some slen) \<Rightarrow> Inr (os1, self, True)))"

section \<open>Receiving\<close>

text \<open>What the two methods \<open>recv\<close> return: the empty string without a socket, else four values.\<close>

datatype py_result = Py_empty | Py_four int "byte list" int "byte list"

text \<open>\<open>struct.unpack(">III", ...)\<close> takes exactly twelve bytes.\<close>

definition py_unpack :: "byte list \<Rightarrow> py_error + (int \<times> int \<times> int)" where
  "py_unpack hstr =
     (if length hstr = 12
      then Inr (be_val (take 4 hstr), be_val (take 4 (drop 4 hstr)), be_val (take 4 (drop 8 hstr)))
      else Inl Struct_error)"

text \<open>The end of \<open>recv\<close>, with its local variables as far as they are bound.\<close>

definition recv_result ::
  "'os py_net \<Rightarrow> 'os \<Rightarrow> py_socket \<Rightarrow> int option \<Rightarrow> byte list option \<Rightarrow> int \<Rightarrow> byte list \<Rightarrow>
     py_error + ('os \<times> py_socket \<times> py_result)" where
  "recv_result P os self rc namestr datalen data =
     (case (if data = [] then Socket_close P os self else (os, self)) of (os1, self1) \<Rightarrow>
        (case (rc, namestr) of
           (Some c, Some name) \<Rightarrow> Inr (os1, self1, Py_four c name datalen data)
         | _ \<Rightarrow> Inl Unbound_local))"

text \<open>The payload of \<open>Socket.recv\<close>: \<open>datalen\<close> becomes its length, when there is one.\<close>

definition Socket_recv_data ::
  "'os py_net \<Rightarrow> 'os \<Rightarrow> py_socket \<Rightarrow> int \<Rightarrow> int \<Rightarrow> int \<Rightarrow> byte list option \<Rightarrow> py_error + ('os \<times> py_socket \<times> py_result)" where
  "Socket_recv_data P os self datalen rc namelen namestr =
     (if datalen > 12 + namelen then
        (case py_recv P os (datalen - 12 - namelen) of
           (os1, None) \<Rightarrow> recv_result P os1 self (Some rc) namestr (datalen - 12 - namelen) []
         | (os1, Some data) \<Rightarrow> recv_result P os1 self (Some rc) namestr (datalen - 12 - namelen) data)
      else recv_result P os self (Some rc) namestr datalen [])"

definition Socket_recv :: "'os py_net \<Rightarrow> 'os \<Rightarrow> py_socket \<Rightarrow> py_error + ('os \<times> py_socket \<times> py_result)" where
  "Socket_recv P os self =
     (if \<not> py_s self then Inr (os, self, Py_empty)
      else case py_recv P os 12 of
        (os1, None) \<Rightarrow> recv_result P os1 self None None 0 []
      | (os1, Some hstr) \<Rightarrow>
          (case py_unpack hstr of
             Inl e \<Rightarrow> Inl e
           | Inr (datalen, rc, namelen) \<Rightarrow>
               if namelen > 0 then
                 (case py_recv P os1 namelen of
                    (os2, None) \<Rightarrow> recv_result P os2 self (Some rc) None datalen []
                  | (os2, Some namestr) \<Rightarrow> Socket_recv_data P os2 self datalen rc namelen (Some namestr))
               else Socket_recv_data P os1 self datalen rc namelen None))"

text \<open>\<open>UdpSocket.recv\<close> cuts one datagram up; \<open>datalen\<close> stays the length of the whole message.\<close>

definition UdpSocket_recv :: "'os py_net \<Rightarrow> 'os \<Rightarrow> py_socket \<Rightarrow> int \<Rightarrow> py_error + ('os \<times> py_socket \<times> py_result)" where
  "UdpSocket_recv P os self recv_len =
     (if \<not> py_s self then Inr (os, self, Py_empty)
      else case py_recvfrom P os recv_len of
        (os1, None) \<Rightarrow> recv_result P os1 self None None 0 []
      | (os1, Some hstr) \<Rightarrow>
          (case py_unpack (take 12 hstr) of
             Inl e \<Rightarrow> Inl e
           | Inr (datalen, rc, namelen) \<Rightarrow>
               recv_result P os1 self (Some rc)
                 (if namelen > 0 then Some (take (nat namelen) (drop 12 hstr)) else None) datalen
                 (if datalen > 12 + namelen
                  then drop (nat (12 + namelen)) (take (nat datalen) hstr) else [])))"

section \<open>The client and the server\<close>

lemma py_pack_head: "0 \<le> rc \<Longrightarrow> rc < 2 ^ 32 \<Longrightarrow> 12 + int (length name) + int (length data) < 2 ^ 32 \<Longrightarrow>
    py_pack rc name data = Inr (head_bytes rc name (int (length data)) @ data)"
  by (simp add: py_pack_def head_bytes_def)

lemma py_unpack_head: "length name \<le> 244 \<Longrightarrow> 0 \<le> n \<Longrightarrow> n \<le> 1048320 \<Longrightarrow>
    py_unpack (take 12 (head_bytes rc name n @ xs)) = Inr (12 + int (length name) + n, rc mod 2 ^ 32, int (length name))"
  by (simp add: py_unpack_def head_bytes_def)

text \<open>A system that has received the bytes of a stream gives as many as it is asked for.\<close>

definition has_arrived :: "'os py_net \<Rightarrow> (byte list \<Rightarrow> 'os) \<Rightarrow> bool" where
  "has_arrived P W \<longleftrightarrow> (\<forall>w n. 0 \<le> n \<longrightarrow> py_recv P (W w) n = (W (drop (nat n) w), Some (take (nat n) w)))"

lemma Socket_recv_reply:
  assumes "has_arrived P W" "py_s self" "0 < length name" "length name \<le> 244" "data \<noteq> []" "length data \<le> 1048320"
  shows "Socket_recv P (W (head_bytes rc name (int (length data)) @ data @ rest)) self
    = Inr (W rest, self, Py_four (rc mod 2 ^ 32) name (int (length data)) data)"
proof -
  let ?h = "head_bytes rc name (int (length data))"
  have r: "py_recv P (W w) n = (W (drop (nat n) w), Some (take (nat n) w))" if "0 \<le> n" for w n
    using assms(1) that by (simp add: has_arrived_def)
  have d: "drop 12 (?h @ data @ rest) = name @ data @ rest" by (simp add: head_bytes_def)
  have u: "py_unpack (take 12 (?h @ data @ rest)) = Inr (12 + int (length name) + int (length data), rc mod 2 ^ 32, int (length name))"
    using assms by (intro py_unpack_head) auto
  show ?thesis using assms by (simp add: Socket_recv_def r d u Socket_recv_data_def recv_result_def del: take_append drop_append) simp
qed

lemma UdpSocket_recv_reply:
  assumes "py_s self" "0 < length name" "length name \<le> 244" "data \<noteq> []" "length data \<le> 1048320"
    "py_recvfrom P os n = (os1, Some (head_bytes rc name (int (length data)) @ data))"
  shows "UdpSocket_recv P os self n
    = Inr (os1, self, Py_four (rc mod 2 ^ 32) name (12 + int (length name) + int (length data)) data)"
proof -
  let ?m = "head_bytes rc name (int (length data)) @ data"
  have d: "take (length name) (drop 12 ?m) = name" by (simp add: head_bytes_def)
  have u: "py_unpack (take 12 ?m) = Inr (12 + int (length name) + int (length data), rc mod 2 ^ 32, int (length name))"
    using assms by (intro py_unpack_head) auto
  have n: "nat (12 + int (length name) + int (length data)) = length ?m" "nat (12 + int (length name)) = 12 + length name" by simp_all
  show ?thesis unfolding UdpSocket_recv_def assms(6) using assms(1-5) d u
    by (simp add: recv_result_def n del: take_append drop_append) (simp add: head_bytes_def)
qed

text \<open>A socket closed by a failed connection can be connected again.\<close>

lemma Socket_connect_again:
  assumes "py_connect P os = (os1, None)" "py_s self"
    and "py_create P (py_close P os1) = (os2, Some ())" "py_connect P os2 = (os3, Some ())"
  shows "Socket_connect P os self = Inr (py_close P os1, self\<lparr>py_s := False\<rparr>)"
    "Socket_connect P (py_close P os1) (self\<lparr>py_s := False\<rparr>) = Inr (os3, self)"
  using assms by (simp_all add: Socket_connect_def connect_open_def Socket_close_def)

text \<open>An answer without a payload makes the client close its socket, and a call on a closed socket does not return four
  values.\<close>

lemma Socket_recv_no_payload:
  assumes "has_arrived P W" "py_s self" "0 < length name" "length name \<le> 244"
  shows "Socket_recv P (W (head_bytes rc name 0 @ rest)) self
      = Inr (py_close P (W rest), self\<lparr>py_s := False\<rparr>, Py_four (rc mod 2 ^ 32) name (12 + int (length name)) [])"
    "Socket_recv P os (self\<lparr>py_s := False\<rparr>) = Inr (os, self\<lparr>py_s := False\<rparr>, Py_empty)"
proof -
  let ?h = "head_bytes rc name 0"
  have r: "py_recv P (W w) n = (W (drop (nat n) w), Some (take (nat n) w))" if "0 \<le> n" for w n
    using assms(1) that by (simp add: has_arrived_def)
  have d: "drop 12 (?h @ rest) = name @ rest" by (simp add: head_bytes_def)
  have u: "py_unpack (take 12 (?h @ rest)) = Inr (12 + int (length name), rc mod 2 ^ 32, int (length name))"
    using py_unpack_head [of name 0 rc rest] assms(4) by simp
  show "Socket_recv P (W (head_bytes rc name 0 @ rest)) self
      = Inr (py_close P (W rest), self\<lparr>py_s := False\<rparr>, Py_four (rc mod 2 ^ 32) name (12 + int (length name)) [])"
    using assms by (simp add: Socket_recv_def r d u Socket_recv_data_def recv_result_def Socket_close_def del: take_append drop_append) simp
qed (simp add: Socket_recv_def)

text \<open>An answer whose header comes in two pieces, and one without a name, raise an exception.\<close>

lemma Socket_recv_raises:
  "py_s self \<Longrightarrow> py_recv P os 12 = (os1, Some xs) \<Longrightarrow> length xs < 12 \<Longrightarrow> Socket_recv P os self = Inl Struct_error"
  "has_arrived P W \<Longrightarrow> py_s self \<Longrightarrow> Socket_recv P (W (head_bytes rc [] 0)) self = Inl Unbound_local"
  by (auto simp: Socket_recv_def py_unpack_def has_arrived_def head_bytes_def Socket_recv_data_def recv_result_def split: prod.splits)


definition queued_net :: "byte list py_net" where
  "queued_net = \<lparr>py_sendall = (\<lambda>w xs. (w, Some ())), py_sendto = (\<lambda>w xs. (w, Some (int (length xs)))),
     py_recv = (\<lambda>w n. (drop (nat n) w, Some (take (nat n) w))),
     py_recvfrom = (\<lambda>w n. (drop (nat n) w, Some (take (nat n) w))), py_close = (\<lambda>w. []),
     py_create = (\<lambda>w. (w, Some ())), py_connect = (\<lambda>w. (w, Some ())), py_fileno = (\<lambda>w. 3)\<rparr>"


end
